(* ===== verification/Kanea_Prelude.thy ===== *)
theory Kanea_Prelude
  imports
    Main
    "HOL-Library.AList"
    "HOL-Library.Char_ord"
    "HOL-Library.List_Lexorder"
    "HOL-Library.Product_Lexorder"
    "HOL-Library.Sublist"
    "HOL-Library.Multiset"
begin

text \<open>
  The part of Go and of its standard library that the kanea sources lean on, and the generic
  lemmas the component theories share.

  \<^item> Strings and byte slices are \<open>string\<close>, a list of bytes; Go compares strings bytewise, which
    is the lexicographic order of \<open>HOL-Library.List_Lexorder\<close> over \<open>HOL-Library.Char_ord\<close>.
  \<^item> A Go map that the code ranges over is a \<open>gomap\<close>: an association list with distinct keys whose
    order is one of the iteration orders Go may choose. What must not depend on that order is
    proved to be the same for every permutation of the list.
  \<^item> A Go map that is only looked up is a HOL map.
  \<^item> Go's \<open>int\<close> is 64 bits wide; the counters of the modelled code (replicas, attempts, steps) stay
    far below that, so they are \<open>int\<close>. Unsigned fields whose width matters are kept as \<open>nat\<close> with
    their bound stated where it is used.
  \<^item> \<open>sort.SliceStable\<close> is \<open>sort_key\<close>, which is stable.
\<close>

section \<open>Collections of facts\<close>

named_theorems ident_simps \<open>shape of the identifiers kanea composes from names and indices\<close>
named_theorems plan_simps \<open>unfolding equations of the planner's decisions\<close>

section \<open>Go maps with an iteration order\<close>

type_synonym 'v gomap = "(string \<times> 'v) list"

definition gm_wf :: "'v gomap \<Rightarrow> bool" where
  "gm_wf m \<longleftrightarrow> distinct (map fst m)"

definition gm_keys :: "'v gomap \<Rightarrow> string set" where
  "gm_keys m = fst ` set m"

text \<open>Two iteration orders of the same map.\<close>

definition gm_same :: "'v gomap \<Rightarrow> 'v gomap \<Rightarrow> bool" where
  "gm_same m m' \<longleftrightarrow> gm_wf m \<and> mset m = mset m'"

lemma gm_keys_map_of: "k \<in> gm_keys m \<longleftrightarrow> map_of m k \<noteq> None"
  by (metis gm_keys_def map_of_eq_None_iff)

lemma gm_wf_Nil [simp]: "gm_wf []"
  by (simp add: gm_wf_def)

lemma gm_wf_Cons: "gm_wf (x # m) \<longleftrightarrow> fst x \<notin> fst ` set m \<and> gm_wf m"
  by (simp add: gm_wf_def)

lemma gm_same_wf: "gm_same m m' \<Longrightarrow> gm_wf m'"
proof -
  assume "gm_same m m'"
  then have "distinct (map fst m)" and "mset (map fst m) = mset (map fst m')"
    by (simp_all add: gm_same_def gm_wf_def)
  then show "gm_wf m'"
    unfolding gm_wf_def using mset_eq_imp_distinct_iff by blast
qed

lemma gm_same_refl: "gm_wf m \<Longrightarrow> gm_same m m"
  by (simp add: gm_same_def)

lemma gm_same_set: "gm_same m m' \<Longrightarrow> set m = set m'"
  unfolding gm_same_def by (blast dest: mset_eq_setD)

lemma gm_same_map_of: "gm_same m m' \<Longrightarrow> map_of m = map_of m'"
  using gm_same_wf [of m m'] gm_same_set [of m m']
  by (metis gm_same_def gm_wf_def map_of_inject_set)

lemma gm_same_filter: "gm_same m m' \<Longrightarrow> mset (filter P m) = mset (filter P m')"
  by (simp add: gm_same_def)

lemma gm_wf_map_of_iff: "gm_wf m \<Longrightarrow> map_of m k = Some v \<longleftrightarrow> (k, v) \<in> set m"
  by (simp add: gm_wf_def)

lemma gm_wf_update [simp]: "gm_wf m \<Longrightarrow> gm_wf (AList.update k v m)"
  by (simp add: gm_wf_def distinct_update)

lemma gm_wf_delete [simp]: "gm_wf m \<Longrightarrow> gm_wf (AList.delete k m)"
  by (simp add: gm_wf_def distinct_delete)

lemmas gomap_simps = update_conv' delete_conv'

section \<open>Stable sorting by a key\<close>

text \<open>
  Sorting two permutations of a list by a key that is injective on its elements gives the same
  list: this is what makes a sort erase the iteration order of the maps behind it.
\<close>

lemma sort_key_mset_eq:
  assumes "mset xs = mset ys" and "inj_on f (set xs)"
  shows "sort_key f xs = sort_key f ys"
  by (rule sort_key_inj_key_eq) (simp_all add: assms)

lemma sort_key_Nil_iff [simp]: "sort_key f xs = [] \<longleftrightarrow> xs = []"
  by (metis length_0_conv length_sort)

lemma count_filter_sort_key:
  "length (filter P (sort_key f xs)) = length (filter P xs)"
  by (metis mset_filter mset_sort size_mset)

section \<open>Lists\<close>

text \<open>Go's \<open>for i := range n\<close> over an integer: no iteration when \<open>n \<le> 0\<close>.\<close>

definition range_int :: "int \<Rightarrow> int list" where
  "range_int n = [0..n - 1]"

lemma set_range_int [simp]: "set (range_int n) = {0..<n}"
  by (auto simp: range_int_def)

lemma distinct_range_int [simp]: "distinct (range_int n)"
  by (simp add: range_int_def)

lemma length_range_int [simp]: "length (range_int n) = nat n"
  by (simp add: range_int_def)

lemma length_filter_concat_map:
  "length (filter P (concat xss)) = sum_list (map (\<lambda>xs. length (filter P xs)) xss)"
  by (induction xss) auto

lemma sum_list_bounded_filter:
  assumes "\<And>x. x \<in> set xs \<Longrightarrow> f x \<le> (if Q x then 1 else (0::nat))"
  shows "sum_list (map f xs) \<le> length (filter Q xs)"
  using assms by (induction xs) (fastforce split: if_splits)+

section \<open>Strings\<close>

abbreviation has_prefix :: "string \<Rightarrow> string \<Rightarrow> bool" where
  "has_prefix s p \<equiv> prefix p s"

text \<open>\<open>strings.Index\<close>: the first position a substring occurs at.\<close>

fun str_index :: "string \<Rightarrow> string \<Rightarrow> nat option" where
  "str_index [] sub = (if sub = [] then Some 0 else None)"
| "str_index (c # s) sub =
     (if prefix sub (c # s) then Some 0 else map_option Suc (str_index s sub))"

text \<open>\<open>strings.Join\<close>.\<close>

fun str_join :: "string \<Rightarrow> string list \<Rightarrow> string" where
  "str_join sep [] = []"
| "str_join sep [x] = x"
| "str_join sep (x # y # xs) = x @ sep @ str_join sep (y # xs)"

text \<open>
  \<open>strings.ReplaceAll\<close> for a non-empty pattern (kanea only replaces non-empty placeholders):
  non-overlapping occurrences, left to right.
\<close>

function replace_all :: "string \<Rightarrow> string \<Rightarrow> string \<Rightarrow> string" where
  "replace_all old new s =
     (if old = [] then s
      else if s = [] then []
      else if prefix old s then new @ replace_all old new (drop (length old) s)
      else hd s # replace_all old new (tl s))"
  by pat_completeness auto
termination
  by (relation "measure (\<lambda>(old, new, s). length s)") auto

declare replace_all.simps [simp del]

lemma str_index_prefix_skip:
  assumes "d \<notin> set a"
  shows "str_index (a @ d # t) (d # sub) = map_option ((+) (length a)) (str_index (d # t) (d # sub))"
  using assms
proof (induction a)
  case Nil
  show ?case by (cases "str_index (d # t) (d # sub)") simp_all
next
  case (Cons c a)
  have "\<not> prefix (d # sub) (c # a @ d # t)"
    using Cons.prems by auto
  then have "str_index ((c # a) @ d # t) (d # sub) = map_option Suc (str_index (a @ d # t) (d # sub))"
    by (simp del: Cons_prefix_Cons)
  also have "\<dots> = map_option ((+) (length (c # a))) (str_index (d # t) (d # sub))"
    using Cons.IH Cons.prems by (simp add: option.map_comp comp_def)
  finally show ?case .
qed

section \<open>Decimal rendering of integers\<close>

definition digit_char :: "nat \<Rightarrow> char" where
  "digit_char n = char_of (48 + n)"

fun udec :: "nat \<Rightarrow> string" where
  "udec n = (if n < 10 then [digit_char n] else udec (n div 10) @ [digit_char (n mod 10)])"

declare udec.simps [simp del]

text \<open>\<open>strconv.Itoa\<close> and the verb \<open>%d\<close>.\<close>

definition itoa :: "int \<Rightarrow> string" where
  "itoa i = (if i < 0 then CHR ''-'' # udec (nat (- i)) else udec (nat i))"

definition is_digit :: "char \<Rightarrow> bool" where
  "is_digit c \<longleftrightarrow> 48 \<le> (of_char c :: nat) \<and> (of_char c :: nat) \<le> 57"

lemma of_char_digit_char: "n < 10 \<Longrightarrow> (of_char (digit_char n) :: nat) = 48 + n"
  by (simp add: digit_char_def)

lemma digit_char_inject: "m < 10 \<Longrightarrow> n < 10 \<Longrightarrow> digit_char m = digit_char n \<longleftrightarrow> m = n"
  using of_char_digit_char by (metis add_left_cancel)

lemma udec_digits: "c \<in> set (udec n) \<Longrightarrow> is_digit c"
proof (induction n rule: udec.induct)
  case (1 n)
  have d: "is_digit (digit_char m)" if "m < 10" for m
    using that by (simp add: is_digit_def of_char_digit_char)
  show ?case
  proof (cases "n < 10")
    case True
    with "1.prems" show ?thesis by (simp add: udec.simps [of n] d)
  next
    case False
    with "1.prems" have "c \<in> set (udec (n div 10)) \<or> c = digit_char (n mod 10)"
      by (auto simp add: udec.simps [of n])
    with "1.IH" False d show ?thesis by auto
  qed
qed

lemma udec_nonempty [simp]: "udec n \<noteq> []"
  by (subst udec.simps) simp

lemma udec_inject [simp]: "udec m = udec n \<longleftrightarrow> m = n"
proof
  show "udec m = udec n \<Longrightarrow> m = n"
  proof (induction m arbitrary: n rule: udec.induct)
    case (1 m)
    show ?case
    proof (cases "m < 10")
      case True
      show ?thesis
      proof (cases "n < 10")
        case True
        with \<open>m < 10\<close> "1.prems" show ?thesis
          by (simp add: udec.simps [of m] udec.simps [of n] digit_char_inject)
      next
        case False
        with \<open>m < 10\<close> "1.prems" show ?thesis
          using udec_nonempty [of "n div 10"]
          by (auto simp add: udec.simps [of m] udec.simps [of n] append_eq_Cons_conv)
      qed
    next
      case False
      show ?thesis
      proof (cases "n < 10")
        case True
        with False "1.prems" show ?thesis
          by (auto simp add: udec.simps [of m] udec.simps [of n] append_eq_Cons_conv)
      next
        case nf: False
        with False "1.prems" have "udec (m div 10) = udec (n div 10)"
          and "digit_char (m mod 10) = digit_char (n mod 10)"
          by (simp_all add: udec.simps [of m] udec.simps [of n])
        then have "m div 10 = n div 10" and "m mod 10 = n mod 10"
          using "1.IH" False by (simp_all add: digit_char_inject)
        then show ?thesis by (metis div_mult_mod_eq)
      qed
    qed
  qed
qed simp

lemma digit_not_sep [ident_simps]:
  "\<not> is_digit CHR ''-''" "\<not> is_digit CHR ''.''" "\<not> is_digit CHR ''/''" "\<not> is_digit CHR '':''"
  by (simp_all add: is_digit_def)

lemma udec_no_sep [simp]:
  "CHR ''-'' \<notin> set (udec n)" "CHR ''.'' \<notin> set (udec n)"
  "CHR ''/'' \<notin> set (udec n)" "CHR '':'' \<notin> set (udec n)"
  using udec_digits digit_not_sep by blast+

lemma itoa_inject [simp]: "itoa i = itoa j \<longleftrightarrow> i = j"
proof (cases "i < 0"; cases "j < 0")
  assume "i < 0" and "\<not> j < 0"
  then show ?thesis
    by (metis itoa_def list.set_intros(1) udec_no_sep(1))
next
  assume "\<not> i < 0" and "j < 0"
  then show ?thesis
    by (metis itoa_def list.set_intros(1) udec_no_sep(1))
qed (auto simp: itoa_def)

lemma itoa_nonneg_no_sep [simp]:
  "0 \<le> i \<Longrightarrow> CHR ''-'' \<notin> set (itoa i)" "CHR ''.'' \<notin> set (itoa i)" "CHR ''/'' \<notin> set (itoa i)"
  by (auto simp: itoa_def)

lemma itoa_nonempty [simp]: "itoa i \<noteq> []"
  by (simp add: itoa_def)

text \<open>A string splits in one way at its first separator, and in one way at its last.\<close>

lemma first_sep_unique:
  assumes "x @ c # a = y @ c # b" and "c \<notin> set x" and "c \<notin> set y"
  shows "x = y \<and> a = b"
  using assms
proof (induction x arbitrary: y)
  case Nil
  then show ?case by (cases y) auto
next
  case (Cons d x)
  then show ?case by (cases y) auto
qed

lemma last_sep_unique:
  assumes "a @ c # x = b @ c # y" and "c \<notin> set x" and "c \<notin> set y"
  shows "a = b \<and> x = y"
proof -
  have "rev x @ c # rev a = rev y @ c # rev b"
    using arg_cong [OF assms(1), of rev] by simp
  from first_sep_unique [OF this] show ?thesis
    using assms(2,3) by simp
qed

section \<open>Quoting\<close>

definition hex_digit :: "nat \<Rightarrow> char" where
  "hex_digit n = char_of (if n < 10 then 48 + n else 87 + n)"

text \<open>
  One byte under the verb \<open>%q\<close> (\<open>strconv.Quote\<close>): exact on ASCII. The names kanea quotes are
  DNS-1123 labels and states, so no multi-byte rune arises; a byte of 128 or more is rendered the
  way Go renders one that is not part of a valid rune.
\<close>

definition quote_byte :: "char \<Rightarrow> string" where
  "quote_byte c = (let n = (of_char c :: nat) in
     if n = 34 then [CHR 0x5C, CHR 0x22]
     else if n = 92 then [CHR 0x5C, CHR 0x5C]
     else if 32 \<le> n \<and> n < 127 then [c]
     else if n = 7 then [CHR 0x5C, CHR ''a'']
     else if n = 8 then [CHR 0x5C, CHR ''b'']
     else if n = 12 then [CHR 0x5C, CHR ''f'']
     else if n = 10 then [CHR 0x5C, CHR ''n'']
     else if n = 13 then [CHR 0x5C, CHR ''r'']
     else if n = 9 then [CHR 0x5C, CHR ''t'']
     else if n = 11 then [CHR 0x5C, CHR ''v'']
     else [CHR 0x5C, CHR ''x'', hex_digit (n div 16), hex_digit (n mod 16)])"

definition go_quote :: "string \<Rightarrow> string" where
  "go_quote s = CHR 0x22 # concat (map quote_byte s) @ [CHR 0x22]"

end
