(* ===== verification/Go_Time.thy ===== *)
theory Go_Time
  imports Kanea_Prelude
begin

text \<open>
  Go's \<open>time\<close> package as kanea uses it. An instant is the number of nanoseconds since the zero time
  (\<open>time.Time{}\<close> is 0, which is what \<open>IsZero\<close> tests); a duration is a number of nanoseconds that
  Go keeps in 64 bits, so a difference of instants saturates at the ends of that range. Clock
  readings are wall-clock readings: the monotonic part Go also keeps is not modelled.
\<close>

section \<open>Instants and durations\<close>

type_synonym time = int
type_synonym duration = int

abbreviation (input) zero_time :: time where
  "zero_time \<equiv> 0"

definition max_duration :: duration where
  "max_duration = 2 ^ 63 - 1"

definition min_duration :: duration where
  "min_duration = - (2 ^ 63)"

text \<open>\<open>Time.Sub\<close> saturates.\<close>

definition time_sub :: "time \<Rightarrow> time \<Rightarrow> duration" where
  "time_sub t u = max min_duration (min max_duration (t - u))"

definition second :: duration where "second = 1000000000"
definition minute :: duration where "minute = 60 * second"
definition hour :: duration where "hour = 60 * minute"

lemma second_pos [simp]: "0 < second" and minute_pos [simp]: "0 < minute" and hour_pos [simp]: "0 < hour"
  by (simp_all add: second_def minute_def hour_def)

text \<open>Comparing a difference with a duration of the 64-bit range is exact despite the saturation.\<close>

lemma time_sub_less_iff:
  assumes "min_duration < d" and "d \<le> max_duration"
  shows "time_sub t u < d \<longleftrightarrow> t < u + d"
  using assms by (auto simp: time_sub_def max_def min_def)

lemma time_sub_greater_iff:
  assumes "min_duration \<le> d" and "d < max_duration"
  shows "d < time_sub t u \<longleftrightarrow> u + d < t"
  using assms by (auto simp: time_sub_def max_def min_def)

lemma time_sub_self [simp]: "time_sub t t = 0"
  by (simp add: time_sub_def max_duration_def min_duration_def)

lemma time_sub_mono: "t \<le> t' \<Longrightarrow> time_sub t u \<le> time_sub t' u"
  by (auto simp: time_sub_def)

section \<open>Integer division as Go rounds it: towards zero\<close>

definition go_div :: "int \<Rightarrow> int \<Rightarrow> int" where
  "go_div a b = sgn a * sgn b * (\<bar>a\<bar> div \<bar>b\<bar>)"

definition go_mod :: "int \<Rightarrow> int \<Rightarrow> int" where
  "go_mod a b = a - b * go_div a b"

lemma go_div_nonneg: "0 \<le> a \<Longrightarrow> 0 < b \<Longrightarrow> go_div a b = a div b"
  by (cases "a = 0") (simp_all add: go_div_def)

lemma go_mod_nonneg: "0 \<le> a \<Longrightarrow> 0 < b \<Longrightarrow> go_mod a b = a mod b"
  by (simp add: go_mod_def go_div_nonneg minus_mult_div_eq_mod)

section \<open>Rendering a duration\<close>

text \<open>\<open>Duration.Truncate\<close> and \<open>Duration.Round\<close> (half away from zero) for a positive unit.\<close>

definition dur_truncate :: "duration \<Rightarrow> duration \<Rightarrow> duration" where
  "dur_truncate d m = (if m \<le> 0 then d else d - go_mod d m)"

definition dur_round :: "duration \<Rightarrow> duration \<Rightarrow> duration" where
  "dur_round d m =
     (if m \<le> 0 then d
      else let r = go_mod d m in
        if d < 0 then (if - r + - r < m then d - r else max min_duration (d - m - r))
        else (if r + r < m then d - r else min max_duration (d + m - r)))"

fun strip_zeros :: "string \<Rightarrow> string" where
  "strip_zeros [] = []"
| "strip_zeros (c # cs) = (if c = CHR ''0'' then strip_zeros cs else c # cs)"

definition pad_zeros :: "nat \<Rightarrow> string \<Rightarrow> string" where
  "pad_zeros w s = replicate (w - length s) (CHR ''0'') @ s"

text \<open>\<open>fmtFrac\<close>: the fraction of \<open>v / 10 ^ prec\<close>, without trailing zeros and empty when zero.\<close>

definition frac_string :: "nat \<Rightarrow> nat \<Rightarrow> string" where
  "frac_string v prec =
     (let f = v mod 10 ^ prec in
      if f = 0 then [] else CHR ''.'' # rev (strip_zeros (rev (pad_zeros prec (udec f)))))"

text \<open>\<open>Duration.String\<close>: \<open>0s\<close>, \<open>1.5ms\<close>, \<open>1h2m0.5s\<close>; the micro sign is its two UTF-8 bytes.\<close>

definition dur_string :: "duration \<Rightarrow> string" where
  "dur_string d =
     (let u = nat \<bar>d\<bar>;
          body =
            (if u = 0 then ''0s''
             else if u < 1000 then udec u @ ''ns''
             else if u < 1000000 then udec (u div 1000) @ frac_string u 3 @ [CHR 0xC2, CHR 0xB5, CHR ''s'']
             else if u < 1000000000 then udec (u div 1000000) @ frac_string u 6 @ ''ms''
             else let s = u div 1000000000; m = s div 60; h = m div 60 in
               (if h > 0 then udec h @ ''h'' else []) @
               (if m > 0 then udec (m mod 60) @ ''m'' else []) @
               udec (s mod 60) @ frac_string u 9 @ ''s'')
      in (if d < 0 then CHR ''-'' # body else body))"

lemma dur_string_examples:
  "dur_string 0 = ''0s''"
  "dur_string (90 * second) = ''1m30s''"
  "dur_string (5 * minute) = ''5m0s''"
  "dur_string (hour + 500000000) = ''1h0m0.5s''"
  "dur_string 1500000 = ''1.5ms''"
  by (simp_all add: dur_string_def frac_string_def udec.simps digit_char_def second_def minute_def
      hour_def pad_zeros_def Let_def char_of_def bit_0)

end
