(* ===== verification/Go_Path.thy ===== *)
theory Go_Path
  imports Kanea_Prelude
begin

text \<open>
  The lexical half of Go's \<open>path/filepath\<close> on a Unix host: \<open>Clean\<close>, \<open>Join\<close>, \<open>Rel\<close> and \<open>IsAbs\<close>, as list
  functions over the components of a path.
\<close>

section \<open>Components\<close>

text \<open>The components of a path; consecutive separators give empty components.\<close>

fun split_path :: "string \<Rightarrow> string list" where
  "split_path [] = [[]]"
| "split_path (c # cs) =
     (if c = CHR ''/'' then [] # split_path cs
      else case split_path cs of [] \<Rightarrow> [[c]] | x # xs \<Rightarrow> (c # x) # xs)"

text \<open>
  \<open>Clean\<close> walks the components: an empty one or a dot is dropped, a dot-dot removes the component
  before it; at the root a dot-dot is dropped, and on a relative path with nothing to remove it stays.
  The accumulator holds the cleaned components in reverse.
\<close>

fun clean_step :: "bool \<Rightarrow> string list \<Rightarrow> string \<Rightarrow> string list" where
  "clean_step rooted acc c =
     (if c = [] \<or> c = ''.'' then acc
      else if c = ''..'' then
        (case acc of
           [] \<Rightarrow> (if rooted then [] else [''..''])
         | x # xs \<Rightarrow> (if x = ''..'' then ''..'' # acc else xs))
      else c # acc)"

definition is_abs :: "string \<Rightarrow> bool" where
  "is_abs p \<longleftrightarrow> prefix ''/'' p"

definition clean_components :: "string \<Rightarrow> string list" where
  "clean_components p = rev (foldl (clean_step (is_abs p)) [] (split_path p))"

definition path_clean :: "string \<Rightarrow> string" where
  "path_clean p =
     (let cs = clean_components p in
      if is_abs p then ''/'' @ str_join ''/'' cs
      else if cs = [] then ''.'' else str_join ''/'' cs)"

text \<open>\<open>Join\<close> drops empty elements, joins with a separator and cleans; it is empty when all are.\<close>

definition path_join :: "string list \<Rightarrow> string" where
  "path_join xs =
     (let ys = filter (\<lambda>x. x \<noteq> []) xs in
      if ys = [] then [] else path_clean (str_join ''/'' ys))"

lemma path_join_examples:
  "path_join [''/data'', ''shop'', ''web'', ''0'', ''db''] = ''/data/shop/web/0/db''"
  "path_join [''/data'', ''..'', ''etc''] = ''/etc''"
  "path_join [''a'', '''', ''b''] = ''a/b''"
  by (simp_all add: path_join_def path_clean_def clean_components_def is_abs_def Let_def)

section \<open>A component that is a plain name\<close>

definition plain_component :: "string \<Rightarrow> bool" where
  "plain_component c \<longleftrightarrow> c \<noteq> [] \<and> c \<noteq> ''.'' \<and> c \<noteq> ''..'' \<and> CHR ''/'' \<notin> set c"

lemma split_path_no_sep: "CHR ''/'' \<notin> set c \<Longrightarrow> split_path c = [c]"
  by (induction c) auto

lemma split_path_append:
  "CHR ''/'' \<notin> set c \<Longrightarrow> split_path (c @ CHR ''/'' # s) = c # split_path s"
  by (induction c) auto

lemma split_path_not_Nil [simp]: "split_path s \<noteq> []"
  by (induction s) (auto split: list.splits)

lemma split_path_join_sep:
  "split_path (s @ CHR ''/'' # t) = split_path s @ split_path t"
proof (induction s)
  case (Cons c s)
  then show ?case by (cases "split_path s") auto
qed simp

lemma foldl_clean_plain:
  "\<forall>c\<in>set cs. plain_component c \<Longrightarrow> foldl (clean_step r) acc cs = rev cs @ acc"
  by (induction cs arbitrary: acc) (auto simp: plain_component_def)

lemma split_path_join_plain:
  "cs \<noteq> [] \<Longrightarrow> \<forall>c\<in>set cs. plain_component c \<Longrightarrow> split_path (str_join ''/'' cs) = cs"
proof (induction cs rule: list_nonempty_induct)
  case (single c)
  then show ?case by (simp add: split_path_no_sep plain_component_def)
next
  case (cons c cs)
  then have "str_join ''/'' (c # cs) = c @ CHR ''/'' # str_join ''/'' cs"
    by (cases cs) auto
  with cons show ?case by (simp add: split_path_append plain_component_def)
qed

text \<open>Joining plain names under a base appends exactly those names to the base's components.\<close>

lemma clean_components_join:
  assumes "b \<noteq> []" and "cs \<noteq> []" and "\<forall>c\<in>set cs. plain_component c"
  shows "clean_components (b @ CHR ''/'' # str_join ''/'' cs) = clean_components b @ cs"
proof -
  have "is_abs (b @ CHR ''/'' # str_join ''/'' cs) = is_abs b"
    using assms(1) by (cases b) (simp_all add: is_abs_def)
  then show ?thesis
    using assms by (simp add: clean_components_def split_path_join_sep split_path_join_plain
        foldl_clean_plain)
qed

section \<open>Relative paths\<close>

fun strip_common :: "string list \<Rightarrow> string list \<Rightarrow> string list \<times> string list" where
  "strip_common (x # xs) (y # ys) = (if x = y then strip_common xs ys else (x # xs, y # ys))"
| "strip_common xs ys = (xs, ys)"

text \<open>\<open>Rel\<close> fails when only one path is absolute, or when what is left of the base climbs.\<close>

definition path_rel :: "string \<Rightarrow> string \<Rightarrow> string option" where
  "path_rel base targ =
     (if is_abs base \<noteq> is_abs targ then None
      else case strip_common (clean_components base) (clean_components targ) of
        ([], t) \<Rightarrow> Some (if t = [] then ''.'' else str_join ''/'' t)
      | (b # bs, t) \<Rightarrow> (if b = ''..'' then None
                        else Some (str_join ''/'' (replicate (length (b # bs)) ''..'' @ t))))"

lemma strip_common_append: "strip_common xs (xs @ ys) = ([], ys)"
  by (induction xs) auto

lemma plain_join_not_up:
  assumes "cs \<noteq> []" and "\<forall>c\<in>set cs. plain_component c"
  shows "str_join ''/'' cs \<noteq> ''..''" and "\<not> prefix ''../'' (str_join ''/'' cs)"
proof -
  note split = split_path_join_plain [OF assms]
  have hd: "hd cs \<noteq> ''..''" using assms by (cases cs) (auto simp: plain_component_def)
  show "str_join ''/'' cs \<noteq> ''..''"
  proof
    assume "str_join ''/'' cs = ''..''"
    with split have "cs = [''..'']" by simp
    with hd show False by simp
  qed
  show "\<not> prefix ''../'' (str_join ''/'' cs)"
  proof
    assume "prefix ''../'' (str_join ''/'' cs)"
    then obtain t where "str_join ''/'' cs = ''..'' @ CHR ''/'' # t" by (auto simp: prefix_def)
    then have "cs = ''..'' # split_path t" using split split_path_append [of "''..''" t] by simp
    with hd show False by simp
  qed
qed

lemma str_join_Cons: "cs \<noteq> [] \<Longrightarrow> str_join ''/'' (b # cs) = b @ CHR ''/'' # str_join ''/'' cs"
  by (cases cs) auto

lemma path_join_base:
  assumes "b \<noteq> []" and "cs \<noteq> []" and "\<forall>c\<in>set cs. plain_component c"
  shows "path_join (b # cs) = path_clean (b @ CHR ''/'' # str_join ''/'' cs)"
proof -
  have "filter (\<lambda>x. x \<noteq> []) (b # cs) = b # cs"
    using assms by (auto simp: plain_component_def filter_id_conv)
  then show ?thesis using assms(2) by (simp add: path_join_def str_join_Cons Let_def)
qed

lemma is_abs_append: "b \<noteq> [] \<Longrightarrow> is_abs (b @ s) = is_abs b"
  by (cases b) (simp_all add: is_abs_def)

text \<open>The components of an absolute base with plain names joined on, and how they determine the names.\<close>

lemma clean_components_plain_abs:
  assumes "cs \<noteq> []" and "\<forall>c\<in>set cs. plain_component c"
  shows "clean_components (CHR ''/'' # str_join ''/'' cs) = cs"
  using foldl_clean_plain [OF assms(2)] split_path_join_plain [OF assms]
  by (simp add: clean_components_def is_abs_def)

definition plain_base :: "string \<Rightarrow> bool" where
  "plain_base b \<longleftrightarrow> is_abs b \<and> (\<forall>c\<in>set (clean_components b). plain_component c)"

lemma path_join_components:
  assumes "plain_base b" and "cs \<noteq> []" and "\<forall>c\<in>set cs. plain_component c"
  shows "clean_components (path_join (b # cs)) = clean_components b @ cs"
    and "is_abs (path_join (b # cs))"
proof -
  have b: "b \<noteq> []" "is_abs b" using assms(1) by (auto simp: plain_base_def is_abs_def)
  let ?p = "b @ CHR ''/'' # str_join ''/'' cs"
  have cl: "clean_components ?p = clean_components b @ cs"
    by (rule clean_components_join [OF b(1) assms(2,3)])
  have eq: "path_join (b # cs) = CHR ''/'' # str_join ''/'' (clean_components b @ cs)"
    using path_join_base [OF b(1) assms(2,3)] cl is_abs_append [OF b(1)] b(2)
    by (simp add: path_clean_def Let_def)
  show "is_abs (path_join (b # cs))" by (simp add: eq is_abs_def)
  show "clean_components (path_join (b # cs)) = clean_components b @ cs"
    unfolding eq using assms by (intro clean_components_plain_abs) (auto simp: plain_base_def)
qed

lemma path_join_inject:
  assumes "plain_base b" and "cs \<noteq> []" "ds \<noteq> []"
    and "\<forall>c\<in>set cs. plain_component c" "\<forall>c\<in>set ds. plain_component c"
  shows "path_join (b # cs) = path_join (b # ds) \<longleftrightarrow> cs = ds"
  using path_join_components(1) [OF assms(1,2,4)] path_join_components(1) [OF assms(1,3,5)]
  by (metis same_append_eq)

lemma path_rel_join:
  assumes "plain_base b" and "cs \<noteq> []" and "\<forall>c\<in>set cs. plain_component c"
  shows "path_rel b (path_join (b # cs)) = Some (str_join ''/'' cs)"
  using path_join_components [OF assms] assms
  by (simp add: path_rel_def strip_common_append plain_base_def)

end
