(* ===== verification/Runtime_Model.thy ===== *)
theory Runtime_Model
  imports Go_Time Go_Path
begin

text \<open>
  \<open>internal/runtime\<close>: what the reconciler hands to the containerd driver (\<open>AllocSpec\<close> and its
  \<open>Validate\<close>), what the driver reports back (\<open>Status\<close>), and the identifiers of init containers
  (\<open>InitID\<close>, \<open>AllocIDOf\<close>). The conversation with containerd itself is I/O and is not modelled.
  Unsigned fields (\<open>uint32\<close>, \<open>uint64\<close>) are \<open>nat\<close>: nothing here adds to or subtracts below them.
\<close>

section \<open>What containerd reports\<close>

datatype State = StateCreated | StateRunning | StateStopped | StatePaused | StateUnknown

fun state_string :: "State \<Rightarrow> string" where
  "state_string StateCreated = ''created''"
| "state_string StateRunning = ''running''"
| "state_string StateStopped = ''stopped''"
| "state_string StatePaused = ''paused''"
| "state_string StateUnknown = ''unknown''"

record Status =
  st_ID :: string
  st_State :: State
  st_PID :: nat
  st_ExitCode :: nat
  st_ExitedAt :: time
  st_Image :: string
  st_OOMKilled :: bool
  st_OOMKnown :: bool
  st_MemoryLimit :: nat
  st_Role :: string

definition RoleInit :: string where "RoleInit = ''init''"

definition IsInit :: "Status \<Rightarrow> bool" where
  "IsInit s \<longleftrightarrow> st_Role s = RoleInit"

section \<open>What the reconciler asks for\<close>

record User =
  u_UID :: nat
  u_GID :: nat
  u_AdditionalGIDs :: "nat list"

record Resources =
  res_CPUMillis :: int
  res_MemoryBytes :: int
  res_PidsLimit :: int

record Mount =
  m_Source :: string
  m_Destination :: string
  m_ReadOnly :: bool
  m_Options :: "string list"

record Device =
  dev_Path :: string
  dev_Perms :: string

record InitMeta =
  im_AllocID :: string
  im_Ordinal :: int
  im_Name :: string

record AllocSpec =
  as_ID :: string
  as_Project :: string
  as_Service :: string
  as_Image :: string
  as_Runtime :: string
  as_Command :: "string list"
  as_Args :: "string list"
  as_Capabilities :: "string list"
  as_Env :: "string gomap"
  as_User :: "User option"
  as_Resources :: Resources
  as_CgroupPath :: string
  as_NetnsPath :: string
  as_Mounts :: "Mount list"
  as_Devices :: "Device list"
  as_ReadOnlyRootfs :: bool
  as_LogPath :: string
  as_Init :: "InitMeta option"

definition RuntimeWasmtime :: string where
  "RuntimeWasmtime = ''io.containerd.wasmtime.v1''"

definition PullIfNotPresent :: string where "PullIfNotPresent = ''if-not-present''"
definition PullNever :: string where "PullNever = ''never''"
definition PullAlways :: string where "PullAlways = ''always''"

definition MinAllocIDLength :: nat where "MinAllocIDLength = 5"

definition invalidID :: nat where "invalidID = 2 ^ 32 - 1"

text \<open>Why \<open>Validate\<close> refuses a spec; the constructors follow the order of its checks.\<close>

datatype spec_error =
    EmptyAllocID
  | ShortAllocID
  | NoProject
  | NoImage
  | NegativeCPU
  | NegativeMemory
  | UnsupportedRuntime string
  | ReservedUserID nat
  | NotACapability string
  | RelativeMount string string
  | InitWithDevices
  | InitWithoutAlloc
  | InitWithoutName
  | RelativeDevice string
  | DeviceWithoutPerms string

fun first_error :: "('a \<Rightarrow> 'e option) \<Rightarrow> 'a list \<Rightarrow> 'e option" where
  "first_error f [] = None"
| "first_error f (x # xs) = (case f x of Some e \<Rightarrow> Some e | None \<Rightarrow> first_error f xs)"

lemma first_error_None_iff: "first_error f xs = None \<longleftrightarrow> (\<forall>x\<in>set xs. f x = None)"
  by (induction xs) (auto split: option.splits)

fun or_else :: "'e option \<Rightarrow> 'e option \<Rightarrow> 'e option" where
  "or_else (Some e) _ = Some e"
| "or_else None r = r"

lemma or_else_None_iff [simp]: "or_else a b = None \<longleftrightarrow> a = None \<and> b = None"
  by (cases a) auto

definition validate_base :: "AllocSpec \<Rightarrow> spec_error option" where
  "validate_base s =
     (if as_ID s = [] then Some EmptyAllocID
      else if length (as_ID s) < MinAllocIDLength then Some ShortAllocID
      else if as_Project s = [] then Some NoProject
      else if as_Image s = [] then Some NoImage
      else if res_CPUMillis (as_Resources s) < 0 then Some NegativeCPU
      else if res_MemoryBytes (as_Resources s) < 0 then Some NegativeMemory
      else if as_Runtime s \<noteq> [] \<and> as_Runtime s \<noteq> RuntimeWasmtime
        then Some (UnsupportedRuntime (as_Runtime s))
      else None)"

definition validate_user :: "User option \<Rightarrow> spec_error option" where
  "validate_user mu =
     (case mu of None \<Rightarrow> None
      | Some u \<Rightarrow> first_error (\<lambda>i. if i = invalidID then Some (ReservedUserID i) else None)
                    (u_UID u # u_GID u # u_AdditionalGIDs u))"

definition validate_init :: "AllocSpec \<Rightarrow> spec_error option" where
  "validate_init s =
     (case as_Init s of None \<Rightarrow> None
      | Some i \<Rightarrow> (if as_Devices s \<noteq> [] then Some InitWithDevices
                   else if im_AllocID i = [] then Some InitWithoutAlloc
                   else if im_Name i = [] then Some InitWithoutName
                   else None))"

definition validate_device :: "Device \<Rightarrow> spec_error option" where
  "validate_device d =
     (if \<not> is_abs (dev_Path d) then Some (RelativeDevice (dev_Path d))
      else if dev_Perms d = [] then Some (DeviceWithoutPerms (dev_Path d))
      else None)"

definition Validate :: "AllocSpec \<Rightarrow> spec_error option" where
  "Validate s =
     or_else (validate_base s)
     (or_else (validate_user (as_User s))
     (or_else (first_error (\<lambda>c. if has_prefix c ''CAP_'' then None else Some (NotACapability c))
                 (as_Capabilities s))
     (or_else (first_error (\<lambda>m. if is_abs (m_Source m) \<and> is_abs (m_Destination m) then None
                                else Some (RelativeMount (m_Source m) (m_Destination m)))
                 (as_Mounts s))
     (or_else (validate_init s)
        (first_error validate_device (as_Devices s))))))"

section \<open>Identifiers\<close>

definition initIDInfix :: string where "initIDInfix = ''.init.''"

definition InitID :: "string \<Rightarrow> int \<Rightarrow> string \<Rightarrow> string" where
  "InitID allocID ordinal name = allocID @ initIDInfix @ itoa ordinal @ ''.'' @ name"

definition AllocIDOf :: "string \<Rightarrow> string option" where
  "AllocIDOf i =
     (case str_index i initIDInfix of
        None \<Rightarrow> None
      | Some n \<Rightarrow> (if n = 0 then None else Some (take n i)))"

definition looksLikeInitID :: "string \<Rightarrow> bool" where
  "looksLikeInitID i \<longleftrightarrow> AllocIDOf i \<noteq> None"

definition WorkloadSlice :: string where "WorkloadSlice = ''kanea-workloads.slice''"

text \<open>\<open>strings.Trim(parent, "/")\<close>.\<close>

definition trim_slashes :: "string \<Rightarrow> string" where
  "trim_slashes s = rev (dropWhile (\<lambda>c. c = CHR ''/'') (rev (dropWhile (\<lambda>c. c = CHR ''/'') s)))"

definition CgroupPath :: "string \<Rightarrow> string \<Rightarrow> string" where
  "CgroupPath parent allocID =
     (let parent = (if parent = [] then WorkloadSlice else parent) in
      ''/'' @ trim_slashes parent @ ''/'' @ allocID)"

definition NetnsDir :: string where "NetnsDir = ''/run/netns''"

definition NetnsPath :: "string \<Rightarrow> string" where
  "NetnsPath allocID = path_join [NetnsDir, allocID]"

subsection \<open>An init container id names its alloc and its step\<close>

lemma InitID_eq: "InitID a n s = a @ CHR ''.'' # ''init.'' @ itoa n @ CHR ''.'' # s"
  by (simp add: InitID_def initIDInfix_def)

lemma str_index_infix:
  "CHR ''.'' \<notin> set a \<Longrightarrow> str_index (a @ initIDInfix @ t) initIDInfix = Some (length a)"
  using str_index_prefix_skip [of "CHR ''.''" a "''init.'' @ t" "''init.''"]
  by (simp add: initIDInfix_def)

lemma AllocIDOf_InitID:
  "a \<noteq> [] \<Longrightarrow> CHR ''.'' \<notin> set a \<Longrightarrow> AllocIDOf (InitID a n s) = Some a"
  using str_index_infix [of a "itoa n @ ''.'' @ s"]
  by (simp add: AllocIDOf_def InitID_def)

lemma str_index_None: "CHR ''.'' \<notin> set a \<Longrightarrow> str_index a initIDInfix = None"
  by (induction a) (auto simp: initIDInfix_def)

lemma AllocIDOf_plain: "CHR ''.'' \<notin> set a \<Longrightarrow> AllocIDOf a = None"
  by (simp add: AllocIDOf_def str_index_None)

lemma InitID_inject:
  assumes "CHR ''.'' \<notin> set a" and "CHR ''.'' \<notin> set b"
  shows "InitID a m s = InitID b n t \<longleftrightarrow> a = b \<and> m = n \<and> s = t"
proof
  assume eq: "InitID a m s = InitID b n t"
  then have "a = b" and "''init.'' @ itoa m @ CHR ''.'' # s = ''init.'' @ itoa n @ CHR ''.'' # t"
    using first_sep_unique [of a "CHR ''.''" _ b] assms by (metis InitID_eq)+
  then have "itoa m @ CHR ''.'' # s = itoa n @ CHR ''.'' # t"
    by simp
  from first_sep_unique [OF this] have "itoa m = itoa n" and "s = t"
    by simp_all
  with \<open>a = b\<close> show "a = b \<and> m = n \<and> s = t" by simp
qed simp

lemma Validate_None_iff:
  "Validate s = None \<longleftrightarrow>
     validate_base s = None \<and> validate_user (as_User s) = None \<and>
     (\<forall>c\<in>set (as_Capabilities s). has_prefix c ''CAP_'') \<and>
     (\<forall>m\<in>set (as_Mounts s). is_abs (m_Source m) \<and> is_abs (m_Destination m)) \<and>
     validate_init s = None \<and> (\<forall>d\<in>set (as_Devices s). validate_device d = None)"
  by (auto simp: Validate_def first_error_None_iff split: if_splits)

end
