(* ===== verification/Desired_State.thy ===== *)
theory Desired_State
  imports Complex_Main Runtime_Model
begin

text \<open>
  \<open>internal/reconciler/types.go\<close> (with \<open>health.go\<close>'s check, \<open>retarget.go\<close> and \<open>capabilities.go\<close>):
  the desired state of a service as the Store holds it, the durable record of an alloc, and the
  policies that are functions of them. A Go pointer or a nil-able slot is an \<open>option\<close>; a nil slice
  and an empty one are the same list, as they are for every use below. \<open>float64\<close> targets of the
  scaling policy are rationals.
\<close>

section \<open>Policies and resources a service declares\<close>

record PeerRef =
  pr_Project :: string
  pr_Service :: string

record IPRestriction =
  ipr_Allow :: "string list"
  ipr_Deny :: "string list"

record RateLimit =
  rl_Requests :: int
  rl_Window :: string
  rl_Per :: string
  rl_Burst :: int

record Headers =
  hdr_RequestSet :: "string gomap"
  hdr_RequestRemove :: "string list"
  hdr_ResponseSet :: "string gomap"
  hdr_ResponseRemove :: "string list"

record JWTAuthPolicy =
  jwt_Algorithm :: string
  jwt_SecretRef :: string
  jwt_PublicKeyRef :: string
  jwt_Issuer :: string
  jwt_Audience :: string

record AuthPolicy =
  auth_BasicRef :: string
  auth_BearerRef :: string
  auth_JWT :: "JWTAuthPolicy option"

record Expose =
  ex_Domains :: "string list"
  ex_Port :: int
  ex_TLSMode :: string
  ex_TLSName :: string
  ex_LetsEncrypt :: bool
  ex_Auth :: "AuthPolicy option"
  ex_IPRestriction :: "IPRestriction option"
  ex_RateLimit :: "RateLimit option"
  ex_Headers :: "Headers option"
  ex_Protocol :: string

record Port =
  p_Name :: string
  p_Container :: int
  p_Protocol :: string

record PublishedPort =
  pp_Port :: string
  pp_Host :: int
  pp_Mode :: string
  pp_MaxConns :: int
  pp_IPRestriction :: "IPRestriction option"
  pp_RateLimit :: "RateLimit option"
  pp_Headers :: "Headers option"

record UpdatePolicy =
  up_Strategy :: string
  up_Auto :: bool
  up_Interval :: duration
  up_Deadline :: duration
  up_MaxParallel :: int
  up_MinHealthy :: duration

record RestartPolicy =
  rp_Attempts :: int
  rp_Backoff :: "duration list"

record ScalingMetric =
  sm_Name :: string
  sm_Target :: rat

record ScalingPolicy =
  sp_Min :: int
  sp_Max :: int
  sp_Metrics :: "ScalingMetric list"
  sp_Cooldown :: string

text \<open>\<open>storage.Resource\<close>.\<close>

record StorageResource =
  sr_Name :: string
  sr_Type :: string
  sr_Bucket :: string
  sr_Endpoint :: string
  sr_AuthRef :: string
  sr_Mode :: string
  sr_Server :: string
  sr_Export :: string
  sr_Share :: string
  sr_Options :: string
  sr_Path :: string
  sr_Create :: bool

definition TypeLocal :: string where "TypeLocal = ''local''"
definition TypeHost :: string where "TypeHost = ''host''"

definition NeedsMount :: "StorageResource \<Rightarrow> bool" where
  "NeedsMount r \<longleftrightarrow> \<not> (sr_Type r = '''' \<or> sr_Type r = TypeLocal \<or> sr_Type r = TypeHost)"

definition IsHost :: "StorageResource \<Rightarrow> bool" where
  "IsHost r \<longleftrightarrow> sr_Type r = TypeHost"

record Volume =
  v_Name :: string
  v_Storage :: string
  v_Resource :: StorageResource
  v_MountPath :: string
  v_ReadOnly :: bool
  v_UID :: "nat option"
  v_GID :: "nat option"
  v_Mode :: "nat option"
  v_SizeBytes :: int
  v_resolvedHostPath :: string

definition Owned :: "Volume \<Rightarrow> bool" where
  "Owned v \<longleftrightarrow> v_UID v \<noteq> None \<or> v_GID v \<noteq> None \<or> v_Mode v \<noteq> None"

record DeviceRequest =
  dr_Name :: string
  dr_Grant :: string
  dr_resolved :: "Device list"

record SocketRequest =
  sk_Name :: string
  sk_Grant :: string
  sk_MountPath :: string
  sk_ReadOnly :: bool
  sk_resolvedHostPath :: string

record HealthCheck =
  hc_Type :: string
  hc_Path :: string
  hc_Port :: int
  hc_Command :: "string list"
  hc_Interval :: duration
  hc_Timeout :: duration
  hc_Failures :: int

record InitContainer =
  ic_Name :: string
  ic_Image :: string
  ic_Command :: "string list"
  ic_Args :: "string list"
  ic_Capabilities :: "string list"
  ic_Env :: "string gomap"
  ic_User :: "User option"
  ic_Resources :: Resources
  ic_RegistryAuthRef :: string
  ic_PullPolicy :: string
  ic_Timeout :: duration

record FileMount =
  fm_Name :: string
  fm_Path :: string
  fm_Mode :: string
  fm_Content :: string
  fm_SecretRefs :: "string list"
  fm_ContentBytes :: int
  fm_Nonce :: string

definition HasSecrets :: "FileMount \<Rightarrow> bool" where
  "HasSecrets f \<longleftrightarrow> fm_SecretRefs f \<noteq> []"

record EventTrigger =
  et_On :: "string list"
  et_Path :: string

record CronTrigger =
  ct_Schedule :: string
  ct_Path :: string

record FunctionMeta =
  fn_HTTP :: bool
  fn_Events :: "EventTrigger list"
  fn_Crons :: "CronTrigger list"
  fn_SigningRef :: string

section \<open>A service's desired state\<close>

record Desired =
  d_Project :: string
  d_Service :: string
  d_Count :: int
  d_Image :: string
  d_PinnedImage :: string
  d_RollbackImage :: string
  d_ImageCheckedAt :: time
  d_ImageUpdatedAt :: time
  d_RegistryAuthRef :: string
  d_PullPolicy :: string
  d_Init :: "InitContainer list"
  d_Command :: "string list"
  d_Args :: "string list"
  d_Capabilities :: "string list"
  d_Hardening :: string
  d_Env :: "string gomap"
  d_Files :: "FileMount list"
  d_User :: "User option"
  d_Resources :: Resources
  d_Volumes :: "Volume list"
  d_Devices :: "DeviceRequest list"
  d_Sockets :: "SocketRequest list"
  d_Ports :: "Port list"
  d_AllowFrom :: "PeerRef list"
  d_Expose :: "Expose option"
  d_ExtraExposes :: "Expose list"
  d_Publish :: "PublishedPort list"
  d_DependsOn :: "string list"
  d_Check :: "HealthCheck option"
  d_Scaling :: "ScalingPolicy option"
  d_ResolvConfPath :: string
  d_ReadOnlyRootfs :: bool
  d_Restart :: RestartPolicy
  d_Update :: UpdatePolicy
  d_Generation :: int
  d_Runtime :: string
  d_Function :: "FunctionMeta option"

text \<open>The zero value of the struct.\<close>

definition zero_desired :: Desired where
  "zero_desired = \<lparr>d_Project = '''', d_Service = '''', d_Count = 0, d_Image = '''', d_PinnedImage = '''',
     d_RollbackImage = '''', d_ImageCheckedAt = zero_time, d_ImageUpdatedAt = zero_time,
     d_RegistryAuthRef = '''', d_PullPolicy = '''', d_Init = [], d_Command = [], d_Args = [],
     d_Capabilities = [], d_Hardening = '''', d_Env = [], d_Files = [], d_User = None,
     d_Resources = \<lparr>res_CPUMillis = 0, res_MemoryBytes = 0, res_PidsLimit = 0\<rparr>, d_Volumes = [],
     d_Devices = [], d_Sockets = [], d_Ports = [], d_AllowFrom = [], d_Expose = None,
     d_ExtraExposes = [], d_Publish = [], d_DependsOn = [], d_Check = None, d_Scaling = None,
     d_ResolvConfPath = '''', d_ReadOnlyRootfs = False,
     d_Restart = \<lparr>rp_Attempts = 0, rp_Backoff = []\<rparr>,
     d_Update = \<lparr>up_Strategy = '''', up_Auto = False, up_Interval = 0, up_Deadline = 0,
       up_MaxParallel = 0, up_MinHealthy = 0\<rparr>,
     d_Generation = 0, d_Runtime = '''', d_Function = None\<rparr>"

section \<open>The durable record of an alloc\<close>

datatype AllocState =
  AllocPending | AllocRunning | AllocBackoff | AllocFailed | AllocStopped | AllocInit

fun alloc_state_string :: "AllocState \<Rightarrow> string" where
  "alloc_state_string AllocPending = ''pending''"
| "alloc_state_string AllocRunning = ''running''"
| "alloc_state_string AllocBackoff = ''backoff''"
| "alloc_state_string AllocFailed = ''failed''"
| "alloc_state_string AllocStopped = ''stopped''"
| "alloc_state_string AllocInit = ''init''"

text \<open>\<open>NoExit\<close> is the empty reason of a record that has none.\<close>

datatype ExitReason =
  NoExit | ExitOOMKilled | ExitSignal | ExitError | ExitCompleted
  | ExitImageFailed | ExitVolumeFailed | ExitPassthroughFailed | ExitSecretsFailed
  | ExitFilesFailed | ExitNetworkFailed | ExitCreateFailed | ExitStartFailed
  | ExitInitFailed | ExitInitTimeout

record AllocRecord =
  r_ID :: string
  r_Project :: string
  r_Service :: string
  r_Index :: int
  r_Image :: string
  r_State :: AllocState
  r_SpecHash :: string
  r_Restarts :: int
  r_LastExitCode :: nat
  r_LastExitAt :: time
  r_LastExitReason :: ExitReason
  r_LastExitMessage :: string
  r_NextRestartAt :: time
  r_InitStep :: int
  r_InitName :: string
  r_InitStartedAt :: time
  r_Healthy :: bool
  r_HealthFailures :: int
  r_LastProbeAt :: time
  r_HealthMessage :: string
  r_CreatedAt :: time
  r_UpdatedAt :: time

text \<open>The zero value of the struct, which every composite literal of the code starts from.\<close>

definition zero_record :: AllocRecord where
  "zero_record = \<lparr>r_ID = '''', r_Project = '''', r_Service = '''', r_Index = 0, r_Image = '''',
     r_State = AllocPending, r_SpecHash = '''', r_Restarts = 0, r_LastExitCode = 0,
     r_LastExitAt = zero_time, r_LastExitReason = NoExit, r_LastExitMessage = '''',
     r_NextRestartAt = zero_time, r_InitStep = 0, r_InitName = '''', r_InitStartedAt = zero_time,
     r_Healthy = False, r_HealthFailures = 0, r_LastProbeAt = zero_time, r_HealthMessage = '''',
     r_CreatedAt = zero_time, r_UpdatedAt = zero_time\<rparr>"

definition Probed :: "AllocRecord \<Rightarrow> bool" where
  "Probed a \<longleftrightarrow> r_LastProbeAt a \<noteq> zero_time"

section \<open>Keys and identifiers\<close>

definition AllocKey :: "string \<Rightarrow> string \<Rightarrow> int \<Rightarrow> string" where
  "AllocKey project service index = project @ ''/'' @ service @ ''/'' @ itoa index"

definition record_Key :: "AllocRecord \<Rightarrow> string" where
  "record_Key a = AllocKey (r_Project a) (r_Service a) (r_Index a)"

definition AllocID :: "string \<Rightarrow> string \<Rightarrow> int \<Rightarrow> string" where
  "AllocID project service index = project @ ''-'' @ service @ ''-'' @ itoa index"

definition ServicePrefix :: "string \<Rightarrow> string \<Rightarrow> string" where
  "ServicePrefix project service = project @ ''/'' @ service @ ''/''"

definition service_key :: "string \<Rightarrow> string \<Rightarrow> string" where
  "service_key project service = project @ ''/'' @ service"

abbreviation d_key :: "Desired \<Rightarrow> string" where
  "d_key d \<equiv> service_key (d_Project d) (d_Service d)"

section \<open>Update policy\<close>

definition StrategyRolling :: string where "StrategyRolling = ''rolling''"
definition StrategyReplace :: string where "StrategyReplace = ''replace''"
definition DefaultMaxParallel :: int where "DefaultMaxParallel = 1"
definition DefaultMinHealthy :: duration where "DefaultMinHealthy = 10 * second"
definition DefaultUpdateInterval :: duration where "DefaultUpdateInterval = 6 * hour"
definition DefaultUpdateDeadline :: duration where "DefaultUpdateDeadline = 10 * minute"

definition maxParallel :: "UpdatePolicy \<Rightarrow> int \<Rightarrow> int" where
  "maxParallel u cnt =
     (if up_Strategy u = StrategyReplace then cnt
      else if up_MaxParallel u \<le> 0 then DefaultMaxParallel
      else if up_MaxParallel u > cnt then cnt
      else up_MaxParallel u)"

definition minHealthy :: "UpdatePolicy \<Rightarrow> duration" where
  "minHealthy u =
     (if up_Strategy u = StrategyReplace then 0
      else if up_MinHealthy u \<le> 0 then DefaultMinHealthy
      else up_MinHealthy u)"

definition PollInterval :: "UpdatePolicy \<Rightarrow> duration" where
  "PollInterval u = (if up_Interval u \<le> 0 then DefaultUpdateInterval else up_Interval u)"

definition RevertDeadline :: "UpdatePolicy \<Rightarrow> duration" where
  "RevertDeadline u = (if up_Deadline u \<le> 0 then DefaultUpdateDeadline else up_Deadline u)"

definition RunImage :: "Desired \<Rightarrow> string" where
  "RunImage d = (if d_PinnedImage d \<noteq> '''' then d_PinnedImage d else d_Image d)"

section \<open>Restart policy\<close>

definition DefaultRestartAttempts :: int where "DefaultRestartAttempts = 5"

definition DefaultRestartBackoff :: "duration list" where
  "DefaultRestartBackoff = [10 * second, 30 * second, minute, 5 * minute]"

definition attempts :: "RestartPolicy \<Rightarrow> int" where
  "attempts p = (if rp_Attempts p \<le> 0 then DefaultRestartAttempts else rp_Attempts p)"

definition delayFor :: "RestartPolicy \<Rightarrow> int \<Rightarrow> duration" where
  "delayFor p n =
     (let schedule = (if rp_Backoff p = [] then DefaultRestartBackoff else rp_Backoff p);
          n = (if n < 1 then 1 else n);
          n = (if n > int (length schedule) then int (length schedule) else n)
      in schedule ! nat (n - 1))"

section \<open>Routes and ports\<close>

definition AllExposes :: "Desired \<Rightarrow> Expose list" where
  "AllExposes d = (case d_Expose d of None \<Rightarrow> [] | Some e \<Rightarrow> e # d_ExtraExposes d)"

definition PortProtocolUDP :: string where "PortProtocolUDP = ''udp''"

definition IsUDP :: "Port \<Rightarrow> bool" where
  "IsUDP p \<longleftrightarrow> p_Protocol p = PortProtocolUDP"

fun port_number :: "Port list \<Rightarrow> string \<Rightarrow> int" where
  "port_number [] name = 0"
| "port_number (p # ps) name = (if p_Name p = name then p_Container p else port_number ps name)"

definition portNumber :: "Desired \<Rightarrow> string \<Rightarrow> int" where
  "portNumber d name = port_number (d_Ports d) name"

section \<open>Health checks\<close>

definition DefaultCheckInterval :: duration where "DefaultCheckInterval = 10 * second"
definition DefaultCheckTimeout :: duration where "DefaultCheckTimeout = 2 * second"
definition DefaultCheckFailures :: int where "DefaultCheckFailures = 3"

definition configured :: "HealthCheck option \<Rightarrow> bool" where
  "configured h \<longleftrightarrow> (case h of None \<Rightarrow> False | Some c \<Rightarrow> hc_Type c \<noteq> '''')"

definition check_interval :: "HealthCheck option \<Rightarrow> duration" where
  "check_interval h =
     (case h of None \<Rightarrow> DefaultCheckInterval
      | Some c \<Rightarrow> (if hc_Interval c \<le> 0 then DefaultCheckInterval else hc_Interval c))"

definition check_timeout :: "HealthCheck option \<Rightarrow> duration" where
  "check_timeout h =
     (case h of None \<Rightarrow> DefaultCheckTimeout
      | Some c \<Rightarrow> (if hc_Timeout c \<le> 0 then DefaultCheckTimeout else hc_Timeout c))"

definition failureThreshold :: "HealthCheck option \<Rightarrow> int" where
  "failureThreshold h =
     (case h of None \<Rightarrow> DefaultCheckFailures
      | Some c \<Rightarrow> (if hc_Failures c \<le> 0 then DefaultCheckFailures else hc_Failures c))"

section \<open>Retargeting an image\<close>

text \<open>
  The loop over the init steps returns the rewritten steps and the names of those that moved.
\<close>

fun retarget_steps :: "string \<Rightarrow> string \<Rightarrow> InitContainer list \<Rightarrow> InitContainer list \<times> string list" where
  "retarget_steps previous img [] = ([], [])"
| "retarget_steps previous img (s # ss) =
     (let (ss', moved) = retarget_steps previous img ss in
      if ic_Image s = previous then (s\<lparr>ic_Image := img\<rparr> # ss', ic_Name s # moved)
      else (s # ss', moved))"

definition RetargetImage :: "Desired \<Rightarrow> string \<Rightarrow> Desired \<times> string list" where
  "RetargetImage d img =
     (let previous = d_Image d; d' = d\<lparr>d_Image := img\<rparr> in
      if previous = '''' \<or> previous = img then (d', [])
      else let (inits, moved) = retarget_steps previous img (d_Init d) in
        (d'\<lparr>d_Init := inits\<rparr>, moved))"

section \<open>Capabilities\<close>

definition CapabilityNone :: string where "CapabilityNone = ''none''"
definition HardeningRestricted :: string where "HardeningRestricted = ''restricted''"

definition BaselineCapabilities :: "string list" where
  "BaselineCapabilities =
     [''CAP_CHOWN'', ''CAP_DAC_OVERRIDE'', ''CAP_FOWNER'', ''CAP_FSETID'', ''CAP_KILL'',
      ''CAP_SETGID'', ''CAP_SETUID'']"

text \<open>
  The merged set is built as a Go map (its keys without repetition, in some order) and then sorted.
\<close>

definition effectiveCapabilities :: "Desired \<Rightarrow> string list" where
  "effectiveCapabilities d =
     (if d_Runtime d \<noteq> '''' then d_Capabilities d
      else let declared = filter (\<lambda>c. c \<noteq> CapabilityNone) (d_Capabilities d);
               fromNothing = (d_Hardening d = HardeningRestricted \<or> CapabilityNone \<in> set (d_Capabilities d))
           in if fromNothing then declared
              else sort (remdups (BaselineCapabilities @ declared)))"

section \<open>Lemmas on policies\<close>

lemma attempts_pos: "0 < attempts p"
  by (simp add: attempts_def DefaultRestartAttempts_def)

lemma check_interval_pos: "0 < check_interval h"
  by (simp add: check_interval_def DefaultCheckInterval_def split: option.splits)

lemma failureThreshold_pos: "0 < failureThreshold h"
  by (simp add: failureThreshold_def DefaultCheckFailures_def split: option.splits)

lemma minHealthy_nonneg: "0 \<le> minHealthy u"
  by (simp add: minHealthy_def DefaultMinHealthy_def second_def)

lemma maxParallel_bounds:
  assumes "0 < cnt"
  shows "1 \<le> maxParallel u cnt \<and> maxParallel u cnt \<le> cnt"
  using assms by (auto simp: maxParallel_def DefaultMaxParallel_def)

text \<open>The schedule position \<open>delayFor\<close> reads is always inside the schedule.\<close>

definition backoff_schedule :: "RestartPolicy \<Rightarrow> duration list" where
  "backoff_schedule p = (if rp_Backoff p = [] then DefaultRestartBackoff else rp_Backoff p)"

lemma backoff_schedule_nonempty: "backoff_schedule p \<noteq> []"
  by (simp add: backoff_schedule_def DefaultRestartBackoff_def)

lemma delayFor_nth:
  "delayFor p n = backoff_schedule p ! min (nat (max 1 n) - 1) (length (backoff_schedule p) - 1)"
proof -
  have "0 < length (backoff_schedule p)"
    using backoff_schedule_nonempty [of p] by blast
  then show ?thesis
    unfolding delayFor_def Let_def backoff_schedule_def [symmetric]
    by (auto simp: min_def max_def intro!: arg_cong [where f = "(!) (backoff_schedule p)"])
qed

lemma delayFor_in_schedule: "delayFor p n \<in> set (backoff_schedule p)"
  using backoff_schedule_nonempty [of p]
  by (auto simp: delayFor_nth min_less_iff_disj intro!: nth_mem)

subsection \<open>Alloc identifiers\<close>

lemma AllocID_inject_same_project:
  assumes "0 \<le> i" and "0 \<le> j"
  shows "AllocID p s i = AllocID p t j \<longleftrightarrow> s = t \<and> i = j"
proof
  assume "AllocID p s i = AllocID p t j"
  then have "s @ CHR ''-'' # itoa i = t @ CHR ''-'' # itoa j"
    by (simp add: AllocID_def)
  from last_sep_unique [OF this] show "s = t \<and> i = j"
    using assms by simp
qed simp

lemma AllocID_inject_index:
  "0 \<le> i \<Longrightarrow> 0 \<le> j \<Longrightarrow> AllocID p s i = AllocID p s j \<longleftrightarrow> i = j"
  using AllocID_inject_same_project by blast

lemma AllocID_no_dot [ident_simps]:
  "CHR ''.'' \<notin> set p \<Longrightarrow> CHR ''.'' \<notin> set s \<Longrightarrow> CHR ''.'' \<notin> set (AllocID p s i)"
  by (simp add: AllocID_def)

lemma AllocID_nonempty [simp]: "AllocID p s i \<noteq> []"
  by (simp add: AllocID_def)

lemma AllocKey_inject:
  assumes "0 \<le> i" "0 \<le> j"
    and "CHR ''/'' \<notin> set p" "CHR ''/'' \<notin> set q" "CHR ''/'' \<notin> set s" "CHR ''/'' \<notin> set t"
  shows "AllocKey p s i = AllocKey q t j \<longleftrightarrow> p = q \<and> s = t \<and> i = j"
proof
  assume "AllocKey p s i = AllocKey q t j"
  then have "p @ CHR ''/'' # s @ CHR ''/'' # itoa i = q @ CHR ''/'' # t @ CHR ''/'' # itoa j"
    by (simp add: AllocKey_def)
  from first_sep_unique [OF this] assms have "p = q"
    and "s @ CHR ''/'' # itoa i = t @ CHR ''/'' # itoa j"
    by simp_all
  with first_sep_unique [OF this(2)] assms show "p = q \<and> s = t \<and> i = j"
    by simp
qed simp

lemma service_key_inject:
  assumes "CHR ''/'' \<notin> set p" "CHR ''/'' \<notin> set q"
  shows "service_key p s = service_key q t \<longleftrightarrow> p = q \<and> s = t"
  using first_sep_unique [of p "CHR ''/''" s q t] assms by (auto simp: service_key_def)

end
