(* ===== verification/Secret_Placeholders.thy ===== *)
theory Secret_Placeholders
  imports Kanea_Prelude
begin

text \<open>
  \<open>internal/secrets/placeholder.go\<close>: the placeholders a parse leaves in file content where a secret
  goes, and their nonce-free form. The main result is that canonicalising a file's content removes
  the nonce altogether, so two parses of one spec compare and hash alike.
\<close>

section \<open>Model\<close>

definition NUL :: char where "NUL = CHR 0x00"

definition PlaceholderPrefix :: string where "PlaceholderPrefix = NUL # ''kanea:secret:''"
definition PlaceholderSuffix :: string where "PlaceholderSuffix = [NUL]"

definition PlaceholderText :: "string \<Rightarrow> int \<Rightarrow> string" where
  "PlaceholderText nonce i = PlaceholderPrefix @ nonce @ '':'' @ itoa i @ PlaceholderSuffix"

definition rewritePlaceholders :: "string \<Rightarrow> string \<Rightarrow> int \<Rightarrow> (int \<Rightarrow> string) \<Rightarrow> string" where
  "rewritePlaceholders content nonce refs to =
     (if nonce = '''' \<or> refs = 0 then content
      else fold (\<lambda>i out. replace_all (PlaceholderText nonce i) (to i) out) (range_int refs) content)"

definition StripPlaceholders :: "string \<Rightarrow> string \<Rightarrow> int \<Rightarrow> string" where
  "StripPlaceholders content nonce refs = rewritePlaceholders content nonce refs (\<lambda>_. '''')"

definition canonical_placeholder :: "int \<Rightarrow> string" where
  "canonical_placeholder i = PlaceholderPrefix @ ''secret:'' @ itoa i @ PlaceholderSuffix"

definition CanonicalPlaceholders :: "string \<Rightarrow> string \<Rightarrow> int \<Rightarrow> string" where
  "CanonicalPlaceholders content nonce refs =
     rewritePlaceholders content nonce refs canonical_placeholder"

section \<open>Replacing one NUL-delimited block\<close>

lemma replace_all_Nil [simp]: "replace_all old new [] = []"
  by (subst replace_all.simps) simp

lemma replace_all_skip:
  "c \<notin> set l \<Longrightarrow> replace_all (c # t) new (l @ s) = l @ replace_all (c # t) new s"
proof (induction l)
  case (Cons d l)
  then have "\<not> prefix (c # t) (d # l @ s)" by auto
  with Cons show ?case by (subst replace_all.simps) simp
qed simp

text \<open>
  Content as a literal followed by blocks and literals in turn; \<open>f\<close> spells the block of an index.
\<close>

definition render_rest :: "(int \<Rightarrow> string) \<Rightarrow> (int \<times> string) list \<Rightarrow> string" where
  "render_rest f ps = concat (map (\<lambda>(i, l). f i @ l) ps)"

lemma render_rest_simps [simp]:
  "render_rest f [] = []" "render_rest f ((i, l) # ps) = f i @ l @ render_rest f ps"
  by (simp_all add: render_rest_def)

definition block :: "string \<Rightarrow> string" where "block b = NUL # b @ [NUL]"

lemma prefix_block_iff:
  assumes "NUL \<notin> set b" "NUL \<notin> set b'"
  shows "prefix (block b) (block b' @ s) \<longleftrightarrow> b = b'"
proof
  assume "prefix (block b) (block b' @ s)"
  then obtain t where "b @ NUL # t = b' @ NUL # s"
    by (auto simp: block_def prefix_def)
  from first_sep_unique [OF this assms] show "b = b'" by simp
qed (simp add: block_def)

lemma not_prefix_block_literal:
  assumes "NUL \<notin> set b" "NUL \<notin> set l" "l \<noteq> b" "rest = [] \<or> (\<exists>r. rest = NUL # r)"
  shows "\<not> prefix (block b) (NUL # l @ rest)"
proof
  assume "prefix (block b) (NUL # l @ rest)"
  then obtain t where t: "b @ NUL # t = l @ rest"
    by (auto simp: block_def prefix_def)
  then have "rest \<noteq> []" using assms(2) by (metis append_Nil2 in_set_conv_decomp)
  with assms(4) obtain r where "rest = NUL # r" by blast
  with t first_sep_unique [of b NUL t l r] assms(1-3) show False by blast
qed

lemma render_rest_head:
  assumes "\<And>i. f i = block (fb i)"
  shows "render_rest f ps = [] \<or> (\<exists>r. render_rest f ps = NUL # r)"
  using assms by (cases ps) (auto simp: block_def)

lemma replace_all_blocks:
  assumes f: "\<And>i. f i = block (fb i)" and fb: "\<And>i. NUL \<notin> set (fb i)" and b: "NUL \<notin> set b"
    and lits: "\<forall>(i, l)\<in>set ps. NUL \<notin> set l \<and> l \<noteq> b"
  shows "replace_all (block b) new (render_rest f ps) =
         render_rest (\<lambda>i. if fb i = b then new else f i) ps"
  using lits
proof (induction ps)
  case (Cons p ps)
  obtain i l where p: "p = (i, l)" by fastforce
  let ?rest = "render_rest f ps"
  have l: "NUL \<notin> set l" "l \<noteq> b" using Cons.prems p by auto
  have tail: "replace_all (block b) new (l @ ?rest) = l @ replace_all (block b) new ?rest"
    using replace_all_skip [OF l(1)] by (simp add: block_def)
  have IH: "replace_all (block b) new ?rest = render_rest (\<lambda>i. if fb i = b then new else f i) ps"
    using Cons by simp
  show ?case
  proof (cases "fb i = b")
    case True
    then have "replace_all (block b) new (block b @ l @ ?rest) = new @ replace_all (block b) new (l @ ?rest)"
      by (subst replace_all.simps) (simp add: block_def)
    with True tail IH f [of i] show ?thesis by (simp add: p)
  next
    case False
    have "replace_all (block b) new (block (fb i) @ l @ ?rest) =
          NUL # replace_all (block b) new (fb i @ NUL # l @ ?rest)"
      using prefix_block_iff [OF b fb [of i], of "l @ ?rest"] False
      by (subst replace_all.simps) (simp add: block_def)
    also have "\<dots> = NUL # fb i @ replace_all (block b) new (NUL # l @ ?rest)"
      using replace_all_skip [OF fb [of i]] by (simp add: block_def)
    also have "\<dots> = NUL # fb i @ NUL # replace_all (block b) new (l @ ?rest)"
      using not_prefix_block_literal [OF b l render_rest_head [OF f]]
      by (subst replace_all.simps) (simp add: block_def)
    also have "\<dots> = f i @ l @ replace_all (block b) new ?rest"
      by (simp add: f block_def tail [unfolded block_def])
    finally show ?thesis using False IH f [of i] by (simp add: p)
  qed
qed simp

section \<open>Canonical content does not depend on the nonce\<close>

definition nonce_body :: "string \<Rightarrow> int \<Rightarrow> string" where
  "nonce_body nonce i = ''kanea:secret:'' @ nonce @ '':'' @ itoa i"

definition canonical_body :: "int \<Rightarrow> string" where
  "canonical_body i = ''kanea:secret:secret:'' @ itoa i"

text \<open>
  What a parse guarantees of the content it renders: the author's text has no NUL byte
  (\<open>checkNoNUL\<close> refuses it), the nonce is drawn after the text was read so no stretch of text spells
  the body of one of its placeholders, and every placeholder names one of the references.
\<close>

definition parsed_content :: "string \<Rightarrow> int \<Rightarrow> string \<Rightarrow> (int \<times> string) list \<Rightarrow> bool" where
  "parsed_content nonce refs l0 ps \<longleftrightarrow>
     nonce \<noteq> '''' \<and> 0 < refs \<and> NUL \<notin> set nonce \<and> CHR '':'' \<notin> set nonce \<and> NUL \<notin> set l0 \<and>
     (\<forall>(i, l)\<in>set ps. 0 \<le> i \<and> i < refs \<and> NUL \<notin> set l \<and>
        list_all (\<lambda>k. l \<noteq> nonce_body nonce k) (range_int refs))"

lemma itoa_no_NUL [simp]: "NUL \<notin> set (itoa i)"
proof -
  have "\<not> is_digit NUL" by (simp add: is_digit_def NUL_def)
  then show ?thesis using udec_digits by (auto simp: itoa_def NUL_def)
qed

lemma PlaceholderText_block: "PlaceholderText nonce i = block (nonce_body nonce i)"
  by (simp add: PlaceholderText_def PlaceholderPrefix_def PlaceholderSuffix_def block_def nonce_body_def)

lemma canonical_placeholder_block: "canonical_placeholder i = block (canonical_body i)"
  by (simp add: canonical_placeholder_def PlaceholderPrefix_def PlaceholderSuffix_def block_def
      canonical_body_def)

lemma no_NUL_letters: "NUL \<notin> set ''kanea:secret:''" "NUL \<notin> set ''kanea:secret:secret:''" "NUL \<noteq> CHR '':''"
  by (simp_all add: NUL_def)

lemma bodies_no_NUL [simp]:
  "NUL \<notin> set nonce \<Longrightarrow> NUL \<notin> set (nonce_body nonce i)" "NUL \<notin> set (canonical_body i)"
  using no_NUL_letters by (simp_all add: nonce_body_def canonical_body_def)

lemma nonce_body_inject [simp]: "nonce_body nonce i = nonce_body nonce j \<longleftrightarrow> i = j"
  by (simp add: nonce_body_def)

lemma canonical_not_nonce_body:
  assumes "CHR '':'' \<notin> set nonce" "i \<noteq> j"
  shows "canonical_body i \<noteq> nonce_body nonce j"
proof
  assume "canonical_body i = nonce_body nonce j"
  then have "''secret'' @ CHR '':'' # itoa i = nonce @ CHR '':'' # itoa j"
    by (simp add: canonical_body_def nonce_body_def)
  from first_sep_unique [OF this] assms show False by simp
qed

lemma range_int_Suc: "range_int (int (Suc k)) = range_int (int k) @ [int k]"
  by (simp add: range_int_def upto_rec2)

text \<open>After the first \<open>k\<close> rounds of the loop, exactly the first \<open>k\<close> placeholders are canonical.\<close>

lemma rewrite_prefix:
  assumes ok: "parsed_content nonce refs l0 ps" and "int k \<le> refs"
  shows "fold (\<lambda>i out. replace_all (PlaceholderText nonce i) (canonical_placeholder i) out)
           (range_int (int k)) (l0 @ render_rest (PlaceholderText nonce) ps) =
         l0 @ render_rest (\<lambda>i. if i < int k then canonical_placeholder i else PlaceholderText nonce i) ps"
  using assms(2)
proof (induction k)
  case 0
  have "render_rest (PlaceholderText nonce) ps =
        render_rest (\<lambda>i. if i < 0 then canonical_placeholder i else PlaceholderText nonce i) ps"
    using ok unfolding parsed_content_def render_rest_def
    by (intro arg_cong [where f = concat] map_cong) (auto split: prod.splits)
  then show ?case by (simp add: range_int_def)
next
  case (Suc k)
  let ?f = "\<lambda>i. if i < int k then canonical_placeholder i else PlaceholderText nonce i"
  let ?fb = "\<lambda>i. if i < int k then canonical_body i else nonce_body nonce i"
  let ?b = "nonce_body nonce (int k)"
  have n: "NUL \<notin> set nonce" "CHR '':'' \<notin> set nonce" "NUL \<notin> set l0"
    using ok by (simp_all add: parsed_content_def)
  have lits: "\<forall>(i, l)\<in>set ps. NUL \<notin> set l \<and> l \<noteq> ?b"
    using ok Suc.prems by (fastforce simp: parsed_content_def list_all_iff)
  have "replace_all (block ?b) (canonical_placeholder (int k)) (l0 @ render_rest ?f ps) =
        l0 @ replace_all (block ?b) (canonical_placeholder (int k)) (render_rest ?f ps)"
    using replace_all_skip [OF n(3)] by (simp add: block_def)
  also have "replace_all (block ?b) (canonical_placeholder (int k)) (render_rest ?f ps) =
        render_rest (\<lambda>i. if ?fb i = ?b then canonical_placeholder (int k) else ?f i) ps"
    by (rule replace_all_blocks [OF _ _ _ lits])
      (simp_all add: canonical_placeholder_block PlaceholderText_block n)
  also have "\<dots> = render_rest (\<lambda>i. if i < int (Suc k) then canonical_placeholder i
                                    else PlaceholderText nonce i) ps"
  proof -
    have "(if ?fb i = ?b then canonical_placeholder (int k) else ?f i) =
          (if i < int (Suc k) then canonical_placeholder i else PlaceholderText nonce i)" for i
      using canonical_not_nonce_body [OF n(2), of i "int k"] by auto
    then show ?thesis by (simp add: render_rest_def)
  qed
  finally show ?case
    using Suc by (simp add: range_int_Suc PlaceholderText_block del: of_nat_Suc)
qed

lemma CanonicalPlaceholders_render:
  assumes "parsed_content nonce refs l0 ps"
  shows "CanonicalPlaceholders (l0 @ render_rest (PlaceholderText nonce) ps) nonce refs =
         l0 @ render_rest canonical_placeholder ps"
proof -
  have refs: "nonce \<noteq> ''''" "0 < refs" "\<forall>(i, l)\<in>set ps. i < refs"
    using assms by (auto simp: parsed_content_def)
  then have "CanonicalPlaceholders (l0 @ render_rest (PlaceholderText nonce) ps) nonce refs =
        l0 @ render_rest (\<lambda>i. if i < refs then canonical_placeholder i else PlaceholderText nonce i) ps"
    using rewrite_prefix [OF assms, of "nat refs"]
    by (simp add: CanonicalPlaceholders_def rewritePlaceholders_def)
  also have "render_rest (\<lambda>i. if i < refs then canonical_placeholder i else PlaceholderText nonce i) ps =
        render_rest canonical_placeholder ps"
    using refs(3) unfolding render_rest_def
    by (intro arg_cong [where f = concat] map_cong) (auto split: prod.splits)
  finally show ?thesis .
qed

end
