(* ===== verification/Spec_Hash.thy ===== *)
theory Spec_Hash
  imports Desired_State Secret_Placeholders
begin

text \<open>
  The spec fingerprint of \<open>internal/reconciler/plan.go\<close> (\<open>SpecHash\<close>, \<open>hashableVolumes\<close>,
  \<open>hashableInit\<close>, \<open>hashableFiles\<close>, \<open>drifted\<close>), which decides whether a change rolls a service.

  The material is the struct the code marshals. \<open>json_material\<close> is what the encoder sees of it:
  unexported fields are not marshalled and map keys are sorted. The digest (the hex form of half of
  the SHA-256 of that JSON) is a parameter \<open>H\<close> of every definition that hashes; results that need it
  to tell different materials apart say so.
\<close>

section \<open>Model\<close>

definition hashableVolumes :: "Volume list \<Rightarrow> Volume list" where
  "hashableVolumes vs =
     map (\<lambda>v. v\<lparr>v_SizeBytes := 0, v_Resource := (v_Resource v)\<lparr>sr_Create := False\<rparr>\<rparr>) vs"

definition hashableInit :: "InitContainer list \<Rightarrow> InitContainer list" where
  "hashableInit inits = map (\<lambda>s. s\<lparr>ic_PullPolicy := '''', ic_Timeout := 0\<rparr>) inits"

definition hashable_file :: "FileMount \<Rightarrow> FileMount" where
  "hashable_file f =
     f\<lparr>fm_Content := CanonicalPlaceholders (fm_Content f) (fm_Nonce f) (int (length (fm_SecretRefs f))),
       fm_Nonce := '''', fm_Name := ''''\<rparr>"

definition hashableFiles :: "FileMount list \<Rightarrow> FileMount list" where
  "hashableFiles files = sort_key fm_Path (map hashable_file files)"

record hash_material =
  hm_Image :: string
  hm_PinnedImage :: string
  hm_Command :: "string list"
  hm_Args :: "string list"
  hm_Capabilities :: "string list"
  hm_Hardening :: string
  hm_Env :: "string gomap"
  hm_User :: "User option"
  hm_Resources :: Resources
  hm_Volumes :: "Volume list"
  hm_Ports :: "Port list"
  hm_ReadOnlyRootfs :: bool
  hm_Devices :: "DeviceRequest list"
  hm_Sockets :: "SocketRequest list"
  hm_Init :: "InitContainer list"
  hm_Files :: "FileMount list"
  hm_Generation :: int
  hm_Runtime :: string

definition material :: "Desired \<Rightarrow> hash_material" where
  "material d = \<lparr>hm_Image = d_Image d, hm_PinnedImage = d_PinnedImage d,
     hm_Command = d_Command d, hm_Args = d_Args d, hm_Capabilities = d_Capabilities d,
     hm_Hardening = d_Hardening d, hm_Env = d_Env d, hm_User = d_User d,
     hm_Resources = d_Resources d, hm_Volumes = hashableVolumes (d_Volumes d),
     hm_Ports = d_Ports d, hm_ReadOnlyRootfs = d_ReadOnlyRootfs d,
     hm_Devices = d_Devices d, hm_Sockets = d_Sockets d,
     hm_Init = hashableInit (d_Init d), hm_Files = hashableFiles (d_Files d),
     hm_Generation = d_Generation d, hm_Runtime = d_Runtime d\<rparr>"

text \<open>What \<open>json.Marshal\<close> sees: exported fields only, map keys in order.\<close>

definition json_env :: "string gomap \<Rightarrow> string gomap" where
  "json_env = sort_key fst"

definition json_material :: "hash_material \<Rightarrow> hash_material" where
  "json_material m = m\<lparr>
     hm_Env := json_env (hm_Env m),
     hm_Volumes := map (\<lambda>v. v\<lparr>v_resolvedHostPath := ''''\<rparr>) (hm_Volumes m),
     hm_Devices := map (\<lambda>r. r\<lparr>dr_resolved := []\<rparr>) (hm_Devices m),
     hm_Sockets := map (\<lambda>s. s\<lparr>sk_resolvedHostPath := ''''\<rparr>) (hm_Sockets m),
     hm_Init := map (\<lambda>s. s\<lparr>ic_Env := json_env (ic_Env s)\<rparr>) (hm_Init m)\<rparr>"

type_synonym digest = "hash_material \<Rightarrow> string"

definition SpecHash :: "digest \<Rightarrow> Desired \<Rightarrow> string" where
  "SpecHash H d = H (json_material (material d))"

definition drifted :: "AllocRecord \<Rightarrow> string \<Rightarrow> bool" where
  "drifted r h \<longleftrightarrow> r_SpecHash r \<noteq> '''' \<and> r_SpecHash r \<noteq> h"

section \<open>What a hash does not depend on\<close>

text \<open>
  Two desired states that agree on everything a container embodies. Fields a running alloc does not
  embody are unconstrained; a volume's budget and create flag, an init step's pull policy and
  timeout, a file's name and nonce, and the order of the file blocks are free to differ.
\<close>

definition same_container :: "Desired \<Rightarrow> Desired \<Rightarrow> bool" where
  "same_container d e \<longleftrightarrow>
     d_Image d = d_Image e \<and> d_PinnedImage d = d_PinnedImage e \<and> d_Command d = d_Command e \<and>
     d_Args d = d_Args e \<and> d_Capabilities d = d_Capabilities e \<and> d_Hardening d = d_Hardening e \<and>
     gm_same (d_Env d) (d_Env e) \<and> d_User d = d_User e \<and> d_Resources d = d_Resources e \<and>
     hashableVolumes (d_Volumes d) = hashableVolumes (d_Volumes e) \<and> d_Ports d = d_Ports e \<and>
     d_ReadOnlyRootfs d = d_ReadOnlyRootfs e \<and> d_Devices d = d_Devices e \<and>
     d_Sockets d = d_Sockets e \<and> hashableInit (d_Init d) = hashableInit (d_Init e) \<and>
     mset (map hashable_file (d_Files d)) = mset (map hashable_file (d_Files e)) \<and>
     distinct (map fm_Path (d_Files d)) \<and> d_Generation d = d_Generation e \<and>
     d_Runtime d = d_Runtime e"

lemma fm_Path_hashable_file [simp]: "fm_Path (hashable_file f) = fm_Path f"
  by (simp add: hashable_file_def)

lemma hashableFiles_perm:
  assumes "mset (map hashable_file fs) = mset (map hashable_file gs)"
    and "distinct (map fm_Path fs)"
  shows "hashableFiles fs = hashableFiles gs"
  unfolding hashableFiles_def
proof (rule sort_key_mset_eq [OF assms(1)])
  show "inj_on fm_Path (set (map hashable_file fs))"
    using assms(2) by (simp add: distinct_map inj_on_def) metis
qed

lemma json_env_perm:
  assumes "gm_same m m'" shows "json_env m = json_env m'"
  unfolding json_env_def using assms
  by (intro sort_key_mset_eq) (auto simp: gm_same_def gm_wf_def distinct_map)

lemma SpecHash_same_container:
  assumes "same_container d e" shows "SpecHash H d = SpecHash H e"
  using assms json_env_perm [of "d_Env d" "d_Env e"] hashableFiles_perm [of "d_Files d" "d_Files e"]
  by (simp add: SpecHash_def material_def json_material_def same_container_def)

text \<open>A different image is a different material, whatever else changes.\<close>

lemma SpecHash_image_differs:
  assumes "inj H" and "d_Image d \<noteq> d_Image e \<or> d_PinnedImage d \<noteq> d_PinnedImage e \<or>
    d_Command d \<noteq> d_Command e \<or> d_Args d \<noteq> d_Args e \<or> d_Generation d \<noteq> d_Generation e"
  shows "SpecHash H d \<noteq> SpecHash H e"
  using assms by (auto simp: SpecHash_def material_def json_material_def dest!: injD)

lemma drifted_iff: "drifted r h \<Longrightarrow> r_SpecHash r \<noteq> h"
  by (simp add: drifted_def)

lemma not_drifted_same [simp]: "\<not> drifted r (r_SpecHash r)"
  by (simp add: drifted_def)

end
