(* ===== verification/Planner.thy ===== *)
theory Planner
  imports Spec_Hash
begin

text \<open>
  \<open>internal/reconciler/plan.go\<close> and the pure half of \<open>init.go\<close>: the planner, a function from a
  \<open>World\<close> (desired state, durable records, what containerd reports, the clock and the witnessed set)
  to the list of actions that close the gap. This theory holds the definitions; the properties are in
  the theories \<open>Planner_Order\<close>, \<open>Planner_Rollout\<close> and \<open>Planner_Lifecycle\<close>.
\<close>

section \<open>Actions\<close>

datatype ActionKind =
  ActionWait | ActionCreate | ActionStart | ActionRestart | ActionReplace | ActionRecover
  | ActionRemove | ActionInitStep | ActionRemoveInit

fun kind_string :: "ActionKind \<Rightarrow> string" where
  "kind_string ActionWait = ''wait''"
| "kind_string ActionCreate = ''create''"
| "kind_string ActionStart = ''start''"
| "kind_string ActionRestart = ''restart''"
| "kind_string ActionReplace = ''replace''"
| "kind_string ActionRecover = ''recover''"
| "kind_string ActionRemove = ''remove''"
| "kind_string ActionInitStep = ''init-step''"
| "kind_string ActionRemoveInit = ''remove-init''"

datatype InitOp = InitStart | InitDone | InitAdopt | InitRerun

record InitAction =
  ia_Ordinal :: int
  ia_Name :: string
  ia_Op :: InitOp

record Action =
  a_Kind :: ActionKind
  a_AllocID :: string
  a_Project :: string
  a_Service :: string
  a_Index :: int
  a_Reason :: string
  a_Init :: "InitAction option"

section \<open>The world\<close>

record InitStatus =
  is_Status :: Status
  is_Project :: string
  is_AllocID :: string

record World =
  w_Desired :: "Desired list"
  w_Records :: "AllocRecord gomap"
  w_Actual :: "Status gomap"
  w_InitActual :: "InitStatus gomap"
  w_Now :: time
  w_Witnessed :: "string set"

abbreviation rec_of :: "World \<Rightarrow> string \<Rightarrow> AllocRecord option" where
  "rec_of w i \<equiv> map_of (w_Records w) i"

abbreviation actual_of :: "World \<Rightarrow> string \<Rightarrow> Status option" where
  "actual_of w i \<equiv> map_of (w_Actual w) i"

definition witnessed :: "World \<Rightarrow> string \<Rightarrow> bool" where
  "witnessed w i \<longleftrightarrow> i \<in> w_Witnessed w"

definition is_running :: "World \<Rightarrow> string \<Rightarrow> bool" where
  "is_running w i \<longleftrightarrow> (case actual_of w i of None \<Rightarrow> False | Some s \<Rightarrow> st_State s = StateRunning)"

section \<open>Health and dependencies\<close>

definition service_ready :: "World \<Rightarrow> Desired \<Rightarrow> bool" where
  "service_ready w d \<longleftrightarrow>
     list_all (\<lambda>i. let aid = AllocID (d_Project d) (d_Service d) i in
        is_running w aid \<and>
        (configured (d_Check d) \<longrightarrow> (case rec_of w aid of None \<Rightarrow> False | Some r \<Rightarrow> r_Healthy r)))
       (range_int (d_Count d))"

definition healthyServices :: "World \<Rightarrow> (string \<rightharpoonup> bool)" where
  "healthyServices w =
     fold (\<lambda>d out. out(d_key d \<mapsto> (if d_Count d = 0 then True else service_ready w d)))
       (w_Desired w) Map.empty"

definition unmetDependencies :: "Desired \<Rightarrow> (string \<rightharpoonup> bool) \<Rightarrow> string list" where
  "unmetDependencies d healthy =
     sort (filter (\<lambda>dep. healthy (service_key (d_Project d) dep) = Some False) (d_DependsOn d))"

section \<open>Init sequences\<close>

definition isInitFailure :: "ExitReason \<Rightarrow> bool" where
  "isInitFailure r \<longleftrightarrow> r = ExitInitFailed \<or> r = ExitInitTimeout"

definition initVerb :: "ExitReason \<Rightarrow> string" where
  "initVerb r = (if r = ExitInitTimeout then ''timed out'' else ''failed'')"

definition InitLeaderIndex :: int where "InitLeaderIndex = 0"

definition InitLeaderID :: "Desired \<Rightarrow> string" where
  "InitLeaderID d = AllocID (d_Project d) (d_Service d) InitLeaderIndex"

definition InitIDFor :: "string \<Rightarrow> int \<Rightarrow> string \<Rightarrow> string" where
  "InitIDFor allocID ordinal name = InitID allocID ordinal name"

text \<open>Whether the leader finished the sequence for this hash, and if not, why.\<close>

definition serviceInitDone :: "World \<Rightarrow> Desired \<Rightarrow> string \<Rightarrow> bool \<times> string" where
  "serviceInitDone w d hash =
     (let leader = InitLeaderID d in
      case rec_of w leader of
        None \<Rightarrow> (False, ''waiting for '' @ leader @ '' to run the init sequence'')
      | Some r \<Rightarrow>
          if r_SpecHash r \<noteq> '''' \<and> r_SpecHash r \<noteq> hash then
            (False, ''waiting for '' @ leader @ '' to re-run the init sequence for this spec'')
          else if r_State r = AllocInit then
            (False, ''waiting for '' @ leader @ '' init '' @ go_quote (r_InitName r) @ '' ('' @
                itoa (r_InitStep r + 1) @ '' of '' @ itoa (int (length (d_Init d))) @ '')'')
          else if r_State r = AllocFailed \<and> isInitFailure (r_LastExitReason r) then
            (False, leader @ '' failed its init '' @ go_quote (r_InitName r) @ ''; nothing else can start'')
          else (True, ''''))"

record live_step =
  ls_ordinal :: int
  ls_step :: InitContainer
  ls_status :: "Status option"

definition step_finished :: "InitStatus option \<Rightarrow> bool" where
  "step_finished f \<longleftrightarrow>
     (case f of None \<Rightarrow> False
      | Some s \<Rightarrow> st_State (is_Status s) = StateStopped \<and> st_ExitCode (is_Status s) = 0)"

text \<open>The first declared step that is not finished; \<open>None\<close> when every step is done.\<close>

fun init_progress_from ::
  "InitStatus gomap \<Rightarrow> string \<Rightarrow> int \<Rightarrow> InitContainer list \<Rightarrow> live_step option" where
  "init_progress_from ia allocID i [] = None"
| "init_progress_from ia allocID i (s # ss) =
     (let found = map_of ia (InitIDFor allocID i (ic_Name s)) in
      if step_finished found then init_progress_from ia allocID (i + 1) ss
      else Some \<lparr>ls_ordinal = i, ls_step = s, ls_status = map_option is_Status found\<rparr>)"

definition initProgress :: "World \<Rightarrow> Desired \<Rightarrow> string \<Rightarrow> live_step option" where
  "initProgress w d allocID = init_progress_from (w_InitActual w) allocID 0 (d_Init d)"

definition step_of :: "live_step \<Rightarrow> Desired \<Rightarrow> string" where
  "step_of live d = '' ('' @ itoa (ls_ordinal live + 1) @ '' of '' @ itoa (int (length (d_Init d))) @ '')''"

definition planInit :: "World \<Rightarrow> Desired \<Rightarrow> Action \<Rightarrow> AllocRecord \<Rightarrow> Action list" where
  "planInit w d base r =
     (case initProgress w d (a_AllocID base) of
        None \<Rightarrow> [base\<lparr>a_Kind := ActionCreate,
                       a_Init := Some \<lparr>ia_Ordinal = 0, ia_Name = '''', ia_Op = InitDone\<rparr>,
                       a_Reason := ''init containers completed ('' @ itoa (int (length (d_Init d))) @ '' step(s))''\<rparr>]
      | Some live \<Rightarrow>
          let name = ic_Name (ls_step live);
              act = (\<lambda>op reason. base\<lparr>a_Kind := ActionInitStep,
                       a_Init := Some \<lparr>ia_Ordinal = ls_ordinal live, ia_Name = name, ia_Op = op\<rparr>,
                       a_Reason := reason\<rparr>)
          in case ls_status live of
               None \<Rightarrow> [act InitStart (''starting init '' @ go_quote name @ step_of live d)]
             | Some s \<Rightarrow>
                 if st_State s = StateRunning then
                   (if r_InitStep r \<noteq> ls_ordinal live \<or> r_InitName r \<noteq> name \<or> r_InitStartedAt r = zero_time
                    then [act InitAdopt (''adopting running init '' @ go_quote name @ step_of live d)]
                    else [base\<lparr>a_Kind := ActionWait,
                            a_Reason := ''init '' @ go_quote name @ step_of live d @ '' running for '' @
                              dur_string (dur_truncate (time_sub (w_Now w) (r_InitStartedAt r)) second)\<rparr>])
                 else [act InitRerun (''re-running init '' @ go_quote name @ step_of live d @
                         '' in state '' @ go_quote (state_string (st_State s)))])"

fun init_ordinal_from :: "string \<Rightarrow> string \<Rightarrow> int \<Rightarrow> InitContainer list \<Rightarrow> int" where
  "init_ordinal_from i allocID n [] = - 1"
| "init_ordinal_from i allocID n (s # ss) =
     (if InitIDFor allocID n (ic_Name s) = i then n else init_ordinal_from i allocID (n + 1) ss)"

definition initOrdinalOf :: "string \<Rightarrow> string \<Rightarrow> Desired \<Rightarrow> int" where
  "initOrdinalOf i allocID d = init_ordinal_from i allocID 0 (d_Init d)"

text \<open>Whether the sweep keeps an init container, given what is recorded and desired.\<close>

definition reap_keep :: "World \<Rightarrow> (string \<rightharpoonup> Desired) \<Rightarrow> string \<Rightarrow> InitStatus \<Rightarrow> bool" where
  "reap_keep w desiredByService i s \<longleftrightarrow>
     (case rec_of w (is_AllocID s) of
        None \<Rightarrow> False
      | Some r \<Rightarrow>
          r_State r = AllocInit \<and>
          (case desiredByService (service_key (r_Project r) (r_Service r)) of
             None \<Rightarrow> False
           | Some d \<Rightarrow>
               let ordinal = initOrdinalOf i (is_AllocID s) d in
               ordinal \<ge> 0 \<and>
               (case initProgress w d (is_AllocID s) of None \<Rightarrow> True | Some live \<Rightarrow> ordinal \<le> ls_ordinal live)))"

definition reap_action :: "World \<Rightarrow> string \<Rightarrow> InitStatus \<Rightarrow> Action" where
  "reap_action w i s =
     \<lparr>a_Kind = ActionRemoveInit, a_AllocID = i, a_Project = is_Project s, a_Service = '''', a_Index = 0,
      a_Reason = (case rec_of w (is_AllocID s) of
                    None \<Rightarrow> ''init container is no longer expected''
                  | Some r \<Rightarrow> ''init container left over from a '' @ alloc_state_string (r_State r) @ '' alloc''),
      a_Init = None\<rparr>"

definition initContainersToReap ::
  "World \<Rightarrow> (string \<rightharpoonup> Desired) \<Rightarrow> string set \<Rightarrow> Action list" where
  "initContainersToReap w desiredByService rebuilding =
     map (\<lambda>(i, s). reap_action w i s)
       (filter (\<lambda>(i, s). is_AllocID s \<notin> rebuilding \<and> \<not> reap_keep w desiredByService i s)
          (w_InitActual w))"

section \<open>One alloc\<close>

definition planRestart :: "World \<Rightarrow> Desired \<Rightarrow> Action \<Rightarrow> AllocRecord \<Rightarrow> Status \<Rightarrow> Action list" where
  "planRestart w d base r s =
     (if \<not> witnessed w (a_AllocID base) then
        [base\<lparr>a_Kind := ActionRecover,
           a_Reason := ''recovering: exited with code '' @ itoa (int (st_ExitCode s)) @
             '' while the platform was down (restart budget untouched)''\<rparr>]
      else if r_Restarts r \<ge> attempts (d_Restart d) then
        [base\<lparr>a_Kind := ActionRemove,
           a_Reason := ''restart attempts exhausted ('' @ itoa (r_Restarts r) @ '' of '' @
             itoa (attempts (d_Restart d)) @ '') after exit '' @ itoa (int (st_ExitCode s))\<rparr>]
      else if r_NextRestartAt r \<noteq> zero_time \<and> w_Now w < r_NextRestartAt r then []
      else
        [base\<lparr>a_Kind := ActionRestart,
           a_Reason := ''alloc exited with code '' @ itoa (int (st_ExitCode s)) @ '' (restart '' @
             itoa (r_Restarts r + 1) @ '' of '' @ itoa (attempts (d_Restart d)) @ '')''\<rparr>])"

text \<open>The branch of \<open>planAlloc\<close> for an alloc with no container.\<close>

definition plan_missing ::
  "World \<Rightarrow> Desired \<Rightarrow> int \<Rightarrow> string \<Rightarrow> string \<Rightarrow> (string \<rightharpoonup> bool) \<Rightarrow> Action \<Rightarrow> Action list" where
  "plan_missing w d index aid hash healthy base =
     (let mr = rec_of w aid;
          stale = (case mr of None \<Rightarrow> False | Some r \<Rightarrow> drifted r hash);
          blocked = unmetDependencies d healthy;
          (done, why) = serviceInitDone w d hash
      in
      if (case mr of None \<Rightarrow> False
          | Some r \<Rightarrow> r_State r = AllocBackoff \<and> w_Now w < r_NextRestartAt r \<and> \<not> stale \<and> witnessed w aid)
      then []
      else if blocked \<noteq> [] then
        [base\<lparr>a_Kind := ActionWait,
           a_Reason := ''waiting for '' @ str_join '', '' blocked @ '' to become healthy''\<rparr>]
      else if d_Init d \<noteq> [] \<and> index \<noteq> InitLeaderIndex \<and> \<not> done then
        [base\<lparr>a_Kind := ActionWait, a_Reason := why\<rparr>]
      else case mr of
        Some r \<Rightarrow>
          if \<not> stale \<and> isInitFailure (r_LastExitReason r) then
            (if witnessed w aid then
               [base\<lparr>a_Kind := ActionRestart,
                  a_Reason := ''restarting after init '' @ go_quote (r_InitName r) @ '' '' @
                    initVerb (r_LastExitReason r) @ '' (attempt '' @ itoa (r_Restarts r + 1) @ '')''\<rparr>]
             else
               [base\<lparr>a_Kind := ActionRecover,
                  a_Reason := ''recovering init '' @ go_quote (r_InitName r) @ '' that '' @
                    initVerb (r_LastExitReason r) @ '' while the platform was down (restart budget untouched)''\<rparr>])
          else
            [base\<lparr>a_Kind := ActionCreate,
               a_Reason := (if stale then ''spec changed''
                            else if r_Restarts r > 0 then
                              ''restarting after exit '' @ itoa (int (r_LastExitCode r)) @ '' (attempt '' @
                              itoa (r_Restarts r + 1) @ '')''
                            else ''alloc missing'')\<rparr>]
      | None \<Rightarrow> [base\<lparr>a_Kind := ActionCreate, a_Reason := ''alloc missing''\<rparr>])"

text \<open>The branch of \<open>planAlloc\<close> for an alloc whose container exists.\<close>

definition plan_present ::
  "World \<Rightarrow> Desired \<Rightarrow> Action \<Rightarrow> AllocRecord \<Rightarrow> bool \<Rightarrow> Status \<Rightarrow> Action list" where
  "plan_present w d base r stale s =
     (case st_State s of
        StateRunning \<Rightarrow>
          (if \<not> stale then [] else [base\<lparr>a_Kind := ActionReplace, a_Reason := ''spec changed''\<rparr>])
      | StateCreated \<Rightarrow> [base\<lparr>a_Kind := ActionStart, a_Reason := ''alloc created but not started''\<rparr>]
      | StateStopped \<Rightarrow>
          (if stale then [base\<lparr>a_Kind := ActionRestart, a_Reason := ''spec changed''\<rparr>]
           else planRestart w d base r s)
      | _ \<Rightarrow> [base\<lparr>a_Kind := ActionRestart,
                 a_Reason := ''alloc in unexpected state '' @ go_quote (state_string (st_State s))\<rparr>])"

definition base_action :: "Desired \<Rightarrow> int \<Rightarrow> string \<Rightarrow> Action" where
  "base_action d index aid =
     \<lparr>a_Kind = ActionWait, a_AllocID = aid, a_Project = d_Project d, a_Service = d_Service d,
      a_Index = index, a_Reason = '''', a_Init = None\<rparr>"

definition planAlloc ::
  "World \<Rightarrow> Desired \<Rightarrow> int \<Rightarrow> string \<Rightarrow> string \<Rightarrow> (string \<rightharpoonup> bool) \<Rightarrow> Action list" where
  "planAlloc w d index aid hash healthy =
     (let mr = rec_of w aid;
          base = base_action d index aid;
          stale = (case mr of None \<Rightarrow> False | Some r \<Rightarrow> drifted r hash);
          r = (case mr of None \<Rightarrow> zero_record | Some r \<Rightarrow> r)
      in
      if mr \<noteq> None \<and> r_State r = AllocFailed \<and> \<not> stale then []
      else if mr \<noteq> None \<and> r_State r = AllocInit \<and> index = InitLeaderIndex then
        (if stale then [base\<lparr>a_Kind := ActionRestart, a_Reason := ''spec changed during init''\<rparr>]
         else planInit w d base r)
      else case actual_of w aid of
        None \<Rightarrow> plan_missing w d index aid hash healthy base
      | Some s \<Rightarrow> plan_present w d base r stale s)"

section \<open>The rolling budget\<close>

text \<open>One alloc that counts against the budget before any deliberate replacement.\<close>

definition alloc_unavailable :: "World \<Rightarrow> Desired \<Rightarrow> string \<Rightarrow> int \<Rightarrow> bool" where
  "alloc_unavailable w d hash i \<longleftrightarrow>
     (let aid = AllocID (d_Project d) (d_Service d) i in
      \<not> is_running w aid \<or>
      (case rec_of w aid of
         None \<Rightarrow> True
       | Some r \<Rightarrow>
           (configured (d_Check d) \<and> \<not> r_Healthy r) \<or>
           (minHealthy (d_Update d) > 0 \<and> r_SpecHash r = hash \<and>
            time_sub (w_Now w) (r_CreatedAt r) < minHealthy (d_Update d))))"

definition replaceBudget :: "World \<Rightarrow> Desired \<Rightarrow> string \<Rightarrow> int \<times> int" where
  "replaceBudget w d hash =
     (if d_Count d = 0 then (0, 0)
      else let limit = maxParallel (d_Update d) (d_Count d);
               unavailable = int (length (filter (alloc_unavailable w d hash) (range_int (d_Count d))));
               budget = limit - unavailable
           in if budget > 0 then (budget, unavailable) else (0, unavailable))"

definition deferred_reason :: "Desired \<Rightarrow> int \<Rightarrow> string" where
  "deferred_reason d unavailable =
     ''replacement deferred: '' @ itoa unavailable @ '' of '' @ itoa (d_Count d) @
     '' alloc(s) unavailable, max_parallel '' @ itoa (maxParallel (d_Update d) (d_Count d))"

text \<open>The gate threads the budget through a service's planned actions, in order.\<close>

fun rolling_gate :: "Desired \<Rightarrow> int \<Rightarrow> int \<Rightarrow> Action list \<Rightarrow> Action list" where
  "rolling_gate d unavailable budget [] = []"
| "rolling_gate d unavailable budget (act # acts) =
     (if a_Kind act = ActionReplace then
        (if budget \<le> 0 then
           act\<lparr>a_Kind := ActionWait, a_Reason := deferred_reason d unavailable\<rparr>
             # rolling_gate d unavailable budget acts
         else act # rolling_gate d unavailable (budget - 1) acts)
      else act # rolling_gate d unavailable budget acts)"

section \<open>Orphans\<close>

definition orphan_action ::
  "(string \<rightharpoonup> Desired) \<Rightarrow> string \<Rightarrow> string \<Rightarrow> string \<Rightarrow> int \<Rightarrow> Action" where
  "orphan_action desiredByService aid project service index =
     \<lparr>a_Kind = ActionRemove, a_AllocID = aid, a_Project = project, a_Service = service, a_Index = index,
      a_Reason = (case desiredByService (service_key project service) of
                    Some d \<Rightarrow> (if index \<ge> d_Count d then
                                ''scaled in: index '' @ itoa index @ '' beyond count '' @ itoa (d_Count d)
                              else ''alloc no longer desired'')
                  | None \<Rightarrow> ''service no longer declared''),
      a_Init = None\<rparr>"

text \<open>The calls of \<open>consider\<close>: containers first, then records.\<close>

definition orphan_candidates :: "World \<Rightarrow> (string \<times> string \<times> string \<times> int) list" where
  "orphan_candidates w =
     map (\<lambda>(i, s). case rec_of w i of
            Some r \<Rightarrow> (i, r_Project r, r_Service r, r_Index r)
          | None \<Rightarrow> (i, '''', '''', - 1))
       (filter (\<lambda>(i, s). \<not> IsInit s) (w_Actual w)) @
     map (\<lambda>(i, r). (i, r_Project r, r_Service r, r_Index r)) (w_Records w)"

fun consider_all ::
  "(string \<rightharpoonup> Desired) \<Rightarrow> string set \<Rightarrow> string set \<Rightarrow> (string \<times> string \<times> string \<times> int) list \<Rightarrow> Action list" where
  "consider_all dbs wanted seen [] = []"
| "consider_all dbs wanted seen ((i, project, service, index) # cs) =
     (if i \<in> seen then consider_all dbs wanted seen cs
      else if i \<in> wanted then consider_all dbs wanted (insert i seen) cs
      else orphan_action dbs i project service index # consider_all dbs wanted (insert i seen) cs)"

definition planOrphans :: "World \<Rightarrow> (string \<rightharpoonup> Desired) \<Rightarrow> string set \<Rightarrow> Action list" where
  "planOrphans w desiredByService wanted = consider_all desiredByService wanted {} (orphan_candidates w)"

section \<open>The plan\<close>

definition desired_by_service :: "Desired list \<Rightarrow> (string \<rightharpoonup> Desired)" where
  "desired_by_service ds = fold (\<lambda>d m. m(d_key d \<mapsto> d)) ds Map.empty"

definition service_ids :: "Desired \<Rightarrow> string list" where
  "service_ids d = map (AllocID (d_Project d) (d_Service d)) (range_int (d_Count d))"

definition wanted_ids :: "Desired list \<Rightarrow> string set" where
  "wanted_ids ds = set (concat (map service_ids ds))"

definition planned_allocs :: "digest \<Rightarrow> World \<Rightarrow> Desired \<Rightarrow> Action list" where
  "planned_allocs H w d =
     concat (map (\<lambda>i. planAlloc w d i (AllocID (d_Project d) (d_Service d) i) (SpecHash H d)
                        (healthyServices w))
               (range_int (d_Count d)))"

definition plan_service :: "digest \<Rightarrow> World \<Rightarrow> Desired \<Rightarrow> Action list" where
  "plan_service H w d =
     (let (budget, unavailable) = replaceBudget w d (SpecHash H d) in
      rolling_gate d unavailable budget (planned_allocs H w d))"

definition recreating :: "Action list \<Rightarrow> string set" where
  "recreating acts =
     a_AllocID ` set (filter (\<lambda>a. a_Kind a \<in> {ActionRestart, ActionReplace, ActionRecover}) acts)"

definition action_order :: "Action \<Rightarrow> string \<times> string" where
  "action_order a = (a_AllocID a, kind_string (a_Kind a))"

definition plan_unsorted :: "digest \<Rightarrow> World \<Rightarrow> Action list" where
  "plan_unsorted H w =
     (let dbs = desired_by_service (w_Desired w);
          actions = concat (map (plan_service H w) (w_Desired w)) @
                    planOrphans w dbs (wanted_ids (w_Desired w))
      in actions @ initContainersToReap w dbs (recreating actions))"

definition Plan :: "digest \<Rightarrow> World \<Rightarrow> Action list" where
  "Plan H w = sort_key action_order (plan_unsorted H w)"

end
