(* ===== verification/Planner_Order.thy ===== *)
theory Planner_Order
  imports Planner
begin

text \<open>
  The planner is a function of the world's contents: Go may range over a map in any order, and the
  plan is the same for every one. The orphan pass considers every container and record exactly once.
\<close>

section \<open>Stable sorting and permuted groups\<close>

lemma sort_key_eqI:
  assumes "mset xs = mset ys" and "\<And>k. filter (\<lambda>x. f x = k) xs = filter (\<lambda>x. f x = k) ys"
  shows "sort_key f xs = sort_key f ys"
proof (rule properties_for_sort_key)
  show "mset (sort_key f ys) = mset xs" using assms(1) by simp
  show "filter (\<lambda>x. f k = f x) (sort_key f ys) = filter (\<lambda>x. f k = f x) xs"
    if "k \<in> set (sort_key f ys)" for k
    using sort_key_stable [of f "f k" ys] assms(2) [of "f k"] by (simp add: eq_commute [of "f k"])
  show "sorted (map f (sort_key f ys))" by simp
qed

lemma distinct_subset_single: "distinct zs \<Longrightarrow> set zs \<subseteq> {a} \<Longrightarrow> zs = [] \<or> zs = [a]"
  by (cases zs rule: remdups_adj.cases) auto

lemma filter_key_perm:
  assumes "mset xs = mset ys" and "inj_on f (set xs)" and "distinct xs"
  shows "filter (\<lambda>x. f x = k) xs = filter (\<lambda>x. f x = k) ys"
proof -
  let ?P = "\<lambda>x. f x = k"
  have eq: "mset (filter ?P xs) = mset (filter ?P ys)"
    using assms(1) by simp
  have "\<exists>a. set (filter ?P xs) \<subseteq> {a}"
    using assms(2) by (cases "\<exists>a\<in>set xs. f a = k") (auto simp: inj_on_def)
  then obtain a where "set (filter ?P xs) \<subseteq> {a}" ..
  with assms(3) have "filter ?P xs = [] \<or> filter ?P xs = [a]"
    by (intro distinct_subset_single) simp_all
  with eq show ?thesis
    by (metis mset_single_iff_right mset_zero_iff)
qed

section \<open>The orphan pass\<close>

text \<open>What \<open>consider\<close> is told about an id depends on the id and the records alone.\<close>

definition orphan_of :: "World \<Rightarrow> (string \<rightharpoonup> Desired) \<Rightarrow> string \<Rightarrow> Action" where
  "orphan_of w dbs i =
     (case rec_of w i of
        Some r \<Rightarrow> orphan_action dbs i (r_Project r) (r_Service r) (r_Index r)
      | None \<Rightarrow> orphan_action dbs i '''' '''' (- 1))"

text \<open>The ids of the containers and records that exist.\<close>

definition existing_ids :: "World \<Rightarrow> string list" where
  "existing_ids w = map fst (filter (\<lambda>(i, s). \<not> IsInit s) (w_Actual w)) @ map fst (w_Records w)"

lemma orphan_action_simps [simp]:
  "a_AllocID (orphan_action dbs i p s n) = i" "a_Kind (orphan_action dbs i p s n) = ActionRemove"
  "a_Project (orphan_action dbs i p s n) = p" "a_Service (orphan_action dbs i p s n) = s"
  "a_Index (orphan_action dbs i p s n) = n"
  by (simp_all add: orphan_action_def)

lemma orphan_of_simps [simp]:
  "a_AllocID (orphan_of w dbs i) = i" "a_Kind (orphan_of w dbs i) = ActionRemove"
  by (simp_all add: orphan_of_def split: option.splits)

definition candidate_of :: "World \<Rightarrow> string \<Rightarrow> string \<times> string \<times> string \<times> int" where
  "candidate_of w i =
     (case rec_of w i of
        Some r \<Rightarrow> (i, r_Project r, r_Service r, r_Index r)
      | None \<Rightarrow> (i, '''', '''', - 1))"

lemma orphan_candidates_eq:
  assumes "gm_wf (w_Records w)"
  shows "orphan_candidates w = map (candidate_of w) (existing_ids w)"
proof -
  have "candidate_of w i = (i, r_Project r, r_Service r, r_Index r)" if "(i, r) \<in> set (w_Records w)" for i r
    using that gm_wf_map_of_iff [OF assms, of i r] by (simp add: candidate_of_def)
  then have "map (\<lambda>(i, r). (i, r_Project r, r_Service r, r_Index r)) (w_Records w) =
             map (candidate_of w) (map fst (w_Records w))"
    by auto
  moreover have "map (\<lambda>(i, s). candidate_of w i) xs = map (candidate_of w) (map fst xs)" for xs :: "Status gomap"
    by auto
  ultimately show ?thesis
    by (simp add: orphan_candidates_def existing_ids_def flip: candidate_of_def)
qed

lemma consider_all_Cons_candidate:
  "consider_all dbs wanted seen (candidate_of w i # cs) =
     (if i \<in> seen then consider_all dbs wanted seen cs
      else if i \<in> wanted then consider_all dbs wanted (insert i seen) cs
      else orphan_of w dbs i # consider_all dbs wanted (insert i seen) cs)"
  by (simp add: candidate_of_def orphan_of_def split: option.splits)

lemma consider_all_set:
  "set (consider_all dbs wanted seen (map (candidate_of w) ids)) =
     orphan_of w dbs ` (set ids - wanted - seen)"
  by (induction ids arbitrary: seen) (auto simp: consider_all_Cons_candidate)

lemma consider_all_distinct:
  "distinct (map a_AllocID (consider_all dbs wanted seen (map (candidate_of w) ids)))"
proof (induction ids arbitrary: seen)
  case (Cons i ids)
  have "i \<notin> a_AllocID ` set (consider_all dbs wanted (insert i seen) (map (candidate_of w) ids))"
    by (auto simp: consider_all_set)
  with Cons show ?case by (simp add: consider_all_Cons_candidate)
qed simp

lemma set_planOrphans:
  "gm_wf (w_Records w) \<Longrightarrow>
   set (planOrphans w dbs wanted) = orphan_of w dbs ` (set (existing_ids w) - wanted)"
  by (simp add: planOrphans_def orphan_candidates_eq consider_all_set)

lemma distinct_planOrphans:
  "gm_wf (w_Records w) \<Longrightarrow> distinct (map a_AllocID (planOrphans w dbs wanted))"
  by (simp add: planOrphans_def orphan_candidates_eq consider_all_distinct)

section \<open>Independence of the iteration order\<close>

text \<open>Two worlds that differ at most in the order their maps are ranged over.\<close>

definition same_world :: "World \<Rightarrow> World \<Rightarrow> bool" where
  "same_world w w' \<longleftrightarrow>
     w_Desired w = w_Desired w' \<and> gm_same (w_Records w) (w_Records w') \<and>
     gm_same (w_Actual w) (w_Actual w') \<and> gm_same (w_InitActual w) (w_InitActual w') \<and>
     w_Now w = w_Now w' \<and> w_Witnessed w = w_Witnessed w'"

lemma same_world_lookup:
  assumes "same_world w w'"
  shows "map_of (w_Records w) = map_of (w_Records w')" "map_of (w_Actual w) = map_of (w_Actual w')"
    "map_of (w_InitActual w) = map_of (w_InitActual w')" "w_Desired w = w_Desired w'"
    "w_Now w = w_Now w'" "w_Witnessed w = w_Witnessed w'"
  using assms by (simp_all add: same_world_def gm_same_map_of)

lemma init_progress_from_cong:
  "map_of ia = map_of ia' \<Longrightarrow> init_progress_from ia a i ss = init_progress_from ia' a i ss"
  by (induction ss arbitrary: i) (simp_all add: Let_def)

lemma initProgress_same: "same_world w w' \<Longrightarrow> initProgress w d a = initProgress w' d a"
  unfolding initProgress_def by (rule init_progress_from_cong) (simp add: same_world_lookup)

lemma planAlloc_same:
  assumes "same_world w w'"
  shows "planAlloc w d i a h hs = planAlloc w' d i a h hs"
  unfolding planAlloc_def plan_missing_def plan_present_def planRestart_def planInit_def
    serviceInitDone_def witnessed_def same_world_lookup [OF assms] initProgress_same [OF assms]
  by (rule refl)

lemma is_running_same: "same_world w w' \<Longrightarrow> is_running w i = is_running w' i"
  by (simp add: is_running_def same_world_lookup)

lemma healthyServices_same:
  assumes "same_world w w'" shows "healthyServices w = healthyServices w'"
proof -
  have "service_ready w = service_ready w'"
    unfolding fun_eq_iff service_ready_def is_running_same [OF assms] same_world_lookup [OF assms]
    by blast
  then show ?thesis unfolding healthyServices_def same_world_lookup(4) [OF assms] by (rule arg_cong)
qed

lemma replaceBudget_same:
  assumes "same_world w w'" shows "replaceBudget w d h = replaceBudget w' d h"
proof -
  have "alloc_unavailable w d h = alloc_unavailable w' d h"
    unfolding fun_eq_iff alloc_unavailable_def is_running_same [OF assms] same_world_lookup [OF assms]
    by blast
  then show ?thesis by (simp add: replaceBudget_def)
qed

lemma plan_service_same:
  assumes "same_world w w'" shows "plan_service H w = plan_service H w'"
  by (rule ext) (simp add: plan_service_def planned_allocs_def replaceBudget_same [OF assms]
      healthyServices_same [OF assms] planAlloc_same [OF assms])

lemma existing_ids_same:
  assumes "same_world w w'" shows "set (existing_ids w) = set (existing_ids w')"
proof -
  have "set (w_Actual w) = set (w_Actual w')" and "set (w_Records w) = set (w_Records w')"
    using assms by (simp_all add: same_world_def gm_same_set)
  then show ?thesis by (simp add: existing_ids_def)
qed

lemma planOrphans_same:
  assumes "same_world w w'"
  shows "mset (planOrphans w dbs wanted) = mset (planOrphans w' dbs wanted)"
proof -
  have wf: "gm_wf (w_Records w)" "gm_wf (w_Records w')"
    using assms gm_same_wf by (auto simp: same_world_def gm_same_def)
  have "orphan_of w dbs = orphan_of w' dbs"
    unfolding fun_eq_iff orphan_of_def same_world_lookup [OF assms] by blast
  then have "set (planOrphans w dbs wanted) = set (planOrphans w' dbs wanted)"
    using wf by (simp add: set_planOrphans existing_ids_same [OF assms])
  moreover have "distinct (planOrphans w dbs wanted)" "distinct (planOrphans w' dbs wanted)"
    using distinct_planOrphans [OF wf(1)] distinct_planOrphans [OF wf(2)] by (simp_all add: distinct_map)
  ultimately show ?thesis by (simp add: set_eq_iff_mset_eq_distinct)
qed

lemma reap_action_simps [simp]:
  "a_AllocID (reap_action w i s) = i" "a_Kind (reap_action w i s) = ActionRemoveInit"
  "a_Service (reap_action w i s) = ''''"
  by (simp_all add: reap_action_def)

lemma initContainersToReap_same:
  assumes "same_world w w'"
  shows "mset (initContainersToReap w dbs R) = mset (initContainersToReap w' dbs R)"
proof -
  have "reap_keep w dbs = reap_keep w' dbs" and "reap_action w = reap_action w'"
    unfolding fun_eq_iff reap_keep_def reap_action_def same_world_lookup [OF assms]
      initProgress_same [OF assms] by blast+
  moreover have "mset (w_InitActual w) = mset (w_InitActual w')"
    using assms by (simp add: same_world_def gm_same_def)
  ultimately show ?thesis by (simp add: initContainersToReap_def)
qed

lemma distinct_initContainersToReap:
  assumes "gm_wf (w_InitActual w)"
  shows "distinct (map a_AllocID (initContainersToReap w dbs R))"
proof -
  have "map a_AllocID (initContainersToReap w dbs R) =
        map fst (filter (\<lambda>(i, s). is_AllocID s \<notin> R \<and> \<not> reap_keep w dbs i s) (w_InitActual w))"
    by (auto simp: initContainersToReap_def)
  then show ?thesis using assms by (simp add: gm_wf_def distinct_map_filter)
qed

lemma inj_on_action_order:
  assumes "distinct (map a_AllocID xs)"
  shows "inj_on action_order (set xs)" and "distinct xs"
  using assms by (auto simp: distinct_map inj_on_def action_order_def)

text \<open>
  The plan does not depend on the order Go happens to range over the maps of the world: two
  passes that see the same records, containers and init containers compute the same actions in the
  same order.
\<close>

theorem Plan_deterministic:
  assumes "same_world w w'"
  shows "Plan H w = Plan H w'"
proof -
  let ?dbs = "desired_by_service (w_Desired w)"
  let ?ids = "wanted_ids (w_Desired w)"
  let ?A = "concat (map (plan_service H w) (w_Desired w))"
  let ?O = "planOrphans w ?dbs ?ids" and ?O' = "planOrphans w' ?dbs ?ids"
  let ?R = "initContainersToReap w ?dbs (recreating (?A @ ?O))"
  let ?R' = "initContainersToReap w' ?dbs (recreating (?A @ ?O))"
  have wf: "gm_wf (w_Records w)" "gm_wf (w_InitActual w)"
    using assms by (auto simp: same_world_def gm_same_def)
  have O: "mset ?O = mset ?O'" and R: "mset ?R = mset ?R'"
    using planOrphans_same [OF assms] initContainersToReap_same [OF assms] by blast+
  have "recreating (?A @ ?O) = recreating (?A @ ?O')"
    using mset_eq_setD [OF O] by (simp add: recreating_def)
  then have w': "plan_unsorted H w' = ?A @ ?O' @ ?R'" and w: "plan_unsorted H w = ?A @ ?O @ ?R"
    by (simp_all add: plan_unsorted_def plan_service_same [OF assms] same_world_lookup(4) [OF assms]
        Let_def)
  show ?thesis unfolding Plan_def w w'
  proof (rule sort_key_eqI)
    show "mset (?A @ ?O @ ?R) = mset (?A @ ?O' @ ?R')" using O R by simp
    show "filter (\<lambda>x. action_order x = k) (?A @ ?O @ ?R) =
          filter (\<lambda>x. action_order x = k) (?A @ ?O' @ ?R')" for k
      using filter_key_perm [OF O inj_on_action_order [OF distinct_planOrphans [OF wf(1)]]]
        filter_key_perm [OF R inj_on_action_order [OF distinct_initContainersToReap [OF wf(2)]]]
      by simp
  qed
qed

end
