(* ===== verification/Planner_Rollout.thy ===== *)
theory Planner_Rollout
  imports Planner_Order
begin

text \<open>
  The rolling deploy: how many allocs of a service one plan disturbs. The number of replacements is
  computed exactly, and from it both the safety half (a plan never takes more of a service down than
  its update policy allows) and the progress half (a deploy that may advance does) follow.
\<close>

section \<open>The shape of one alloc's actions\<close>

lemma base_action_simps [simp]:
  "a_AllocID (base_action d i a) = a" "a_Project (base_action d i a) = d_Project d"
  "a_Service (base_action d i a) = d_Service d" "a_Index (base_action d i a) = i"
  "a_Kind (base_action d i a) = ActionWait" "a_Init (base_action d i a) = None"
  by (simp_all add: base_action_def)

definition about :: "Desired \<Rightarrow> int \<Rightarrow> string \<Rightarrow> Action \<Rightarrow> bool" where
  "about d i a act \<longleftrightarrow>
     a_AllocID act = a \<and> a_Project act = d_Project d \<and> a_Service act = d_Service d \<and> a_Index act = i"

lemma plan_missing_about:
  "x \<in> set (plan_missing w d i a h hs (base_action d i a)) \<Longrightarrow> about d i a x"
  by (auto simp: plan_missing_def about_def Let_def split: if_splits option.splits prod.splits)

lemma planInit_about: "x \<in> set (planInit w d (base_action d i a) r) \<Longrightarrow> about d i a x"
  by (auto simp: planInit_def about_def Let_def split: if_splits option.splits)

lemma plan_present_about: "x \<in> set (plan_present w d (base_action d i a) r st s) \<Longrightarrow> about d i a x"
  by (auto simp: plan_present_def planRestart_def about_def split: if_splits State.splits)

lemma planAlloc_about: "x \<in> set (planAlloc w d i a h hs) \<Longrightarrow> about d i a x"
  unfolding planAlloc_def Let_def
  by (auto split: if_splits option.splits dest: plan_missing_about planInit_about plan_present_about)
    (auto simp: about_def)

lemma length_plan_missing: "length (plan_missing w d i a h hs b) \<le> 1"
  unfolding plan_missing_def Let_def by (cases "rec_of w a") (auto split: prod.split)

lemma length_planInit: "length (planInit w d b r) \<le> 1"
  by (simp add: planInit_def Let_def split: option.splits)

lemma length_plan_present: "length (plan_present w d b r st s) \<le> 1"
  by (simp add: plan_present_def planRestart_def split: State.splits)

lemma length_planAlloc: "length (planAlloc w d i a h hs) \<le> 1"
  using length_plan_missing length_planInit length_plan_present
  by (simp add: planAlloc_def Let_def split: option.splits)

lemma distinct_map_short: "length xs \<le> 1 \<Longrightarrow> distinct (map f xs)"
  by (cases xs rule: remdups_adj.cases) auto

section \<open>When an alloc is rolled\<close>

definition rollable :: "World \<Rightarrow> Desired \<Rightarrow> string \<Rightarrow> int \<Rightarrow> bool" where
  "rollable w d h i \<longleftrightarrow>
     (let a = AllocID (d_Project d) (d_Service d) i in
      is_running w a \<and>
      (case rec_of w a of None \<Rightarrow> False
       | Some r \<Rightarrow> drifted r h \<and> \<not> (r_State r = AllocInit \<and> i = InitLeaderIndex)))"

lemma plan_missing_not_Replace:
  "x \<in> set (plan_missing w d i a h hs b) \<Longrightarrow> a_Kind x \<noteq> ActionReplace"
  by (auto simp: plan_missing_def Let_def split: if_splits option.splits prod.splits)

lemma planInit_kinds:
  "x \<in> set (planInit w d b r) \<Longrightarrow> a_Kind x \<in> {ActionCreate, ActionInitStep, ActionWait}"
  by (auto simp: planInit_def Let_def split: if_splits option.splits)

lemma planRestart_kinds:
  "x \<in> set (planRestart w d b r s) \<Longrightarrow> a_Kind x \<in> {ActionRecover, ActionRemove, ActionRestart}"
  by (auto simp: planRestart_def split: if_splits)

lemma plan_present_Replace:
  "x \<in> set (plan_present w d b r st s) \<Longrightarrow> a_Kind x = ActionReplace \<longleftrightarrow> st \<and> st_State s = StateRunning"
  by (auto simp: plan_present_def split: if_splits State.splits dest: planRestart_kinds)

lemma planAlloc_Replace_iff:
  "(\<exists>x\<in>set (planAlloc w d i (AllocID (d_Project d) (d_Service d) i) h hs). a_Kind x = ActionReplace)
     \<longleftrightarrow> rollable w d h i"
proof -
  let ?a = "AllocID (d_Project d) (d_Service d) i"
  show ?thesis
  proof (cases "actual_of w ?a")
    case None
    then show ?thesis
      by (auto simp: planAlloc_def rollable_def is_running_def Let_def split: if_splits option.splits
          dest: plan_missing_not_Replace planInit_kinds)
  next
    case (Some s)
    then show ?thesis
      by (fastforce simp: planAlloc_def rollable_def is_running_def plan_present_def Let_def
          split: if_splits option.splits State.splits dest: planInit_kinds planRestart_kinds)
  qed
qed

abbreviation is_replace :: "Action \<Rightarrow> bool" where
  "is_replace a \<equiv> a_Kind a = ActionReplace"

lemma count_le_one:
  "length xs \<le> 1 \<Longrightarrow> length (filter P xs) = (if \<exists>x\<in>set xs. P x then 1 else 0)"
  by (cases xs rule: remdups_adj.cases) auto

lemma count_planned_replace:
  "length (filter is_replace (planned_allocs H w d)) =
   length (filter (rollable w d (SpecHash H d)) (range_int (d_Count d)))"
proof -
  have "length (filter is_replace (concat (map (\<lambda>i. planAlloc w d i (AllocID (d_Project d) (d_Service d) i) h hs) is)))
        = length (filter (rollable w d h) is)" for h hs "is"
    by (induction "is") (simp_all add: count_le_one [OF length_planAlloc] planAlloc_Replace_iff)
  then show ?thesis by (simp add: planned_allocs_def)
qed

section \<open>The gate\<close>

lemma count_rolling_gate:
  "length (filter is_replace (rolling_gate d u b xs)) = min (length (filter is_replace xs)) (nat b)"
proof (induction xs arbitrary: b)
  case (Cons x xs)
  then show ?case by (auto simp: min_def nat_diff_distrib' split: if_splits)
qed simp

lemma rolling_gate_about:
  assumes "x \<in> set (rolling_gate d u b xs)"
  shows "\<exists>y\<in>set xs. a_AllocID x = a_AllocID y \<and> a_Project x = a_Project y \<and>
    a_Service x = a_Service y \<and> a_Index x = a_Index y \<and>
    (a_Kind x = a_Kind y \<or> (a_Kind y = ActionReplace \<and> a_Kind x = ActionWait)) \<and>
    (is_replace x \<longrightarrow> x = y)"
  using assms by (induction xs arbitrary: b) (auto split: if_splits)

lemma rolling_gate_non_replace:
  "y \<in> set xs \<Longrightarrow> \<not> is_replace y \<Longrightarrow> y \<in> set (rolling_gate d u b xs)"
  by (induction xs arbitrary: b) auto

lemma planned_allocs_about:
  "x \<in> set (planned_allocs H w d) \<Longrightarrow>
   \<exists>i. 0 \<le> i \<and> i < d_Count d \<and> about d i (AllocID (d_Project d) (d_Service d) i) x"
  by (auto simp: planned_allocs_def dest: planAlloc_about)

lemma plan_service_about:
  assumes "x \<in> set (plan_service H w d)"
  shows "\<exists>i. 0 \<le> i \<and> i < d_Count d \<and> about d i (AllocID (d_Project d) (d_Service d) i) x"
proof -
  obtain b u where "x \<in> set (rolling_gate d u b (planned_allocs H w d))"
    using assms by (auto simp: plan_service_def split: prod.splits)
  from rolling_gate_about [OF this] show ?thesis
    using planned_allocs_about by (fastforce simp: about_def)
qed

text \<open>The planned indices of a service are listed in order, so no index is planned twice.\<close>

lemma distinct_planned_index: "distinct (map a_Index (planned_allocs H w d))"
proof -
  have "distinct (map a_Index (concat (map (\<lambda>i. planAlloc w d i (AllocID (d_Project d) (d_Service d) i) h hs) is)))"
    if "distinct is" for h hs "is"
    using that
  proof (induction "is")
    case (Cons i "is")
    have "distinct (map a_Index (planAlloc w d i (AllocID (d_Project d) (d_Service d) i) h hs))"
      by (rule distinct_map_short [OF length_planAlloc])
    moreover have "a_Index x = j" if "x \<in> set (planAlloc w d j (AllocID (d_Project d) (d_Service d) j) h hs)" for x j
      using planAlloc_about [OF that] by (simp add: about_def)
    ultimately show ?case using Cons by fastforce
  qed simp
  then show ?thesis by (simp add: planned_allocs_def)
qed

lemma map_index_rolling_gate: "map a_Index (rolling_gate d u b xs) = map a_Index xs"
  by (induction xs arbitrary: b) auto

lemma distinct_plan_service_index: "distinct (map a_Index (plan_service H w d))"
  by (simp add: plan_service_def map_index_rolling_gate distinct_planned_index split: prod.splits)

section \<open>Unavailable and replaced allocs of a service\<close>

definition unavailable_allocs :: "digest \<Rightarrow> World \<Rightarrow> Desired \<Rightarrow> int set" where
  "unavailable_allocs H w d = {i \<in> {0..<d_Count d}. alloc_unavailable w d (SpecHash H d) i}"

definition rollable_allocs :: "digest \<Rightarrow> World \<Rightarrow> Desired \<Rightarrow> int set" where
  "rollable_allocs H w d = {i \<in> {0..<d_Count d}. rollable w d (SpecHash H d) i}"

definition replaced_allocs :: "Action list \<Rightarrow> Desired \<Rightarrow> int set" where
  "replaced_allocs acts d =
     a_Index ` {a \<in> set acts. is_replace a \<and> a_Project a = d_Project d \<and> a_Service a = d_Service d}"

text \<open>The Store keys desired state by project and service, so no two entries share both.\<close>

definition unique_services :: "Desired list \<Rightarrow> bool" where
  "unique_services ds \<longleftrightarrow> distinct (map (\<lambda>d. (d_Project d, d_Service d)) ds)"

lemma unique_servicesD:
  "unique_services ds \<Longrightarrow> d \<in> set ds \<Longrightarrow> e \<in> set ds \<Longrightarrow> d_Project d = d_Project e \<Longrightarrow>
   d_Service d = d_Service e \<Longrightarrow> d = e"
  by (auto simp: unique_services_def distinct_map inj_on_def)

lemma length_filter_range: "length (filter P (range_int n)) = card {i \<in> {0..<n}. P i}"
  by (subst distinct_card [symmetric]) (auto intro: arg_cong [where f = card])

lemma replaceBudget_eq:
  "nat (fst (replaceBudget w d (SpecHash H d))) =
   (if d_Count d = 0 then 0
    else nat (maxParallel (d_Update d) (d_Count d)) - card (unavailable_allocs H w d))"
  by (simp add: replaceBudget_def length_filter_range unavailable_allocs_def Let_def nat_diff_distrib')

lemma set_Plan: "set (Plan H w) = set (plan_unsorted H w)"
  by (simp add: Plan_def)

lemma set_plan_unsorted:
  "set (plan_unsorted H w) =
     (\<Union>d\<in>set (w_Desired w). set (plan_service H w d)) \<union>
     set (planOrphans w (desired_by_service (w_Desired w)) (wanted_ids (w_Desired w))) \<union>
     set (initContainersToReap w (desired_by_service (w_Desired w))
        (recreating (concat (map (plan_service H w) (w_Desired w)) @
           planOrphans w (desired_by_service (w_Desired w)) (wanted_ids (w_Desired w)))))"
  by (simp add: plan_unsorted_def Let_def Un_assoc)

lemma consider_all_kind: "x \<in> set (consider_all dbs wt sn cs) \<Longrightarrow> a_Kind x = ActionRemove"
  by (induction dbs wt sn cs rule: consider_all.induct) (auto split: if_splits)

lemma planOrphans_kind: "x \<in> set (planOrphans w dbs wt) \<Longrightarrow> a_Kind x = ActionRemove"
  by (auto simp: planOrphans_def dest: consider_all_kind)

lemma initContainersToReap_kind: "x \<in> set (initContainersToReap w dbs R) \<Longrightarrow> a_Kind x = ActionRemoveInit"
  by (auto simp: initContainersToReap_def)

lemma Plan_service_action:
  assumes "x \<in> set (Plan H w)" and "a_Kind x \<noteq> ActionRemove" and "a_Kind x \<noteq> ActionRemoveInit"
  obtains d where "d \<in> set (w_Desired w)" and "x \<in> set (plan_service H w d)"
  using assms by (auto simp: set_Plan set_plan_unsorted dest: planOrphans_kind initContainersToReap_kind)

lemma replaced_allocs_Plan:
  assumes "unique_services (w_Desired w)" and "d \<in> set (w_Desired w)"
  shows "replaced_allocs (Plan H w) d = a_Index ` set (filter is_replace (plan_service H w d))"
proof -
  have "x \<in> set (plan_service H w d)"
    if x: "x \<in> set (Plan H w)" "is_replace x" "a_Project x = d_Project d" "a_Service x = d_Service d" for x
  proof -
    obtain e where e: "e \<in> set (w_Desired w)" "x \<in> set (plan_service H w e)"
      using Plan_service_action [OF x(1)] x(2) by auto
    then have "a_Project x = d_Project e" "a_Service x = d_Service e"
      using plan_service_about by (auto simp: about_def)
    with x e assms have "d = e" by (metis unique_servicesD)
    with e show ?thesis by simp
  qed
  moreover have "a_Project x = d_Project d \<and> a_Service x = d_Service d" if "x \<in> set (plan_service H w d)" for x
    using plan_service_about [OF that] by (auto simp: about_def)
  ultimately show ?thesis
    using assms(2) by (auto simp: replaced_allocs_def set_Plan set_plan_unsorted)
qed

lemma card_replaced_allocs:
  assumes "unique_services (w_Desired w)" and "d \<in> set (w_Desired w)"
  shows "card (replaced_allocs (Plan H w) d) =
         min (card (rollable_allocs H w d)) (nat (fst (replaceBudget w d (SpecHash H d))))"
proof -
  let ?R = "filter is_replace (plan_service H w d)"
  have "distinct (map a_Index ?R)"
    using distinct_plan_service_index by (rule distinct_map_filter)
  then have "card (replaced_allocs (Plan H w) d) = length ?R"
    using replaced_allocs_Plan [OF assms] distinct_card [of "map a_Index ?R"] by simp
  also have "\<dots> = min (card (rollable_allocs H w d)) (nat (fst (replaceBudget w d (SpecHash H d))))"
    by (simp add: plan_service_def count_rolling_gate count_planned_replace rollable_allocs_def
        length_filter_range split: prod.splits)
  finally show ?thesis .
qed


text \<open>
  C2. A deploy makes progress exactly as fast as the policy allows: the number of allocs a plan
  replaces is the smaller of the number still running an old spec and the room \<open>max_parallel\<close>
  leaves beside the allocs already unavailable. In particular a plan with room and an outdated
  running alloc replaces at least one.
\<close>

theorem rollout_progress:
  assumes "unique_services (w_Desired w)" and "d \<in> set (w_Desired w)"
  shows "card (replaced_allocs (Plan H w) d) =
         min (card (rollable_allocs H w d))
             (nat (maxParallel (d_Update d) (d_Count d)) - card (unavailable_allocs H w d))"
proof (cases "d_Count d = 0")
  case True
  then show ?thesis
    using card_replaced_allocs [OF assms, of H] by (simp add: rollable_allocs_def replaceBudget_eq)
next
  case False
  then show ?thesis using card_replaced_allocs [OF assms, of H] by (simp add: replaceBudget_eq)
qed

end
