(* ===== verification/Planner_Lifecycle.thy ===== *)
theory Planner_Lifecycle
  imports Planner_Rollout
begin

text \<open>
  What the planner decides for each alloc over its life: when it is created, restarted, recovered,
  removed or left alone, in which order its init steps run, and which leftovers are swept away.
\<close>

section \<open>Where an action of the plan comes from\<close>

definition alloc_plan :: "digest \<Rightarrow> World \<Rightarrow> Desired \<Rightarrow> int \<Rightarrow> Action list" where
  "alloc_plan H w d i =
     planAlloc w d i (AllocID (d_Project d) (d_Service d) i) (SpecHash H d) (healthyServices w)"

lemma planned_allocs_alt:
  "planned_allocs H w d = concat (map (alloc_plan H w d) (range_int (d_Count d)))"
  by (simp add: planned_allocs_def alloc_plan_def [abs_def])

lemma rolling_gate_cases:
  assumes "x \<in> set (rolling_gate d u b xs)"
  obtains "x \<in> set xs"
  | y where "y \<in> set xs" and "is_replace y"
      and "x = y\<lparr>a_Kind := ActionWait, a_Reason := deferred_reason d u\<rparr>"
  using assms by (induction xs arbitrary: b thesis) (auto split: if_splits)

lemma plan_service_cases:
  assumes "x \<in> set (plan_service H w d)" and "a_Kind x \<noteq> ActionWait"
  obtains i where "0 \<le> i" and "i < d_Count d" and "x \<in> set (alloc_plan H w d i)"
proof -
  obtain b u where "x \<in> set (rolling_gate d u b (planned_allocs H w d))"
    using assms by (auto simp: plan_service_def split: prod.splits)
  then have "x \<in> set (planned_allocs H w d)"
    using assms(2) by (auto elim: rolling_gate_cases)
  then show thesis using that by (auto simp: planned_allocs_alt)
qed

lemma plan_service_non_replace:
  assumes "y \<in> set (alloc_plan H w d i)" and "0 \<le> i" and "i < d_Count d" and "\<not> is_replace y"
  shows "y \<in> set (plan_service H w d)"
proof -
  have "y \<in> set (planned_allocs H w d)" using assms by (auto simp: planned_allocs_alt)
  then show ?thesis
    using assms(4) by (cases "replaceBudget w d (SpecHash H d)") (simp add: plan_service_def rolling_gate_non_replace)
qed

lemma rolling_gate_Nil_iff [simp]: "rolling_gate d u b xs = [] \<longleftrightarrow> xs = []"
  by (cases xs) auto

lemma plan_service_Nil_iff:
  "plan_service H w d = [] \<longleftrightarrow> (\<forall>i. 0 \<le> i \<and> i < d_Count d \<longrightarrow> alloc_plan H w d i = [])"
  by (auto simp: plan_service_def planned_allocs_alt split: prod.splits)

lemma alloc_plan_id:
  "x \<in> set (alloc_plan H w d i) \<Longrightarrow> a_AllocID x = AllocID (d_Project d) (d_Service d) i"
  by (auto simp: alloc_plan_def about_def dest: planAlloc_about)

lemma plan_service_wanted:
  "d \<in> set (w_Desired w) \<Longrightarrow> x \<in> set (plan_service H w d) \<Longrightarrow> a_AllocID x \<in> wanted_ids (w_Desired w)"
  using plan_service_about [of x H w d]
  by (force simp: wanted_ids_def service_ids_def about_def)

text \<open>Every action that is neither a wait nor a sweep comes from an orphan or from one alloc's plan.\<close>

lemma Plan_cases:
  assumes "x \<in> set (Plan H w)" and "a_Kind x \<noteq> ActionWait" and "a_Kind x \<noteq> ActionRemoveInit"
  obtains (alloc) d i where "d \<in> set (w_Desired w)" and "0 \<le> i" and "i < d_Count d"
      and "x \<in> set (alloc_plan H w d i)"
  | (orphan) "x \<in> set (planOrphans w (desired_by_service (w_Desired w)) (wanted_ids (w_Desired w)))"
proof -
  have "(\<exists>d\<in>set (w_Desired w). x \<in> set (plan_service H w d)) \<or>
        x \<in> set (planOrphans w (desired_by_service (w_Desired w)) (wanted_ids (w_Desired w)))"
    using assms by (auto simp: set_Plan set_plan_unsorted dest: initContainersToReap_kind)
  then show thesis using that assms(2) by (auto elim: plan_service_cases)
qed

lemma Plan_alloc_cases:
  assumes "x \<in> set (Plan H w)" and "a_Kind x \<notin> {ActionWait, ActionRemove, ActionRemoveInit}"
  obtains d i where "d \<in> set (w_Desired w)" and "0 \<le> i" and "i < d_Count d"
      and "x \<in> set (alloc_plan H w d i)"
  using assms by (auto elim!: Plan_cases [of x H w] dest: planOrphans_kind)

lemma length_alloc_plan: "length (alloc_plan H w d i) \<le> Suc 0"
  using length_planAlloc by (simp add: alloc_plan_def)

section \<open>Nothing that is not wanted survives\<close>

lemma filter_sort_key_const:
  assumes "\<And>x. x \<in> set (filter P xs) \<Longrightarrow> x = y" and "length (filter P xs) = 1"
  shows "filter P (sort_key f xs) = [y]"
proof -
  have "length (filter P (sort_key f xs)) = 1"
    using assms(2) by (metis mset_filter mset_sort size_mset)
  then obtain z where "filter P (sort_key f xs) = [z]"
    by (metis One_nat_def length_0_conv length_Suc_conv)
  moreover from this have "z \<in> set (filter P xs)"
    by (metis filter_set list.set_intros(1) set_sort)
  ultimately show ?thesis using assms(1) by simp
qed

lemma filter_distinct_single:
  assumes "distinct (map f xs)" and "y \<in> set xs"
  shows "filter (\<lambda>x. f x = f y) xs = [y]"
  using assms by (induction xs) (auto simp: filter_empty_conv image_iff)

text \<open>
  Reconciliation removes what is not desired: a container or a record whose id no service asks
  for gets exactly one action, its removal, and the action names the project, service and index the
  record gives.
\<close>

theorem orphan_removed_once:
  assumes "gm_wf (w_Records w)" and "i \<in> set (existing_ids w)" and "i \<notin> wanted_ids (w_Desired w)"
  shows "filter (\<lambda>x. a_AllocID x = i \<and> a_Kind x \<noteq> ActionRemoveInit) (Plan H w) =
         [orphan_of w (desired_by_service (w_Desired w)) i]"
proof -
  let ?dbs = "desired_by_service (w_Desired w)" and ?W = "wanted_ids (w_Desired w)"
  let ?o = "orphan_of w ?dbs i"
  let ?P = "\<lambda>x. a_AllocID x = i \<and> a_Kind x \<noteq> ActionRemoveInit"
  have "filter ?P (planOrphans w ?dbs ?W) = filter (\<lambda>x. a_AllocID x = a_AllocID ?o) (planOrphans w ?dbs ?W)"
    by (rule filter_cong) (auto dest: planOrphans_kind)
  also have "\<dots> = [?o]"
    using assms by (intro filter_distinct_single distinct_planOrphans) (simp_all add: set_planOrphans)
  finally have orphans: "filter ?P (planOrphans w ?dbs ?W) = [?o]" .
  moreover have "filter ?P (concat (map (plan_service H w) (w_Desired w))) = []"
    using assms(3) plan_service_wanted by (fastforce simp: filter_empty_conv)
  moreover have "filter ?P (initContainersToReap w ?dbs R) = []" for R
    by (auto simp: filter_empty_conv dest: initContainersToReap_kind)
  ultimately have "filter ?P (plan_unsorted H w) = [?o]"
    by (simp add: plan_unsorted_def Let_def)
  then show ?thesis unfolding Plan_def by (intro filter_sort_key_const) simp_all
qed

section \<open>When an alloc is removed\<close>

abbreviation d_id :: "Desired \<Rightarrow> int \<Rightarrow> string" where
  "d_id d i \<equiv> AllocID (d_Project d) (d_Service d) i"

text \<open>A witnessed exit of a container of the current spec, with every restart attempt used up.\<close>

definition exhausted :: "digest \<Rightarrow> World \<Rightarrow> Desired \<Rightarrow> int \<Rightarrow> bool" where
  "exhausted H w d i \<longleftrightarrow>
     witnessed w (d_id d i) \<and>
     (\<exists>s. actual_of w (d_id d i) = Some s \<and> st_State s = StateStopped) \<and>
     (\<exists>r. rec_of w (d_id d i) = Some r \<and> \<not> drifted r (SpecHash H d) \<and>
          attempts (d_Restart d) \<le> r_Restarts r)"

lemma plan_missing_not_Remove:
  "x \<in> set (plan_missing w d i a h hs b) \<Longrightarrow> a_Kind x \<noteq> ActionRemove"
  by (auto simp: plan_missing_def Let_def split: if_splits option.splits prod.splits)

lemma planRestart_Remove:
  "x \<in> set (planRestart w d b r s) \<Longrightarrow> a_Kind x = ActionRemove \<Longrightarrow>
   witnessed w (a_AllocID b) \<and> attempts (d_Restart d) \<le> r_Restarts r"
  by (auto simp: planRestart_def split: if_splits)

lemma plan_present_Remove:
  "x \<in> set (plan_present w d b r st s) \<Longrightarrow> a_Kind x = ActionRemove \<Longrightarrow>
   witnessed w (a_AllocID b) \<and> attempts (d_Restart d) \<le> r_Restarts r \<and> \<not> st \<and> st_State s = StateStopped"
  by (auto simp: plan_present_def split: if_splits State.splits dest: planRestart_Remove)

lemma alloc_plan_Remove:
  assumes "x \<in> set (alloc_plan H w d i)" and "a_Kind x = ActionRemove"
  shows "exhausted H w d i"
proof -
  note x = assms(1) [unfolded alloc_plan_def planAlloc_def Let_def]
  show ?thesis
  proof (cases "rec_of w (d_id d i)")
    case None
    with x assms(2) attempts_pos [of "d_Restart d"] show ?thesis
      by (auto simp: zero_record_def split: option.splits
          dest: plan_missing_not_Remove plan_present_Remove)
  next
    case (Some r)
    with x assms(2) show ?thesis
      by (auto simp: exhausted_def split: option.splits if_splits
          dest: plan_missing_not_Remove plan_present_Remove planInit_kinds)
  qed
qed

text \<open>
  The planner never removes a wanted alloc it could still restart: a removal is either of
  something no service asks for, or of an alloc whose exit this process witnessed, that runs the
  current spec and has used up every restart attempt of its policy.
\<close>

theorem remove_only_unwanted_or_exhausted:
  assumes "x \<in> set (Plan H w)" and "a_Kind x = ActionRemove" and "gm_wf (w_Records w)"
  shows "a_AllocID x \<in> set (existing_ids w) - wanted_ids (w_Desired w) \<or>
         (\<exists>d\<in>set (w_Desired w). \<exists>i. 0 \<le> i \<and> i < d_Count d \<and> a_AllocID x = d_id d i \<and> exhausted H w d i)"
proof -
  have "a_Kind x \<noteq> ActionWait" and "a_Kind x \<noteq> ActionRemoveInit" using assms(2) by simp_all
  then show ?thesis
  proof (cases rule: Plan_cases [OF assms(1), consumes 2, case_names alloc orphan])
    case (alloc d i)
    then show ?thesis using alloc_plan_Remove [OF alloc(4) assms(2)] alloc_plan_id [OF alloc(4)] by blast
  next
    case orphan
    then show ?thesis using assms(3) by (auto simp: set_planOrphans)
  qed
qed

section \<open>One action per alloc\<close>

lemma distinct_alloc_plans:
  assumes "distinct (map f is)" and "\<And>i x. x \<in> set (g i) \<Longrightarrow> a_AllocID x = f i"
    and "\<And>i. length (g i) \<le> 1"
  shows "distinct (map a_AllocID (concat (map g is)))"
  using assms(1)
proof (induction "is")
  case (Cons i "is")
  moreover have "distinct (map a_AllocID (g i))" by (rule distinct_map_short [OF assms(3)])
  ultimately show ?case using assms(2) by fastforce
qed simp

lemma map_id_rolling_gate: "map a_AllocID (rolling_gate d u b xs) = map a_AllocID xs"
  by (induction xs arbitrary: b) auto

lemma distinct_plan_service_id:
  assumes "distinct (service_ids d)" shows "distinct (map a_AllocID (plan_service H w d))"
proof -
  have "distinct (map a_AllocID (planned_allocs H w d))"
    unfolding planned_allocs_alt
  proof (rule distinct_alloc_plans [where f = "d_id d"])
    show "distinct (map (d_id d) (range_int (d_Count d)))" using assms by (simp add: service_ids_def)
  qed (simp_all add: alloc_plan_id length_alloc_plan)
  then show ?thesis
    by (cases "replaceBudget w d (SpecHash H d)") (simp add: plan_service_def map_id_rolling_gate)
qed

lemma plan_service_id_sub: "a_AllocID ` set (plan_service H w d) \<subseteq> set (service_ids d)"
  using plan_service_about [of _ H w d] by (force simp: service_ids_def about_def)

lemma distinct_services_plan:
  assumes "distinct (concat (map service_ids ds))"
  shows "distinct (map a_AllocID (concat (map (plan_service H w) ds)))"
  using assms
proof (induction ds)
  case (Cons d ds)
  have "a_AllocID ` set (concat (map (plan_service H w) ds)) \<subseteq> set (concat (map service_ids ds))"
    using plan_service_id_sub by fastforce
  then have "a_AllocID ` set (plan_service H w d) \<inter> a_AllocID ` set (concat (map (plan_service H w) ds)) = {}"
    using Cons.prems plan_service_id_sub [of H w d] by auto
  then show ?case using Cons distinct_plan_service_id by simp
qed simp

text \<open>
  A plan never holds two conflicting orders for one alloc: as long as the declared services do
  not share an alloc id, every alloc has at most one action in the plan.
\<close>

theorem one_action_per_alloc:
  assumes "distinct (concat (map service_ids (w_Desired w)))" and "gm_wf (w_Records w)"
  shows "distinct (map a_AllocID (filter (\<lambda>x. a_Kind x \<noteq> ActionRemoveInit) (Plan H w)))"
proof -
  let ?dbs = "desired_by_service (w_Desired w)" and ?W = "wanted_ids (w_Desired w)"
  let ?A = "concat (map (plan_service H w) (w_Desired w))" and ?O = "planOrphans w ?dbs ?W"
  let ?P = "\<lambda>x. a_Kind x \<noteq> ActionRemoveInit"
  have "a_AllocID ` set ?A \<inter> a_AllocID ` set ?O = {}"
    using plan_service_wanted assms(2) by (fastforce simp: set_planOrphans)
  then have "distinct (map a_AllocID (?A @ ?O))"
    using distinct_services_plan [OF assms(1)] distinct_planOrphans [OF assms(2)] by simp
  then have "distinct (map a_AllocID (filter ?P (?A @ ?O)))"
    by (rule distinct_map_filter)
  moreover have "filter ?P (initContainersToReap w ?dbs R) = []" for R
    by (auto simp: filter_empty_conv dest: initContainersToReap_kind)
  ultimately have "distinct (map a_AllocID (filter ?P (plan_unsorted H w)))"
    by (simp add: plan_unsorted_def Let_def)
  moreover have "mset (map a_AllocID (filter ?P (Plan H w))) = mset (map a_AllocID (filter ?P (plan_unsorted H w)))"
    by (simp add: Plan_def)
  ultimately show ?thesis using mset_eq_imp_distinct_iff by blast
qed

end
