(* ===== verification/Planner_Steady.thy ===== *)
theory Planner_Steady
  imports Planner_Lifecycle
begin

text \<open>
  When the planner has nothing to do, and what a restart or a recovery is charged to: convergence of
  the loop and the accounting of the restart budget.
\<close>

section \<open>The settled states of an alloc\<close>

text \<open>The operator has to act: the restart budget of this very spec is spent.\<close>

definition given_up :: "digest \<Rightarrow> World \<Rightarrow> Desired \<Rightarrow> int \<Rightarrow> bool" where
  "given_up H w d i \<longleftrightarrow>
     (case rec_of w (d_id d i) of None \<Rightarrow> False
      | Some r \<Rightarrow> r_State r = AllocFailed \<and> \<not> drifted r (SpecHash H d))"

text \<open>An init sequence the leader is in the middle of.\<close>

definition initialising :: "World \<Rightarrow> Desired \<Rightarrow> int \<Rightarrow> bool" where
  "initialising w d i \<longleftrightarrow>
     (case rec_of w (d_id d i) of None \<Rightarrow> False
      | Some r \<Rightarrow> r_State r = AllocInit \<and> i = InitLeaderIndex)"

definition up_to_date :: "digest \<Rightarrow> World \<Rightarrow> Desired \<Rightarrow> int \<Rightarrow> bool" where
  "up_to_date H w d i \<longleftrightarrow>
     (case rec_of w (d_id d i) of None \<Rightarrow> True | Some r \<Rightarrow> \<not> drifted r (SpecHash H d))"

definition serving :: "digest \<Rightarrow> World \<Rightarrow> Desired \<Rightarrow> int \<Rightarrow> bool" where
  "serving H w d i \<longleftrightarrow> is_running w (d_id d i) \<and> up_to_date H w d i \<and> \<not> initialising w d i"

text \<open>A witnessed exit with attempts left, whose backoff has not run out.\<close>

definition backing_off :: "digest \<Rightarrow> World \<Rightarrow> Desired \<Rightarrow> int \<Rightarrow> bool" where
  "backing_off H w d i \<longleftrightarrow>
     witnessed w (d_id d i) \<and> \<not> initialising w d i \<and>
     (case rec_of w (d_id d i) of None \<Rightarrow> False
      | Some r \<Rightarrow>
          \<not> drifted r (SpecHash H d) \<and> w_Now w < r_NextRestartAt r \<and>
          (case actual_of w (d_id d i) of
             None \<Rightarrow> r_State r = AllocBackoff
           | Some s \<Rightarrow> st_State s = StateStopped \<and> r_NextRestartAt r \<noteq> zero_time \<and>
                        r_Restarts r < attempts (d_Restart d)))"

definition settled :: "digest \<Rightarrow> World \<Rightarrow> Desired \<Rightarrow> int \<Rightarrow> bool" where
  "settled H w d i \<longleftrightarrow> given_up H w d i \<or> serving H w d i \<or> backing_off H w d i"

lemmas settled_defs = settled_def given_up_def serving_def backing_off_def initialising_def
  up_to_date_def is_running_def

lemma planInit_not_Nil [simp]: "planInit w d b r \<noteq> []"
  by (simp add: planInit_def Let_def split: option.splits)

lemma planRestart_Nil_iff:
  "planRestart w d b r s = [] \<longleftrightarrow>
     witnessed w (a_AllocID b) \<and> r_Restarts r < attempts (d_Restart d) \<and>
     r_NextRestartAt r \<noteq> zero_time \<and> w_Now w < r_NextRestartAt r"
  by (auto simp: planRestart_def)

lemma plan_missing_Nil_iff:
  "plan_missing w d i a h hs b = [] \<longleftrightarrow>
     (case rec_of w a of None \<Rightarrow> False
      | Some r \<Rightarrow> r_State r = AllocBackoff \<and> w_Now w < r_NextRestartAt r \<and> \<not> drifted r h \<and> witnessed w a)"
  unfolding plan_missing_def Let_def by (cases "rec_of w a") (auto split: prod.split)

lemma plan_present_Nil_iff:
  "plan_present w d b r st s = [] \<longleftrightarrow>
     \<not> st \<and> (st_State s = StateRunning \<or> (st_State s = StateStopped \<and> planRestart w d b r s = []))"
  by (auto simp: plan_present_def split: State.splits)

lemma alloc_plan_Nil_iff: "alloc_plan H w d i = [] \<longleftrightarrow> settled H w d i"
proof (cases "rec_of w (d_id d i)")
  case None
  then show ?thesis
    using attempts_pos [of "d_Restart d"]
    by (auto simp: alloc_plan_def planAlloc_def settled_defs plan_missing_Nil_iff
        plan_present_Nil_iff planRestart_Nil_iff zero_record_def split: option.splits)
next
  case r: (Some r)
  show ?thesis
  proof (cases "actual_of w (d_id d i)")
    case None
    show ?thesis
      unfolding alloc_plan_def planAlloc_def settled_defs r None Let_def option.case
      by (simp add: plan_missing_Nil_iff r) blast
  next
    case (Some s)
    show ?thesis
      unfolding alloc_plan_def planAlloc_def settled_defs r Some Let_def option.case
      by (simp add: plan_present_Nil_iff planRestart_Nil_iff) blast
  qed
qed

lemma planOrphans_Nil_iff:
  "gm_wf (w_Records w) \<Longrightarrow> planOrphans w dbs wanted = [] \<longleftrightarrow> set (existing_ids w) \<subseteq> wanted"
  using set_planOrphans [of w dbs wanted] by (metis Diff_eq_empty_iff image_is_empty set_empty)

lemma initContainersToReap_Nil_iff:
  "initContainersToReap w dbs R = [] \<longleftrightarrow>
     (\<forall>(k, s)\<in>set (w_InitActual w). is_AllocID s \<in> R \<or> reap_keep w dbs k s)"
  by (auto simp: initContainersToReap_def filter_empty_conv)

text \<open>
  C3. The loop is quiescent exactly at its goal: a plan is empty if and only if every declared alloc
  is serving its current spec, is waiting out a backoff it earned, or has spent its restart budget;
  no container or record exists beyond the declared ones; and every init container is one a running
  init sequence still needs. So a converged node is left alone, and nothing else is.
\<close>

theorem plan_empty_iff_converged:
  assumes "gm_wf (w_Records w)"
  shows "Plan H w = [] \<longleftrightarrow>
    (\<forall>d\<in>set (w_Desired w). \<forall>i. 0 \<le> i \<and> i < d_Count d \<longrightarrow> settled H w d i) \<and>
    set (existing_ids w) \<subseteq> wanted_ids (w_Desired w) \<and>
    (\<forall>(k, s)\<in>set (w_InitActual w). reap_keep w (desired_by_service (w_Desired w)) k s)"
proof -
  let ?A = "concat (map (plan_service H w) (w_Desired w))"
  let ?dbs = "desired_by_service (w_Desired w)"
  let ?O = "planOrphans w ?dbs (wanted_ids (w_Desired w))"
  have "?A = [] \<longleftrightarrow> (\<forall>d\<in>set (w_Desired w). \<forall>i. 0 \<le> i \<and> i < d_Count d \<longrightarrow> settled H w d i)"
    by (simp add: plan_service_Nil_iff alloc_plan_Nil_iff)
  moreover have "Plan H w = [] \<longleftrightarrow>
      ?A = [] \<and> ?O = [] \<and> initContainersToReap w ?dbs (recreating (?A @ ?O)) = []"
    by (simp add: Plan_def plan_unsorted_def Let_def)
  moreover have "initContainersToReap w ?dbs (recreating []) = [] \<longleftrightarrow>
      (\<forall>(k, s)\<in>set (w_InitActual w). reap_keep w ?dbs k s)"
    by (simp add: initContainersToReap_Nil_iff recreating_def)
  ultimately show ?thesis
    unfolding planOrphans_Nil_iff [OF assms, symmetric, where dbs = ?dbs] by (metis append_Nil)
qed

section \<open>What a restart is charged for\<close>

text \<open>
  An alloc the plan restarts although its container exited and its spec is current: the case in which
  a restart attempt of the policy is consumed.
\<close>

definition crashed :: "digest \<Rightarrow> World \<Rightarrow> Desired \<Rightarrow> int \<Rightarrow> bool" where
  "crashed H w d i \<longleftrightarrow>
     up_to_date H w d i \<and> \<not> initialising w d i \<and>
     (case actual_of w (d_id d i) of None \<Rightarrow> False | Some s \<Rightarrow> st_State s = StateStopped)"

lemma alloc_plan_crashed:
  assumes "crashed H w d i" and "\<not> given_up H w d i"
  obtains s r where "actual_of w (d_id d i) = Some s" and "st_State s = StateStopped"
    and "r = (case rec_of w (d_id d i) of None \<Rightarrow> zero_record | Some r \<Rightarrow> r)"
    and "alloc_plan H w d i = planRestart w d (base_action d i (d_id d i)) r s"
  using assms
  by (cases "rec_of w (d_id d i)"; cases "actual_of w (d_id d i)")
    (auto simp: crashed_def given_up_def up_to_date_def initialising_def alloc_plan_def planAlloc_def
      plan_present_def Let_def)

abbreviation restarts_of :: "World \<Rightarrow> string \<Rightarrow> int" where
  "restarts_of w a \<equiv> (case rec_of w a of None \<Rightarrow> 0 | Some r \<Rightarrow> r_Restarts r)"

abbreviation next_restart_of :: "World \<Rightarrow> string \<Rightarrow> time" where
  "next_restart_of w a \<equiv> (case rec_of w a of None \<Rightarrow> zero_time | Some r \<Rightarrow> r_NextRestartAt r)"

text \<open>
  A crash costs a restart attempt only if this process saw it happen. For a stopped container of
  the current spec: an exit that was not witnessed is recovered without touching the budget; a
  witnessed one is restarted exactly when attempts are left and the backoff has run out, removed
  exactly when none are left, and otherwise waited for.
\<close>

theorem crash_handling:
  assumes "crashed H w d i" and "\<not> given_up H w d i"
  shows "map a_Kind (alloc_plan H w d i) =
    (if \<not> witnessed w (d_id d i) then [ActionRecover]
     else if attempts (d_Restart d) \<le> restarts_of w (d_id d i) then [ActionRemove]
     else if next_restart_of w (d_id d i) \<noteq> zero_time \<and> w_Now w < next_restart_of w (d_id d i) then []
     else [ActionRestart])"
proof -
  obtain s r where r: "r = (case rec_of w (d_id d i) of None \<Rightarrow> zero_record | Some r \<Rightarrow> r)"
    and plan: "alloc_plan H w d i = planRestart w d (base_action d i (d_id d i)) r s"
    using alloc_plan_crashed [OF assms] by metis
  have "r_Restarts r = restarts_of w (d_id d i)" and "r_NextRestartAt r = next_restart_of w (d_id d i)"
    by (simp_all add: r zero_record_def split: option.splits)
  then show ?thesis unfolding plan by (simp add: planRestart_def)
qed

end
