(* ===== verification/Planner_Init.thy ===== *)
theory Planner_Init
  imports Planner_Steady
begin

text \<open>
  The gates in front of a container: the init sequence its leader runs step by step, the followers
  that wait for it, the services it depends on, and the sweep of finished init containers.
\<close>

section \<open>Progress through an init sequence\<close>

definition init_step_status :: "World \<Rightarrow> Desired \<Rightarrow> string \<Rightarrow> nat \<Rightarrow> InitStatus option" where
  "init_step_status w d a k = map_of (w_InitActual w) (InitID a (int k) (ic_Name (d_Init d ! k)))"

definition init_step_done :: "World \<Rightarrow> Desired \<Rightarrow> string \<Rightarrow> nat \<Rightarrow> bool" where
  "init_step_done w d a k \<longleftrightarrow> step_finished (init_step_status w d a k)"

lemma init_progress_from_None:
  "init_progress_from ia a i ss = None \<longleftrightarrow>
     (\<forall>k<length ss. step_finished (map_of ia (InitIDFor a (i + int k) (ic_Name (ss ! k)))))"
proof (induction ss arbitrary: i)
  case (Cons s ss)
  show ?case by (simp add: Let_def All_less_Suc2 Cons algebra_simps)
qed simp

lemma init_progress_from_Some:
  assumes "init_progress_from ia a i ss = Some l"
  obtains k where "k < length ss" and "ls_ordinal l = i + int k" and "ls_step l = ss ! k"
    and "ls_status l = map_option is_Status (map_of ia (InitIDFor a (i + int k) (ic_Name (ss ! k))))"
    and "\<not> step_finished (map_of ia (InitIDFor a (i + int k) (ic_Name (ss ! k))))"
    and "\<forall>j<k. step_finished (map_of ia (InitIDFor a (i + int j) (ic_Name (ss ! j))))"
  using assms
proof (induction ss arbitrary: i thesis)
  case (Cons s ss)
  show ?case
  proof (cases "step_finished (map_of ia (InitIDFor a i (ic_Name s)))")
    case True
    with Cons.prems(2) have "init_progress_from ia a (i + 1) ss = Some l" by (simp add: Let_def)
    from Cons.IH [OF _ this] obtain k where "k < length ss" "ls_ordinal l = i + 1 + int k"
      "ls_step l = ss ! k"
      "ls_status l = map_option is_Status (map_of ia (InitIDFor a (i + 1 + int k) (ic_Name (ss ! k))))"
      "\<not> step_finished (map_of ia (InitIDFor a (i + 1 + int k) (ic_Name (ss ! k))))"
      "\<forall>j<k. step_finished (map_of ia (InitIDFor a (i + 1 + int j) (ic_Name (ss ! j))))"
      by blast
    with True Cons.prems(1) [of "Suc k"] show ?thesis
      by (simp add: All_less_Suc2 algebra_simps)
  next
    case False
    with Cons.prems(2) Cons.prems(1) [of 0] show ?thesis by (auto simp: Let_def)
  qed
qed simp

lemma initProgress_None:
  "initProgress w d a = None \<longleftrightarrow> (\<forall>k<length (d_Init d). init_step_done w d a k)"
  by (simp add: initProgress_def init_progress_from_None init_step_done_def init_step_status_def
      InitIDFor_def)

lemma initProgress_Some:
  assumes "initProgress w d a = Some l"
  obtains k where "k < length (d_Init d)" and "ls_ordinal l = int k" and "ls_step l = d_Init d ! k"
    and "ls_status l = map_option is_Status (init_step_status w d a k)"
    and "\<not> init_step_done w d a k" and "\<forall>j<k. init_step_done w d a j"
  using init_progress_from_Some [OF assms [unfolded initProgress_def]]
  by (auto simp: init_step_done_def init_step_status_def InitIDFor_def)

section \<open>The leader's plan while it initialises\<close>

lemma alloc_plan_initialising:
  assumes "initialising w d i" and "\<not> given_up H w d i"
  obtains r where "rec_of w (d_id d i) = Some r" and "r_State r = AllocInit" and "i = InitLeaderIndex"
    and "alloc_plan H w d i =
      (if drifted r (SpecHash H d)
       then [(base_action d i (d_id d i))\<lparr>a_Kind := ActionRestart, a_Reason := ''spec changed during init''\<rparr>]
       else planInit w d (base_action d i (d_id d i)) r)"
  using assms by (auto simp: initialising_def alloc_plan_def planAlloc_def Let_def split: option.splits)

lemma plan_missing_Init:
  "x \<in> set (plan_missing w d i a h hs (base_action d i a)) \<Longrightarrow> a_Init x = None \<and> a_Kind x \<noteq> ActionInitStep"
  by (auto simp: plan_missing_def Let_def split: if_splits option.splits prod.splits)

lemma plan_present_Init:
  "x \<in> set (plan_present w d (base_action d i a) r st s) \<Longrightarrow> a_Init x = None \<and> a_Kind x \<noteq> ActionInitStep"
  by (auto simp: plan_present_def planRestart_def split: if_splits State.splits)

text \<open>Only the leader's plan during an init sequence carries init orders.\<close>

lemma alloc_plan_Init:
  assumes "x \<in> set (alloc_plan H w d i)" and "a_Init x \<noteq> None"
  obtains r where "i = InitLeaderIndex" and "rec_of w (d_id d i) = Some r" and "r_State r = AllocInit"
    and "\<not> drifted r (SpecHash H d)" and "x \<in> set (planInit w d (base_action d i (d_id d i)) r)"
  using assms
  by (auto simp: alloc_plan_def planAlloc_def Let_def split: option.splits if_splits
      dest: plan_missing_Init plan_present_Init)

lemma rolling_gate_Init:
  assumes "x \<in> set (rolling_gate d u b xs)" and "a_Init x \<noteq> None"
    and "\<And>y. y \<in> set xs \<Longrightarrow> is_replace y \<Longrightarrow> a_Init y = None"
  shows "x \<in> set xs"
  using assms(1)
proof (cases rule: rolling_gate_cases)
  case (2 y)
  then show ?thesis using assms(2,3) by auto
qed

lemma alloc_plan_Replace_Init: "x \<in> set (alloc_plan H w d i) \<Longrightarrow> is_replace x \<Longrightarrow> a_Init x = None"
  by (erule contrapos_pp, erule alloc_plan_Init, assumption) (auto dest: planInit_kinds)

lemma Plan_Init_alloc:
  assumes "x \<in> set (Plan H w)" and "a_Init x \<noteq> None"
  obtains d i where "d \<in> set (w_Desired w)" and "x \<in> set (alloc_plan H w d i)"
proof -
  have "a_Init y = None" if "y \<in> set (consider_all dbs wt sn cs)" for y dbs wt sn cs
    using that by (induction dbs wt sn cs rule: consider_all.induct) (auto simp: orphan_action_def split: if_splits)
  then obtain d where d: "d \<in> set (w_Desired w)" "x \<in> set (plan_service H w d)"
    using assms
    by (auto simp: set_Plan set_plan_unsorted planOrphans_def initContainersToReap_def reap_action_def)
  then obtain b u where "x \<in> set (rolling_gate d u b (planned_allocs H w d))"
    by (auto simp: plan_service_def split: prod.splits)
  then have "x \<in> set (planned_allocs H w d)"
    using assms(2) by (rule rolling_gate_Init) (auto simp: planned_allocs_alt dest: alloc_plan_Replace_Init)
  then show thesis using that d(1) by (auto simp: planned_allocs_alt)
qed

text \<open>The operation that advances a step, from what containerd reports of its container.\<close>

definition step_op :: "InitStatus option \<Rightarrow> InitOp" where
  "step_op f =
     (case f of None \<Rightarrow> InitStart
      | Some s \<Rightarrow> (if st_State (is_Status s) = StateRunning then InitAdopt else InitRerun))"

lemma planInit_Init:
  assumes "x \<in> set (planInit w d b r)" and "a_Init b = None" and "a_Init x = Some ia"
  shows "(a_Kind x = ActionCreate \<and> ia_Op ia = InitDone \<and>
            (\<forall>k<length (d_Init d). init_step_done w d (a_AllocID b) k)) \<or>
         (\<exists>n<length (d_Init d). a_Kind x = ActionInitStep \<and>
            ia = \<lparr>ia_Ordinal = int n, ia_Name = ic_Name (d_Init d ! n),
                  ia_Op = step_op (init_step_status w d (a_AllocID b) n)\<rparr> \<and>
            \<not> init_step_done w d (a_AllocID b) n \<and> (\<forall>k<n. init_step_done w d (a_AllocID b) k))"
proof (cases "initProgress w d (a_AllocID b)")
  case None
  with assms show ?thesis by (auto simp: planInit_def initProgress_None)
next
  case (Some l)
  obtain k where k: "k < length (d_Init d)" "ls_ordinal l = int k" "ls_step l = d_Init d ! k"
    "ls_status l = map_option is_Status (init_step_status w d (a_AllocID b) k)"
    "\<not> init_step_done w d (a_AllocID b) k" "\<forall>j<k. init_step_done w d (a_AllocID b) j"
    using initProgress_Some [OF Some] by blast
  show ?thesis
    using assms Some k
    by (intro disjI2 exI [of _ k])
      (auto simp: planInit_def step_op_def Let_def split: option.splits if_splits)
qed


section \<open>Gates on an alloc that has no container\<close>

lemma plan_missing_gates:
  assumes "x \<in> set (plan_missing w d i a h hs b)" and "a_Kind x \<noteq> ActionWait"
  shows "unmetDependencies d hs = []"
    and "d_Init d \<noteq> [] \<Longrightarrow> i \<noteq> InitLeaderIndex \<Longrightarrow> fst (serviceInitDone w d h)"
  using assms unfolding plan_missing_def Let_def
  by (cases "serviceInitDone w d h"; auto split: if_splits option.splits)+

lemma alloc_plan_missing:
  assumes "x \<in> set (alloc_plan H w d i)" and "actual_of w (d_id d i) = None" and "\<not> initialising w d i"
  shows "x \<in> set (plan_missing w d i (d_id d i) (SpecHash H d) (healthyServices w) (base_action d i (d_id d i)))"
  using assms by (auto simp: alloc_plan_def planAlloc_def initialising_def Let_def
      split: option.splits if_splits)

lemma fold_map_upd_lookup:
  assumes "distinct (map k ds)" and "d \<in> set ds"
  shows "fold (\<lambda>d out. out(k d \<mapsto> v d)) ds m (k d) = Some (v d)"
  using assms
proof (induction ds arbitrary: m)
  case (Cons e ds)
  have "fold (\<lambda>d out. out(k d \<mapsto> v d)) ds m c = m c" if "c \<notin> k ` set ds" for m c
    using that by (induction ds arbitrary: m) auto
  then have "fold (\<lambda>d out. out(k d \<mapsto> v d)) ds (m(k e \<mapsto> v e)) (k e) = Some (v e)" using Cons.prems(1) by simp
  with Cons show ?case by (cases "d = e") (auto simp del: fun_upd_apply)
qed simp

lemma healthyServices_lookup:
  "distinct (map d_key (w_Desired w)) \<Longrightarrow> e \<in> set (w_Desired w) \<Longrightarrow>
   healthyServices w (d_key e) = Some (d_Count e = 0 \<or> service_ready w e)"
  unfolding healthyServices_def by (subst fold_map_upd_lookup) auto

text \<open>
  A service starts only after the services it depends on are healthy: no order but a wait is
  given for an alloc that has no container while a service of the project it depends on is declared
  with at least one alloc and some alloc of it is not running or fails its health check.
\<close>

theorem dependencies_gate_creation:
  assumes "x \<in> set (alloc_plan H w d i)" and "a_Kind x \<noteq> ActionWait"
    and "actual_of w (d_id d i) = None" and "\<not> initialising w d i"
    and "distinct (map d_key (w_Desired w))" and "e \<in> set (w_Desired w)"
    and "d_Project e = d_Project d" and "d_Service e \<in> set (d_DependsOn d)"
  shows "d_Count e = 0 \<or> service_ready w e"
proof (rule ccontr)
  assume "\<not> ?thesis"
  then have "healthyServices w (service_key (d_Project d) (d_Service e)) = Some False"
    using healthyServices_lookup [OF assms(5,6)] assms(7) by simp
  then have "d_Service e \<in> set (unmetDependencies d (healthyServices w))"
    using assms(8) by (simp add: unmetDependencies_def)
  then show False
    using plan_missing_gates(1) [OF alloc_plan_missing [OF assms(1,3,4)] assms(2)] by simp
qed

lemma serviceInitDone_True:
  assumes "fst (serviceInitDone w d h)"
  obtains r where "rec_of w (InitLeaderID d) = Some r" and "\<not> drifted r h" and "r_State r \<noteq> AllocInit"
    and "\<not> (r_State r = AllocFailed \<and> isInitFailure (r_LastExitReason r))"
  using assms by (auto simp: serviceInitDone_def drifted_def Let_def split: option.splits if_splits)

text \<open>
  The replicas of a service with an init sequence wait for it: an alloc other than the leader
  that has no container is created, restarted or recovered only when the leader's record is of the
  current spec, is past its init sequence and has not failed in it.
\<close>

theorem followers_wait_for_init:
  assumes "x \<in> set (alloc_plan H w d i)" and "a_Kind x \<noteq> ActionWait"
    and "actual_of w (d_id d i) = None" and "d_Init d \<noteq> []" and "i \<noteq> InitLeaderIndex"
  shows "\<exists>r. rec_of w (InitLeaderID d) = Some r \<and> \<not> drifted r (SpecHash H d) \<and> r_State r \<noteq> AllocInit \<and>
    \<not> (r_State r = AllocFailed \<and> isInitFailure (r_LastExitReason r))"
proof -
  have "\<not> initialising w d i" using assms(5) by (simp add: initialising_def split: option.splits)
  from plan_missing_gates(2) [OF alloc_plan_missing [OF assms(1,3) this] assms(2,4,5)]
  show ?thesis by (rule serviceInitDone_True) blast
qed

section \<open>The sweep of init containers\<close>

lemma alloc_plan_not_RemoveInit: "x \<in> set (alloc_plan H w d i) \<Longrightarrow> a_Kind x \<noteq> ActionRemoveInit"
proof (cases "initialising w d i \<or> (\<exists>s. actual_of w (d_id d i) = Some s)")
  case True
  assume "x \<in> set (alloc_plan H w d i)"
  with True show ?thesis
    by (auto simp: alloc_plan_def planAlloc_def plan_present_def initialising_def Let_def
        split: option.splits if_splits State.splits dest: planInit_kinds planRestart_kinds)
next
  case False
  assume "x \<in> set (alloc_plan H w d i)"
  from alloc_plan_missing [OF this] False show ?thesis
    by (auto simp: plan_missing_def Let_def split: if_splits option.splits prod.splits)
qed

lemma Plan_RemoveInit:
  assumes "x \<in> set (Plan H w)" and "a_Kind x = ActionRemoveInit"
  obtains R where "x \<in> set (initContainersToReap w (desired_by_service (w_Desired w)) R)"
proof -
  have "x \<notin> set (plan_service H w d)" for d
    using assms(2) alloc_plan_not_RemoveInit by (auto elim: plan_service_cases [of x H w d])
  then show thesis
    using assms that by (auto simp: set_Plan set_plan_unsorted dest: planOrphans_kind)
qed

lemma init_ordinal_from_InitID:
  assumes "CHR ''.'' \<notin> set a" and "k < length ss"
  shows "init_ordinal_from (InitID a (n + int k) (ic_Name (ss ! k))) a n ss = n + int k"
  using assms(2)
proof (induction ss arbitrary: n k)
  case (Cons s ss)
  show ?case
  proof (cases k)
    case 0
    then show ?thesis by (simp add: InitIDFor_def)
  next
    case (Suc j)
    with Cons.prems Cons.IH [of j "n + 1"] show ?thesis
      by (simp add: InitIDFor_def InitID_inject [OF assms(1) assms(1)] algebra_simps)
  qed
qed simp

lemma initOrdinalOf_InitID:
  "CHR ''.'' \<notin> set a \<Longrightarrow> k < length (d_Init d) \<Longrightarrow>
   initOrdinalOf (InitID a (int k) (ic_Name (d_Init d ! k))) a d = int k"
  using init_ordinal_from_InitID [of a k "d_Init d" 0] by (simp add: initOrdinalOf_def)

lemma desired_by_service_lookup:
  "distinct (map d_key ds) \<Longrightarrow> d \<in> set ds \<Longrightarrow> desired_by_service ds (d_key d) = Some d"
  using fold_map_upd_lookup [where k = d_key and v = "\<lambda>d. d"] by (simp add: desired_by_service_def)

lemma desired_by_service_in: "desired_by_service ds k = Some d \<Longrightarrow> d \<in> set ds \<and> d_key d = k"
proof -
  have "fold (\<lambda>d m. m(d_key d \<mapsto> d)) ds m k = Some d \<Longrightarrow> (d \<in> set ds \<and> d_key d = k) \<or> m k = Some d" for m
    by (induction ds arbitrary: m) (force split: if_splits)+
  then show "desired_by_service ds k = Some d \<Longrightarrow> d \<in> set ds \<and> d_key d = k"
    by (fastforce simp: desired_by_service_def)
qed

lemma reap_keep_current:
  assumes "distinct (map d_key (w_Desired w))" and "d \<in> set (w_Desired w)"
    and "rec_of w a = Some r" and "r_State r = AllocInit"
    and "r_Project r = d_Project d" and "r_Service r = d_Service d"
    and "CHR ''.'' \<notin> set a" and "k < length (d_Init d)" and "\<forall>j<k. init_step_done w d a j"
    and "is_AllocID s = a"
  shows "reap_keep w (desired_by_service (w_Desired w)) (InitID a (int k) (ic_Name (d_Init d ! k))) s"
proof -
  have "int k \<le> ls_ordinal l" if l: "initProgress w d a = Some l" for l
  proof -
    obtain n where "ls_ordinal l = int n" and "\<not> init_step_done w d a n" using initProgress_Some [OF l] .
    with assms(9) show ?thesis by (metis linorder_not_le of_nat_le_iff)
  qed
  then show ?thesis
    using assms(1-8,10)
    by (auto simp: reap_keep_def desired_by_service_lookup initOrdinalOf_InitID Let_def split: option.splits)
qed

text \<open>
  The sweep never removes an init container the sequence still needs: while an alloc's record
  says it is initialising, the containers of its finished steps (the evidence that they need not run
  again) and of the step in progress are left alone.
\<close>

theorem sweep_spares_live_init:
  assumes "distinct (map d_key (w_Desired w))" and "d \<in> set (w_Desired w)"
    and "rec_of w a = Some r" and "r_State r = AllocInit"
    and "r_Project r = d_Project d" and "r_Service r = d_Service d"
    and "CHR ''.'' \<notin> set a" and "k < length (d_Init d)" and "\<forall>j<k. init_step_done w d a j"
    and "\<forall>(i, s)\<in>set (w_InitActual w). AllocIDOf i = Some (is_AllocID s)"
  shows "\<not> (\<exists>x\<in>set (Plan H w). a_Kind x = ActionRemoveInit \<and>
              a_AllocID x = InitID a (int k) (ic_Name (d_Init d ! k)))"
proof -
  let ?id = "InitID a (int k) (ic_Name (d_Init d ! k))"
  have owner: "is_AllocID s = a" if "(?id, s) \<in> set (w_InitActual w)" for s
  proof (cases "a = []")
    case True
    then have "AllocIDOf ?id = None"
      by (simp add: AllocIDOf_def InitID_def initIDInfix_def)
    with that assms(10) show ?thesis by fastforce
  next
    case False
    with that assms(10) AllocIDOf_InitID [OF False assms(7)] show ?thesis by fastforce
  qed
  have "a_AllocID x \<noteq> ?id" if x: "x \<in> set (Plan H w)" "a_Kind x = ActionRemoveInit" for x
  proof
    assume "a_AllocID x = ?id"
    moreover obtain R where "x \<in> set (initContainersToReap w (desired_by_service (w_Desired w)) R)"
      using x Plan_RemoveInit by blast
    ultimately obtain s where "(?id, s) \<in> set (w_InitActual w)"
      and "\<not> reap_keep w (desired_by_service (w_Desired w)) ?id s"
      by (auto simp: initContainersToReap_def)
    with reap_keep_current [OF assms(1-9) owner] show False by blast
  qed
  then show ?thesis by blast
qed

end
