(* ===== verification/Planner_Examples.thy ===== *)
theory Planner_Examples
  imports Planner_Init
begin

text \<open>
  Concrete services and worlds for the planner: a rolling deploy of two replicas, an orphan left by a
  removed service, a crashed alloc, and a service with an init sequence. Each property of the planner
  is applied to one of them.
\<close>

section \<open>Fixtures\<close>

definition ex_digest :: digest where
  "ex_digest m = hm_Image m"

definition ex_web :: Desired where
  "ex_web = zero_desired\<lparr>d_Project := ''shop'', d_Service := ''web'', d_Count := 2, d_Image := ''web:2''\<rparr>"

definition ex_status :: "State \<Rightarrow> nat \<Rightarrow> Status" where
  "ex_status st code = \<lparr>st_ID = '''', st_State = st, st_PID = 1, st_ExitCode = code, st_ExitedAt = 0,
     st_Image = '''', st_OOMKilled = False, st_OOMKnown = False, st_MemoryLimit = 0, st_Role = ''''\<rparr>"

definition ex_record :: "int \<Rightarrow> AllocState \<Rightarrow> string \<Rightarrow> AllocRecord" where
  "ex_record i st h = zero_record\<lparr>r_ID := AllocID ''shop'' ''web'' i, r_Project := ''shop'',
     r_Service := ''web'', r_Index := i, r_State := st, r_SpecHash := h, r_Healthy := True\<rparr>"

text \<open>Two replicas run the previous image.\<close>

definition ex_rolling :: World where
  "ex_rolling = \<lparr>w_Desired = [ex_web],
     w_Records = [(''shop-web-0'', ex_record 0 AllocRunning ''web:1''),
                  (''shop-web-1'', ex_record 1 AllocRunning ''web:1'')],
     w_Actual = [(''shop-web-0'', ex_status StateRunning 0), (''shop-web-1'', ex_status StateRunning 0)],
     w_InitActual = [], w_Now = 100 * second, w_Witnessed = {}\<rparr>"

text \<open>The same world, ranged over in the other order.\<close>

definition ex_rolling' :: World where
  "ex_rolling' = ex_rolling\<lparr>w_Records := rev (w_Records ex_rolling), w_Actual := rev (w_Actual ex_rolling)\<rparr>"

text \<open>Both replicas run the current image, and a container of an undeclared service is left.\<close>

definition ex_orphan :: World where
  "ex_orphan = ex_rolling\<lparr>
     w_Records := [(''shop-web-0'', ex_record 0 AllocRunning ''web:2''),
                   (''shop-web-1'', ex_record 1 AllocRunning ''web:2'')],
     w_Actual := (''shop-old-0'', ex_status StateRunning 0) # w_Actual ex_rolling\<rparr>"

text \<open>Replica 1 crashed under the eyes of this process, with its fifth restart used up.\<close>

definition ex_crashed :: World where
  "ex_crashed = ex_rolling\<lparr>
     w_Records := [(''shop-web-0'', ex_record 0 AllocRunning ''web:2''),
                   (''shop-web-1'', (ex_record 1 AllocBackoff ''web:2'')\<lparr>r_Restarts := 5\<rparr>)],
     w_Actual := [(''shop-web-0'', ex_status StateRunning 0), (''shop-web-1'', ex_status StateStopped 1)],
     w_Witnessed := {''shop-web-1''}\<rparr>"

definition ex_step :: "string \<Rightarrow> InitContainer" where
  "ex_step n = \<lparr>ic_Name = n, ic_Image = ''tool:1'', ic_Command = [], ic_Args = [], ic_Capabilities = [],
     ic_Env = [], ic_User = None, ic_Resources = \<lparr>res_CPUMillis = 0, res_MemoryBytes = 0, res_PidsLimit = 0\<rparr>,
     ic_RegistryAuthRef = '''', ic_PullPolicy = '''', ic_Timeout = 0\<rparr>"

definition ex_init_web :: Desired where
  "ex_init_web = ex_web\<lparr>d_Init := [ex_step ''migrate'', ex_step ''seed''], d_DependsOn := [''db'']\<rparr>"

definition ex_db :: Desired where
  "ex_db = zero_desired\<lparr>d_Project := ''shop'', d_Service := ''db'', d_Count := 1, d_Image := ''db:1''\<rparr>"

text \<open>The leader has run the first of its two init steps; its follower waits.\<close>

definition ex_init :: World where
  "ex_init = \<lparr>w_Desired = [ex_db, ex_init_web],
     w_Records = [(''shop-web-0'', ex_record 0 AllocInit ''web:2''),
                  (''shop-db-0'', zero_record\<lparr>r_Project := ''shop'', r_Service := ''db'',
                      r_State := AllocRunning, r_SpecHash := ''db:1''\<rparr>)],
     w_Actual = [(''shop-db-0'', ex_status StateRunning 0)],
     w_InitActual = [(''shop-web-0.init.0.migrate'',
        \<lparr>is_Status = ex_status StateStopped 0, is_Project = ''shop'', is_AllocID = ''shop-web-0''\<rparr>)],
     w_Now = 100 * second, w_Witnessed = {}\<rparr>"

text \<open>The init sequence is over and the leader runs.\<close>

definition ex_init_over :: World where
  "ex_init_over = ex_init\<lparr>
     w_Records := AList.update ''shop-web-0'' (ex_record 0 AllocRunning ''web:2'') (w_Records ex_init),
     w_Actual := AList.update ''shop-web-0'' (ex_status StateRunning 0) (w_Actual ex_init)\<rparr>"

text \<open>A deploy of a service with an init sequence, replacing two replicas at a time.\<close>

definition ex_parallel_web :: Desired where
  "ex_parallel_web = ex_web\<lparr>d_Init := [ex_step ''migrate''],
     d_Update := (d_Update ex_web)\<lparr>up_MaxParallel := 2\<rparr>\<rparr>"

definition ex_parallel :: World where
  "ex_parallel = ex_rolling\<lparr>w_Desired := [ex_parallel_web]\<rparr>"

text \<open>Two projects whose services compose the same alloc id.\<close>

definition ex_collision :: World where
  "ex_collision = \<lparr>w_Desired =
       [zero_desired\<lparr>d_Project := ''a-b'', d_Service := ''c'', d_Count := 1, d_Image := ''x:1''\<rparr>,
        zero_desired\<lparr>d_Project := ''a'', d_Service := ''b-c'', d_Count := 1, d_Image := ''y:1''\<rparr>],
     w_Records = [(''a-b-c-0'', zero_record\<lparr>r_Project := ''a-b'', r_Service := ''c'',
        r_State := AllocRunning, r_SpecHash := ''x:1''\<rparr>)],
     w_Actual = [(''a-b-c-0'', ex_status StateRunning 0)],
     w_InitActual = [], w_Now = 100 * second, w_Witnessed = {}\<rparr>"

lemmas ex_defs = ex_web_def ex_status_def ex_record_def ex_rolling_def ex_rolling'_def ex_orphan_def
  ex_crashed_def ex_step_def ex_init_web_def ex_db_def ex_init_def ex_init_over_def
  ex_parallel_web_def ex_parallel_def zero_desired_def zero_record_def

section \<open>The properties at work\<close>

theorem Plan_deterministic_witness:
  "same_world ex_rolling ex_rolling' \<and> Plan ex_digest ex_rolling = Plan ex_digest ex_rolling'"
proof -
  have "same_world ex_rolling ex_rolling'"
    by (simp add: same_world_def gm_same_def gm_wf_def ex_rolling'_def ex_rolling_def)
  with Plan_deterministic [OF this] show ?thesis by simp
qed


theorem rollout_progress_witness:
  "unique_services (w_Desired ex_rolling) \<and> ex_web \<in> set (w_Desired ex_rolling) \<and>
   card (replaced_allocs (Plan ex_digest ex_rolling) ex_web) =
   min (card (rollable_allocs ex_digest ex_rolling ex_web))
       (nat (maxParallel (d_Update ex_web) (d_Count ex_web)) - card (unavailable_allocs ex_digest ex_rolling ex_web))"
  using rollout_progress [of ex_rolling ex_web ex_digest]
  by (simp add: unique_services_def ex_rolling_def)

lemma ex_rolling_plan:
  "map (\<lambda>x. (a_AllocID x, a_Kind x)) (Plan ex_digest ex_rolling) =
   [(''shop-web-0'', ActionReplace), (''shop-web-1'', ActionWait)]"
  by code_simp

theorem orphan_removed_once_witness:
  "gm_wf (w_Records ex_orphan) \<and> ''shop-old-0'' \<in> set (existing_ids ex_orphan) \<and>
   ''shop-old-0'' \<notin> wanted_ids (w_Desired ex_orphan) \<and>
   filter (\<lambda>x. a_AllocID x = ''shop-old-0'' \<and> a_Kind x \<noteq> ActionRemoveInit) (Plan ex_digest ex_orphan) =
     [orphan_of ex_orphan (desired_by_service (w_Desired ex_orphan)) ''shop-old-0'']"
proof -
  have "gm_wf (w_Records ex_orphan)" "''shop-old-0'' \<in> set (existing_ids ex_orphan)"
    "''shop-old-0'' \<notin> wanted_ids (w_Desired ex_orphan)"
    by code_simp+
  with orphan_removed_once [OF this] show ?thesis by blast
qed

theorem remove_only_witness:
  "\<exists>x\<in>set (Plan ex_digest ex_crashed). a_Kind x = ActionRemove \<and> gm_wf (w_Records ex_crashed) \<and>
     (a_AllocID x \<in> set (existing_ids ex_crashed) - wanted_ids (w_Desired ex_crashed) \<or>
      (\<exists>d\<in>set (w_Desired ex_crashed). \<exists>i. 0 \<le> i \<and> i < d_Count d \<and> a_AllocID x = d_id d i \<and>
         exhausted ex_digest ex_crashed d i))"
proof -
  have "list_ex (\<lambda>x. a_Kind x = ActionRemove) (Plan ex_digest ex_crashed)" by code_simp
  then obtain x where x: "x \<in> set (Plan ex_digest ex_crashed)" "a_Kind x = ActionRemove"
    by (auto simp: list_ex_iff)
  have "gm_wf (w_Records ex_crashed)" by code_simp
  from remove_only_unwanted_or_exhausted [OF x this] x this show ?thesis by blast
qed

theorem one_action_per_alloc_witness:
  "distinct (concat (map service_ids (w_Desired ex_rolling))) \<and> gm_wf (w_Records ex_rolling) \<and>
   distinct (map a_AllocID (filter (\<lambda>x. a_Kind x \<noteq> ActionRemoveInit) (Plan ex_digest ex_rolling)))"
proof -
  have "distinct (concat (map service_ids (w_Desired ex_rolling)))" "gm_wf (w_Records ex_rolling)"
    by code_simp+
  with one_action_per_alloc [OF this] show ?thesis by blast
qed

theorem plan_empty_iff_converged_witness:
  "gm_wf (w_Records ex_rolling) \<and>
   (Plan ex_digest ex_rolling = [] \<longleftrightarrow>
    (\<forall>d\<in>set (w_Desired ex_rolling). \<forall>i. 0 \<le> i \<and> i < d_Count d \<longrightarrow> settled ex_digest ex_rolling d i) \<and>
    set (existing_ids ex_rolling) \<subseteq> wanted_ids (w_Desired ex_rolling) \<and>
    (\<forall>(k, s)\<in>set (w_InitActual ex_rolling). reap_keep ex_rolling (desired_by_service (w_Desired ex_rolling)) k s))"
proof -
  have "gm_wf (w_Records ex_rolling)" by code_simp
  with plan_empty_iff_converged [OF this] show ?thesis by blast
qed

theorem crash_handling_witness:
  "crashed ex_digest ex_crashed ex_web 1 \<and> \<not> given_up ex_digest ex_crashed ex_web 1 \<and>
   map a_Kind (alloc_plan ex_digest ex_crashed ex_web 1) = [ActionRemove]"
proof -
  have "crashed ex_digest ex_crashed ex_web 1" "\<not> given_up ex_digest ex_crashed ex_web 1"
    "witnessed ex_crashed (d_id ex_web 1)"
    "attempts (d_Restart ex_web) \<le> restarts_of ex_crashed (d_id ex_web 1)"
    by code_simp+
  with crash_handling [OF this(1,2)] show ?thesis by simp
qed


theorem dependencies_gate_creation_witness:
  "\<exists>x\<in>set (alloc_plan ex_digest ex_init_over ex_init_web 1). a_Kind x \<noteq> ActionWait \<and>
     actual_of ex_init_over (d_id ex_init_web 1) = None \<and> (d_Count ex_db = 0 \<or> service_ready ex_init_over ex_db)"
proof -
  have "list_ex (\<lambda>x. a_Kind x \<noteq> ActionWait) (alloc_plan ex_digest ex_init_over ex_init_web 1)"
    by code_simp
  then obtain x where x: "x \<in> set (alloc_plan ex_digest ex_init_over ex_init_web 1)" "a_Kind x \<noteq> ActionWait"
    by (auto simp: list_ex_iff)
  have h: "actual_of ex_init_over (d_id ex_init_web 1) = None" "\<not> initialising ex_init_over ex_init_web 1"
    "distinct (map d_key (w_Desired ex_init_over))" "d_Project ex_db = d_Project ex_init_web"
    "d_Service ex_db \<in> set (d_DependsOn ex_init_web)"
    by code_simp+
  have "ex_db \<in> set (w_Desired ex_init_over)" by (simp add: ex_init_over_def ex_init_def)
  from dependencies_gate_creation [OF x h(1,2,3) this h(4,5)] x h(1) show ?thesis by blast
qed

theorem followers_wait_for_init_witness:
  "\<exists>x\<in>set (alloc_plan ex_digest ex_init_over ex_init_web 1). a_Kind x \<noteq> ActionWait \<and>
     (\<exists>r. rec_of ex_init_over (InitLeaderID ex_init_web) = Some r \<and>
        \<not> drifted r (SpecHash ex_digest ex_init_web) \<and> r_State r \<noteq> AllocInit \<and>
        \<not> (r_State r = AllocFailed \<and> isInitFailure (r_LastExitReason r)))"
proof -
  have "list_ex (\<lambda>x. a_Kind x \<noteq> ActionWait) (alloc_plan ex_digest ex_init_over ex_init_web 1)"
    by code_simp
  then obtain x where x: "x \<in> set (alloc_plan ex_digest ex_init_over ex_init_web 1)" "a_Kind x \<noteq> ActionWait"
    by (auto simp: list_ex_iff)
  have h: "actual_of ex_init_over (d_id ex_init_web 1) = None" "d_Init ex_init_web \<noteq> []"
    "1 \<noteq> InitLeaderIndex"
    by code_simp+
  from followers_wait_for_init [OF x h] x show ?thesis by blast
qed

theorem sweep_spares_live_init_witness:
  "1 < length (d_Init ex_init_web) \<and>
   \<not> (\<exists>x\<in>set (Plan ex_digest ex_init). a_Kind x = ActionRemoveInit \<and>
        a_AllocID x = InitID ''shop-web-0'' (int 1) (ic_Name (d_Init ex_init_web ! 1)))"
proof -
  have h: "distinct (map d_key (w_Desired ex_init))" "rec_of ex_init ''shop-web-0'' = Some (ex_record 0 AllocInit ''web:2'')"
    "r_State (ex_record 0 AllocInit ''web:2'') = AllocInit"
    "r_Project (ex_record 0 AllocInit ''web:2'') = d_Project ex_init_web"
    "r_Service (ex_record 0 AllocInit ''web:2'') = d_Service ex_init_web"
    "CHR ''.'' \<notin> set ''shop-web-0''" "1 < length (d_Init ex_init_web)"
    "init_step_done ex_init ex_init_web ''shop-web-0'' 0"
    "\<forall>(i, s)\<in>set (w_InitActual ex_init). AllocIDOf i = Some (is_AllocID s)"
    by code_simp+
  have "ex_init_web \<in> set (w_Desired ex_init)" "\<forall>j<1. init_step_done ex_init ex_init_web ''shop-web-0'' j"
    using h(8) by (simp_all add: ex_init_def)
  from sweep_spares_live_init [OF h(1) this(1) h(2-7) this(2) h(9)] h(7) show ?thesis by blast
qed

section \<open>Two limits of the planner\<close>

text \<open>
  The init gate covers allocs without a container only. When a deploy may replace two allocs at
  a time, the follower is replaced in the same plan as the leader, although the leader has not run
  the init sequence of the new spec.
\<close>

theorem parallel_rollout_skips_init_gate:
  "map (\<lambda>x. (a_AllocID x, a_Kind x)) (Plan ex_digest ex_parallel) =
     [(''shop-web-0'', ActionReplace), (''shop-web-1'', ActionReplace)] \<and>
   \<not> fst (serviceInitDone ex_parallel ex_parallel_web (SpecHash ex_digest ex_parallel_web))"
  by code_simp

text \<open>
  Alloc ids do not separate projects: service \<open>c\<close> of project \<open>a-b\<close> and service \<open>b-c\<close> of project
  \<open>a\<close> share the id of their first alloc, and with the first running the planner orders the second to
  replace it.
\<close>

theorem alloc_id_collision:
  "AllocID ''a-b'' ''c'' 0 = AllocID ''a'' ''b-c'' 0 \<and>
   map (\<lambda>x. (a_AllocID x, a_Project x, a_Kind x)) (Plan ex_digest ex_collision) =
     [(''a-b-c-0'', ''a'', ActionReplace)]"
  by code_simp

end
