(* ===== verification/Alloc_Spec.thy ===== *)
theory Alloc_Spec
  imports Planner
begin

text \<open>
  What the reconciler hands to the runtime: the spec of an alloc (\<open>AllocSpecFor\<close>, \<open>VolumePath\<close> and
  \<open>withinBase\<close> of \<open>internal/reconciler/plan.go\<close>) and of each init step derived from it
  (\<open>initSpecFor\<close>, \<open>dropGrantedSockets\<close>, \<open>overrideMounts\<close> of \<open>init.go\<close>).
\<close>

section \<open>Volumes on the host\<close>

definition VolumeHostPath :: "string \<Rightarrow> string \<Rightarrow> string \<Rightarrow> int \<Rightarrow> string \<Rightarrow> string" where
  "VolumeHostPath volumeDir project service index volume =
     path_join [volumeDir, project, service, itoa index, volume]"

definition SharedVolumeHostPath :: "string \<Rightarrow> string \<Rightarrow> string \<Rightarrow> string \<Rightarrow> string" where
  "SharedVolumeHostPath volumeDir project service volume =
     path_join [volumeDir, project, service, ''shared'', volume]"

definition VolumePath :: "string \<Rightarrow> Desired \<Rightarrow> int \<Rightarrow> Volume \<Rightarrow> string" where
  "VolumePath volumeDir d index v =
     (if IsHost (v_Resource v) then v_resolvedHostPath v
      else if NeedsMount (v_Resource v) then SharedVolumeHostPath volumeDir (d_Project d) (d_Service d) (v_Name v)
      else VolumeHostPath volumeDir (d_Project d) (d_Service d) index (v_Name v))"

definition withinBase :: "string \<Rightarrow> string \<Rightarrow> bool" where
  "withinBase base path \<longleftrightarrow>
     (case path_rel base path of None \<Rightarrow> False
      | Some rel \<Rightarrow> rel \<noteq> ''..'' \<and> \<not> prefix ''../'' rel)"

section \<open>The spec of an alloc\<close>

definition volume_mount :: "string \<Rightarrow> Desired \<Rightarrow> int \<Rightarrow> Volume \<Rightarrow> Mount" where
  "volume_mount volumeDir d index v =
     \<lparr>m_Source = VolumePath volumeDir d index v, m_Destination = v_MountPath v,
      m_ReadOnly = v_ReadOnly v, m_Options = []\<rparr>"

definition socket_mount :: "SocketRequest \<Rightarrow> Mount" where
  "socket_mount s =
     \<lparr>m_Source = sk_resolvedHostPath s, m_Destination = sk_MountPath s, m_ReadOnly = sk_ReadOnly s,
      m_Options = [''nosuid'', ''noexec'', ''nodev'']\<rparr>"

definition alloc_mounts :: "Desired \<Rightarrow> int \<Rightarrow> string \<Rightarrow> Mount list" where
  "alloc_mounts d index volumeDir =
     (if d_ResolvConfPath d \<noteq> '''' then
        [\<lparr>m_Source = d_ResolvConfPath d, m_Destination = ''/etc/resolv.conf'', m_ReadOnly = True, m_Options = []\<rparr>]
      else []) @
     map (volume_mount volumeDir d index) (d_Volumes d) @
     map socket_mount (filter (\<lambda>s. sk_resolvedHostPath s \<noteq> '''') (d_Sockets d))"

definition AllocSpecFor :: "Desired \<Rightarrow> int \<Rightarrow> string \<Rightarrow> string \<Rightarrow> AllocSpec" where
  "AllocSpecFor d index logDir volumeDir =
     (let aid = AllocID (d_Project d) (d_Service d) index in
      \<lparr>as_ID = aid, as_Project = d_Project d, as_Service = d_Service d, as_Image = RunImage d,
       as_Runtime = d_Runtime d, as_Command = d_Command d, as_Args = d_Args d,
       as_Capabilities = effectiveCapabilities d, as_Env = d_Env d, as_User = d_User d,
       as_Resources = d_Resources d, as_CgroupPath = CgroupPath WorkloadSlice aid,
       as_NetnsPath = NetnsPath aid, as_Mounts = alloc_mounts d index volumeDir,
       as_Devices = concat (map dr_resolved (d_Devices d)), as_ReadOnlyRootfs = d_ReadOnlyRootfs d,
       as_LogPath = (if logDir \<noteq> '''' then path_join [logDir, aid @ ''.log''] else ''''),
       as_Init = None\<rparr>)"

section \<open>The spec of an init step\<close>

text \<open>The other fields of the \<open>Desired\<close> literal are zero; \<open>effectiveCapabilities\<close> reads three.\<close>

definition effectiveInitCapabilities :: "Desired \<Rightarrow> InitContainer \<Rightarrow> string list" where
  "effectiveInitCapabilities d s =
     effectiveCapabilities (d\<lparr>d_Capabilities := ic_Capabilities s, d_Hardening := ''''\<rparr>)"

definition dropGrantedSockets :: "Mount list \<Rightarrow> Desired \<Rightarrow> Mount list" where
  "dropGrantedSockets mounts d =
     (if d_Sockets d = [] then mounts
      else filter (\<lambda>m. m_Destination m \<notin> set (map sk_MountPath (d_Sockets d))) mounts)"

text \<open>\<open>byDest\<close> keeps the last override of a destination.\<close>

definition overrideMounts :: "Mount list \<Rightarrow> Mount list \<Rightarrow> Mount list" where
  "overrideMounts mounts overrides =
     (if overrides = [] then mounts
      else let byDest = map_of (map (\<lambda>m. (m_Destination m, m)) (rev overrides)) in
        map (\<lambda>m. case byDest (m_Destination m) of Some o' \<Rightarrow> o' | None \<Rightarrow> m) mounts)"

definition initSpecFor ::
  "AllocSpec \<Rightarrow> Desired \<Rightarrow> int \<Rightarrow> InitContainer \<Rightarrow> string gomap option \<Rightarrow> Mount list \<Rightarrow> string \<Rightarrow> AllocSpec" where
  "initSpecFor allocSpec d ordinal s env fileMounts logDir =
     (let iid = InitIDFor (as_ID allocSpec) ordinal (ic_Name s);
          pids = (if res_PidsLimit (ic_Resources s) = 0 then res_PidsLimit (as_Resources allocSpec)
                  else res_PidsLimit (ic_Resources s))
      in allocSpec
        \<lparr>as_ID := iid,
         as_Init := Some \<lparr>im_AllocID = as_ID allocSpec, im_Ordinal = ordinal, im_Name = ic_Name s\<rparr>,
         as_Image := ic_Image s, as_Command := ic_Command s, as_Args := ic_Args s, as_User := ic_User s,
         as_Resources := (ic_Resources s)\<lparr>res_PidsLimit := pids\<rparr>,
         as_Capabilities := effectiveInitCapabilities d s, as_ReadOnlyRootfs := False,
         as_Devices := [],
         as_Mounts := overrideMounts (dropGrantedSockets (as_Mounts allocSpec) d) fileMounts,
         as_Env := (case env of Some e \<Rightarrow> e | None \<Rightarrow> ic_Env s),
         as_LogPath := (if logDir \<noteq> '''' then path_join [logDir, iid @ ''.log''] else as_LogPath allocSpec),
         as_CgroupPath := CgroupPath WorkloadSlice iid,
         as_NetnsPath := (if as_NetnsPath allocSpec \<noteq> '''' then NetnsPath (as_ID allocSpec)
                          else as_NetnsPath allocSpec)\<rparr>)"

definition effectivePullPolicy :: "string \<Rightarrow> string \<Rightarrow> string" where
  "effectivePullPolicy nodeDefault declared =
     (if declared \<noteq> '''' then declared
      else if nodeDefault \<noteq> '''' then nodeDefault
      else PullIfNotPresent)"

section \<open>Volumes are kept apart\<close>

lemma plain_itoa: "0 \<le> i \<Longrightarrow> plain_component (itoa i)"
proof -
  assume "0 \<le> i"
  then have "\<forall>c\<in>set (itoa i). is_digit c" by (auto simp: itoa_def dest: udec_digits)
  then show ?thesis
    using itoa_nonempty [of i] by (cases "itoa i") (auto simp: plain_component_def is_digit_def)
qed

lemma plain_shared: "plain_component ''shared''" by (simp add: plain_component_def)

lemma itoa_not_shared: "0 \<le> i \<Longrightarrow> itoa i \<noteq> ''shared''"
proof
  assume "0 \<le> i" "itoa i = ''shared''"
  then have "is_digit (CHR ''s'')" using udec_digits [of "CHR ''s''" "nat i"] by (simp add: itoa_def)
  then show False by (simp add: is_digit_def)
qed

text \<open>The components a volume's path has below the volume directory.\<close>

definition volume_components :: "Desired \<Rightarrow> int \<Rightarrow> Volume \<Rightarrow> string list" where
  "volume_components d i v =
     [d_Project d, d_Service d, if NeedsMount (v_Resource v) then ''shared'' else itoa i, v_Name v]"

lemma VolumePath_join:
  "\<not> IsHost (v_Resource v) \<Longrightarrow> VolumePath b d i v = path_join (b # volume_components d i v)"
  by (simp add: VolumePath_def VolumeHostPath_def SharedVolumeHostPath_def volume_components_def)

definition plain_names :: "Desired \<Rightarrow> Volume \<Rightarrow> bool" where
  "plain_names d v \<longleftrightarrow> plain_component (d_Project d) \<and> plain_component (d_Service d) \<and> plain_component (v_Name v)"

lemma volume_components_plain:
  "plain_names d v \<Longrightarrow> 0 \<le> i \<Longrightarrow> \<forall>c\<in>set (volume_components d i v). plain_component c"
  by (simp add: plain_names_def volume_components_def plain_itoa plain_shared)

text \<open>
  C9. Managed volumes never leave the volume directory and never share a directory by accident: for
  names without path separators, the host path of a volume lies under the volume directory, and two
  volumes have the same path exactly when they are the same volume of the same service and either
  both are network volumes, which the service's allocs share, or both belong to the same alloc index.
\<close>

theorem volume_paths_isolated:
  assumes "plain_base b" and "plain_names d v" and "plain_names e u" and "0 \<le> i" and "0 \<le> j"
    and "\<not> IsHost (v_Resource v)" and "\<not> IsHost (v_Resource u)"
  shows "withinBase b (VolumePath b d i v) \<and>
    (VolumePath b d i v = VolumePath b e j u \<longleftrightarrow>
       d_Project d = d_Project e \<and> d_Service d = d_Service e \<and> v_Name v = v_Name u \<and>
       NeedsMount (v_Resource v) = NeedsMount (v_Resource u) \<and> (NeedsMount (v_Resource v) \<or> i = j))"
proof
  have cs: "volume_components d i v \<noteq> []" "volume_components e j u \<noteq> []" by (simp_all add: volume_components_def)
  note plain = volume_components_plain [OF assms(2,4)] volume_components_plain [OF assms(3,5)]
  show "withinBase b (VolumePath b d i v)"
    using path_rel_join [OF assms(1) cs(1) plain(1)] plain_join_not_up [OF cs(1) plain(1)] assms(6)
    by (simp add: withinBase_def VolumePath_join)
  show "VolumePath b d i v = VolumePath b e j u \<longleftrightarrow>
       d_Project d = d_Project e \<and> d_Service d = d_Service e \<and> v_Name v = v_Name u \<and>
       NeedsMount (v_Resource v) = NeedsMount (v_Resource u) \<and> (NeedsMount (v_Resource v) \<or> i = j)"
    using path_join_inject [OF assms(1) cs plain] itoa_not_shared [OF assms(4)]
      itoa_not_shared [OF assms(5)] assms(6,7)
    by (auto simp: VolumePath_join volume_components_def)
qed

section \<open>What an init step is not given\<close>

lemma overrideMounts_destinations:
  "map m_Destination (overrideMounts mounts overrides) = map m_Destination mounts"
proof -
  have "m_Destination o' = x" if "map_of (map (\<lambda>m. (m_Destination m, m)) os) x = Some o'" for os x o'
    using that by (induction os) (auto split: if_splits)
  then show ?thesis by (auto simp: overrideMounts_def Let_def split: option.splits)
qed

text \<open>
  C10. An init step shares the alloc's network and volumes but none of its grants: whatever the
  service was granted, the spec of a step carries no device and no mount at the path of a granted
  socket, is labelled with its alloc and step, and joins the alloc's network namespace.
\<close>

theorem init_step_has_no_grants:
  assumes "as_NetnsPath spec = NetnsPath (as_ID spec)"
  shows "as_Devices (initSpecFor spec d n s env fms logDir) = [] \<and>
    (\<forall>m\<in>set (as_Mounts (initSpecFor spec d n s env fms logDir)).
       m_Destination m \<notin> set (map sk_MountPath (d_Sockets d))) \<and>
    as_Init (initSpecFor spec d n s env fms logDir) =
      Some \<lparr>im_AllocID = as_ID spec, im_Ordinal = n, im_Name = ic_Name s\<rparr> \<and>
    as_NetnsPath (initSpecFor spec d n s env fms logDir) = as_NetnsPath spec"
proof -
  let ?ms = "overrideMounts (dropGrantedSockets (as_Mounts spec) d) fms"
  have "m_Destination m \<in> set (map m_Destination (dropGrantedSockets (as_Mounts spec) d))" if "m \<in> set ?ms" for m
    using that by (metis image_eqI overrideMounts_destinations set_map)
  then have "\<forall>m\<in>set ?ms. m_Destination m \<notin> set (map sk_MountPath (d_Sockets d))"
    by (fastforce simp: dropGrantedSockets_def split: if_splits)
  then show ?thesis using assms by (simp add: initSpecFor_def Let_def)
qed

section \<open>A declared service gives an acceptable spec\<close>

definition resolved_sockets :: "Desired \<Rightarrow> SocketRequest list" where
  "resolved_sockets d = filter (\<lambda>s. sk_resolvedHostPath s \<noteq> '''') (d_Sockets d)"

text \<open>What the spec language and the resolution of grants and host volumes establish of a service.\<close>

definition well_declared :: "Desired \<Rightarrow> bool" where
  "well_declared d \<longleftrightarrow>
     plain_component (d_Project d) \<and> plain_component (d_Service d) \<and> RunImage d \<noteq> [] \<and>
     0 \<le> res_CPUMillis (d_Resources d) \<and> 0 \<le> res_MemoryBytes (d_Resources d) \<and>
     (d_Runtime d = '''' \<or> d_Runtime d = RuntimeWasmtime) \<and> validate_user (d_User d) = None \<and>
     list_all (\<lambda>c. has_prefix c ''CAP_'' \<or> (c = CapabilityNone \<and> d_Runtime d = '''')) (d_Capabilities d) \<and>
     (d_ResolvConfPath d = '''' \<or> is_abs (d_ResolvConfPath d)) \<and>
     list_all (\<lambda>v. plain_component (v_Name v) \<and> is_abs (v_MountPath v) \<and>
                   (IsHost (v_Resource v) \<longrightarrow> is_abs (v_resolvedHostPath v))) (d_Volumes d) \<and>
     list_all (\<lambda>s. is_abs (sk_resolvedHostPath s) \<and> is_abs (sk_MountPath s)) (resolved_sockets d) \<and>
     list_all (\<lambda>r. list_all (\<lambda>dv. validate_device dv = None) (dr_resolved r)) (d_Devices d)"

lemma effectiveCapabilities_prefix:
  assumes "well_declared d" and "c \<in> set (effectiveCapabilities d)"
  shows "has_prefix c ''CAP_''"
proof -
  have "\<forall>c\<in>set BaselineCapabilities. has_prefix c ''CAP_''"
    by (simp add: BaselineCapabilities_def)
  then show ?thesis
    using assms by (auto simp: effectiveCapabilities_def well_declared_def list_all_iff Let_def split: if_splits)
qed

lemma alloc_mounts_abs:
  assumes "well_declared d" and "plain_base b" and "0 \<le> i" and "m \<in> set (alloc_mounts d i b)"
  shows "is_abs (m_Source m) \<and> is_abs (m_Destination m)"
proof -
  have vol: "is_abs (VolumePath b d i v)" if "v \<in> set (d_Volumes d)" for v
  proof (cases "IsHost (v_Resource v)")
    case True
    then show ?thesis using assms(1) that by (auto simp: well_declared_def list_all_iff VolumePath_def)
  next
    case False
    have "plain_names d v" using assms(1) that by (auto simp: well_declared_def list_all_iff plain_names_def)
    from path_join_components(2) [OF assms(2) _ volume_components_plain [OF this assms(3)]] False
    show ?thesis by (simp add: VolumePath_join volume_components_def)
  qed
  have "is_abs ''/etc/resolv.conf''" by (simp add: is_abs_def)
  then show ?thesis
    using assms(1,4) vol
    by (auto simp: alloc_mounts_def volume_mount_def socket_mount_def well_declared_def list_all_iff
        resolved_sockets_def split: if_splits)
qed

text \<open>
  The runtime accepts what the reconciler builds: for a service declared as the spec language
  demands and an absolute volume directory, the spec of every alloc passes the driver's validation.
\<close>

theorem AllocSpecFor_validates:
  assumes "well_declared d" and "plain_base b" and "0 \<le> i"
  shows "Validate (AllocSpecFor d i logDir b) = None"
proof -
  have "d_Project d \<noteq> []" "d_Service d \<noteq> []" "itoa i \<noteq> []"
    using assms(1) by (auto simp: well_declared_def plain_component_def)
  then have "1 \<le> length (d_Project d)" "1 \<le> length (d_Service d)" "1 \<le> length (itoa i)"
    by (simp_all add: Suc_le_eq)
  then have "3 \<le> length (d_Project d) + (length (d_Service d) + length (itoa i))" by linarith
  then have "\<not> length (AllocID (d_Project d) (d_Service d) i) < MinAllocIDLength"
    by (simp add: AllocID_def MinAllocIDLength_def)
  then have "validate_base (AllocSpecFor d i logDir b) = None"
    using assms(1) by (auto simp: validate_base_def AllocSpecFor_def well_declared_def plain_component_def Let_def)
  moreover have "validate_init (AllocSpecFor d i logDir b) = None"
    by (simp add: validate_init_def AllocSpecFor_def Let_def)
  ultimately show ?thesis
    using assms(1) effectiveCapabilities_prefix [OF assms(1)] alloc_mounts_abs [OF assms]
    by (auto simp: Validate_None_iff AllocSpecFor_def well_declared_def list_all_iff Let_def)
qed

end
