(* ===== verification/Observer.thy ===== *)
theory Observer
  imports Planner_Init
begin

text \<open>
  \<open>internal/reconciler/exit.go\<close>, \<open>observeInit\<close> of \<open>init.go\<close> and the observation half of
  \<open>reconcile.go\<close> (\<open>Observe\<close>, \<open>exitTime\<close>, \<open>applyProbe\<close>, \<open>witness\<close>, \<open>pruneWitnessed\<close>): what containerd
  and the health checks report, turned into durable facts. Strings are byte sequences.
\<close>

section \<open>Why a container stopped\<close>

definition signalExitBase :: nat where "signalExitBase = 128"

definition signalNames :: "(nat \<times> string) list" where
  "signalNames =
     [(1, ''SIGHUP''), (2, ''SIGINT''), (3, ''SIGQUIT''), (4, ''SIGILL''), (6, ''SIGABRT''),
      (8, ''SIGFPE''), (9, ''SIGKILL''), (11, ''SIGSEGV''), (13, ''SIGPIPE''), (15, ''SIGTERM''),
      (24, ''SIGXCPU''), (25, ''SIGXFSZ''), (31, ''SIGSYS'')]"

definition signalName :: "nat \<Rightarrow> string" where
  "signalName signal =
     (case map_of signalNames signal of Some name \<Rightarrow> name | None \<Rightarrow> ''signal '' @ udec signal)"

text \<open>The addition is on \<open>uint64\<close> and wraps.\<close>

definition mebibytes :: "nat \<Rightarrow> string" where
  "mebibytes n =
     (if n \<ge> 2 ^ 30 \<and> n mod 2 ^ 30 = 0 then udec (n div 2 ^ 30) @ '' GiB''
      else udec (((n + 2 ^ 20 - 1) mod 2 ^ 64) div 2 ^ 20) @ '' MiB'')"

definition oomMessage :: "Status \<Rightarrow> string" where
  "oomMessage s =
     (if st_MemoryLimit s = 0 then ''out of memory under the node's workload ceiling (no limit declared)''
      else ''exceeded its '' @ mebibytes (st_MemoryLimit s) @ '' memory limit'')"

definition classifyExit :: "Status \<Rightarrow> ExitReason \<times> string" where
  "classifyExit s =
     (if st_OOMKnown s \<and> st_OOMKilled s then (ExitOOMKilled, oomMessage s)
      else if st_ExitCode s = 0 then (ExitCompleted, ''exited cleanly'')
      else if st_ExitCode s > signalExitBase then
        (ExitSignal, ''killed by '' @ signalName (st_ExitCode s - signalExitBase) @ '' (exit '' @
           udec (st_ExitCode s) @ '')'')
      else (ExitError, ''exited with code '' @ udec (st_ExitCode s)))"

definition crashMessage :: "AllocRecord \<Rightarrow> string" where
  "crashMessage r =
     (if r_LastExitMessage r = '''' then
        ''alloc '' @ itoa (r_Index r) @ '' exited with code '' @ udec (r_LastExitCode r)
      else if r_LastExitReason r = ExitOOMKilled then
        ''alloc '' @ itoa (r_Index r) @ '' OOM-killed: '' @ r_LastExitMessage r
      else ''alloc '' @ itoa (r_Index r) @ '' '' @ r_LastExitMessage r)"

section \<open>Bounding a message\<close>

definition maxExitMessage :: nat where "maxExitMessage = 300"

text \<open>\<open>utf8.RuneStart\<close>: every byte but a continuation byte.\<close>

definition RuneStart :: "char \<Rightarrow> bool" where
  "RuneStart c \<longleftrightarrow> \<not> (128 \<le> (of_char c :: nat) \<and> (of_char c :: nat) < 192)"

definition ellipsis :: string where "ellipsis = [CHR 0xE2, CHR 0x80, CHR 0xA6]"

fun rune_cut :: "string \<Rightarrow> nat \<Rightarrow> nat" where
  "rune_cut s 0 = 0"
| "rune_cut s (Suc n) = (if RuneStart (s ! Suc n) then Suc n else rune_cut s n)"

definition truncateMessage :: "string \<Rightarrow> string" where
  "truncateMessage s =
     (if length s \<le> maxExitMessage then s
      else take (rune_cut s (maxExitMessage - length ellipsis)) s @ ellipsis)"

section \<open>Observing an init sequence\<close>

definition observeInit :: "World \<Rightarrow> Desired \<Rightarrow> AllocRecord \<Rightarrow> AllocRecord option" where
  "observeInit w d r =
     (case initProgress w d (r_ID r) of
        None \<Rightarrow> None
      | Some live \<Rightarrow>
        (case ls_status live of
           None \<Rightarrow> None
         | Some s \<Rightarrow>
           let name = ic_Name (ls_step live);
               label = ''init '' @ go_quote name @ step_of live d;
               verdict =
                 (if st_State s = StateStopped \<and> st_ExitCode s \<noteq> 0 then
                    Some (ExitInitFailed, label @ '' exited with code '' @ udec (st_ExitCode s))
                  else if st_State s = StateRunning \<and> ic_Timeout (ls_step live) > 0 \<and>
                          r_InitStep r = ls_ordinal live \<and> r_InitName r = name \<and>
                          r_InitStartedAt r \<noteq> zero_time \<and>
                          time_sub (w_Now w) (r_InitStartedAt r) > ic_Timeout (ls_step live) then
                    Some (ExitInitTimeout, label @ '' exceeded its '' @ dur_string (ic_Timeout (ls_step live)) @ '' timeout'')
                  else None)
           in case verdict of
                None \<Rightarrow> None
              | Some (reason, message) \<Rightarrow>
                  let r1 = r\<lparr>r_InitStep := ls_ordinal live, r_InitName := name,
                             r_LastExitReason := reason, r_LastExitMessage := truncateMessage message,
                             r_LastExitAt := w_Now w,
                             r_LastExitCode := (if reason = ExitInitFailed then st_ExitCode s else 0),
                             r_UpdatedAt := w_Now w\<rparr>
                  in if \<not> witnessed w (r_ID r) then
                       Some (r1\<lparr>r_State := AllocBackoff, r_NextRestartAt := zero_time\<rparr>)
                     else if r_Restarts r \<ge> attempts (d_Restart d) then Some (r1\<lparr>r_State := AllocFailed\<rparr>)
                     else Some (r1\<lparr>r_State := AllocBackoff,
                                   r_NextRestartAt := w_Now w + delayFor (d_Restart d) (r_Restarts r + 1)\<rparr>)))"

section \<open>Observing containers\<close>

definition exitTime :: "Status \<Rightarrow> time \<Rightarrow> time" where
  "exitTime s fallback = (if st_ExitedAt s = zero_time then fallback else st_ExitedAt s)"

text \<open>The two loops of \<open>Observe\<close>: over the records for init sequences, over the containers.\<close>

definition observe_record :: "World \<Rightarrow> (string \<rightharpoonup> Desired) \<Rightarrow> AllocRecord \<Rightarrow> AllocRecord option" where
  "observe_record w byService r =
     (if r_State r \<noteq> AllocInit \<or> r_Index r \<noteq> InitLeaderIndex then None
      else case byService (service_key (r_Project r) (r_Service r)) of
        None \<Rightarrow> None
      | Some d \<Rightarrow> (if r_Index r \<ge> d_Count d then None else observeInit w d r))"

definition observe_running :: "digest \<Rightarrow> World \<Rightarrow> Desired option \<Rightarrow> AllocRecord \<Rightarrow> AllocRecord option" where
  "observe_running H w md r =
     (let adopt = (r_SpecHash r = '''' \<and> md \<noteq> None);
          r1 = (case md of
                  Some d \<Rightarrow> (if adopt then r\<lparr>r_SpecHash := SpecHash H d, r_UpdatedAt := w_Now w\<rparr> else r)
                | None \<Rightarrow> r)
      in if r_State r1 \<noteq> AllocRunning then
           Some (r1\<lparr>r_State := AllocRunning, r_NextRestartAt := zero_time, r_InitStep := 0,
                    r_InitName := '''', r_InitStartedAt := zero_time, r_UpdatedAt := w_Now w\<rparr>)
         else if adopt then Some r1 else None)"

definition observe_stopped :: "World \<Rightarrow> Desired option \<Rightarrow> string \<Rightarrow> AllocRecord \<Rightarrow> Status \<Rightarrow> AllocRecord option" where
  "observe_stopped w md i r s =
     (if r_State r \<noteq> AllocRunning \<and> r_State r \<noteq> AllocPending \<and> r_State r \<noteq> AllocInit then None
      else case md of
        None \<Rightarrow> None
      | Some d \<Rightarrow>
          if r_Index r \<ge> d_Count d then None
          else let (reason, message) = classifyExit s;
                   r1 = r\<lparr>r_LastExitCode := st_ExitCode s, r_LastExitAt := exitTime s (w_Now w),
                          r_LastExitReason := reason, r_LastExitMessage := message, r_UpdatedAt := w_Now w\<rparr>
               in if \<not> witnessed w i then Some (r1\<lparr>r_State := AllocBackoff, r_NextRestartAt := zero_time\<rparr>)
                  else if r_Restarts r \<ge> attempts (d_Restart d) then Some (r1\<lparr>r_State := AllocFailed\<rparr>)
                  else Some (r1\<lparr>r_State := AllocBackoff,
                                r_NextRestartAt := w_Now w + delayFor (d_Restart d) (r_Restarts r + 1)\<rparr>))"

definition observe_status ::
  "digest \<Rightarrow> World \<Rightarrow> (string \<rightharpoonup> Desired) \<Rightarrow> string \<Rightarrow> Status \<Rightarrow> AllocRecord option" where
  "observe_status H w byService i s =
     (case rec_of w i of
        None \<Rightarrow> None
      | Some r \<Rightarrow>
          let md = byService (service_key (r_Project r) (r_Service r)) in
          (case st_State s of
             StateRunning \<Rightarrow> observe_running H w md r
           | StateStopped \<Rightarrow> observe_stopped w md i r s
           | _ \<Rightarrow> None))"

text \<open>\<open>changed[id] = record\<close> for the entries of a map the loop decides to change.\<close>

definition collect :: "(string \<Rightarrow> 'a \<Rightarrow> 'b option) \<Rightarrow> 'a gomap \<Rightarrow> 'b gomap \<Rightarrow> 'b gomap" where
  "collect f xs m = fold (\<lambda>(i, x) m. case f i x of None \<Rightarrow> m | Some y \<Rightarrow> AList.update i y m) xs m"

definition Observe :: "digest \<Rightarrow> World \<Rightarrow> AllocRecord gomap" where
  "Observe H w =
     (let byService = desired_by_service (w_Desired w) in
      collect (observe_status H w byService) (w_Actual w)
        (collect (\<lambda>i r. observe_record w byService r) (w_Records w) []))"

text \<open>\<open>Reconcile\<close> merges the changed records into the ones it loaded before it plans.\<close>

definition merge_records :: "AllocRecord gomap \<Rightarrow> AllocRecord gomap \<Rightarrow> AllocRecord gomap" where
  "merge_records records changed = collect (\<lambda>i r. Some r) changed records"

definition observed_world :: "digest \<Rightarrow> World \<Rightarrow> World" where
  "observed_world H w = w\<lparr>w_Records := merge_records (w_Records w) (Observe H w)\<rparr>"

section \<open>What this process has seen\<close>

definition witness :: "string set \<Rightarrow> Status gomap \<Rightarrow> InitStatus gomap \<Rightarrow> string set" where
  "witness seen actual initActual =
     seen \<union> fst ` set (filter (\<lambda>(i, s). st_State s = StateRunning) actual) \<union>
     is_AllocID ` set (filter (\<lambda>s. st_State (is_Status s) = StateRunning) (map snd initActual))"

definition pruneWitnessed :: "string set \<Rightarrow> AllocRecord gomap \<Rightarrow> Status gomap \<Rightarrow> string set" where
  "pruneWitnessed seen records actual = seen \<inter> (fst ` set records \<union> fst ` set actual)"

section \<open>Health checks\<close>

text \<open>\<open>probeErr\<close> is \<open>None\<close> for a passing probe, else its message.\<close>

definition applyProbe :: "AllocRecord \<Rightarrow> HealthCheck \<Rightarrow> string option \<Rightarrow> time \<Rightarrow> AllocRecord \<times> bool" where
  "applyProbe before check probeErr now =
     (let r = before\<lparr>r_LastProbeAt := now\<rparr>;
          r = (case probeErr of
                 None \<Rightarrow> r\<lparr>r_HealthFailures := 0, r_HealthMessage := '''', r_Healthy := True\<rparr>
               | Some msg \<Rightarrow>
                   let r = r\<lparr>r_HealthFailures := r_HealthFailures r + 1, r_HealthMessage := msg\<rparr> in
                   if r_HealthFailures r \<ge> failureThreshold (Some check) then r\<lparr>r_Healthy := False\<rparr> else r);
          r = (if r_Healthy r \<noteq> r_Healthy before then r\<lparr>r_UpdatedAt := now\<rparr> else r)
      in (r, r_Healthy r \<noteq> r_Healthy before \<or> r_HealthFailures r \<noteq> r_HealthFailures before \<or>
             r_HealthMessage r \<noteq> r_HealthMessage before \<or>
             time_sub now (r_LastProbeAt before) \<ge> check_interval (Some check)))"

end
