(* ===== verification/Executor.thy ===== *)
theory Executor
  imports Alloc_Spec Observer
begin

text \<open>
  The applying half of \<open>internal/reconciler/reconcile.go\<close> and \<open>init.go\<close>: \<open>prepareAlloc\<close>, \<open>create\<close>,
  \<open>startInitStep\<close>, \<open>stampInitStep\<close>, \<open>advanceInit\<close>, \<open>teardown\<close>, \<open>remove\<close>, \<open>apply\<close>,
  \<open>recordStartFailure\<close> and the loop over a plan's actions.

  What these call outside the package (the containerd driver, the network, the mount manager, the
  file system, the secret and file materialisation, the Store's errors) is a parameter: a record
  \<open>Env\<close> that gives the answer of every call. An operation takes the alloc records of the Store and
  returns the calls it made, in order, the records it leaves, and an error or a result.
\<close>

section \<open>Errors and the environment\<close>

datatype applyPhase =
  phaseImage | phaseVolume | phasePassthrough | phaseSecrets | phaseFiles | phaseNetwork
  | phaseCreate | phaseStart

fun phase_reason :: "applyPhase \<Rightarrow> ExitReason" where
  "phase_reason phaseImage = ExitImageFailed"
| "phase_reason phaseVolume = ExitVolumeFailed"
| "phase_reason phasePassthrough = ExitPassthroughFailed"
| "phase_reason phaseSecrets = ExitSecretsFailed"
| "phase_reason phaseFiles = ExitFilesFailed"
| "phase_reason phaseNetwork = ExitNetworkFailed"
| "phase_reason phaseCreate = ExitCreateFailed"
| "phase_reason phaseStart = ExitStartFailed"

text \<open>An error that carries its phase, or one that is not on the create path.\<close>

datatype apply_error = FailedAt applyPhase string | PlainError string

definition startFailure :: "apply_error \<Rightarrow> (ExitReason \<times> string) option" where
  "startFailure e =
     (case e of PlainError _ \<Rightarrow> None
      | FailedAt phase msg \<Rightarrow> Some (phase_reason phase, truncateMessage msg))"

datatype create_error = ErrAlreadyExists | CreateRefused string

record allocSecrets =
  sec_Env :: "string gomap option"
  sec_InitEnv :: "string gomap gomap"
  sec_Mount :: "Mount option"

record allocFiles =
  fil_Mounts :: "Mount list"
  fil_InitMounts :: "Mount list gomap"

record Env =
  env_now :: time
  env_logDir :: string
  env_volumeDir :: string
  env_pullPolicy :: string
  env_hasNetwork :: bool
  env_hasSecrets :: bool
  env_hasMounts :: bool
  env_hasPassthrough :: bool
  env_resolvConf :: "string \<Rightarrow> string option"
  env_secret :: "string \<Rightarrow> string + string"
  env_ensureImage :: "string \<Rightarrow> string \<Rightarrow> string \<Rightarrow> string option"
  env_resolveHost :: "string \<Rightarrow> bool \<Rightarrow> string + string"
  env_stageHost :: "string \<Rightarrow> string \<Rightarrow> string \<Rightarrow> string + string"
  env_mkdir :: "string \<Rightarrow> string option"
  env_own :: "string \<Rightarrow> Volume \<Rightarrow> string option"
  env_mount :: "Volume \<Rightarrow> string \<Rightarrow> string option"
  env_device :: "string \<Rightarrow> string \<Rightarrow> string + Device list"
  env_socket :: "string \<Rightarrow> string \<Rightarrow> string + string"
  env_secrets :: "Desired \<Rightarrow> string \<Rightarrow> string + allocSecrets"
  env_files :: "Desired \<Rightarrow> string \<Rightarrow> string + allocFiles"
  env_attach :: "AllocSpec \<Rightarrow> string option"
  env_detach :: "AllocSpec \<Rightarrow> string option"
  env_create :: "AllocSpec \<Rightarrow> create_error option"
  env_start :: "string \<Rightarrow> string \<Rightarrow> string option"
  env_stop :: "string \<Rightarrow> string \<Rightarrow> string option"
  env_remove :: "string \<Rightarrow> string \<Rightarrow> string option"
  env_load_error :: "string \<Rightarrow> bool"
  env_put_error :: "AllocRecord \<Rightarrow> string option"
  env_delete_error :: "string \<Rightarrow> string option"

text \<open>The calls an operation makes.\<close>

datatype Call =
    EnsureImage string string string
  | ResolveHost string bool
  | StageHost string string string
  | Mkdir string
  | Own string
  | EnsureMount string
  | ResolveDevice string string
  | ResolveSocket string string
  | EnsureSecrets string
  | EnsureFiles string
  | Attach string
  | Detach string
  | DriverCreate AllocSpec
  | DriverStart string string
  | DriverStop string string
  | DriverRemove string string
  | MarkInitAttempt string string
  | DiscardAlloc string
  | PutRecord AllocRecord
  | DeleteRecord string

section \<open>Sequencing\<close>

type_synonym records = "AllocRecord gomap"
type_synonym 'a exec = "records \<Rightarrow> Call list \<times> records \<times> (apply_error + 'a)"

definition ret :: "'a \<Rightarrow> 'a exec" where
  "ret x st = ([], st, Inr x)"

definition throw :: "apply_error \<Rightarrow> 'a exec" where
  "throw e st = ([], st, Inl e)"

definition bnd :: "'a exec \<Rightarrow> ('a \<Rightarrow> 'b exec) \<Rightarrow> 'b exec" where
  "bnd f g st =
     (case f st of
        (cs, st', Inl e) \<Rightarrow> (cs, st', Inl e)
      | (cs, st', Inr x) \<Rightarrow> (case g x st' of (cs', st'', r) \<Rightarrow> (cs @ cs', st'', r)))"

abbreviation seq :: "unit exec \<Rightarrow> 'b exec \<Rightarrow> 'b exec" where
  "seq f g \<equiv> bnd f (\<lambda>_. g)"

text \<open>A call whose failure ends the operation with an error made from its message.\<close>

definition call :: "Call \<Rightarrow> string option \<Rightarrow> (string \<Rightarrow> apply_error) \<Rightarrow> unit exec" where
  "call c outcome err st =
     ([c], st, case outcome of None \<Rightarrow> Inr () | Some m \<Rightarrow> Inl (err m))"

definition ask :: "Call \<Rightarrow> string + 'a \<Rightarrow> (string \<Rightarrow> apply_error) \<Rightarrow> 'a exec" where
  "ask c outcome err st = ([c], st, case outcome of Inr x \<Rightarrow> Inr x | Inl m \<Rightarrow> Inl (err m))"

definition guard :: "bool \<Rightarrow> apply_error \<Rightarrow> unit exec" where
  "guard ok e = (if ok then ret () else throw e)"

fun each :: "('a \<Rightarrow> 'b exec) \<Rightarrow> 'a list \<Rightarrow> 'b list exec" where
  "each f [] = ret []"
| "each f (x # xs) = bnd (f x) (\<lambda>y. bnd (each f xs) (\<lambda>ys. ret (y # ys)))"

section \<open>Store access\<close>

definition persist1 :: "Env \<Rightarrow> AllocRecord \<Rightarrow> unit exec" where
  "persist1 env r st =
     (case env_put_error env r of
        Some m \<Rightarrow> ([PutRecord r], st, Inl (PlainError m))
      | None \<Rightarrow> ([PutRecord r], AList.update (record_Key r) r st, Inr ()))"

text \<open>\<open>loadRecord\<close>: a record that is missing and one that cannot be read are told apart.\<close>

datatype loaded = NotFound | LoadFailed | Found AllocRecord

definition loadRecord :: "Env \<Rightarrow> records \<Rightarrow> string \<Rightarrow> string \<Rightarrow> int \<Rightarrow> loaded" where
  "loadRecord env st project service index =
     (let k = AllocKey project service index in
      if env_load_error env k then LoadFailed
      else case map_of st k of None \<Rightarrow> NotFound | Some r \<Rightarrow> Found r)"

section \<open>Preparing an alloc\<close>

text \<open>The two sites that resolve a registry credential differ in how they word a failure.\<close>

definition registryAuth :: "Env \<Rightarrow> string \<Rightarrow> string \<Rightarrow> string \<Rightarrow> unit exec" where
  "registryAuth env ref msg pre =
     (if ref = '''' then ret ()
      else if \<not> env_hasSecrets env then throw (FailedAt phaseImage msg)
      else case env_secret env ref of
        Inl m \<Rightarrow> throw (FailedAt phaseImage (pre @ ''registry credential '' @ go_quote ref @ '': '' @ m))
      | Inr _ \<Rightarrow> ret ())"

definition ensureInitImage :: "Env \<Rightarrow> Desired \<Rightarrow> InitContainer \<Rightarrow> unit exec" where
  "ensureInitImage env d s =
     seq (registryAuth env (ic_RegistryAuthRef s)
            (''init '' @ go_quote (ic_Name s) @ '' names a registry credential but no secret store is configured'')
            (''init '' @ go_quote (ic_Name s) @ '' ''))
         (let policy = effectivePullPolicy (env_pullPolicy env) (ic_PullPolicy s) in
          call (EnsureImage (d_Project d) (ic_Image s) policy)
            (env_ensureImage env (d_Project d) (ic_Image s) policy)
            (\<lambda>m. FailedAt phaseImage (''init '' @ go_quote (ic_Name s) @ '': '' @ m)))"

definition volume_error :: "Volume \<Rightarrow> string \<Rightarrow> apply_error" where
  "volume_error v m = FailedAt phaseVolume (''volume '' @ v_Name v @ '': '' @ m)"

text \<open>One volume; the result carries the staged path of a host volume.\<close>

definition ensure_volume :: "Env \<Rightarrow> Desired \<Rightarrow> int \<Rightarrow> Volume \<Rightarrow> Volume exec" where
  "ensure_volume env d index v =
     (if IsHost (v_Resource v) then
        seq (guard (env_hasMounts env) (FailedAt phaseVolume
              (''volume '' @ v_Name v @ '' is a host volume but host volumes are not configured'')))
         (bnd (ask (ResolveHost (sr_Path (v_Resource v)) (sr_Create (v_Resource v)))
                 (env_resolveHost env (sr_Path (v_Resource v)) (sr_Create (v_Resource v))) (volume_error v))
           (\<lambda>resolved.
              let aid = AllocID (d_Project d) (d_Service d) index in
              bnd (ask (StageHost aid (v_Name v) resolved) (env_stageHost env aid (v_Name v) resolved)
                     (volume_error v))
                (\<lambda>staged. ret (v\<lparr>v_resolvedHostPath := staged\<rparr>))))
      else
        let path = VolumePath (env_volumeDir env) d index v in
        seq (guard (withinBase (env_volumeDir env) path) (volume_error v
              (''path '' @ go_quote path @ '' escapes the volume directory'')))
         (seq (call (Mkdir path) (env_mkdir env path) (volume_error v))
           (if \<not> NeedsMount (v_Resource v) then
              seq (if Owned v then call (Own path) (env_own env path v) (volume_error v) else ret ()) (ret v)
            else
              seq (guard (env_hasMounts env) (FailedAt phaseVolume
                     (''volume '' @ v_Name v @ '' needs a '' @ sr_Type (v_Resource v) @
                      '' mount but no mount manager is configured'')))
               (seq (call (EnsureMount path) (env_mount env v path) (volume_error v)) (ret v)))))"

definition ensureVolumes :: "Env \<Rightarrow> Desired \<Rightarrow> int \<Rightarrow> Desired exec" where
  "ensureVolumes env d index =
     bnd (each (ensure_volume env d index) (d_Volumes d)) (\<lambda>vs. ret (d\<lparr>d_Volumes := vs\<rparr>))"

definition ensurePassthrough :: "Env \<Rightarrow> Desired \<Rightarrow> Desired exec" where
  "ensurePassthrough env d =
     (if d_Devices d = [] \<and> d_Sockets d = [] then ret d
      else if \<not> env_hasPassthrough env then
        throw (FailedAt phasePassthrough (''service asks for device or socket passthrough but no grants '' @
          ''are configured on this node (add device/socket blocks to /etc/kanea/kanea.hcl, '' @
          ''or set --passthrough-config)''))
      else
        bnd (each (\<lambda>r. bnd (ask (ResolveDevice (d_Project d) (dr_Grant r)) (env_device env (d_Project d) (dr_Grant r))
                              (\<lambda>m. FailedAt phasePassthrough (''device '' @ dr_Name r @ '': '' @ m)))
                         (\<lambda>nodes. ret (r\<lparr>dr_resolved := nodes\<rparr>))) (d_Devices d))
         (\<lambda>devs.
            bnd (each (\<lambda>s. bnd (ask (ResolveSocket (d_Project d) (sk_Grant s)) (env_socket env (d_Project d) (sk_Grant s))
                                  (\<lambda>m. FailedAt phasePassthrough (''socket '' @ sk_Name s @ '': '' @ m)))
                             (\<lambda>p. ret (s\<lparr>sk_resolvedHostPath := p\<rparr>))) (d_Sockets d))
              (\<lambda>socks. ret (d\<lparr>d_Devices := devs, d_Sockets := socks\<rparr>))))"

record prepared =
  pre_Desired :: Desired
  pre_Spec :: AllocSpec
  pre_Secrets :: allocSecrets
  pre_Files :: allocFiles

definition ensureImages :: "Env \<Rightarrow> Desired \<Rightarrow> unit exec" where
  "ensureImages env d =
     (let policy = effectivePullPolicy (env_pullPolicy env) (d_PullPolicy d) in
      seq (registryAuth env (d_RegistryAuthRef d) ''service names a registry credential but no secret store is configured'' '''')
       (seq (call (EnsureImage (d_Project d) (RunImage d) policy)
               (env_ensureImage env (d_Project d) (RunImage d) policy) (FailedAt phaseImage))
         (bnd (each (ensureInitImage env d) (d_Init d)) (\<lambda>_. ret ()))))"

definition attach :: "Env \<Rightarrow> AllocSpec \<Rightarrow> AllocSpec exec" where
  "attach env spec =
     (if env_hasNetwork env then
        seq (call (Attach (as_ID spec)) (env_attach env spec) (FailedAt phaseNetwork)) (ret spec)
      else ret (spec\<lparr>as_NetnsPath := ''''\<rparr>))"

definition prepareAlloc :: "Env \<Rightarrow> Desired \<Rightarrow> Action \<Rightarrow> prepared exec" where
  "prepareAlloc env d0 act =
     (let d = (case env_resolvConf env (d_Project d0) of
                 None \<Rightarrow> d0 | Some p \<Rightarrow> d0\<lparr>d_ResolvConfPath := p\<rparr>);
          aid = AllocID (d_Project d) (d_Service d) (a_Index act) in
      seq (ensureImages env d)
       (bnd (ensureVolumes env d (a_Index act)) (\<lambda>d.
        bnd (ensurePassthrough env d) (\<lambda>d.
        bnd (ask (EnsureSecrets aid) (env_secrets env d aid) (FailedAt phaseSecrets)) (\<lambda>sec.
        bnd (ask (EnsureFiles aid) (env_files env d aid) (FailedAt phaseFiles)) (\<lambda>files.
          let spec = AllocSpecFor d (a_Index act) (env_logDir env) (env_volumeDir env);
              spec = (case sec_Env sec of None \<Rightarrow> spec | Some e \<Rightarrow> spec\<lparr>as_Env := e\<rparr>);
              spec = spec\<lparr>as_Mounts := as_Mounts spec @
                         (case sec_Mount sec of None \<Rightarrow> [] | Some m \<Rightarrow> [m]) @ fil_Mounts files\<rparr>
          in bnd (attach env spec) (\<lambda>spec.
               ret \<lparr>pre_Desired = d, pre_Spec = spec, pre_Secrets = sec, pre_Files = files\<rparr>)))))))"

section \<open>Init steps\<close>

text \<open>The record \<open>stampInitStep\<close> writes, from the one it finds.\<close>

definition stamped_record ::
  "digest \<Rightarrow> Env \<Rightarrow> Desired \<Rightarrow> Action \<Rightarrow> int \<Rightarrow> string \<Rightarrow> loaded \<Rightarrow> AllocRecord" where
  "stamped_record H env d act ordinal name existing =
     (let r = zero_record\<lparr>r_ID := a_AllocID act, r_Project := d_Project d, r_Service := d_Service d,
                r_Index := a_Index act, r_Image := d_Image d, r_SpecHash := SpecHash H d,
                r_State := AllocInit, r_InitStep := ordinal, r_InitName := name,
                r_InitStartedAt := env_now env, r_CreatedAt := env_now env, r_UpdatedAt := env_now env\<rparr>
      in case existing of
           Found x \<Rightarrow>
             if r_SpecHash x = '''' \<or> r_SpecHash x = r_SpecHash r then
               let r = r\<lparr>r_CreatedAt := r_CreatedAt x,
                         r_Restarts := r_Restarts x + (if a_Kind act = ActionRestart then 1 else 0)\<rparr>
               in if r_LastExitAt x \<noteq> zero_time then
                    r\<lparr>r_LastExitCode := r_LastExitCode x, r_LastExitAt := r_LastExitAt x,
                      r_LastExitReason := r_LastExitReason x, r_LastExitMessage := r_LastExitMessage x\<rparr>
                  else r
             else r
         | _ \<Rightarrow> r)"

definition stampInitStep :: "digest \<Rightarrow> Env \<Rightarrow> Desired \<Rightarrow> Action \<Rightarrow> int \<Rightarrow> string \<Rightarrow> unit exec" where
  "stampInitStep H env d act ordinal name st =
     persist1 env
       (stamped_record H env d act ordinal name
          (loadRecord env st (d_Project d) (d_Service d) (a_Index act))) st"

definition wrapInitError :: "InitContainer \<Rightarrow> int \<Rightarrow> int \<Rightarrow> string \<Rightarrow> string" where
  "wrapInitError s ordinal steps m =
     ''init '' @ go_quote (ic_Name s) @ '' ('' @ itoa (ordinal + 1) @ '' of '' @ itoa steps @ ''): '' @ m"

definition markInitAttempt :: "string \<Rightarrow> string \<Rightarrow> unit exec" where
  "markInitAttempt path name =
     (if path = '''' then ret () else (\<lambda>st. ([MarkInitAttempt path name], st, Inr ())))"

text \<open>A re-run's leftover goes first.\<close>

definition remove_leftover :: "Env \<Rightarrow> Desired \<Rightarrow> Action \<Rightarrow> InitContainer \<Rightarrow> int \<Rightarrow> AllocSpec \<Rightarrow> unit exec" where
  "remove_leftover env d act s ordinal spec =
     (if map_option ia_Op (a_Init act) = Some InitRerun then
        call (DriverRemove (d_Project d) (as_ID spec)) (env_remove env (d_Project d) (as_ID spec))
          (\<lambda>m. FailedAt phaseCreate (wrapInitError s ordinal (int (length (d_Init d))) m))
      else ret ())"

text \<open>A step that already exists is adopted; one that was created is started.\<close>

definition create_step :: "Env \<Rightarrow> Desired \<Rightarrow> InitContainer \<Rightarrow> int \<Rightarrow> AllocSpec \<Rightarrow> unit exec" where
  "create_step env d s ordinal spec st =
     (let wrap = wrapInitError s ordinal (int (length (d_Init d))) in
      case env_create env spec of
        None \<Rightarrow>
          (case env_start env (d_Project d) (as_ID spec) of
             None \<Rightarrow> ([DriverCreate spec, DriverStart (d_Project d) (as_ID spec)], st, Inr ())
           | Some m \<Rightarrow> ([DriverCreate spec, DriverStart (d_Project d) (as_ID spec)], st,
                         Inl (FailedAt phaseStart (wrap m))))
      | Some ErrAlreadyExists \<Rightarrow> ([DriverCreate spec], st, Inr ())
      | Some (CreateRefused m) \<Rightarrow> ([DriverCreate spec], st, Inl (FailedAt phaseCreate (wrap m))))"

definition startInitStep :: "digest \<Rightarrow> Env \<Rightarrow> prepared \<Rightarrow> Action \<Rightarrow> int \<Rightarrow> unit exec" where
  "startInitStep H env p act ordinal =
     (let d = pre_Desired p;
          s = d_Init d ! nat ordinal;
          files = (case map_of (fil_InitMounts (pre_Files p)) (ic_Name s) of None \<Rightarrow> [] | Some ms \<Rightarrow> ms);
          spec = initSpecFor (pre_Spec p) d ordinal s
                   (map_of (sec_InitEnv (pre_Secrets p)) (ic_Name s)) files (env_logDir env)
      in
      seq (ensureInitImage env d s)
       (seq (markInitAttempt (as_LogPath spec) (ic_Name s))
       (seq (remove_leftover env d act s ordinal spec)
       (seq (create_step env d s ordinal spec)
         (stampInitStep H env d act ordinal (ic_Name s))))))"

definition advanceInit :: "digest \<Rightarrow> Env \<Rightarrow> Desired \<Rightarrow> Action \<Rightarrow> unit exec" where
  "advanceInit H env d act =
     (case a_Init act of
        None \<Rightarrow> throw (PlainError (''init step action for '' @ a_AllocID act @ '' carries no step''))
      | Some ia \<Rightarrow>
          if ia_Ordinal ia \<ge> int (length (d_Init d)) then ret ()
          else if ia_Op ia = InitAdopt then
            stampInitStep H env d act (ia_Ordinal ia) (ic_Name (d_Init d ! nat (ia_Ordinal ia)))
          else bnd (prepareAlloc env d act) (\<lambda>p. startInitStep H env p act (ia_Ordinal ia)))"

section \<open>Creating an alloc\<close>

text \<open>The record \<open>create\<close> writes once the task runs.\<close>

definition created_record :: "digest \<Rightarrow> Env \<Rightarrow> Desired \<Rightarrow> Action \<Rightarrow> string \<Rightarrow> loaded \<Rightarrow> AllocRecord" where
  "created_record H env d act specID existing =
     (let r = zero_record\<lparr>r_ID := specID, r_Project := d_Project d, r_Service := d_Service d,
                r_Index := a_Index act, r_Image := d_Image d, r_SpecHash := SpecHash H d,
                r_State := AllocRunning, r_CreatedAt := env_now env, r_UpdatedAt := env_now env\<rparr>
      in case existing of
           Found x \<Rightarrow>
             if r_SpecHash x = '''' \<or> r_SpecHash x = r_SpecHash r then
               let r = r\<lparr>r_CreatedAt := r_CreatedAt x, r_Restarts := r_Restarts x,
                         r_LastExitCode := r_LastExitCode x, r_LastExitAt := r_LastExitAt x\<rparr>;
                   r = (if r_LastExitAt x \<noteq> zero_time then
                          r\<lparr>r_LastExitReason := r_LastExitReason x, r_LastExitMessage := r_LastExitMessage x\<rparr>
                        else r)
               in if a_Kind act = ActionRestart then r\<lparr>r_Restarts := r_Restarts r + 1\<rparr> else r
             else r
         | _ \<Rightarrow> r)"

definition create_task :: "digest \<Rightarrow> Env \<Rightarrow> prepared \<Rightarrow> Action \<Rightarrow> unit exec" where
  "create_task H env p act =
     (let d = pre_Desired p; spec = pre_Spec p in
      seq (call (DriverCreate spec)
             (case env_create env spec of None \<Rightarrow> None | Some ErrAlreadyExists \<Rightarrow> Some ''already exists''
              | Some (CreateRefused m) \<Rightarrow> Some m) (FailedAt phaseCreate))
       (seq (call (DriverStart (d_Project d) (as_ID spec)) (env_start env (d_Project d) (as_ID spec)) (FailedAt phaseStart))
         (\<lambda>st. persist1 env (created_record H env d act (as_ID spec)
                  (loadRecord env st (d_Project d) (d_Service d) (a_Index act))) st)))"

definition create :: "digest \<Rightarrow> Env \<Rightarrow> Desired \<Rightarrow> Action \<Rightarrow> unit exec" where
  "create H env d act =
     bnd (prepareAlloc env d act) (\<lambda>p.
       let sequenceDone = (map_option ia_Op (a_Init act) = Some InitDone) in
       if d_Init (pre_Desired p) \<noteq> [] \<and> a_Index act = InitLeaderIndex \<and> \<not> sequenceDone then
         startInitStep H env p act 0
       else create_task H env p act)"

section \<open>Tearing down and removing\<close>

definition stop_remove :: "Env \<Rightarrow> string \<Rightarrow> string \<Rightarrow> string \<Rightarrow> string \<Rightarrow> unit exec" where
  "stop_remove env project i stopMsg removeMsg =
     seq (call (DriverStop project i) (env_stop env project i) (\<lambda>m. PlainError (stopMsg @ m)))
         (call (DriverRemove project i) (env_remove env project i) (\<lambda>m. PlainError (removeMsg @ m)))"

definition init_ids_of :: "World \<Rightarrow> string \<Rightarrow> string list" where
  "init_ids_of w aid = map fst (filter (\<lambda>(i, s). is_AllocID s = aid) (w_InitActual w))"

definition teardown :: "Env \<Rightarrow> World \<Rightarrow> Desired \<Rightarrow> Action \<Rightarrow> unit exec" where
  "teardown env w d act =
     bnd (each (\<lambda>i. stop_remove env (a_Project act) i (''stop init container '' @ i @ '': '')
                      (''remove init container '' @ i @ '': '')) (init_ids_of w (a_AllocID act)))
     (\<lambda>_. seq (stop_remove env (a_Project act) (a_AllocID act) ''stop: '' ''remove: '')
     (seq (if env_hasNetwork env then
             let spec = AllocSpecFor d (a_Index act) (env_logDir env) (env_volumeDir env) in
             call (Detach (as_ID spec)) (env_detach env spec) (\<lambda>m. PlainError (''detach network: '' @ m))
           else ret ())
     (\<lambda>st. ([DiscardAlloc (a_AllocID act)], st, Inr ()))))"

definition remove :: "Env \<Rightarrow> World \<Rightarrow> Desired \<Rightarrow> bool \<Rightarrow> Action \<Rightarrow> unit exec" where
  "remove env w d stillDeclared act =
     seq (teardown env w d act)
      (case rec_of w (a_AllocID act) of
         None \<Rightarrow> ret ()
       | Some r \<Rightarrow>
           if stillDeclared \<and> (r_State r = AllocFailed \<or> r_Restarts r \<ge> attempts (d_Restart d)) then
             persist1 env (r\<lparr>r_State := AllocFailed, r_UpdatedAt := env_now env\<rparr>)
           else (\<lambda>st. case env_delete_error env (record_Key r) of
                   Some m \<Rightarrow> ([DeleteRecord (record_Key r)], st, Inl (PlainError m))
                 | None \<Rightarrow> ([DeleteRecord (record_Key r)], AList.delete (record_Key r) st, Inr ())))"

definition markRunning :: "Env \<Rightarrow> World \<Rightarrow> Action \<Rightarrow> unit exec" where
  "markRunning env w act =
     (case rec_of w (a_AllocID act) of
        None \<Rightarrow> ret ()
      | Some r \<Rightarrow> persist1 env (r\<lparr>r_State := AllocRunning, r_NextRestartAt := zero_time, r_UpdatedAt := env_now env\<rparr>))"

section \<open>Applying an action\<close>

definition desiredFor :: "World \<Rightarrow> Action \<Rightarrow> Desired option" where
  "desiredFor w act = List.find (\<lambda>d. d_Project d = a_Project act \<and> d_Service d = a_Service act) (w_Desired w)"

text \<open>The zero value \<open>desiredFor\<close> returns beside \<open>false\<close>; only a removal goes on with it.\<close>

definition undeclared :: "Action \<Rightarrow> Desired" where
  "undeclared act = zero_desired\<lparr>d_Project := a_Project act, d_Service := a_Service act\<rparr>"

definition no_desired :: "Action \<Rightarrow> apply_error" where
  "no_desired act = PlainError (''no desired state for '' @ a_AllocID act)"

definition apply_action :: "digest \<Rightarrow> Env \<Rightarrow> World \<Rightarrow> Action \<Rightarrow> unit exec" where
  "apply_action H env w act =
     (case desiredFor w act of
        None \<Rightarrow>
          (case a_Kind act of
             ActionWait \<Rightarrow> ret ()
           | ActionRemove \<Rightarrow> remove env w (undeclared act) False act
           | ActionRemoveInit \<Rightarrow>
               call (DriverRemove (a_Project act) (a_AllocID act)) (env_remove env (a_Project act) (a_AllocID act))
                 (\<lambda>m. PlainError (''remove init container: '' @ m))
           | _ \<Rightarrow> throw (no_desired act))
      | Some d \<Rightarrow>
          (case a_Kind act of
             ActionWait \<Rightarrow> ret ()
           | ActionCreate \<Rightarrow> create H env d act
           | ActionStart \<Rightarrow>
               seq (call (DriverStart (a_Project act) (a_AllocID act)) (env_start env (a_Project act) (a_AllocID act))
                      (FailedAt phaseStart)) (markRunning env w act)
           | ActionRestart \<Rightarrow> seq (teardown env w d act) (create H env d act)
           | ActionReplace \<Rightarrow> seq (teardown env w d act) (create H env d act)
           | ActionRecover \<Rightarrow> seq (teardown env w d act) (create H env d act)
           | ActionRemove \<Rightarrow> remove env w d True act
           | ActionInitStep \<Rightarrow> advanceInit H env d act
           | ActionRemoveInit \<Rightarrow>
               call (DriverRemove (a_Project act) (a_AllocID act)) (env_remove env (a_Project act) (a_AllocID act))
                 (\<lambda>m. PlainError (''remove init container: '' @ m))))"

text \<open>The record a failed start leaves, if any; \<open>None\<close> when nothing is written.\<close>

definition start_failure_record :: "Env \<Rightarrow> Action \<Rightarrow> ExitReason \<Rightarrow> string \<Rightarrow> loaded \<Rightarrow> AllocRecord option" where
  "start_failure_record env act reason message l =
     (let note = (\<lambda>r. if r_LastExitReason r = reason \<and> r_LastExitMessage r = message then None
                      else Some (r\<lparr>r_LastExitReason := reason, r_LastExitMessage := message,
                                   r_UpdatedAt := env_now env\<rparr>))
      in case l of
           LoadFailed \<Rightarrow> None
         | Found r \<Rightarrow> note r
         | NotFound \<Rightarrow> note (zero_record\<lparr>r_ID := a_AllocID act, r_Project := a_Project act,
                                 r_Service := a_Service act, r_Index := a_Index act,
                                 r_State := AllocPending, r_CreatedAt := env_now env\<rparr>))"

definition recordStartFailure :: "Env \<Rightarrow> Action \<Rightarrow> apply_error \<Rightarrow> records \<Rightarrow> Call list \<times> records" where
  "recordStartFailure env act cause st =
     (case startFailure cause of
        None \<Rightarrow> ([], st)
      | Some (reason, message) \<Rightarrow>
          if a_Service act = '''' then ([], st)
          else case start_failure_record env act reason message
                      (loadRecord env st (a_Project act) (a_Service act) (a_Index act)) of
                 None \<Rightarrow> ([], st)
               | Some r \<Rightarrow> (case persist1 env r st of (cs, st', _) \<Rightarrow> (cs, st')))"

text \<open>The loop over the plan: an action that fails is recorded and does not stop the others.\<close>

record Result =
  res_Applied :: int
  res_Failed :: int

definition starts_container :: "ActionKind \<Rightarrow> bool" where
  "starts_container k \<longleftrightarrow>
     k \<in> {ActionCreate, ActionStart, ActionRestart, ActionReplace, ActionRecover, ActionInitStep}"

fun apply_all ::
  "digest \<Rightarrow> Env \<Rightarrow> World \<Rightarrow> Action list \<Rightarrow> records \<times> string set \<times> Result \<Rightarrow>
   Call list \<times> records \<times> string set \<times> Result" where
  "apply_all H env w [] (st, seen, res) = ([], st, seen, res)"
| "apply_all H env w (act # acts) (st, seen, res) =
     (case apply_action H env w act st of
        (cs, st', Inl e) \<Rightarrow>
          (let (cs', st'') = recordStartFailure env act e st';
               (cs'', out) = apply_all H env w acts (st'', seen, res\<lparr>res_Failed := res_Failed res + 1\<rparr>)
           in (cs @ cs' @ cs'', out))
      | (cs, st', Inr _) \<Rightarrow>
          (let seen' = (if starts_container (a_Kind act) then insert (a_AllocID act) seen else seen);
               (cs'', out) = apply_all H env w acts (st', seen', res\<lparr>res_Applied := res_Applied res + 1\<rparr>)
           in (cs @ cs'', out)))"

end
