(* ===== verification/Observer_Crash.thy ===== *)
theory Observer_Crash
  imports Observer_Facts
begin

text \<open>
  From an observed crash to the plan that follows it, the rule of consecutive health failures, and
  the bound on the messages a record carries.
\<close>

section \<open>Crash, backoff, restart\<close>

definition nonneg_backoff :: "Desired \<Rightarrow> bool" where
  "nonneg_backoff d \<longleftrightarrow> (\<forall>b\<in>set (rp_Backoff (d_Restart d)). 0 \<le> b)"

lemma delayFor_nonneg: "nonneg_backoff d \<Longrightarrow> 0 \<le> delayFor (d_Restart d) n"
  using delayFor_in_schedule [of "d_Restart d" n]
  by (auto simp: nonneg_backoff_def backoff_schedule_def DefaultRestartBackoff_def second_def minute_def
      split: if_splits)

text \<open>An alloc of a declared service that stopped although its record says it was running.\<close>

definition just_crashed :: "digest \<Rightarrow> World \<Rightarrow> Desired \<Rightarrow> int \<Rightarrow> AllocRecord \<Rightarrow> bool" where
  "just_crashed H w d i r \<longleftrightarrow>
     d \<in> set (w_Desired w) \<and> distinct (map d_key (w_Desired w)) \<and> i < d_Count d \<and>
     gm_wf (w_Records w) \<and> gm_wf (w_Actual w) \<and> 0 < w_Now w \<and>
     rec_of w (d_id d i) = Some r \<and> r_State r = AllocRunning \<and> \<not> drifted r (SpecHash H d) \<and>
     r_Project r = d_Project d \<and> r_Service r = d_Service d \<and> r_Index r = i \<and>
     (case actual_of w (d_id d i) of None \<Rightarrow> False | Some s \<Rightarrow> st_State s = StateStopped)"

lemma just_crashed_record:
  assumes "just_crashed H w d i r"
  obtains s r' where "actual_of w (d_id d i) = Some s" and "st_State s = StateStopped"
    and "rec_of (observed_world H w) (d_id d i) = Some r'"
    and "observe_stopped w (Some d) (d_id d i) r s = Some r'"
proof -
  obtain s where s: "actual_of w (d_id d i) = Some s" "st_State s = StateStopped"
    using assms by (auto simp: just_crashed_def split: option.splits)
  have key: "desired_by_service (w_Desired w) (service_key (r_Project r) (r_Service r)) = Some d"
    using assms desired_by_service_lookup [of "w_Desired w" d] by (simp add: just_crashed_def)
  have "observe_stopped w (Some d) (d_id d i) r s \<noteq> None"
    using assms by (auto simp: just_crashed_def observe_stopped_def Let_def split: prod.splits)
  then obtain r' where r': "observe_stopped w (Some d) (d_id d i) r s = Some r'" by blast
  then have "observation H w (d_id d i) = Some r'"
    using assms s key by (simp add: observation_def observe_status_def just_crashed_def Let_def)
  then have "rec_of (observed_world H w) (d_id d i) = Some r'"
    using assms by (simp add: observed_lookup just_crashed_def)
  with that s r' show thesis by blast
qed

lemma alloc_plan_stopped:
  assumes "rec_of w (d_id d i) = Some r" and "actual_of w (d_id d i) = Some s" and "st_State s = StateStopped"
    and "\<not> drifted r (SpecHash H d)" and "r_State r = AllocBackoff"
  shows "alloc_plan H w d i = planRestart w d (base_action d i (d_id d i)) r s"
  using assms by (simp add: alloc_plan_def planAlloc_def plan_present_def)

lemma witnessed_now [simp]: "witnessed (w\<lparr>w_Now := t\<rparr>) i = witnessed w i"
  by (simp add: witnessed_def)

lemma witnessed_observed [simp]: "witnessed (observed_world H w) i = witnessed w i"
  by (simp add: witnessed_def)

text \<open>
  C5. A crash is followed by the backoff its policy prescribes and by nothing else. For an alloc of
  the current spec whose exit was witnessed, the plans made at any later time \<open>t\<close> from the observed
  records are: none before the delay of the attempt has run out, a restart from then on; and none at
  all once every attempt is used up.
\<close>

theorem crash_restarts_after_backoff:
  assumes "just_crashed H w d i r" and "witnessed w (d_id d i)" and "nonneg_backoff d"
  shows "map a_Kind (alloc_plan H ((observed_world H w)\<lparr>w_Now := t\<rparr>) d i) =
    (if attempts (d_Restart d) \<le> r_Restarts r \<or> t < w_Now w + delayFor (d_Restart d) (r_Restarts r + 1)
     then [] else [ActionRestart])"
proof -
  let ?w = "(observed_world H w)\<lparr>w_Now := t\<rparr>"
  obtain s r' where s: "actual_of w (d_id d i) = Some s" "st_State s = StateStopped"
    and rec': "rec_of (observed_world H w) (d_id d i) = Some r'"
    and obs: "observe_stopped w (Some d) (d_id d i) r s = Some r'"
    using just_crashed_record [OF assms(1)] .
  have r: "r_State r = AllocRunning" "\<not> r_Index r \<ge> d_Count d" "\<not> drifted r (SpecHash H d)" "0 < w_Now w"
    using assms(1) by (auto simp: just_crashed_def)
  have drift: "\<not> drifted r' (SpecHash H d)"
    using observe_stopped_fields(7) [OF obs] r(3) by (simp add: drifted_def)
  show ?thesis
  proof (cases "attempts (d_Restart d) \<le> r_Restarts r")
    case True
    then have "r_State r' = AllocFailed"
      using obs r(1,2) assms(2) by (auto simp: observe_stopped_def Let_def split: prod.splits)
    then show ?thesis using True rec' drift by (simp add: alloc_plan_def planAlloc_def)
  next
    case False
    then have "r_State r' = AllocBackoff" "r_Restarts r' = r_Restarts r"
      "r_NextRestartAt r' = w_Now w + delayFor (d_Restart d) (r_Restarts r + 1)"
      using obs r(1,2) assms(2) by (auto simp: observe_stopped_def Let_def split: prod.splits)
    moreover have "w_Now w + delayFor (d_Restart d) (r_Restarts r + 1) \<noteq> 0"
      using delayFor_nonneg [OF assms(3)] r(4) by (metis add_pos_nonneg less_irrefl)
    ultimately show ?thesis
      using alloc_plan_stopped [of ?w d i r' s H] rec' s drift False assms(2)
      by (simp add: planRestart_def)
  qed
qed

text \<open>
  A node that comes back from an outage restarts everything at once and for free: an alloc of
  the current spec found stopped without this process having seen it run is recovered in the very
  pass that observes it, however many restarts its record counts, and whatever deadline it carried.
\<close>

theorem unwitnessed_exit_recovers_immediately:
  assumes "just_crashed H w d i r" and "\<not> witnessed w (d_id d i)"
  shows "map a_Kind (alloc_plan H ((observed_world H w)\<lparr>w_Now := t\<rparr>) d i) = [ActionRecover]"
proof -
  obtain s r' where s: "actual_of w (d_id d i) = Some s" "st_State s = StateStopped"
    and rec': "rec_of (observed_world H w) (d_id d i) = Some r'"
    and obs: "observe_stopped w (Some d) (d_id d i) r s = Some r'"
    using just_crashed_record [OF assms(1)] .
  have "\<not> drifted r' (SpecHash H d)"
    using observe_stopped_fields(7) [OF obs] assms(1) by (simp add: drifted_def just_crashed_def)
  moreover have "r_State r' = AllocBackoff"
    using observe_stopped_fields(1,8) [OF obs] assms(2) by auto
  ultimately show ?thesis
    using alloc_plan_stopped [of "(observed_world H w)\<lparr>w_Now := t\<rparr>" d i r' s H] rec' s assms(2)
    by (simp add: planRestart_def)
qed

section \<open>Consecutive health failures\<close>

definition probe_all :: "HealthCheck \<Rightarrow> AllocRecord \<Rightarrow> (string option \<times> time) list \<Rightarrow> AllocRecord" where
  "probe_all check r rs = fold (\<lambda>(e, t) r. fst (applyProbe r check e t)) rs r"

definition trailing_failures :: "(string option \<times> time) list \<Rightarrow> int" where
  "trailing_failures rs = int (length (takeWhile (\<lambda>(e, t). e \<noteq> None) (rev rs)))"

lemma probe_all_snoc: "probe_all check r (rs @ [(e, t)]) = fst (applyProbe (probe_all check r rs) check e t)"
  by (simp add: probe_all_def)

lemma applyProbe_simps:
  "r_HealthFailures (fst (applyProbe r check None t)) = 0" "r_Healthy (fst (applyProbe r check None t))"
  "r_HealthFailures (fst (applyProbe r check (Some m) t)) = r_HealthFailures r + 1"
  "r_Healthy (fst (applyProbe r check (Some m) t)) \<longleftrightarrow>
     r_Healthy r \<and> r_HealthFailures r + 1 < failureThreshold (Some check)"
  by (auto simp: applyProbe_def Let_def)

text \<open>
  The health verdict is the consecutive-failures rule: after any series of probes of which at
  least one passed, an alloc is healthy if and only if fewer than \<open>failures\<close> probes have failed since
  the last one that passed, and the record counts exactly those.
\<close>

theorem health_follows_consecutive_failures:
  assumes "\<exists>t. (None, t) \<in> set rs"
  shows "r_HealthFailures (probe_all check r rs) = trailing_failures rs \<and>
    (r_Healthy (probe_all check r rs) \<longleftrightarrow> trailing_failures rs < failureThreshold (Some check))"
  using assms
proof (induction rs rule: rev_induct)
  case (snoc x rs)
  obtain e t where x: "x = (e, t)" by (cases x)
  show ?case
  proof (cases e)
    case None
    then show ?thesis
      using failureThreshold_pos [of "Some check"]
      by (simp add: x probe_all_snoc applyProbe_simps trailing_failures_def)
  next
    case (Some m)
    then have "\<exists>t. (None, t) \<in> set rs" using snoc.prems x by auto
    with snoc.IH Some show ?thesis
      by (auto simp: x probe_all_snoc applyProbe_simps trailing_failures_def)
  qed
qed simp

section \<open>Messages\<close>

lemma rune_cut_le: "rune_cut s n \<le> n"
  by (induction n) auto

lemma rune_cut_start: "rune_cut s n = 0 \<or> RuneStart (s ! rune_cut s n)"
  by (induction n) auto

text \<open>The bytes of a string of complete UTF-8 sequences: a lead byte and its continuation bytes.\<close>

definition rune_tail :: "char \<Rightarrow> nat" where
  "rune_tail c = (let n = (of_char c :: nat) in
     if n < 192 then 0 else if n < 224 then 1 else if n < 240 then 2 else 3)"

inductive utf8_runes :: "string \<Rightarrow> bool" where
  utf8_Nil: "utf8_runes []"
| utf8_rune: "RuneStart c \<Longrightarrow> length cs = rune_tail c \<Longrightarrow> (\<forall>b\<in>set cs. \<not> RuneStart b) \<Longrightarrow>
    utf8_runes s \<Longrightarrow> utf8_runes (c # cs @ s)"

lemma utf8_append: "utf8_runes s \<Longrightarrow> utf8_runes t \<Longrightarrow> utf8_runes (s @ t)"
  by (induction rule: utf8_runes.induct) (auto intro: utf8_rune)

lemma utf8_take:
  assumes "utf8_runes s" and "n < length s" and "RuneStart (s ! n)"
  shows "utf8_runes (take n s)"
  using assms
proof (induction s arbitrary: n rule: utf8_runes.induct)
  case (utf8_rune c cs s)
  show ?case
  proof (cases "n \<le> length cs")
    case True
    then have "n = 0" using utf8_rune.prems(2) utf8_rune.hyps(3)
      by (cases n) (auto simp: nth_append split: if_splits)
    then show ?thesis by (simp add: utf8_Nil)
  next
    case False
    then obtain m where n: "n = Suc (length cs + m)" by (metis add_Suc less_natE not_le)
    with utf8_rune.prems utf8_rune.IH [of m] have "utf8_runes (take m s)" by (simp add: nth_append)
    with n utf8_rune.hyps show ?thesis by (auto intro!: utf8_runes.utf8_rune)
  qed
qed simp

lemma utf8_ellipsis: "utf8_runes ellipsis"
proof -
  have "utf8_runes (CHR 0xE2 # [CHR 0x80, CHR 0xA6] @ [])"
    by (rule utf8_rune) (simp_all add: RuneStart_def rune_tail_def utf8_Nil)
  then show ?thesis by (simp add: ellipsis_def)
qed

text \<open>
  The message a record carries is bounded and whole: at most 300 bytes whatever error text it
  came from, unchanged when it fits, else a prefix of it followed by an ellipsis; and a message of
  complete UTF-8 sequences is never cut inside one.
\<close>

theorem truncateMessage_bounded:
  "length (truncateMessage s) \<le> 300 \<and> (length s \<le> 300 \<longrightarrow> truncateMessage s = s) \<and>
   (300 < length s \<longrightarrow> (\<exists>n. truncateMessage s = take n s @ ellipsis)) \<and>
   (utf8_runes s \<longrightarrow> utf8_runes (truncateMessage s))"
proof (cases "length s \<le> 300")
  case True
  then show ?thesis by (simp add: truncateMessage_def maxExitMessage_def)
next
  case False
  let ?n = "rune_cut s (maxExitMessage - length ellipsis)"
  have le: "?n \<le> 297" using rune_cut_le [of s "maxExitMessage - length ellipsis"]
    by (simp add: maxExitMessage_def ellipsis_def)
  have "utf8_runes (take ?n s)" if "utf8_runes s"
    using rune_cut_start [of s "maxExitMessage - length ellipsis"] utf8_take [OF that, of ?n] le False
    by (auto simp: utf8_Nil)
  then show ?thesis
    using False le utf8_append [OF _ utf8_ellipsis]
    by (auto simp: truncateMessage_def maxExitMessage_def ellipsis_def)
qed

end
