(* ===== verification/Executor_Facts.thy ===== *)
theory Executor_Facts
  imports Executor Observer_Crash
begin

text \<open>
  What applying an action does, whatever the outside world answers: the order of the calls, what a
  failure leaves behind, which record is written and what a restart is charged.
\<close>

section \<open>Reasoning about sequenced calls\<close>

named_theorems exec_intros \<open>operations that only make calls of a kind and leave the records alone\<close>

text \<open>An operation that leaves the records alone and makes only calls that satisfy \<open>P\<close>.\<close>

definition only :: "(Call \<Rightarrow> bool) \<Rightarrow> 'a exec \<Rightarrow> bool" where
  "only P f \<longleftrightarrow> (\<forall>st. fst (snd (f st)) = st \<and> (\<forall>c\<in>set (fst (f st)). P c))"

lemma onlyD: "only P f \<Longrightarrow> f st = (cs, st', r) \<Longrightarrow> st' = st \<and> (\<forall>c\<in>set cs. P c)"
  by (metis fst_conv only_def snd_conv)

lemma only_ret [exec_intros]: "only P (ret x)" by (simp add: only_def ret_def)
lemma only_throw [exec_intros]: "only P (throw e)" by (simp add: only_def throw_def)
lemma only_call [exec_intros]: "P c \<Longrightarrow> only P (call c out e)" by (simp add: only_def call_def)
lemma only_ask [exec_intros]: "P c \<Longrightarrow> only P (ask c out e)" by (simp add: only_def ask_def)
lemma only_guard [exec_intros]: "only P (guard b e)" by (simp add: guard_def only_ret only_throw)
lemma only_log [exec_intros]: "P c \<Longrightarrow> only P (\<lambda>st. ([c], st, Inr x))" by (simp add: only_def)

lemma only_if [exec_intros]: "(b \<Longrightarrow> only P f) \<Longrightarrow> (\<not> b \<Longrightarrow> only P g) \<Longrightarrow> only P (if b then f else g)"
  by simp

lemma only_bnd [exec_intros]: "only P f \<Longrightarrow> (\<And>x. only P (g x)) \<Longrightarrow> only P (bnd f g)"
  unfolding only_def bnd_def by (auto split: prod.splits sum.splits) (metis fst_conv snd_conv)+

lemma only_each [exec_intros]: "(\<And>x. only P (f x)) \<Longrightarrow> only P (each f xs)"
  by (induction xs) (auto intro!: exec_intros)

lemma only_sum [exec_intros]:
  "(\<And>x. only P (f x)) \<Longrightarrow> (\<And>y. only P (g y)) \<Longrightarrow> only P (case s of Inl x \<Rightarrow> f x | Inr y \<Rightarrow> g y)"
  by (cases s) auto

lemma bnd_Inr:
  assumes "bnd f g st = (cs, st', Inr y)"
  obtains cs1 st1 x cs2 where "f st = (cs1, st1, Inr x)" and "g x st1 = (cs2, st', Inr y)" and "cs = cs1 @ cs2"
  using assms by (auto simp: bnd_def split: prod.splits sum.splits)

lemma bnd_cases:
  assumes "bnd f g st = (cs, st', r)"
  obtains (stop) e where "f st = (cs, st', Inl e)" and "r = Inl e"
  | (go) cs1 st1 x cs2 where "f st = (cs1, st1, Inr x)" and "g x st1 = (cs2, st', r)" and "cs = cs1 @ cs2"
  using assms by (auto simp: bnd_def split: prod.splits sum.splits)

lemma call_Inr: "call c out e st = (cs, st', Inr x) \<longleftrightarrow> cs = [c] \<and> st' = st \<and> out = None"
  by (auto simp: call_def split: option.splits)

lemma ret_eq [simp]: "ret x st = (cs, st', r) \<longleftrightarrow> cs = [] \<and> st' = st \<and> r = Inr x"
  by (auto simp: ret_def)

lemma throw_eq [simp]: "throw e st = (cs, st', r) \<longleftrightarrow> cs = [] \<and> st' = st \<and> r = Inl e"
  by (auto simp: throw_def)

lemma each_Inr:
  assumes "each f xs st = (cs, st', Inr ys)" and "x \<in> set xs"
  obtains st1 cs1 st2 y where "f x st1 = (cs1, st2, Inr y)" and "set cs1 \<subseteq> set cs"
  using assms
proof (induction xs arbitrary: st cs ys thesis)
  case (Cons z zs)
  from Cons.prems(2) obtain cs1 st1 y1 cs2 where z: "f z st = (cs1, st1, Inr y1)"
    and rest: "bnd (each f zs) (\<lambda>ys. ret (y1 # ys)) st1 = (cs2, st', Inr ys)" and cs: "cs = cs1 @ cs2"
    by (auto elim: bnd_Inr)
  from rest obtain cs3 st3 ys' where zs: "each f zs st1 = (cs3, st3, Inr ys')" and "cs2 = cs3" "st3 = st'"
    by (auto elim!: bnd_Inr)
  show ?case
  proof (cases "x = z")
    case True
    with z cs Cons.prems(1) show ?thesis by (metis set_append sup_ge1)
  next
    case False
    with Cons.prems(3) have "x \<in> set zs" by simp
    from Cons.IH [OF _ zs [unfolded \<open>st3 = st'\<close>] this] obtain st1 cs1 st2 y where
      "f x st1 = (cs1, st2, Inr y)" "set cs1 \<subseteq> set cs3" by blast
    with cs \<open>cs2 = cs3\<close> Cons.prems(1) show ?thesis by (metis le_supI2 set_append)
  qed
qed simp

section \<open>Preparation starts nothing\<close>

text \<open>Calls that neither create, start, stop nor remove a container nor touch the Store.\<close>

fun harmless :: "Call \<Rightarrow> bool" where
  "harmless (DriverCreate _) = False"
| "harmless (DriverStart _ _) = False"
| "harmless (DriverStop _ _) = False"
| "harmless (DriverRemove _ _) = False"
| "harmless (PutRecord _) = False"
| "harmless (DeleteRecord _) = False"
| "harmless _ = True"

lemma ensureInitImage_harmless [exec_intros]: "only harmless (ensureInitImage env d s)"
  unfolding ensureInitImage_def registryAuth_def Let_def by (intro exec_intros) simp_all

lemma ensureImages_harmless [exec_intros]: "only harmless (ensureImages env d)"
  unfolding ensureImages_def registryAuth_def Let_def by (intro exec_intros) simp_all

lemma ensureVolumes_harmless [exec_intros]: "only harmless (ensureVolumes env d i)"
  unfolding ensureVolumes_def ensure_volume_def Let_def by (intro exec_intros) simp_all

lemma ensurePassthrough_harmless [exec_intros]: "only harmless (ensurePassthrough env d)"
  unfolding ensurePassthrough_def by (intro exec_intros) simp_all

lemma attach_harmless [exec_intros]: "only harmless (attach env spec)"
  unfolding attach_def by (intro exec_intros) simp_all

lemma prepareAlloc_harmless [exec_intros]: "only harmless (prepareAlloc env d act)"
  unfolding prepareAlloc_def Let_def by (intro exec_intros) simp_all

section \<open>What a preparation that succeeds has done\<close>

definition image_policy :: "Env \<Rightarrow> string \<Rightarrow> string" where
  "image_policy env p = effectivePullPolicy (env_pullPolicy env) p"

text \<open>Every image the alloc needs was asked for and is there.\<close>

definition images_present :: "Env \<Rightarrow> Desired \<Rightarrow> Call list \<Rightarrow> bool" where
  "images_present env d cs \<longleftrightarrow>
     (\<forall>(ref, p)\<in>set ((RunImage d, d_PullPolicy d) # map (\<lambda>s. (ic_Image s, ic_PullPolicy s)) (d_Init d)).
        EnsureImage (d_Project d) ref (image_policy env p) \<in> set cs \<and>
        env_ensureImage env (d_Project d) ref (image_policy env p) = None)"

lemma ensureInitImage_ok:
  assumes "ensureInitImage env d s st = (cs, st', Inr u)"
  shows "EnsureImage (d_Project d) (ic_Image s) (image_policy env (ic_PullPolicy s)) \<in> set cs \<and>
    env_ensureImage env (d_Project d) (ic_Image s) (image_policy env (ic_PullPolicy s)) = None"
  using assms by (auto simp: ensureInitImage_def Let_def call_Inr image_policy_def elim!: bnd_Inr)

lemma ensureImages_ok:
  assumes "ensureImages env d st = (cs, st', Inr u)"
  shows "images_present env d cs"
proof -
  from assms obtain cs1 cs2 st1 ys where
    main: "env_ensureImage env (d_Project d) (RunImage d) (image_policy env (d_PullPolicy d)) = None"
    and inits: "each (ensureInitImage env d) (d_Init d) st1 = (cs2, st', Inr ys)"
    and cs: "cs = cs1 @ EnsureImage (d_Project d) (RunImage d) (image_policy env (d_PullPolicy d)) # cs2"
    by (auto simp: ensureImages_def Let_def call_Inr image_policy_def elim!: bnd_Inr)
  have "EnsureImage (d_Project d) (ic_Image s) (image_policy env (ic_PullPolicy s)) \<in> set cs2 \<and>
      env_ensureImage env (d_Project d) (ic_Image s) (image_policy env (ic_PullPolicy s)) = None"
    if "s \<in> set (d_Init d)" for s
    using each_Inr [OF inits that] ensureInitImage_ok by (metis subsetD)
  with main cs show ?thesis by (auto simp: images_present_def)
qed

text \<open>Resolution fills in node-local paths only: the identity, the images and the spec hash stay.\<close>

definition resolves_to :: "Desired \<Rightarrow> Desired \<Rightarrow> bool" where
  "resolves_to d d' \<longleftrightarrow>
     (\<exists>path vols devs socks. d' = d\<lparr>d_ResolvConfPath := path, d_Volumes := vols, d_Devices := devs, d_Sockets := socks\<rparr> \<and>
        map (\<lambda>v. v\<lparr>v_resolvedHostPath := ''''\<rparr>) vols = map (\<lambda>v. v\<lparr>v_resolvedHostPath := ''''\<rparr>) (d_Volumes d) \<and>
        map (\<lambda>r. r\<lparr>dr_resolved := []\<rparr>) devs = map (\<lambda>r. r\<lparr>dr_resolved := []\<rparr>) (d_Devices d) \<and>
        map (\<lambda>s. s\<lparr>sk_resolvedHostPath := ''''\<rparr>) socks = map (\<lambda>s. s\<lparr>sk_resolvedHostPath := ''''\<rparr>) (d_Sockets d))"

lemma each_map:
  assumes "each f xs st = (cs, st', Inr ys)" and "\<And>x st cs st' y. f x st = (cs, st', Inr y) \<Longrightarrow> g y = g x"
  shows "map g ys = map g xs"
  using assms(1)
proof (induction xs arbitrary: st cs ys)
  case (Cons x xs)
  then show ?case by (auto elim!: bnd_Inr dest: assms(2))
qed simp

lemma ensureVolumes_ok:
  assumes "ensureVolumes env d i st = (cs, st', Inr d')"
  obtains vols where "d' = d\<lparr>d_Volumes := vols\<rparr>"
    and "map (\<lambda>v. v\<lparr>v_resolvedHostPath := ''''\<rparr>) vols = map (\<lambda>v. v\<lparr>v_resolvedHostPath := ''''\<rparr>) (d_Volumes d)"
proof -
  from assms obtain vols cs1 st1 where v: "each (ensure_volume env d i) (d_Volumes d) st = (cs1, st1, Inr vols)"
    and "d' = d\<lparr>d_Volumes := vols\<rparr>"
    by (auto simp: ensureVolumes_def elim!: bnd_Inr)
  moreover have "u\<lparr>v_resolvedHostPath := ''''\<rparr> = v\<lparr>v_resolvedHostPath := ''''\<rparr>"
    if "ensure_volume env d i v st = (cs, st', Inr u)" for v u st cs st'
    using that by (auto simp: ensure_volume_def Let_def elim!: bnd_Inr split: if_splits)
  ultimately show thesis using that each_map [OF v] by blast
qed

lemma ensurePassthrough_ok:
  assumes "ensurePassthrough env d st = (cs, st', Inr d')"
  obtains devs socks where "d' = d\<lparr>d_Devices := devs, d_Sockets := socks\<rparr>"
    and "map (\<lambda>r. r\<lparr>dr_resolved := []\<rparr>) devs = map (\<lambda>r. r\<lparr>dr_resolved := []\<rparr>) (d_Devices d)"
    and "map (\<lambda>s. s\<lparr>sk_resolvedHostPath := ''''\<rparr>) socks = map (\<lambda>s. s\<lparr>sk_resolvedHostPath := ''''\<rparr>) (d_Sockets d)"
proof (cases "d_Devices d = [] \<and> d_Sockets d = []")
  case True
  with assms that [of "[]" "[]"] show thesis by (auto simp: ensurePassthrough_def)
next
  case False
  let ?dev = "\<lambda>r. bnd (ask (ResolveDevice (d_Project d) (dr_Grant r)) (env_device env (d_Project d) (dr_Grant r))
        (\<lambda>m. FailedAt phasePassthrough (''device '' @ dr_Name r @ '': '' @ m)))
      (\<lambda>nodes. ret (r\<lparr>dr_resolved := nodes\<rparr>))"
  let ?sock = "\<lambda>s. bnd (ask (ResolveSocket (d_Project d) (sk_Grant s)) (env_socket env (d_Project d) (sk_Grant s))
        (\<lambda>m. FailedAt phasePassthrough (''socket '' @ sk_Name s @ '': '' @ m)))
      (\<lambda>p. ret (s\<lparr>sk_resolvedHostPath := p\<rparr>))"
  have "env_hasPassthrough env" using assms False by (auto simp: ensurePassthrough_def split: if_splits)
  with False have "ensurePassthrough env d = bnd (each ?dev (d_Devices d)) (\<lambda>devs.
      bnd (each ?sock (d_Sockets d)) (\<lambda>socks. ret (d\<lparr>d_Devices := devs, d_Sockets := socks\<rparr>)))"
    by (auto simp: ensurePassthrough_def)
  with assms obtain devs socks cs1 st1 cs2 st2 where
    devs: "each ?dev (d_Devices d) st = (cs1, st1, Inr devs)"
    and socks: "each ?sock (d_Sockets d) st1 = (cs2, st2, Inr socks)"
    and "d' = d\<lparr>d_Devices := devs, d_Sockets := socks\<rparr>"
    by (auto elim!: bnd_Inr)
  moreover have "map (\<lambda>r. r\<lparr>dr_resolved := []\<rparr>) devs = map (\<lambda>r. r\<lparr>dr_resolved := []\<rparr>) (d_Devices d)"
    by (rule each_map [OF devs]) (auto elim!: bnd_Inr)
  moreover have "map (\<lambda>s. s\<lparr>sk_resolvedHostPath := ''''\<rparr>) socks = map (\<lambda>s. s\<lparr>sk_resolvedHostPath := ''''\<rparr>) (d_Sockets d)"
    by (rule each_map [OF socks]) (auto elim!: bnd_Inr)
  ultimately show thesis using that by blast
qed

lemma prepareAlloc_ok:
  assumes "prepareAlloc env d act st = (cs, st', Inr p)"
  shows "images_present env d cs" and "resolves_to d (pre_Desired p)"
    and "as_ID (pre_Spec p) = d_id d (a_Index act)"
    and "env_hasNetwork env \<Longrightarrow> Attach (d_id d (a_Index act)) \<in> set cs"
proof -
  let ?d = "case env_resolvConf env (d_Project d) of None \<Rightarrow> d | Some q \<Rightarrow> d\<lparr>d_ResolvConfPath := q\<rparr>"
  obtain q where d: "?d = d\<lparr>d_ResolvConfPath := q\<rparr>"
    by (cases "env_resolvConf env (d_Project d)") (use that [of "d_ResolvConfPath d"] in auto)
  from assms obtain cs1 st1 d1 cs2 st2 d2 cs3 st3 spec0 cs4 st4 cs5 where
    img: "ensureImages env ?d st = (cs1, st1, Inr ())"
    and vol: "ensureVolumes env ?d (a_Index act) st1 = (cs2, st2, Inr d1)"
    and pass: "ensurePassthrough env d1 st2 = (cs3, st3, Inr d2)"
    and att: "attach env spec0 st4 = (cs5, st', Inr (pre_Spec p))"
    and spec0: "as_ID spec0 = as_ID (AllocSpecFor d2 (a_Index act) (env_logDir env) (env_volumeDir env))"
    and p: "pre_Desired p = d2" and cs: "cs = cs1 @ cs2 @ cs3 @ cs4 @ cs5"
    unfolding prepareAlloc_def Let_def
    by (elim bnd_Inr) (auto simp: Let_def elim!: bnd_Inr split: option.splits)
  obtain vols where d1: "d1 = ?d\<lparr>d_Volumes := vols\<rparr>" "map (\<lambda>v. v\<lparr>v_resolvedHostPath := ''''\<rparr>) vols =
      map (\<lambda>v. v\<lparr>v_resolvedHostPath := ''''\<rparr>) (d_Volumes ?d)"
    using ensureVolumes_ok [OF vol] .
  obtain devs socks where d2: "d2 = d1\<lparr>d_Devices := devs, d_Sockets := socks\<rparr>"
    "map (\<lambda>r. r\<lparr>dr_resolved := []\<rparr>) devs = map (\<lambda>r. r\<lparr>dr_resolved := []\<rparr>) (d_Devices d1)"
    "map (\<lambda>s. s\<lparr>sk_resolvedHostPath := ''''\<rparr>) socks = map (\<lambda>s. s\<lparr>sk_resolvedHostPath := ''''\<rparr>) (d_Sockets d1)"
    using ensurePassthrough_ok [OF pass] .
  show "images_present env d cs"
    using ensureImages_ok [OF img] d cs by (auto simp: images_present_def RunImage_def)
  show "resolves_to d (pre_Desired p)"
    unfolding resolves_to_def using d d1 d2 p
    by (intro exI [of _ q] exI [of _ vols] exI [of _ devs] exI [of _ socks]) simp
  have id0: "as_ID spec0 = d_id d (a_Index act)"
    using spec0 d d1 d2 by (auto simp: AllocSpecFor_def Let_def)
  then show "as_ID (pre_Spec p) = d_id d (a_Index act)"
    using att by (auto simp: attach_def elim!: bnd_Inr split: if_splits)
  show "env_hasNetwork env \<Longrightarrow> Attach (d_id d (a_Index act)) \<in> set cs"
    using att id0 cs by (auto simp: attach_def call_Inr elim!: bnd_Inr)
qed

lemma resolves_to_same:
  assumes "resolves_to d d'"
  shows "d_Project d' = d_Project d" "d_Service d' = d_Service d" "d_Init d' = d_Init d"
    "d_Image d' = d_Image d" "RunImage d' = RunImage d" "SpecHash H d' = SpecHash H d"
proof -
  obtain path vols devs socks where d': "d' = d\<lparr>d_ResolvConfPath := path, d_Volumes := vols, d_Devices := devs, d_Sockets := socks\<rparr>"
    and vols: "map (\<lambda>v. v\<lparr>v_resolvedHostPath := ''''\<rparr>) vols = map (\<lambda>v. v\<lparr>v_resolvedHostPath := ''''\<rparr>) (d_Volumes d)"
    and devs: "map (\<lambda>r. r\<lparr>dr_resolved := []\<rparr>) devs = map (\<lambda>r. r\<lparr>dr_resolved := []\<rparr>) (d_Devices d)"
    and socks: "map (\<lambda>s. s\<lparr>sk_resolvedHostPath := ''''\<rparr>) socks = map (\<lambda>s. s\<lparr>sk_resolvedHostPath := ''''\<rparr>) (d_Sockets d)"
    using assms by (auto simp: resolves_to_def)
  have h: "map (\<lambda>v. v\<lparr>v_resolvedHostPath := ''''\<rparr>) (hashableVolumes vs) =
      hashableVolumes (map (\<lambda>v. v\<lparr>v_resolvedHostPath := ''''\<rparr>) vs)" for vs
    by (simp add: hashableVolumes_def)
  show "SpecHash H d' = SpecHash H d"
    by (simp add: SpecHash_def material_def json_material_def d' h vols devs socks)
qed (use assms in \<open>auto simp: resolves_to_def RunImage_def\<close>)

section \<open>No container without its preparation\<close>

lemma prefix_before_mem:
  "cs1 @ cs2 = before @ x # after \<Longrightarrow> x \<notin> set cs1 \<Longrightarrow> \<exists>us. before = cs1 @ us"
proof (induction cs1 arbitrary: before)
  case (Cons y ys)
  then show ?case by (cases before) auto
qed simp

definition creates :: "Call \<Rightarrow> bool" where
  "creates c \<longleftrightarrow> (\<exists>s. c = DriverCreate s)"

lemma harmless_not_creates: "harmless c \<Longrightarrow> \<not> creates c"
  by (cases c) (auto simp: creates_def)


section \<open>What a failed create leaves\<close>

text \<open>
  An operation whose phased errors leave the records alone, and create no container unless the phase
  is that of creating or starting one.
\<close>

definition clean_fail :: "'a exec \<Rightarrow> bool" where
  "clean_fail f \<longleftrightarrow> (\<forall>st cs st' ph m. f st = (cs, st', Inl (FailedAt ph m)) \<longrightarrow>
     st' = st \<and> (ph \<notin> {phaseCreate, phaseStart} \<longrightarrow> (\<forall>c\<in>set cs. \<not> creates c)))"

lemma clean_fail_early:
  assumes "only (\<lambda>c. \<not> creates c) f" and "\<And>x. clean_fail (g x)"
  shows "clean_fail (bnd f g)"
  unfolding clean_fail_def
proof (intro allI impI)
  fix st cs st' ph m assume "bnd f g st = (cs, st', Inl (FailedAt ph m))"
  then show "st' = st \<and> (ph \<notin> {phaseCreate, phaseStart} \<longrightarrow> (\<forall>c\<in>set cs. \<not> creates c))"
  proof (cases rule: bnd_cases)
    case (stop e)
    then show ?thesis using onlyD [OF assms(1)] by blast
  next
    case (go cs1 st1 x cs2)
    have "st' = st1 \<and> (ph \<notin> {phaseCreate, phaseStart} \<longrightarrow> (\<forall>c\<in>set cs2. \<not> creates c))"
      using assms(2) [of x, unfolded clean_fail_def, rule_format, OF go(2)] .
    then show ?thesis using onlyD [OF assms(1) go(1)] go(3) by auto
  qed
qed

lemma clean_fail_late:
  assumes "only P f" and "\<And>st cs st' ph m. f st = (cs, st', Inl (FailedAt ph m)) \<Longrightarrow> ph \<in> {phaseCreate, phaseStart}"
    and "\<And>x st cs st' ph m. g x st \<noteq> (cs, st', Inl (FailedAt ph m))"
  shows "clean_fail (bnd f g)"
  unfolding clean_fail_def
proof (intro allI impI)
  fix st cs st' ph m assume "bnd f g st = (cs, st', Inl (FailedAt ph m))"
  then show "st' = st \<and> (ph \<notin> {phaseCreate, phaseStart} \<longrightarrow> (\<forall>c\<in>set cs. \<not> creates c))"
  proof (cases rule: bnd_cases)
    case (stop e)
    then show ?thesis using onlyD [OF assms(1) stop(1)] assms(2) by blast
  next
    case (go cs1 st1 x cs2)
    then show ?thesis using assms(3) by blast
  qed
qed

lemma persist1_error: "persist1 env r st \<noteq> (cs, st', Inl (FailedAt ph m))"
  by (auto simp: persist1_def split: option.splits)

lemma only_mono: "only P f \<Longrightarrow> (\<And>c. P c \<Longrightarrow> Q c) \<Longrightarrow> only Q f"
  by (auto simp: only_def)

lemmas harmless_only = only_mono [OF _ harmless_not_creates]

lemma create_task_clean_fail: "clean_fail (create_task H env p act)"
proof -
  let ?d = "pre_Desired p" and ?s = "pre_Spec p"
  let ?start = "call (DriverStart (d_Project ?d) (as_ID ?s)) (env_start env (d_Project ?d) (as_ID ?s)) (FailedAt phaseStart)"
  have "clean_fail (seq (call (DriverCreate ?s) out (FailedAt phaseCreate)) (seq ?start (\<lambda>st. persist1 env (r st) st)))"
    for out r
    unfolding clean_fail_def
    by (auto simp: bnd_def call_def persist1_def split: option.splits)
  then show ?thesis by (simp add: create_task_def Let_def)
qed

lemma markInitAttempt_harmless [exec_intros]: "only harmless (markInitAttempt path name)"
  unfolding markInitAttempt_def by (intro exec_intros) simp

lemma remove_leftover_only: "only (\<lambda>c. \<not> creates c) (remove_leftover env d act s n spec)"
  unfolding remove_leftover_def by (intro exec_intros) (simp add: creates_def)

lemma create_step_error:
  "only (\<lambda>_. True) (create_step env d s n spec)"
  "create_step env d s n spec st = (cs, st', Inl (FailedAt ph m)) \<Longrightarrow> ph \<in> {phaseCreate, phaseStart}"
  by (auto simp: only_def create_step_def Let_def split: option.splits create_error.splits)

lemma stampInitStep_error: "stampInitStep H env d act n nm st \<noteq> (cs, st', Inl (FailedAt ph m))"
  by (simp add: stampInitStep_def persist1_error)

lemma startInitStep_clean_fail: "clean_fail (startInitStep H env p act n)"
  unfolding startInitStep_def Let_def
  by (intro clean_fail_early [OF harmless_only [OF ensureInitImage_harmless]]
      clean_fail_early [OF harmless_only [OF markInitAttempt_harmless]]
      clean_fail_early [OF remove_leftover_only]
      clean_fail_late [OF create_step_error stampInitStep_error])

text \<open>
  A create that fails on the node's side of the line is free to be retried: when it fails in one
  of its phases the alloc's record is untouched, so no restart attempt is spent, and unless it was the
  creation or the start of the container itself that failed, no container was asked for at all.
\<close>

theorem failed_create_is_retryable:
  assumes "create H env d act st = (cs, st', Inl (FailedAt ph m))"
  shows "st' = st \<and> (ph \<notin> {phaseCreate, phaseStart} \<longrightarrow> (\<forall>s. DriverCreate s \<notin> set cs))"
proof -
  have "clean_fail (create H env d act)"
    unfolding create_def Let_def
    by (intro clean_fail_early [OF harmless_only [OF prepareAlloc_harmless]])
      (auto simp: create_task_clean_fail startInitStep_clean_fail)
  from this [unfolded clean_fail_def, rule_format, OF assms] show ?thesis
    by (auto simp: creates_def)
qed

section \<open>The record a create writes\<close>

lemma persist1_Inr:
  "persist1 env r st = (cs, st', Inr x) \<longleftrightarrow>
     cs = [PutRecord r] \<and> st' = AList.update (record_Key r) r st \<and> env_put_error env r = None"
  by (auto simp: persist1_def split: option.splits)

text \<open>The restart count a create carries over from the record it finds.\<close>

definition carried_restarts :: "digest \<Rightarrow> Env \<Rightarrow> Desired \<Rightarrow> ActionKind \<Rightarrow> loaded \<Rightarrow> int" where
  "carried_restarts H env d k l =
     (case l of
        Found x \<Rightarrow> (if r_SpecHash x = '''' \<or> r_SpecHash x = SpecHash H d
                    then r_Restarts x + (if k = ActionRestart then 1 else 0) else 0)
      | _ \<Rightarrow> 0)"

lemma created_record_fields:
  "r_ID (created_record H env d act i l) = i" "r_Project (created_record H env d act i l) = d_Project d"
  "r_Service (created_record H env d act i l) = d_Service d" "r_Index (created_record H env d act i l) = a_Index act"
  "r_State (created_record H env d act i l) = AllocRunning"
  "r_SpecHash (created_record H env d act i l) = SpecHash H d"
  "r_Restarts (created_record H env d act i l) = carried_restarts H env d (a_Kind act) l"
  by (simp_all add: created_record_def carried_restarts_def zero_record_def Let_def split: loaded.splits)

lemma stamped_record_fields:
  "r_Project (stamped_record H env d act n nm l) = d_Project d"
  "r_Service (stamped_record H env d act n nm l) = d_Service d" "r_Index (stamped_record H env d act n nm l) = a_Index act"
  "r_State (stamped_record H env d act n nm l) = AllocInit"
  "r_SpecHash (stamped_record H env d act n nm l) = SpecHash H d"
  "r_Restarts (stamped_record H env d act n nm l) = carried_restarts H env d (a_Kind act) l"
  by (simp_all add: stamped_record_def carried_restarts_def zero_record_def Let_def split: loaded.splits)

lemma only_Inr: "only P f \<Longrightarrow> f st = (cs, st', Inr x) \<Longrightarrow> st' = st"
  using onlyD by blast

lemma only_seq_Inr:
  "only P f \<Longrightarrow> bnd f (\<lambda>_. g) st = (cs, st', Inr y) \<Longrightarrow> \<exists>cs'. g st = (cs', st', Inr y)"
  by (erule bnd_Inr) (auto dest: only_Inr)

text \<open>The key of an action's record, and what an operation that writes one record leaves of the others.\<close>

definition alloc_key :: "Desired \<Rightarrow> Action \<Rightarrow> string" where
  "alloc_key d act = AllocKey (d_Project d) (d_Service d) (a_Index act)"

definition found :: "Env \<Rightarrow> records \<Rightarrow> Desired \<Rightarrow> Action \<Rightarrow> loaded" where
  "found env st d act = loadRecord env st (d_Project d) (d_Service d) (a_Index act)"

lemma startInitStep_Inr:
  assumes "startInitStep H env p act n st = (cs, st', Inr u)"
  obtains nm where "st' = AList.update (alloc_key (pre_Desired p) act)
    (stamped_record H env (pre_Desired p) act n nm (found env st (pre_Desired p) act)) st"
proof -
  let ?d = "pre_Desired p"
  let ?s = "d_Init ?d ! nat n"
  have "\<exists>cs4. stampInitStep H env ?d act n (ic_Name ?s) st = (cs4, st', Inr u)"
    using assms unfolding startInitStep_def Let_def
    by (blast dest: only_seq_Inr [OF ensureInitImage_harmless] only_seq_Inr [OF markInitAttempt_harmless]
        only_seq_Inr [OF remove_leftover_only] only_seq_Inr [OF create_step_error(1)])
  then show thesis using that
    by (auto simp: stampInitStep_def persist1_Inr alloc_key_def found_def record_Key_def stamped_record_fields)
qed

lemma create_task_Inr:
  assumes "create_task H env p act st = (cs, st', Inr u)"
  shows "st' = AList.update (alloc_key (pre_Desired p) act)
    (created_record H env (pre_Desired p) act (as_ID (pre_Spec p)) (found env st (pre_Desired p) act)) st"
  using assms
  by (auto simp: create_task_def call_Inr persist1_Inr alloc_key_def found_def record_Key_def created_record_fields
      Let_def elim!: bnd_Inr)

lemma resolved_keys:
  assumes "resolves_to d d'"
  shows "alloc_key d' act = alloc_key d act" "found env st d' act = found env st d act"
    "carried_restarts H env d' k l = carried_restarts H env d k l"
  using resolves_to_same [OF assms]
  by (simp_all add: alloc_key_def found_def carried_restarts_def cong: loaded.case_cong)

text \<open>Whether a create starts the init sequence instead of the task.\<close>

definition begins_sequence :: "Desired \<Rightarrow> Action \<Rightarrow> bool" where
  "begins_sequence d act \<longleftrightarrow>
     d_Init d \<noteq> [] \<and> a_Index act = InitLeaderIndex \<and> map_option ia_Op (a_Init act) \<noteq> Some InitDone"

text \<open>
  The restart budget is charged once per crash restart and belongs to the spec that spent it: a
  create that succeeds writes the alloc's record and no other, stamped with the hash of the spec it
  was created from; its restart count is the one found, plus one exactly when the action was a
  restart, if the record found was of the same spec (or unstamped), and zero when a different spec
  takes over the index.
\<close>

theorem create_charges_budget:
  assumes "create H env d act st = (cs, st', Inr u)"
  shows "\<exists>r. st' = AList.update (alloc_key d act) r st \<and> r_SpecHash r = SpecHash H d \<and>
    r_Project r = d_Project d \<and> r_Service r = d_Service d \<and> r_Index r = a_Index act \<and>
    r_State r = (if begins_sequence d act then AllocInit else AllocRunning) \<and>
    r_Restarts r = carried_restarts H env d (a_Kind act) (found env st d act)"
proof -
  from assms obtain cs1 st1 p cs2 where prep: "prepareAlloc env d act st = (cs1, st1, Inr p)"
    and rest: "(if d_Init (pre_Desired p) \<noteq> [] \<and> a_Index act = InitLeaderIndex \<and>
        map_option ia_Op (a_Init act) \<noteq> Some InitDone
      then startInitStep H env p act 0 else create_task H env p act) st1 = (cs2, st', Inr u)"
    unfolding create_def Let_def by (elim bnd_Inr) blast
  note res = prepareAlloc_ok(2) [OF prep]
  note same = resolves_to_same [OF res] resolved_keys [OF res]
  have st1: "st1 = st" using only_Inr [OF prepareAlloc_harmless prep] .
  show ?thesis
  proof (cases "begins_sequence d act")
    case True
    with rest have "startInitStep H env p act 0 st = (cs2, st', Inr u)"
      by (simp add: begins_sequence_def same st1)
    then show ?thesis
      by (rule startInitStep_Inr) (auto simp: True same stamped_record_fields)
  next
    case False
    with rest have "create_task H env p act st = (cs2, st', Inr u)"
      by (auto simp: begins_sequence_def same st1 split: if_splits)
    from create_task_Inr [OF this] show ?thesis
      by (auto simp: False same created_record_fields)
  qed
qed

section \<open>Teardown\<close>

lemma each_calls:
  assumes "each f xs st = (cs, st', Inr ys)" and "\<And>x st cs st' y. f x st = (cs, st', Inr y) \<Longrightarrow> cs = g x \<and> st' = st"
  shows "cs = concat (map g xs) \<and> st' = st"
  using assms(1)
proof (induction xs arbitrary: st cs ys)
  case (Cons x xs)
  then show ?case by (fastforce elim!: bnd_Inr dest: assms(2))
qed simp

lemma stop_remove_Inr:
  "stop_remove env p i a b st = (cs, st', Inr u) \<Longrightarrow> cs = [DriverStop p i, DriverRemove p i] \<and> st' = st"
  by (auto simp: stop_remove_def call_Inr elim!: bnd_Inr)

text \<open>
  Teardown takes an alloc down from the inside out: when it succeeds it has stopped and removed
  every init container that exists under the alloc, then the alloc's own container, and only then
  detached its network and discarded its secrets, so no process outlives the namespace it lives in;
  and it leaves every record alone.
\<close>

theorem teardown_order:
  assumes "teardown env w d act st = (cs, st', Inr u)"
  shows "st' = st \<and>
    cs = concat (map (\<lambda>i. [DriverStop (a_Project act) i, DriverRemove (a_Project act) i])
                   (init_ids_of w (a_AllocID act) @ [a_AllocID act])) @
         (if env_hasNetwork env then [Detach (d_id d (a_Index act))] else []) @
         [DiscardAlloc (a_AllocID act)]"
proof -
  let ?f = "\<lambda>i. stop_remove env (a_Project act) i (''stop init container '' @ i @ '': '')
                      (''remove init container '' @ i @ '': '')"
  have id: "as_ID (AllocSpecFor d n l v) = d_id d n" for n l v by (simp add: AllocSpecFor_def Let_def)
  from assms obtain cs1 st1 ys cs2 where inits: "each ?f (init_ids_of w (a_AllocID act)) st = (cs1, st1, Inr ys)"
    and main: "st' = st1" "cs2 = [DriverStop (a_Project act) (a_AllocID act), DriverRemove (a_Project act) (a_AllocID act)] @
        (if env_hasNetwork env then [Detach (d_id d (a_Index act))] else []) @ [DiscardAlloc (a_AllocID act)]"
    and cs: "cs = cs1 @ cs2"
    unfolding teardown_def
    by (elim bnd_Inr) (auto simp: Let_def call_Inr id split: if_splits dest!: stop_remove_Inr)
  have "cs1 = concat (map (\<lambda>i. [DriverStop (a_Project act) i, DriverRemove (a_Project act) i])
      (init_ids_of w (a_AllocID act))) \<and> st1 = st"
    by (rule each_calls [OF inits]) (rule stop_remove_Inr)
  with main cs show ?thesis by simp
qed

end
