(* ===== verification/Restart_Budget.thy ===== *)
theory Restart_Budget
  imports Executor_Facts
begin

text \<open>
  The reconcile loop as a state machine on one alloc's record: every pass observes, plans and applies,
  while the environment decides what containerd reports, what is witnessed, how late it is and which
  calls fail. Along every such history the restart budget is respected. A second part shows a record
  the loop never gets rid of.
\<close>

section \<open>One pass over one alloc\<close>

text \<open>The states containerd reports of a container it can describe.\<close>

definition describable :: "Status option \<Rightarrow> bool" where
  "describable ms \<longleftrightarrow>
     (case ms of None \<Rightarrow> True | Some s \<Rightarrow> st_State s \<in> {StateCreated, StateRunning, StateStopped})"

definition pass_world :: "digest \<Rightarrow> Desired \<Rightarrow> int \<Rightarrow> World \<Rightarrow> AllocRecord \<Rightarrow> AllocRecord \<Rightarrow> bool" where
  "pass_world H d i w r r1 \<longleftrightarrow>
     d \<in> set (w_Desired w) \<and> distinct (map d_key (w_Desired w)) \<and> gm_wf (w_Records w) \<and> gm_wf (w_Actual w) \<and>
     rec_of w (d_id d i) = Some r \<and> rec_of (observed_world H w) (d_id d i) = Some r1 \<and>
     describable (actual_of w (d_id d i))"

inductive alloc_pass :: "digest \<Rightarrow> Desired \<Rightarrow> int \<Rightarrow> AllocRecord \<Rightarrow> AllocRecord \<Rightarrow> bool" for H d i where
  pass_idle: "pass_world H d i w r r1 \<Longrightarrow> alloc_pass H d i r r1"
| pass_failed: "pass_world H d i w r r1 \<Longrightarrow>
    start_failure_record env act (phase_reason ph) m (Found r1) = Some r2 \<Longrightarrow> alloc_pass H d i r r2"
| pass_created: "pass_world H d i w r r1 \<Longrightarrow> act \<in> set (alloc_plan H (observed_world H w) d i) \<Longrightarrow>
    a_Kind act \<in> {ActionCreate, ActionRestart, ActionReplace, ActionRecover} \<Longrightarrow>
    alloc_pass H d i r (created_record H env d act (d_id d i) (Found r1))"
| pass_started: "pass_world H d i w r r1 \<Longrightarrow> act \<in> set (alloc_plan H (observed_world H w) d i) \<Longrightarrow>
    a_Kind act = ActionStart \<Longrightarrow>
    alloc_pass H d i r (r1\<lparr>r_State := AllocRunning, r_NextRestartAt := zero_time, r_UpdatedAt := t\<rparr>)"
| pass_removed: "pass_world H d i w r r1 \<Longrightarrow> act \<in> set (alloc_plan H (observed_world H w) d i) \<Longrightarrow>
    a_Kind act = ActionRemove \<Longrightarrow> alloc_pass H d i r (r1\<lparr>r_State := AllocFailed, r_UpdatedAt := t\<rparr>)"

section \<open>The invariant\<close>

definition budget_ok :: "digest \<Rightarrow> Desired \<Rightarrow> int \<Rightarrow> AllocRecord \<Rightarrow> bool" where
  "budget_ok H d i r \<longleftrightarrow>
     r_Project r = d_Project d \<and> r_Service r = d_Service d \<and> r_Index r = i \<and>
     (r_SpecHash r = '''' \<or> r_SpecHash r = SpecHash H d) \<and> r_State r \<noteq> AllocInit \<and>
     \<not> isInitFailure (r_LastExitReason r) \<and> r_Restarts r \<le> attempts (d_Restart d)"

lemma classifyExit_not_init: "\<not> isInitFailure (fst (classifyExit s))"
  by (simp add: classifyExit_def isInitFailure_def)

lemma observed_budget_ok:
  assumes "pass_world H d i w r r1" and "budget_ok H d i r"
  shows "budget_ok H d i r1"
proof -
  let ?dbs = "desired_by_service (w_Desired w)"
  have key: "?dbs (service_key (r_Project r) (r_Service r)) = Some d"
    using assms desired_by_service_lookup [of "w_Desired w" d] by (simp add: pass_world_def budget_ok_def)
  have r1: "r1 = (case observation H w (d_id d i) of None \<Rightarrow> r | Some r' \<Rightarrow> r')"
    using assms(1) observed_lookup [of w H "d_id d i"] by (auto simp: pass_world_def split: option.splits)
  show ?thesis
  proof (cases "observation H w (d_id d i)")
    case None
    then show ?thesis using r1 assms(2) by simp
  next
    case (Some r')
    then have "r1 = r'" using r1 by simp
    from Some have "budget_ok H d i r'"
    proof (cases rule: observation_cases)
      case (init q e)
      then have "q = r" using assms(1) by (simp add: pass_world_def)
      with init(4) assms(2) show ?thesis by (simp add: budget_ok_def)
    next
      case (running q s)
      then have q: "q = r" using assms(1) by (simp add: pass_world_def)
      have "r_LastExitReason r' = r_LastExitReason r"
        using running(4) by (auto simp: q observe_running_def Let_def split: option.splits if_splits)
      then show ?thesis
        using observe_running_fields [OF running(4)] assms(2) key
        by (auto simp: q budget_ok_def split: if_splits)
    next
      case (stopped q s)
      then have q: "q = r" using assms(1) by (simp add: pass_world_def)
      have "r_LastExitReason r' = fst (classifyExit s)"
        using stopped(4) by (auto simp: q observe_stopped_def Let_def split: option.splits if_splits prod.splits)
      then show ?thesis
        using observe_stopped_fields [OF stopped(4)] assms(2) classifyExit_not_init [of s]
        by (auto simp: q budget_ok_def)
    qed
    with \<open>r1 = r'\<close> show ?thesis by simp
  qed
qed

lemma budget_ok_not_drifted: "budget_ok H d i r \<Longrightarrow> \<not> drifted r (SpecHash H d)"
  by (auto simp: budget_ok_def drifted_def)

text \<open>A restart the planner orders is of a crash that still has an attempt left.\<close>

lemma planned_restart_has_attempt:
  assumes "rec_of w (d_id d i) = Some r" and "budget_ok H d i r" and "describable (actual_of w (d_id d i))"
    and "act \<in> set (alloc_plan H w d i)" and "a_Kind act = ActionRestart"
  shows "r_Restarts r < attempts (d_Restart d)"
proof -
  note ok = assms(2) budget_ok_not_drifted [OF assms(2)]
  show ?thesis
  proof (cases "actual_of w (d_id d i)")
    case None
    then have "act \<in> set (plan_missing w d i (d_id d i) (SpecHash H d) (healthyServices w) (base_action d i (d_id d i)))"
      using assms(1,4) ok by (auto simp: alloc_plan_def planAlloc_def budget_ok_def Let_def split: if_splits)
    then show ?thesis
      using assms(1,5) ok by (auto simp: plan_missing_def budget_ok_def Let_def split: if_splits prod.splits)
  next
    case (Some s)
    then have "act \<in> set (plan_present w d (base_action d i (d_id d i)) r False s)"
      using assms(1,4) ok by (auto simp: alloc_plan_def planAlloc_def budget_ok_def Let_def split: if_splits)
    then show ?thesis
      using assms(3,5) Some
      by (auto simp: plan_present_def planRestart_def describable_def split: State.splits if_splits)
  qed
qed

lemma alloc_pass_budget_ok:
  assumes "alloc_pass H d i r r'" and "budget_ok H d i r"
  shows "budget_ok H d i r'"
  using assms(1)
proof (cases rule: alloc_pass.cases)
  case (pass_idle w)
  then show ?thesis using observed_budget_ok assms(2) by blast
next
  case (pass_failed w r1 env act ph m)
  have "budget_ok H d i r1" using observed_budget_ok [OF pass_failed(1) assms(2)] .
  moreover have "\<not> isInitFailure (phase_reason ph)" by (cases ph) (simp_all add: isInitFailure_def)
  ultimately show ?thesis
    using pass_failed(2) by (auto simp: start_failure_record_def budget_ok_def Let_def split: if_splits)
next
  case (pass_created w r1 act env)
  have ok: "budget_ok H d i r1" using observed_budget_ok [OF pass_created(2) assms(2)] .
  have "r_Restarts r1 < attempts (d_Restart d)" if "a_Kind act = ActionRestart"
    using planned_restart_has_attempt [of "observed_world H w", OF _ ok _ pass_created(3) that] pass_created(2)
    by (simp add: pass_world_def)
  moreover have "a_Index act = i"
    using planAlloc_about pass_created(3) by (fastforce simp: alloc_plan_def about_def)
  moreover have "\<not> isInitFailure (r_LastExitReason (created_record H env d act (d_id d i) (Found r1)))"
    using ok by (simp add: created_record_def zero_record_def budget_ok_def isInitFailure_def Let_def)
  ultimately show ?thesis
    using ok unfolding pass_created(1)
    by (auto simp: budget_ok_def created_record_fields carried_restarts_def)
next
  case (pass_started w r1 act t)
  then show ?thesis using observed_budget_ok [OF pass_started(2) assms(2)] by (simp add: budget_ok_def)
next
  case (pass_removed w r1 act t)
  then show ?thesis using observed_budget_ok [OF pass_removed(2) assms(2)] by (simp add: budget_ok_def)
qed


section \<open>A record that is never cleared\<close>

text \<open>What the next pass sees when a removal wrote the record back: the container gone, the record not.\<close>

definition after_removal :: "World \<Rightarrow> string \<Rightarrow> AllocRecord \<Rightarrow> World" where
  "after_removal w i r =
     w\<lparr>w_Records := AList.update i r (w_Records w), w_Actual := AList.delete i (w_Actual w)\<rparr>"

lemma remove_failed_declared:
  assumes "remove env w d True act st = (cs, st', Inr u)" and "rec_of w (a_AllocID act) = Some r"
    and "r_State r = AllocFailed"
  shows "st' = AList.update (record_Key r) (r\<lparr>r_UpdatedAt := env_now env\<rparr>) st"
proof -
  have eq: "r\<lparr>r_State := AllocFailed, r_UpdatedAt := env_now env\<rparr> = r\<lparr>r_UpdatedAt := env_now env\<rparr>"
    using assms(3) by simp
  have "only (\<lambda>_. True) (teardown env w d act)"
    unfolding teardown_def stop_remove_def Let_def by (intro exec_intros) simp_all
  from only_seq_Inr [OF this assms(1) [unfolded remove_def]] show ?thesis
    using assms(2,3) by (auto simp: persist1_Inr record_Key_def eq)
qed


end
