(* ===== verification/Loop_Examples.thy ===== *)
theory Loop_Examples
  imports Planner_Examples Restart_Budget
begin

text \<open>
  Concrete runs of observation, spec building and execution: a crash, an outage, a volume layout, a
  create on a node where every call succeeds and one where a pull fails, and a scale-in.
\<close>

section \<open>Fixtures\<close>

definition ex_web_record :: AllocRecord where
  "ex_web_record = ex_record 1 AllocRunning ''web:2''"

text \<open>Replica 1 has just exited with code 1; this process saw it run.\<close>

definition ex_crash :: World where
  "ex_crash = ex_rolling\<lparr>
     w_Records := [(''shop-web-0'', ex_record 0 AllocRunning ''web:2''), (''shop-web-1'', ex_web_record)],
     w_Actual := [(''shop-web-0'', ex_status StateRunning 0), (''shop-web-1'', ex_status StateStopped 1)],
     w_Witnessed := {''shop-web-1''}\<rparr>"

definition ex_last_crash :: World where
  "ex_last_crash = ex_crash\<lparr>w_Records :=
     [(''shop-web-0'', ex_record 0 AllocRunning ''web:2''), (''shop-web-1'', ex_web_record\<lparr>r_Restarts := 5\<rparr>)]\<rparr>"

definition ex_outage :: World where
  "ex_outage = ex_crash\<lparr>w_Witnessed := {}\<rparr>"

definition ex_hash :: digest where
  "ex_hash m = CHR ''#'' # hm_Image m"

definition ex_check :: HealthCheck where
  "ex_check = \<lparr>hc_Type = ''tcp'', hc_Path = '''', hc_Port = 80, hc_Command = [], hc_Interval = 0,
     hc_Timeout = 0, hc_Failures = 2\<rparr>"

definition ex_volume :: "string \<Rightarrow> string \<Rightarrow> Volume" where
  "ex_volume n ty = \<lparr>v_Name = n, v_Storage = '''',
     v_Resource = \<lparr>sr_Name = '''', sr_Type = ty, sr_Bucket = '''', sr_Endpoint = '''', sr_AuthRef = '''',
       sr_Mode = '''', sr_Server = '''', sr_Export = '''', sr_Share = '''', sr_Options = '''', sr_Path = '''',
       sr_Create = False\<rparr>,
     v_MountPath = ''/data'', v_ReadOnly = False, v_UID = None, v_GID = None, v_Mode = None,
     v_SizeBytes = 0, v_resolvedHostPath = ''''\<rparr>"

definition ex_stateful :: Desired where
  "ex_stateful = ex_web\<lparr>d_Volumes := [ex_volume ''db'' ''local'', ex_volume ''media'' ''nfs''],
     d_Sockets := [\<lparr>sk_Name = ''docker'', sk_Grant = ''docker'', sk_MountPath = ''/run/docker.sock'',
                    sk_ReadOnly = False, sk_resolvedHostPath = ''/run/docker.sock''\<rparr>],
     d_Capabilities := [''CAP_NET_BIND_SERVICE'']\<rparr>"

text \<open>A node on which every call succeeds.\<close>

definition ex_env :: Env where
  "ex_env = \<lparr>env_now = 200 * second, env_logDir = ''/var/log'', env_volumeDir = ''/data'', env_pullPolicy = '''',
     env_hasNetwork = True, env_hasSecrets = True, env_hasMounts = True, env_hasPassthrough = True,
     env_resolvConf = (\<lambda>_. None), env_secret = (\<lambda>_. Inr ''''), env_ensureImage = (\<lambda>_ _ _. None),
     env_resolveHost = (\<lambda>p _. Inr p), env_stageHost = (\<lambda>_ _ p. Inr p), env_mkdir = (\<lambda>_. None),
     env_own = (\<lambda>_ _. None), env_mount = (\<lambda>_ _. None), env_device = (\<lambda>_ _. Inr []),
     env_socket = (\<lambda>_ _. Inr ''/run/docker.sock''),
     env_secrets = (\<lambda>_ _. Inr \<lparr>sec_Env = None, sec_InitEnv = [], sec_Mount = None\<rparr>),
     env_files = (\<lambda>_ _. Inr \<lparr>fil_Mounts = [], fil_InitMounts = []\<rparr>),
     env_attach = (\<lambda>_. None), env_detach = (\<lambda>_. None), env_create = (\<lambda>_. None), env_start = (\<lambda>_ _. None),
     env_stop = (\<lambda>_ _. None), env_remove = (\<lambda>_ _. None), env_load_error = (\<lambda>_. False),
     env_put_error = (\<lambda>_. None), env_delete_error = (\<lambda>_. None)\<rparr>"

definition ex_env_no_image :: Env where
  "ex_env_no_image = ex_env\<lparr>env_ensureImage := (\<lambda>_ _ _. Some ''not found'')\<rparr>"

definition ex_restart :: Action where
  "ex_restart = (base_action ex_web 1 ''shop-web-1'')\<lparr>a_Kind := ActionRestart\<rparr>"

definition ex_store :: records where
  "ex_store = [(''shop/web/1'', ex_web_record\<lparr>r_Restarts := 2\<rparr>)]"

text \<open>The service was scaled in to one replica; the second had failed for good.\<close>

definition ex_scaled_in :: World where
  "ex_scaled_in = ex_rolling\<lparr>w_Desired := [ex_web\<lparr>d_Count := 1\<rparr>],
     w_Records := [(''shop-web-0'', ex_record 0 AllocRunning ''web:2''), (''shop-web-1'', ex_record 1 AllocFailed ''web:2'')],
     w_Actual := [(''shop-web-0'', ex_status StateRunning 0)]\<rparr>"

section \<open>Observation\<close>

theorem observation_preserves_identity_and_budget_witness:
  "\<exists>r' r. map_of (Observe ex_digest ex_crash) ''shop-web-1'' = Some r' \<and>
     rec_of ex_crash ''shop-web-1'' = Some r \<and> r_Restarts r' = r_Restarts r \<and> r_Index r' = r_Index r"
proof -
  have h: "gm_wf (w_Records ex_crash)" "gm_wf (w_Actual ex_crash)"
    "map_of (Observe ex_digest ex_crash) ''shop-web-1'' \<noteq> None"
    by code_simp+
  then obtain r' where "map_of (Observe ex_digest ex_crash) ''shop-web-1'' = Some r'" by blast
  with observation_preserves_identity_and_budget [OF h(1,2) this] show ?thesis by blast
qed

theorem failed_only_if_witnessed_and_exhausted_witness:
  "\<exists>r'. map_of (Observe ex_digest ex_last_crash) ''shop-web-1'' = Some r' \<and> r_State r' = AllocFailed \<and>
     witnessed ex_last_crash ''shop-web-1''"
proof -
  have h: "gm_wf (w_Records ex_last_crash)" "gm_wf (w_Actual ex_last_crash)"
    "\<forall>(i, r)\<in>set (w_Records ex_last_crash). r_ID r = i"
    "map_option r_State (map_of (Observe ex_digest ex_last_crash) ''shop-web-1'') = Some AllocFailed"
    by code_simp+
  then obtain r' where r': "map_of (Observe ex_digest ex_last_crash) ''shop-web-1'' = Some r'"
    "r_State r' = AllocFailed" by auto
  from failed_only_if_witnessed_and_exhausted [OF h(1-3) r'] r' show ?thesis by blast
qed

theorem Observe_idempotent_witness:
  "Observe ex_hash ex_crash \<noteq> [] \<and> Observe ex_hash (observed_world ex_hash ex_crash) = []"
proof -
  have "gm_wf (w_Records ex_crash)" "gm_wf (w_Actual ex_crash)" "Observe ex_hash ex_crash \<noteq> []"
    by code_simp+
  with Observe_idempotent [OF this(1,2), of ex_hash] show ?thesis by (simp add: ex_hash_def)
qed

lemma ex_crash_just: "just_crashed ex_digest ex_crash ex_web 1 ex_web_record"
  unfolding just_crashed_def
proof (intro conjI)
  show "ex_web \<in> set (w_Desired ex_crash)" by (simp add: ex_crash_def ex_rolling_def)
  show "rec_of ex_crash (d_id ex_web 1) = Some ex_web_record" by code_simp
qed (code_simp+)

theorem crash_restarts_after_backoff_witness:
  "map a_Kind (alloc_plan ex_digest ((observed_world ex_digest ex_crash)\<lparr>w_Now := 109 * second\<rparr>) ex_web 1) = [] \<and>
   map a_Kind (alloc_plan ex_digest ((observed_world ex_digest ex_crash)\<lparr>w_Now := 110 * second\<rparr>) ex_web 1) = [ActionRestart]"
proof -
  have h: "witnessed ex_crash (d_id ex_web 1)" "nonneg_backoff ex_web"
    "\<not> attempts (d_Restart ex_web) \<le> r_Restarts ex_web_record"
    "109 * second < w_Now ex_crash + delayFor (d_Restart ex_web) (r_Restarts ex_web_record + 1)"
    "\<not> 110 * second < w_Now ex_crash + delayFor (d_Restart ex_web) (r_Restarts ex_web_record + 1)"
    by code_simp+
  show ?thesis
    using crash_restarts_after_backoff [OF ex_crash_just h(1,2), of "109 * second"]
      crash_restarts_after_backoff [OF ex_crash_just h(1,2), of "110 * second"] h(3-5)
    by simp
qed

theorem unwitnessed_exit_recovers_witness:
  "just_crashed ex_digest ex_outage ex_web 1 ex_web_record \<and>
   map a_Kind (alloc_plan ex_digest ((observed_world ex_digest ex_outage)\<lparr>w_Now := 101 * second\<rparr>) ex_web 1) = [ActionRecover]"
proof -
  have "just_crashed ex_digest ex_outage ex_web 1 ex_web_record"
    using ex_crash_just by (simp add: just_crashed_def ex_outage_def)
  moreover have "\<not> witnessed ex_outage (d_id ex_web 1)" by (simp add: witnessed_def ex_outage_def)
  ultimately show ?thesis using unwitnessed_exit_recovers_immediately by blast
qed

theorem health_follows_consecutive_failures_witness:
  "\<not> r_Healthy (probe_all ex_check ex_web_record [(Some ''refused'', 1), (None, 2), (Some ''refused'', 3), (Some ''refused'', 4)])"
proof -
  let ?rs = "[(Some ''refused'', 1), (None, 2), (Some ''refused'', 3), (Some ''refused'', 4 :: time)]"
  have "\<not> trailing_failures ?rs < failureThreshold (Some ex_check)" by code_simp
  moreover have "\<exists>t. (None, t) \<in> set ?rs" by auto
  ultimately show ?thesis using health_follows_consecutive_failures [of ?rs ex_check ex_web_record] by blast
qed

theorem truncateMessage_bounded_witness:
  "utf8_runes (replicate 400 (CHR ''x'')) \<and> utf8_runes (truncateMessage (replicate 400 (CHR ''x'')))"
proof -
  have "utf8_runes (replicate n (CHR ''x''))" for n
  proof (induction n)
    case (Suc n)
    then show ?case using utf8_rune [of "CHR ''x''" "[]"] by (simp add: RuneStart_def rune_tail_def)
  qed (simp add: utf8_Nil)
  then show ?thesis using truncateMessage_bounded by blast
qed

section \<open>Specs\<close>

theorem volume_paths_isolated_witness:
  "withinBase ''/data'' (VolumePath ''/data'' ex_web 0 (ex_volume ''db'' ''local'')) \<and>
   VolumePath ''/data'' ex_web 0 (ex_volume ''db'' ''local'') \<noteq> VolumePath ''/data'' ex_web 1 (ex_volume ''db'' ''local'')"
proof -
  have h: "plain_base ''/data''" "plain_names ex_web (ex_volume ''db'' ''local'')"
    "\<not> IsHost (v_Resource (ex_volume ''db'' ''local''))" "\<not> NeedsMount (v_Resource (ex_volume ''db'' ''local''))"
    by code_simp+
  then show ?thesis
    using volume_paths_isolated [OF h(1,2,2) _ _ h(3,3), of 0 1] by simp
qed

lemma list_all_avoids: "x \<in> A \<Longrightarrow> \<forall>m\<in>set ms. f m \<notin> A \<Longrightarrow> list_all (\<lambda>m. f m \<noteq> x) ms"
  by (auto simp: list_all_iff)

theorem init_step_has_no_grants_witness:
  "as_Mounts (AllocSpecFor ex_stateful 0 '''' ''/data'') \<noteq> [] \<and>
   list_all (\<lambda>m. m_Destination m \<noteq> ''/run/docker.sock'')
     (as_Mounts (initSpecFor (AllocSpecFor ex_stateful 0 '''' ''/data'') ex_stateful 0 (ex_step ''migrate'') None [] ''''))"
proof -
  let ?s = "AllocSpecFor ex_stateful 0 '''' ''/data''"
  let ?i = "initSpecFor ?s ex_stateful 0 (ex_step ''migrate'') None [] ''''"
  have "as_Mounts ?s \<noteq> []" and sock: "''/run/docker.sock'' \<in> set (map sk_MountPath (d_Sockets ex_stateful))" by code_simp+
  have "as_NetnsPath ?s = NetnsPath (as_ID ?s)" by (simp add: AllocSpecFor_def Let_def)
  from init_step_has_no_grants [OF this]
  have "\<forall>m\<in>set (as_Mounts ?i). m_Destination m \<notin> set (map sk_MountPath (d_Sockets ex_stateful))" by blast
  with sock have "list_all (\<lambda>m. m_Destination m \<noteq> ''/run/docker.sock'') (as_Mounts ?i)"
    by (rule list_all_avoids)
  with \<open>as_Mounts ?s \<noteq> []\<close> show ?thesis by blast
qed

theorem AllocSpecFor_validates_witness:
  "well_declared ex_stateful \<and> Validate (AllocSpecFor ex_stateful 1 ''/var/log'' ''/data'') = None"
proof -
  have "well_declared ex_stateful" "plain_base ''/data''" by code_simp+
  with AllocSpecFor_validates [OF this] show ?thesis by simp
qed

section \<open>Execution\<close>

text \<open>A call list with a creation in it, split there.\<close>

lemma split_at_create:
  assumes "list_ex creates cs" obtains before spec after where "cs = before @ DriverCreate spec # after"
  using assms by (auto simp: list_ex_iff creates_def in_set_conv_decomp)

definition creates_call :: "Call \<Rightarrow> bool" where
  "creates_call c = (case c of DriverCreate _ \<Rightarrow> True | _ \<Rightarrow> False)"

lemma creates_call_eq: "creates c \<longleftrightarrow> creates_call c"
  by (cases c) (auto simp: creates_def creates_call_def)


theorem failed_create_is_retryable_witness:
  "\<exists>cs m. create ex_digest ex_env_no_image ex_web ex_restart ex_store = (cs, ex_store, Inl (FailedAt phaseImage m)) \<and>
     (\<forall>s. DriverCreate s \<notin> set cs)"
proof -
  have "case snd (snd (create ex_digest ex_env_no_image ex_web ex_restart ex_store)) of
      Inl (FailedAt ph m) \<Rightarrow> ph = phaseImage | _ \<Rightarrow> False" by code_simp
  then obtain m where "snd (snd (create ex_digest ex_env_no_image ex_web ex_restart ex_store)) = Inl (FailedAt phaseImage m)"
    by (auto split: sum.splits apply_error.splits)
  then obtain cs st' where run: "create ex_digest ex_env_no_image ex_web ex_restart ex_store =
      (cs, st', Inl (FailedAt phaseImage m))" by (metis prod.collapse)
  from failed_create_is_retryable [OF this] run show ?thesis by auto
qed

theorem create_charges_budget_witness:
  "\<exists>st' r. fst (snd (create ex_digest ex_env ex_web ex_restart ex_store)) = AList.update ''shop/web/1'' r ex_store \<and>
     r_Restarts r = 3 \<and> r_State r = AllocRunning"
proof -
  have ok: "case snd (snd (create ex_digest ex_env ex_web ex_restart ex_store)) of Inl _ \<Rightarrow> False | Inr _ \<Rightarrow> True"
    by code_simp
  obtain cs st' e where run: "create ex_digest ex_env ex_web ex_restart ex_store = (cs, st', e)"
    by (metis prod.exhaust)
  with ok obtain u where "e = Inr u" by (cases e) auto
  have "alloc_key ex_web ex_restart = ''shop/web/1''" "\<not> begins_sequence ex_web ex_restart"
    "carried_restarts ex_digest ex_env ex_web (a_Kind ex_restart) (found ex_env ex_store ex_web ex_restart) = 3"
    by code_simp+
  with create_charges_budget [OF run [unfolded \<open>e = Inr u\<close>]] run show ?thesis by auto
qed

theorem teardown_order_witness:
  "fst (teardown ex_env ex_init ex_init_web (base_action ex_init_web 0 ''shop-web-0'') []) =
   [DriverStop ''shop'' ''shop-web-0.init.0.migrate'', DriverRemove ''shop'' ''shop-web-0.init.0.migrate'',
    DriverStop ''shop'' ''shop-web-0'', DriverRemove ''shop'' ''shop-web-0'',
    Detach ''shop-web-0'', DiscardAlloc ''shop-web-0'']"
proof -
  let ?act = "base_action ex_init_web 0 ''shop-web-0''"
  have ok: "case snd (snd (teardown ex_env ex_init ex_init_web ?act [])) of Inl _ \<Rightarrow> False | Inr _ \<Rightarrow> True"
    by code_simp
  obtain cs st' e where run: "teardown ex_env ex_init ex_init_web ?act [] = (cs, st', e)"
    by (metis prod.exhaust)
  with ok obtain u where "e = Inr u" by (cases e) auto
  have "a_Project ?act = ''shop''" "init_ids_of ex_init (a_AllocID ?act) = [''shop-web-0.init.0.migrate'']"
    "env_hasNetwork ex_env" "d_id ex_init_web (a_Index ?act) = ''shop-web-0''" by code_simp+
  with teardown_order [OF run [unfolded \<open>e = Inr u\<close>]] run show ?thesis by simp
qed



end
