(* ===== verification/Circuit_Breaker.thy ===== *)
theory Circuit_Breaker
  imports Go_Time
begin

text \<open>
  \<open>internal/reconciler/breaker.go\<close>: the node-wide circuit breaker. The clock reading every method
  takes first is an argument; the mutex makes each method one atomic step of the state; what the
  \<open>persist\<close> callback is called with is a result. Log lines are left out. The subtractions
  \<open>cooldown - now.Sub(trippedAt)\<close> are taken in the integers: they leave 64 bits only for a trip
  recorded centuries ahead of the clock.
\<close>

section \<open>The breaker\<close>

record BreakerConfig =
  bc_Threshold :: int
  bc_Window :: duration
  bc_Cooldown :: duration

record Breaker =
  b_threshold :: int
  b_window :: duration
  b_cooldown :: duration
  b_failures :: "time list"
  b_trippedAt :: time
  b_trips :: int

text \<open>What is written to the Store on a transition.\<close>

record BreakerState =
  bs_TrippedAt :: time
  bs_Trips :: int
  bs_Failures :: int

definition DefaultBreakerThreshold :: int where "DefaultBreakerThreshold = 10"
definition DefaultBreakerWindow :: duration where "DefaultBreakerWindow = minute"
definition DefaultBreakerCooldown :: duration where "DefaultBreakerCooldown = 5 * minute"

definition NewBreaker :: "BreakerConfig \<Rightarrow> Breaker" where
  "NewBreaker cfg =
     \<lparr>b_threshold = (if bc_Threshold cfg \<le> 0 then DefaultBreakerThreshold else bc_Threshold cfg),
      b_window = (if bc_Window cfg \<le> 0 then DefaultBreakerWindow else bc_Window cfg),
      b_cooldown = (if bc_Cooldown cfg \<le> 0 then DefaultBreakerCooldown else bc_Cooldown cfg),
      b_failures = [], b_trippedAt = zero_time, b_trips = 0\<rparr>"

definition Restore :: "Breaker \<Rightarrow> time \<Rightarrow> time \<Rightarrow> int \<Rightarrow> int \<Rightarrow> Breaker" where
  "Restore b now trippedAt trips failures =
     (let b = b\<lparr>b_trips := trips\<rparr> in
      if trippedAt = zero_time then b
      else let remaining = b_cooldown b - time_sub now trippedAt in
        if remaining \<le> 0 then b
        else b\<lparr>b_trippedAt := trippedAt,
               b_failures := b_failures b @ replicate (nat failures) trippedAt\<rparr>)"

text \<open>\<open>openAt\<close> closes the breaker when it finds the cooldown over.\<close>

definition openAt :: "Breaker \<Rightarrow> time \<Rightarrow> Breaker \<times> bool" where
  "openAt b now =
     (if b_trippedAt b = zero_time then (b, False)
      else if time_sub now (b_trippedAt b) < b_cooldown b then (b, True)
      else (b\<lparr>b_trippedAt := zero_time\<rparr>, False))"

definition prune :: "Breaker \<Rightarrow> time \<Rightarrow> Breaker" where
  "prune b now =
     (let cutoff = now - b_window b in
      b\<lparr>b_failures := filter (\<lambda>at. \<not> at < cutoff) (b_failures b)\<rparr>)"

definition RecordFailure :: "Breaker \<Rightarrow> time \<Rightarrow> Breaker \<times> bool \<times> BreakerState option" where
  "RecordFailure b now =
     (let b = prune (b\<lparr>b_failures := b_failures b @ [now]\<rparr>) now in
      if int (length (b_failures b)) < b_threshold b then (b, False, None)
      else let (b, isOpen) = openAt b now in
        if isOpen then (b, False, None)
        else let b = b\<lparr>b_trippedAt := now, b_trips := b_trips b + 1\<rparr> in
          (b, True, Some \<lparr>bs_TrippedAt = now, bs_Trips = b_trips b,
                          bs_Failures = int (length (b_failures b))\<rparr>))"

definition Allow :: "Breaker \<Rightarrow> time \<Rightarrow> Breaker \<times> bool \<times> string" where
  "Allow b now =
     (case openAt b now of
        (b, False) \<Rightarrow> (b, True, '''')
      | (b, True) \<Rightarrow>
          let remaining = b_cooldown b - time_sub now (b_trippedAt b) in
          (b, False, itoa (int (length (b_failures b))) @ '' alloc failures within '' @
             dur_string (b_window b) @ ''; resuming in '' @ dur_string (dur_round remaining second)))"

definition Open :: "Breaker \<Rightarrow> time \<Rightarrow> Breaker \<times> bool" where
  "Open b now = (case Allow b now of (b', allowed, _) \<Rightarrow> (b', \<not> allowed))"

definition Reset :: "Breaker \<Rightarrow> Breaker \<times> BreakerState" where
  "Reset b =
     (b\<lparr>b_trippedAt := zero_time, b_failures := []\<rparr>,
      \<lparr>bs_TrippedAt = zero_time, bs_Trips = b_trips b, bs_Failures = 0\<rparr>)"

section \<open>What the users of a pausing gate rely on\<close>

text \<open>Failures reported, permissions asked for and operator resets, in the order they happen.\<close>

datatype gate_event = Failure | Ask | OperatorReset

fun gate_run ::
  "('s \<Rightarrow> time \<Rightarrow> 's \<times> bool) \<Rightarrow> ('s \<Rightarrow> time \<Rightarrow> 's \<times> bool) \<Rightarrow> ('s \<Rightarrow> 's) \<Rightarrow> 's \<Rightarrow>
   (time \<times> gate_event) list \<Rightarrow> 's \<times> bool list" where
  "gate_run fail allow reset s [] = (s, [])"
| "gate_run fail allow reset s ((t, e) # evs) =
     (let (s', out) = (case e of Failure \<Rightarrow> fail s t | Ask \<Rightarrow> allow s t | OperatorReset \<Rightarrow> (reset s, False));
          (s'', outs) = gate_run fail allow reset s' evs
      in (s'', out # outs))"

text \<open>Events in the order of a clock that does not run backwards.\<close>

fun in_order :: "time \<Rightarrow> (time \<times> gate_event) list \<Rightarrow> bool" where
  "in_order t [] \<longleftrightarrow> True"
| "in_order t ((t', e) # evs) \<longleftrightarrow> t \<le> t' \<and> in_order t' evs"

locale pausing_gate =
  fixes fail allow :: "'s \<Rightarrow> time \<Rightarrow> 's \<times> bool" and reset :: "'s \<Rightarrow> 's"
    and valid :: "'s \<Rightarrow> time \<Rightarrow> bool" and until :: "'s \<Rightarrow> time" and period :: duration
  assumes valid_fail: "valid s t \<Longrightarrow> t \<le> t' \<Longrightarrow> valid (fst (fail s t')) t'"
    and valid_allow: "valid s t \<Longrightarrow> t \<le> t' \<Longrightarrow> valid (fst (allow s t')) t'"
    and fail_paused: "valid s t \<Longrightarrow> t \<le> t' \<Longrightarrow> t' < until s \<Longrightarrow>
      until (fst (fail s t')) = until s \<and> \<not> snd (fail s t')"
    and allow_paused: "valid s t \<Longrightarrow> t \<le> t' \<Longrightarrow> t' < until s \<Longrightarrow>
      until (fst (allow s t')) = until s \<and> \<not> snd (allow s t')"
    and allow_after: "valid s t \<Longrightarrow> t \<le> t' \<Longrightarrow> until s \<le> t' \<Longrightarrow> snd (allow s t')"
    and trip_pauses: "valid s t \<Longrightarrow> t \<le> t' \<Longrightarrow> snd (fail s t') \<Longrightarrow> until (fst (fail s t')) = t' + period"
begin

abbreviation run where "run \<equiv> gate_run fail allow reset"

lemma run_paused:
  assumes "valid s t" and "in_order t evs"
    and "\<forall>(t', e)\<in>set evs. t' < until s \<and> e \<noteq> OperatorReset"
  shows "True \<notin> set (snd (run s evs)) \<and> until (fst (run s evs)) = until s \<and>
    (\<exists>t'. valid (fst (run s evs)) t' \<and> (\<forall>u\<ge>t. (\<forall>x\<in>set evs. fst x \<le> u) \<longrightarrow> t' \<le> u))"
  using assms
proof (induction evs arbitrary: s t)
  case Nil
  then show ?case by (auto intro: exI [of _ t])
next
  case (Cons ev evs)
  obtain t' e where ev: "ev = (t', e)" by (cases ev)
  let ?out = "case e of Failure \<Rightarrow> fail s t' | Ask \<Rightarrow> allow s t' | OperatorReset \<Rightarrow> (reset s, False)"
  have prems: "t \<le> t'" "in_order t' evs" "t' < until s" "e \<noteq> OperatorReset"
    using Cons.prems ev by auto
  have out: "until (fst ?out) = until s" "\<not> snd ?out" "valid (fst ?out) t'"
    using fail_paused [OF Cons.prems(1) prems(1,3)] allow_paused [OF Cons.prems(1) prems(1,3)]
      valid_fail [OF Cons.prems(1) prems(1)] valid_allow [OF Cons.prems(1) prems(1)] prems(4)
    by (cases e; simp)+
  have "run s (ev # evs) = (fst (run (fst ?out) evs), snd ?out # snd (run (fst ?out) evs))"
    using ev by (simp add: case_prod_beta Let_def)
  moreover have "\<forall>(t', e)\<in>set evs. t' < until (fst ?out) \<and> e \<noteq> OperatorReset"
    using Cons.prems(3) out(1) by auto
  note Cons.IH [OF out(3) prems(2) this]
  ultimately show ?case using out prems(1) ev by auto
qed

lemma trip_then_paused:
  assumes "valid s t" and "t \<le> t'" and "snd (fail s t')" and "in_order t' evs"
    and "\<forall>(u, e)\<in>set evs. u < t' + period \<and> e \<noteq> OperatorReset"
  shows "True \<notin> set (snd (run (fst (fail s t')) evs))"
  using run_paused [OF valid_fail [OF assms(1,2)] assms(4)] trip_pauses [OF assms(1-3)] assms(5) by simp

lemma resumes_after_period:
  assumes "valid s t" and "t \<le> t'" and "snd (fail s t')" and "in_order t' evs"
    and "\<forall>(u, e)\<in>set evs. u < t' + period \<and> e \<noteq> OperatorReset" and "t' \<le> u" and "t' + period \<le> u"
  shows "snd (allow (fst (run (fst (fail s t')) evs)) u)"
proof -
  let ?s = "fst (fail s t')"
  have "until ?s = t' + period" using trip_pauses [OF assms(1-3)] .
  with run_paused [OF valid_fail [OF assms(1,2)] assms(4)] assms(5)
  have "until (fst (run ?s evs)) = t' + period"
    and "\<exists>v. valid (fst (run ?s evs)) v \<and> (\<forall>u\<ge>t'. (\<forall>x\<in>set evs. fst x \<le> u) \<longrightarrow> v \<le> u)" by simp_all
  moreover have "\<forall>x\<in>set evs. fst x \<le> u" using assms(5,7) by fastforce
  ultimately show ?thesis using allow_after assms(6,7) by metis
qed

end

section \<open>The breaker is a pausing gate\<close>

definition fail_step :: "Breaker \<Rightarrow> time \<Rightarrow> Breaker \<times> bool" where
  "fail_step b t = (case RecordFailure b t of (b', tripped, _) \<Rightarrow> (b', tripped))"

definition allow_step :: "Breaker \<Rightarrow> time \<Rightarrow> Breaker \<times> bool" where
  "allow_step b t = (case Allow b t of (b', allowed, _) \<Rightarrow> (b', allowed))"

definition reset_step :: "Breaker \<Rightarrow> Breaker" where
  "reset_step b = fst (Reset b)"

text \<open>
  The invariant of a breaker at an instant: its parameters are positive 64-bit values and nothing it
  remembers lies in the future.
\<close>

definition breaker_ok :: "duration \<Rightarrow> Breaker \<Rightarrow> time \<Rightarrow> bool" where
  "breaker_ok cd b t \<longleftrightarrow>
     0 < t \<and> 0 < b_threshold b \<and> 0 < b_window b \<and> b_cooldown b = cd \<and> 0 < cd \<and> cd \<le> max_duration \<and>
     0 \<le> b_trippedAt b \<and> b_trippedAt b \<le> t \<and> (\<forall>f\<in>set (b_failures b). f \<le> t)"

definition open_until :: "Breaker \<Rightarrow> time" where
  "open_until b = (if b_trippedAt b = zero_time then zero_time else b_trippedAt b + b_cooldown b)"

lemma openAt_eq:
  assumes "breaker_ok cd b t" and "t \<le> t'"
  shows "snd (openAt b t') \<longleftrightarrow> t' < open_until b"
    and "fst (openAt b t') = (if t' < open_until b then b else b\<lparr>b_trippedAt := zero_time\<rparr>)"
proof -
  have "time_sub t' (b_trippedAt b) < b_cooldown b \<longleftrightarrow> t' < b_trippedAt b + b_cooldown b"
    using assms by (intro time_sub_less_iff) (auto simp: breaker_ok_def min_duration_def)
  moreover have "\<not> t' < 0" using assms by (auto simp: breaker_ok_def)
  ultimately show "snd (openAt b t') \<longleftrightarrow> t' < open_until b"
    "fst (openAt b t') = (if t' < open_until b then b else b\<lparr>b_trippedAt := zero_time\<rparr>)"
    by (auto simp: openAt_def open_until_def)
qed

lemma breaker_ok_update:
  assumes "breaker_ok cd b t" and "t \<le> t'"
  shows "breaker_ok cd (b\<lparr>b_trippedAt := zero_time\<rparr>) t'" and "breaker_ok cd b t'"
    and "breaker_ok cd (prune (b\<lparr>b_failures := b_failures b @ [t']\<rparr>) t') t'"
  using assms by (auto simp: breaker_ok_def prune_def Let_def)

lemma prune_simps [simp]:
  "b_trippedAt (prune b t) = b_trippedAt b" "b_cooldown (prune b t) = b_cooldown b"
  "b_window (prune b t) = b_window b" "b_threshold (prune b t) = b_threshold b"
  "b_trips (prune b t) = b_trips b" "open_until (prune b t) = open_until b"
  by (simp_all add: prune_def open_until_def Let_def)

lemma open_until_failures [simp]: "open_until (b\<lparr>b_failures := fs\<rparr>) = open_until b"
  by (simp add: open_until_def)

text \<open>Whether the failures within the window that ends now reach the threshold.\<close>

definition burst :: "Breaker \<Rightarrow> time \<Rightarrow> bool" where
  "burst b now \<longleftrightarrow>
     b_threshold b \<le> int (length (filter (\<lambda>f. now - b_window b \<le> f) (b_failures b @ [now])))"

lemma fail_step_eq:
  assumes "breaker_ok cd b t" and "t \<le> t'"
  shows "fail_step b t' =
    (let b' = prune (b\<lparr>b_failures := b_failures b @ [t']\<rparr>) t' in
     if burst b t' \<and> open_until b \<le> t' then (b'\<lparr>b_trippedAt := t', b_trips := b_trips b + 1\<rparr>, True)
     else (b', False))"
proof -
  let ?b = "prune (b\<lparr>b_failures := b_failures b @ [t']\<rparr>) t'"
  have "breaker_ok cd ?b t'" using breaker_ok_update(3) [OF assms] .
  note eqs = openAt_eq [OF this order_refl]
  have "burst b t' \<longleftrightarrow> \<not> int (length (b_failures ?b)) < b_threshold ?b"
    by (simp add: burst_def prune_def Let_def not_less linorder_not_less)
  then show ?thesis
    using eqs by (cases "openAt ?b t'")
      (auto simp: fail_step_def RecordFailure_def Let_def not_less simp del: of_nat_less_iff split: if_splits)
qed

lemma allow_step_eq:
  assumes "breaker_ok cd b t" and "t \<le> t'"
  shows "allow_step b t' =
    (if t' < open_until b then (b, False) else (b\<lparr>b_trippedAt := zero_time\<rparr>, True))"
  using openAt_eq [OF assms]
  by (cases "openAt b t'") (auto simp: allow_step_def Allow_def Let_def split: bool.splits)

interpretation breaker: pausing_gate fail_step allow_step reset_step "breaker_ok cd" open_until cd
  for cd
proof unfold_locales
  fix b :: Breaker and t t' :: time
  assume ok: "breaker_ok cd b t" "t \<le> t'"
  then have pos: "0 < t'" by (simp add: breaker_ok_def)
  show "breaker_ok cd (fst (fail_step b t')) t'"
    using breaker_ok_update(3) [OF ok] pos
    by (auto simp: fail_step_eq [OF ok] Let_def breaker_ok_def)
  show "breaker_ok cd (fst (allow_step b t')) t'"
    using breaker_ok_update [OF ok] by (simp add: allow_step_eq [OF ok])
  show "t' < open_until b \<Longrightarrow> open_until (fst (fail_step b t')) = open_until b \<and> \<not> snd (fail_step b t')"
    by (simp add: fail_step_eq [OF ok] Let_def)
  show "t' < open_until b \<Longrightarrow> open_until (fst (allow_step b t')) = open_until b \<and> \<not> snd (allow_step b t')"
    by (simp add: allow_step_eq [OF ok])
  show "open_until b \<le> t' \<Longrightarrow> snd (allow_step b t')"
    by (simp add: allow_step_eq [OF ok])
  show "snd (fail_step b t') \<Longrightarrow> open_until (fst (fail_step b t')) = t' + cd"
    using pos ok(1) by (auto simp: fail_step_eq [OF ok] Let_def open_until_def breaker_ok_def split: if_splits)
qed

section \<open>Tripping and pausing\<close>

lemma NewBreaker_ok:
  assumes "bc_Cooldown cfg \<le> max_duration" and "0 < t"
  shows "breaker_ok (b_cooldown (NewBreaker cfg)) (NewBreaker cfg) t"
  using assms by (auto simp: breaker_ok_def NewBreaker_def DefaultBreakerThreshold_def
      DefaultBreakerCooldown_def DefaultBreakerWindow_def minute_def second_def max_duration_def)

text \<open>
  A tripped breaker holds for its whole cooldown: after a failure trips it, every permission
  asked for during the cooldown is refused and no further failure trips it again, whatever order
  failures and questions come in, as long as no operator resets it; and at the end of the cooldown
  the first question is answered with permission.
\<close>

theorem breaker_pauses_for_cooldown:
  assumes "breaker_ok cd b t" and "t \<le> t'" and "snd (fail_step b t')" and "in_order t' evs"
    and "\<forall>(u, e)\<in>set evs. u < t' + cd \<and> e \<noteq> OperatorReset"
  shows "True \<notin> set (snd (gate_run fail_step allow_step reset_step (fst (fail_step b t')) evs)) \<and>
    (\<forall>u\<ge>t' + cd. snd (allow_step (fst (gate_run fail_step allow_step reset_step (fst (fail_step b t')) evs)) u))"
proof (intro conjI allI impI)
  show "True \<notin> set (snd (gate_run fail_step allow_step reset_step (fst (fail_step b t')) evs))"
    using breaker.trip_then_paused [OF assms] .
  have "0 < cd" using assms(1) by (simp add: breaker_ok_def)
  then show "snd (allow_step (fst (gate_run fail_step allow_step reset_step (fst (fail_step b t')) evs)) u)"
    if "t' + cd \<le> u" for u
    using breaker.resumes_after_period [OF assms _ that] that by simp
qed

section \<open>Counting over the whole history\<close>

text \<open>
  The specification remembers every failure since the last reset and never forgets a trip: it trips
  when the failures of the window reach the threshold and no trip is within its cooldown.
\<close>

record failure_log =
  fl_hist :: "time list"
  fl_tripped :: time

definition log_open :: "duration \<Rightarrow> failure_log \<Rightarrow> time \<Rightarrow> bool" where
  "log_open cd s t \<longleftrightarrow> fl_tripped s \<noteq> zero_time \<and> t < fl_tripped s + cd"

definition log_fail :: "int \<Rightarrow> duration \<Rightarrow> duration \<Rightarrow> failure_log \<Rightarrow> time \<Rightarrow> failure_log \<times> bool" where
  "log_fail n win cd s t =
     (let h = fl_hist s @ [t] in
      if n \<le> int (length (filter (\<lambda>f. t - win \<le> f) h)) \<and> \<not> log_open cd s t
      then (s\<lparr>fl_hist := h, fl_tripped := t\<rparr>, True) else (s\<lparr>fl_hist := h\<rparr>, False))"

definition log_allow :: "duration \<Rightarrow> failure_log \<Rightarrow> time \<Rightarrow> failure_log \<times> bool" where
  "log_allow cd s t = (s, \<not> log_open cd s t)"

definition log_empty :: failure_log where
  "log_empty = \<lparr>fl_hist = [], fl_tripped = zero_time\<rparr>"

text \<open>
  The simulation: the breaker keeps the failures after some cutoff that lies before every window to
  come, and agrees with the log on the trip unless that one's cooldown is over.
\<close>

definition simulates :: "int \<Rightarrow> duration \<Rightarrow> duration \<Rightarrow> Breaker \<Rightarrow> failure_log \<Rightarrow> time \<Rightarrow> bool" where
  "simulates n win cd b s t \<longleftrightarrow>
     breaker_ok cd b t \<and> b_threshold b = n \<and> b_window b = win \<and>
     (\<exists>cut \<le> t - win. b_failures b = filter (\<lambda>f. cut \<le> f) (fl_hist s)) \<and>
     (b_trippedAt b = fl_tripped s \<or> (b_trippedAt b = zero_time \<and> fl_tripped s + cd \<le> t))"

lemma simulates_open:
  "simulates n win cd b s t \<Longrightarrow> t \<le> t' \<Longrightarrow> log_open cd s t' \<longleftrightarrow> t' < open_until b"
  by (auto simp: simulates_def log_open_def open_until_def breaker_ok_def)

lemma filter_filter_cut:
  "c \<le> (c'::int) \<Longrightarrow> filter (\<lambda>f. c' \<le> f) (filter (\<lambda>f. c \<le> f) xs) = filter (\<lambda>f. c' \<le> f) xs"
  by (induction xs) auto

lemma simulates_burst:
  assumes "simulates n win cd b s t" and "t \<le> t'"
  shows "burst b t' \<longleftrightarrow> n \<le> int (length (filter (\<lambda>f. t' - win \<le> f) (fl_hist s @ [t'])))"
  using assms by (auto simp: simulates_def burst_def filter_filter_cut simp del: filter_filter)

lemma prune_failures:
  "b_failures (prune (b\<lparr>b_failures := fs\<rparr>) t) = filter (\<lambda>f. t - b_window b \<le> f) fs"
  by (simp add: prune_def Let_def not_less)

lemma simulates_fail:
  assumes sim: "simulates n win cd b s t" and le: "t \<le> t'"
  shows "snd (fail_step b t') = snd (log_fail n win cd s t')"
    and "simulates n win cd (fst (fail_step b t')) (fst (log_fail n win cd s t')) t'"
proof -
  have ok: "breaker_ok cd b t" and win: "b_window b = win" using sim by (simp_all add: simulates_def)
  note step = fail_step_eq [OF ok le] simulates_open [OF sim le] simulates_burst [OF sim le]
  obtain cut where cut: "cut \<le> t - win" "b_failures b = filter (\<lambda>f. cut \<le> f) (fl_hist s)"
    using sim by (auto simp: simulates_def)
  have "b_failures (prune (b\<lparr>b_failures := b_failures b @ [t']\<rparr>) t') =
        filter (\<lambda>f. t' - win \<le> f) (fl_hist s @ [t'])"
    using cut le by (simp add: prune_failures win filter_filter_cut del: filter_filter)
  then have fs: "b_failures (fst (fail_step b t')) = filter (\<lambda>f. t' - win \<le> f) (fl_hist (fst (log_fail n win cd s t')))"
    by (auto simp: step log_fail_def Let_def)
  show "snd (fail_step b t') = snd (log_fail n win cd s t')"
    by (auto simp: step log_fail_def Let_def)
  have "breaker_ok cd (fst (fail_step b t')) t'" using breaker.valid_fail [OF ok le] .
  moreover have "b_threshold (fst (fail_step b t')) = n \<and> b_window (fst (fail_step b t')) = win"
    using sim by (auto simp: step(1) Let_def simulates_def)
  moreover have "b_trippedAt (fst (fail_step b t')) = fl_tripped (fst (log_fail n win cd s t')) \<or>
      (b_trippedAt (fst (fail_step b t')) = zero_time \<and> fl_tripped (fst (log_fail n win cd s t')) + cd \<le> t')"
    using sim le by (auto simp: step log_fail_def Let_def simulates_def)
  ultimately show "simulates n win cd (fst (fail_step b t')) (fst (log_fail n win cd s t')) t'"
    unfolding simulates_def using fs by blast
qed

lemma simulates_allow:
  assumes sim: "simulates n win cd b s t" and le: "t \<le> t'"
  shows "snd (allow_step b t') = snd (log_allow cd s t')"
    and "simulates n win cd (fst (allow_step b t')) (fst (log_allow cd s t')) t'"
proof -
  have ok: "breaker_ok cd b t" using sim by (simp add: simulates_def)
  note step = allow_step_eq [OF ok le] simulates_open [OF sim le]
  show "snd (allow_step b t') = snd (log_allow cd s t')"
    by (simp add: step log_allow_def)
  have "breaker_ok cd (fst (allow_step b t')) t'" using breaker.valid_allow [OF ok le] .
  moreover have "\<exists>cut \<le> t' - win. b_failures (fst (allow_step b t')) = filter (\<lambda>f. cut \<le> f) (fl_hist s)"
  proof -
    obtain cut where "cut \<le> t - win" "b_failures b = filter (\<lambda>f. cut \<le> f) (fl_hist s)"
      using sim by (auto simp: simulates_def)
    then show ?thesis using le by (intro exI [of _ cut]) (simp add: step(1))
  qed
  ultimately show "simulates n win cd (fst (allow_step b t')) (fst (log_allow cd s t')) t'"
    using sim le ok [unfolded breaker_ok_def] unfolding simulates_def log_allow_def
    by (auto simp: step(1) open_until_def split: if_splits)
qed

lemma simulates_reset:
  "simulates n win cd b s t \<Longrightarrow> t \<le> t' \<Longrightarrow> simulates n win cd (reset_step b) log_empty t'"
  by (auto simp: simulates_def reset_step_def Reset_def log_empty_def breaker_ok_def)

lemma simulates_run:
  assumes "simulates n win cd b s t" and "in_order t evs"
  shows "snd (gate_run fail_step allow_step reset_step b evs) =
         snd (gate_run (log_fail n win cd) (log_allow cd) (\<lambda>_. log_empty) s evs)"
  using assms
proof (induction evs arbitrary: b s t)
  case (Cons ev evs)
  obtain t' e where ev: "ev = (t', e)" by (cases ev)
  then have le: "t \<le> t'" and order: "in_order t' evs" using Cons.prems by auto
  show ?case
    using simulates_fail [OF Cons.prems(1) le] simulates_allow [OF Cons.prems(1) le]
      simulates_reset [OF Cons.prems(1) le] Cons.IH [OF _ order] ev
    by (cases e) (auto simp: case_prod_beta Let_def)
qed simp

text \<open>
  C8. Forgetting old failures is invisible: for every sequence of failures, questions and resets in
  the order of the clock, a new breaker answers exactly as the specification that keeps the whole
  history of failures and decides each time by counting those inside the window.
\<close>

theorem breaker_refines_history:
  assumes "bc_Cooldown cfg \<le> max_duration" and "0 < t" and "in_order t evs"
  shows "snd (gate_run fail_step allow_step reset_step (NewBreaker cfg) evs) =
    snd (gate_run
      (log_fail (b_threshold (NewBreaker cfg)) (b_window (NewBreaker cfg)) (b_cooldown (NewBreaker cfg)))
      (log_allow (b_cooldown (NewBreaker cfg))) (\<lambda>_. log_empty) log_empty evs)"
proof (rule simulates_run [OF _ assms(3)])
  show "simulates (b_threshold (NewBreaker cfg)) (b_window (NewBreaker cfg)) (b_cooldown (NewBreaker cfg))
      (NewBreaker cfg) log_empty t"
    using NewBreaker_ok [OF assms(1,2)]
    by (auto simp: simulates_def log_empty_def NewBreaker_def)
qed

section \<open>Across a restart\<close>

lemma RecordFailure_persists:
  assumes "RecordFailure b t = (b', tripped, Some st)"
  shows "b_trippedAt b' = t \<and> bs_TrippedAt st = t \<and> bs_Trips st = b_trips b' \<and>
    bs_Failures st = int (length (b_failures b')) \<and> b_cooldown b' = b_cooldown b \<and>
    b_window b' = b_window b \<and> b_trips b' = b_trips b + 1 \<and> tripped"
proof -
  let ?x = "prune (b\<lparr>b_failures := b_failures b @ [t]\<rparr>) t"
  have "b_cooldown (fst (openAt ?x t)) = b_cooldown b \<and> b_window (fst (openAt ?x t)) = b_window b \<and>
      b_trips (fst (openAt ?x t)) = b_trips b"
    by (simp add: openAt_def)
  then show ?thesis
    using assms by (cases "openAt ?x t")
      (auto simp: RecordFailure_def Let_def split: if_splits prod.splits)
qed

text \<open>
  A restart of the daemon does not reopen the gate. When a failure trips the breaker, the state
  persisted at that moment, restored into a fresh breaker of the same configuration at any later
  time, gives from then on the same answer, with the same explanation, and the same trip count as the
  breaker that was never restarted.
\<close>

theorem restart_preserves_pause:
  assumes "RecordFailure b t = (b', tripped, Some st)" and "0 < t" and "t \<le> r" and "r \<le> now"
    and "b_cooldown b = b_cooldown (NewBreaker cfg)" and "b_window b = b_window (NewBreaker cfg)"
    and "b_cooldown b \<le> max_duration"
  shows "snd (Allow (Restore (NewBreaker cfg) r (bs_TrippedAt st) (bs_Trips st) (bs_Failures st)) now) =
         snd (Allow b' now) \<and>
    b_trips (Restore (NewBreaker cfg) r (bs_TrippedAt st) (bs_Trips st) (bs_Failures st)) = b_trips b'"
proof -
  let ?b = "Restore (NewBreaker cfg) r (bs_TrippedAt st) (bs_Trips st) (bs_Failures st)"
  note st = RecordFailure_persists [OF assms(1)]
  have cd: "0 < b_cooldown b" using assms(5) by (simp add: NewBreaker_def DefaultBreakerCooldown_def)
  then have less: "time_sub x t < b_cooldown b \<longleftrightarrow> x < t + b_cooldown b" for x
    using assms(7) by (intro time_sub_less_iff) (simp_all add: min_duration_def)
  show ?thesis
  proof (cases "r < t + b_cooldown b")
    case True
    then have "?b = (NewBreaker cfg)\<lparr>b_trips := bs_Trips st, b_trippedAt := t,
        b_failures := replicate (nat (bs_Failures st)) t\<rparr>"
      using st assms(2,5) less [of r] by (simp add: Restore_def Let_def NewBreaker_def)
    then show ?thesis
      using st assms(2,5,6) by (auto simp: Allow_def openAt_def Let_def split: prod.splits)
  next
    case False
    then have "?b = (NewBreaker cfg)\<lparr>b_trips := bs_Trips st\<rparr>"
      using st assms(2,5) less [of r] by (simp add: Restore_def Let_def NewBreaker_def)
    moreover have "\<not> time_sub now t < b_cooldown b" using False assms(4) less [of now] by simp
    ultimately show ?thesis
      using st assms(2) by (auto simp: Allow_def openAt_def Let_def NewBreaker_def split: prod.splits)
  qed
qed

section \<open>A limit\<close>

text \<open>
  The list of remembered failures is bounded by the window alone, not by the threshold: with the
  default configuration, a node on which twelve allocs fail within the minute holds twelve
  timestamps although the threshold is ten.
\<close>

theorem failures_not_bounded_by_threshold:
  "length (b_failures (fst (gate_run fail_step allow_step reset_step
      (NewBreaker \<lparr>bc_Threshold = 0, bc_Window = 0, bc_Cooldown = 0\<rparr>)
      (map (\<lambda>i. (int i, Failure)) [1..<13])))) = 12 \<and>
   b_threshold (NewBreaker \<lparr>bc_Threshold = 0, bc_Window = 0, bc_Cooldown = 0\<rparr>) = 10"
  by code_simp

section \<open>The properties at work\<close>

definition ex_breaker_cfg :: BreakerConfig where
  "ex_breaker_cfg = \<lparr>bc_Threshold = 2, bc_Window = 10, bc_Cooldown = 100\<rparr>"

definition ex_breaker :: Breaker where
  "ex_breaker = fst (fail_step (NewBreaker ex_breaker_cfg) 5)"

theorem breaker_pauses_for_cooldown_witness:
  "breaker_ok 100 ex_breaker 5 \<and> snd (fail_step ex_breaker 8) \<and>
   True \<notin> set (snd (gate_run fail_step allow_step reset_step (fst (fail_step ex_breaker 8))
                     [(9, Ask), (20, Failure), (21, Failure), (107, Ask)]))"
proof -
  have h: "breaker_ok 100 ex_breaker 5" "snd (fail_step ex_breaker 8)"
    "in_order 8 [(9, Ask), (20, Failure), (21, Failure), (107, Ask)]"
    "\<forall>(u::int, e)\<in>set [(9, Ask), (20, Failure), (21, Failure), (107, Ask)]. u < 8 + 100 \<and> e \<noteq> OperatorReset"
    by code_simp+
  from breaker_pauses_for_cooldown [OF h(1) _ h(2-4)] h(1,2) show ?thesis by linarith
qed

theorem breaker_refines_history_witness:
  "snd (gate_run fail_step allow_step reset_step (NewBreaker ex_breaker_cfg)
      [(5, Failure), (8, Failure), (9, Ask), (108, Ask)]) = [False, True, False, True] \<and>
   snd (gate_run (log_fail 2 10 100) (log_allow 100) (\<lambda>_. log_empty) log_empty
      [(5, Failure), (8, Failure), (9, Ask), (108, Ask)]) = [False, True, False, True]"
proof -
  have h: "bc_Cooldown ex_breaker_cfg \<le> max_duration" "in_order 5 [(5, Failure), (8, Failure), (9, Ask), (108, Ask)]"
    "b_threshold (NewBreaker ex_breaker_cfg) = 2" "b_window (NewBreaker ex_breaker_cfg) = 10"
    "b_cooldown (NewBreaker ex_breaker_cfg) = 100"
    by code_simp+
  have "snd (gate_run (log_fail 2 10 100) (log_allow 100) (\<lambda>_. log_empty) log_empty
      [(5, Failure), (8, Failure), (9, Ask), (108, Ask)]) = [False, True, False, True]"
    by code_simp
  with breaker_refines_history [OF h(1) _ h(2)] show ?thesis by (simp add: h(3-5))
qed

theorem restart_preserves_pause_witness:
  "\<exists>b' st. RecordFailure ex_breaker 8 = (b', True, Some st) \<and>
     snd (Allow (Restore (NewBreaker ex_breaker_cfg) 20 (bs_TrippedAt st) (bs_Trips st) (bs_Failures st)) 30) =
     snd (Allow b' 30)"
proof -
  obtain b' tr st where f: "RecordFailure ex_breaker 8 = (b', tr, Some st)" and "tr"
  proof -
    have "snd (snd (RecordFailure ex_breaker 8)) \<noteq> None" "fst (snd (RecordFailure ex_breaker 8))" by code_simp+
    then show thesis using that by (metis option.exhaust prod.collapse)
  qed
  have "b_cooldown ex_breaker = b_cooldown (NewBreaker ex_breaker_cfg)"
    "b_window ex_breaker = b_window (NewBreaker ex_breaker_cfg)" "b_cooldown ex_breaker \<le> max_duration"
    by code_simp+
  with restart_preserves_pause [OF f, of 20 30 ex_breaker_cfg] \<open>tr\<close> f show ?thesis by auto
qed

end
