(* ===== verification/Bolt_Bucket.thy ===== *)
theory Bolt_Bucket
  imports Kanea_Prelude "HOL-Library.Word"
begin

text \<open>
  The database library under the state store, as far as \<open>internal/store\<close> uses it, and the
  big-endian integers its keys and record headers are made of.

  \<^item> A bbolt bucket is a list of key/value pairs in ascending byte order of the keys; \<open>Put\<close>,
    \<open>Get\<close> and \<open>Delete\<close> are \<open>bk_put\<close>, \<open>bk_get\<close> and \<open>bk_delete\<close>. A cursor is the list of entries it
    will still yield: \<open>Seek\<close> is \<open>bk_seek\<close>, and stepping back from it walks \<open>bk_below\<close>.
  \<^item> The locale \<open>kv_bucket\<close> states what the store relies on, with the consequences it needs for a
    batch of writes; the sorted lists are an instance.
  \<^item> \<open>encoding/binary.BigEndian\<close> is \<open>be_bytes\<close> and \<open>be_value\<close>. Keys built from it sort like the
    numbers they hold, which is what puts the change log in order.
\<close>

section \<open>Big-endian integers\<close>

fun be_bytes :: "nat \<Rightarrow> nat \<Rightarrow> string" where
  "be_bytes 0 v = []"
| "be_bytes (Suc n) v = char_of (v div 256 ^ n mod 256) # be_bytes n v"

definition be_value :: "string \<Rightarrow> nat" where
  "be_value = foldl (\<lambda>a c. a * 256 + of_char c) 0"

lemma length_be_bytes [simp]: "length (be_bytes n v) = n"
  by (induction n) auto

lemma be_value_acc: "foldl (\<lambda>a c. a * 256 + of_char c) x s = x * 256 ^ length s + be_value s"
proof (induction s arbitrary: x)
  case (Cons c s)
  show ?case
    using Cons [of "x * 256 + of_char c"] Cons [of "of_char c"]
    by (simp add: be_value_def algebra_simps)
qed (simp add: be_value_def)

lemma be_value_Nil [simp]: "be_value [] = 0"
  by (simp add: be_value_def)

lemma be_value_Cons [simp]: "be_value (c # s) = of_char c * 256 ^ length s + be_value s"
  using be_value_acc [of "of_char c" s] by (simp add: be_value_def)

lemma of_char_le_255: "(of_char c :: nat) \<le> 255"
  using nat_of_char_less_256 [of c] by linarith

lemma be_value_less: "be_value s < 256 ^ length s"
proof (induction s)
  case (Cons c s)
  have "(of_char c :: nat) * 256 ^ length s \<le> 255 * 256 ^ length s" by (rule mult_right_mono [OF of_char_le_255]) simp
  then show ?case using Cons unfolding be_value_Cons length_Cons power_Suc by linarith
qed simp

lemma be_value_bytes: "be_value (be_bytes n v) = v mod 256 ^ n"
proof (induction n)
  case (Suc n)
  have "v mod (256 ^ n * 256) = 256 ^ n * (v div 256 ^ n mod 256) + v mod 256 ^ n"
    by (rule mod_mult2_eq)
  with Suc show ?case by (simp add: mult.commute)
qed simp

lemma be_value_bytes_id [simp]: "v < 256 ^ n \<Longrightarrow> be_value (be_bytes n v) = v"
  by (simp add: be_value_bytes)

text \<open>Two byte strings of one length compare like the numbers they spell.\<close>

lemma be_value_order:
  "length s = length t \<Longrightarrow> s < t \<longleftrightarrow> be_value s < be_value t"
proof (induction s t rule: list_induct2)
  case (Cons c s d t)
  let ?n = "length t"
  have c: "c < d \<longleftrightarrow> (of_char c :: nat) < of_char d" by (simp add: less_char_def)
  have less: "of_char (x :: char) * 256 ^ ?n + be_value u < of_char y * 256 ^ ?n"
    if "(of_char x :: nat) < of_char y" and "length u = ?n" for x y u
  proof -
    have "(of_char x + 1) * 256 ^ ?n \<le> of_char y * (256 ^ ?n :: nat)"
      using that(1) by (intro mult_right_mono) auto
    then show ?thesis using be_value_less [of u] that(2) by simp
  qed
  consider "(of_char c :: nat) < of_char d" | "c = d" | "(of_char d :: nat) < of_char c"
    by (metis linorder_neqE_nat of_char_eq_iff)
  then show ?case
  proof cases
    case 1
    with less [OF 1 Cons(1)] c Cons(1) show ?thesis by (simp add: trans_less_add1)
  next
    case 2
    with Cons show ?thesis by simp
  next
    case 3
    with less [OF 3, of t] c Cons(1) show ?thesis by (auto simp: less_char_def)
  qed
qed simp

lemma be_bytes_less [simp]:
  "v < 256 ^ n \<Longrightarrow> w < 256 ^ n \<Longrightarrow> be_bytes n v < be_bytes n w \<longleftrightarrow> v < w"
  by (simp add: be_value_order)

lemma be_bytes_inject [simp]:
  "v < 256 ^ n \<Longrightarrow> w < 256 ^ n \<Longrightarrow> be_bytes n v = be_bytes n w \<longleftrightarrow> v = w"
  by (metis be_value_bytes_id)

section \<open>Buckets\<close>

type_synonym 'v bucket = "(string \<times> 'v) list"

definition bk_wf :: "'v bucket \<Rightarrow> bool" where
  "bk_wf b \<longleftrightarrow> sorted_wrt (<) (map fst b)"

abbreviation bk_get :: "'v bucket \<Rightarrow> string \<Rightarrow> 'v option" where
  "bk_get \<equiv> map_of"

fun bk_put :: "string \<Rightarrow> 'v \<Rightarrow> 'v bucket \<Rightarrow> 'v bucket" where
  "bk_put k v [] = [(k, v)]"
| "bk_put k v ((a, x) # b) =
     (if k < a then (k, v) # (a, x) # b else if k = a then (k, v) # b else (a, x) # bk_put k v b)"

definition bk_delete :: "string \<Rightarrow> 'v bucket \<Rightarrow> 'v bucket" where
  "bk_delete k b = filter (\<lambda>e. fst e \<noteq> k) b"

text \<open>The entries a cursor yields from \<open>Seek k\<close> on, and those it yields by stepping back from there.\<close>

definition bk_seek :: "string \<Rightarrow> 'v bucket \<Rightarrow> 'v bucket" where
  "bk_seek k b = dropWhile (\<lambda>e. fst e < k) b"

definition bk_below :: "string \<Rightarrow> 'v bucket \<Rightarrow> 'v bucket" where
  "bk_below k b = rev (takeWhile (\<lambda>e. fst e < k) b)"

subsection \<open>What a client relies on\<close>

text \<open>A batch of writes: \<open>Some v\<close> puts, \<open>None\<close> deletes. The last write to a key wins, whatever the
  other keys, and two buckets that answer alike are the same bucket.\<close>

locale kv_bucket =
  fixes get :: "'b \<Rightarrow> string \<Rightarrow> 'v option"
    and put :: "string \<Rightarrow> 'v \<Rightarrow> 'b \<Rightarrow> 'b"
    and del :: "string \<Rightarrow> 'b \<Rightarrow> 'b"
    and inv :: "'b \<Rightarrow> bool"
  assumes get_put: "inv b \<Longrightarrow> get (put k v b) = (get b)(k \<mapsto> v)"
    and get_del: "inv b \<Longrightarrow> get (del k b) = (get b)(k := None)"
    and inv_put: "inv b \<Longrightarrow> inv (put k v b)"
    and inv_del: "inv b \<Longrightarrow> inv (del k b)"
    and get_ext: "inv b \<Longrightarrow> inv b' \<Longrightarrow> get b = get b' \<Longrightarrow> b = b'"
begin

definition upd1 :: "string \<times> 'v option \<Rightarrow> 'b \<Rightarrow> 'b" where
  "upd1 u b = (case snd u of None \<Rightarrow> del (fst u) b | Some v \<Rightarrow> put (fst u) v b)"

lemma get_upd1: "inv b \<Longrightarrow> get (upd1 u b) = (get b)(fst u := snd u)"
  by (cases "snd u") (simp_all add: upd1_def get_put get_del)

lemma inv_upd1: "inv b \<Longrightarrow> inv (upd1 u b)"
  by (cases "snd u") (simp_all add: upd1_def inv_put inv_del)

lemma inv_writes: "inv b \<Longrightarrow> inv (fold upd1 us b)"
  by (induction us arbitrary: b) (simp_all add: inv_upd1)

lemma get_writes:
  "inv b \<Longrightarrow> get (fold upd1 us b) k = (case map_of (rev us) k of None \<Rightarrow> get b k | Some w \<Rightarrow> w)"
proof (induction us rule: rev_induct)
  case (snoc u us)
  then show ?case by (cases u) (simp add: get_upd1 inv_writes)
qed simp

lemma del_absent: "inv b \<Longrightarrow> get b k = None \<Longrightarrow> del k b = b"
  by (rule get_ext) (simp_all add: inv_del get_del fun_upd_idem)

end

subsection \<open>Sorted lists are such a bucket\<close>

lemma bk_wf_Nil [simp]: "bk_wf []"
  by (simp add: bk_wf_def)

lemma bk_wf_Cons: "bk_wf (e # b) \<longleftrightarrow> (\<forall>x\<in>set b. fst e < fst x) \<and> bk_wf b"
  by (auto simp: bk_wf_def)

lemma set_bk_put: "e \<in> set (bk_put k v b) \<Longrightarrow> e = (k, v) \<or> e \<in> set b"
  by (induction k v b rule: bk_put.induct) (auto split: if_splits)

lemma bk_wf_put [simp]: "bk_wf b \<Longrightarrow> bk_wf (bk_put k v b)"
  by (induction k v b rule: bk_put.induct) (fastforce simp: bk_wf_Cons dest: set_bk_put)+

lemma bk_wf_filter [simp]: "bk_wf b \<Longrightarrow> bk_wf (filter P b)"
  by (induction b) (auto simp: bk_wf_Cons)

lemma bk_wf_delete [simp]: "bk_wf b \<Longrightarrow> bk_wf (bk_delete k b)"
  by (simp add: bk_delete_def)

lemma bk_get_put [simp]: "bk_get (bk_put k v b) = (bk_get b)(k \<mapsto> v)"
  by (induction k v b rule: bk_put.induct) auto

lemma bk_get_delete [simp]: "bk_get (bk_delete k b) = (bk_get b)(k := None)"
  by (induction b) (auto simp: bk_delete_def)

lemma bk_ext: "bk_wf b \<Longrightarrow> bk_wf b' \<Longrightarrow> bk_get b = bk_get b' \<Longrightarrow> b = b'"
proof -
  assume wf: "bk_wf b" "bk_wf b'" and eq: "bk_get b = bk_get b'"
  then have d: "sorted (map fst b)" "distinct (map fst b)" "sorted (map fst b')" "distinct (map fst b')"
    by (simp_all add: bk_wf_def strict_sorted_iff)
  with eq have "set b = set b'" by (metis map_of_inject_set)
  then show "b = b'"
    using d by (intro map_sorted_distinct_set_unique [of fst]) (simp_all add: distinct_map)
qed

interpretation bolt: kv_bucket bk_get bk_put bk_delete bk_wf
  by unfold_locales (simp_all add: bk_ext)

lemma dropWhile_less_filter: "bk_wf b \<Longrightarrow> dropWhile (\<lambda>e. fst e < k) b = filter (\<lambda>e. k \<le> fst e) b"
proof (induction b)
  case (Cons e b)
  then show ?case
    by (cases "fst e < k") (auto simp: bk_wf_Cons intro!: filter_True [symmetric] dest: less_trans)
qed simp

lemma takeWhile_less_filter: "bk_wf b \<Longrightarrow> takeWhile (\<lambda>e. fst e < k) b = filter (\<lambda>e. fst e < k) b"
proof (induction b)
  case (Cons e b)
  then show ?case
    by (cases "fst e < k") (auto simp: bk_wf_Cons intro!: filter_False [symmetric])
qed simp

lemma bk_seek_eq: "bk_wf b \<Longrightarrow> bk_seek k b = filter (\<lambda>e. k \<le> fst e) b"
  by (simp add: bk_seek_def dropWhile_less_filter)

lemma bk_below_eq: "bk_wf b \<Longrightarrow> bk_below k b = rev (filter (\<lambda>e. fst e < k) b)"
  by (simp add: bk_below_def takeWhile_less_filter)

lemma bk_wf_append: "bk_wf (b @ c) \<longleftrightarrow> bk_wf b \<and> bk_wf c \<and> (\<forall>x\<in>set b. \<forall>y\<in>set c. fst x < fst y)"
  by (auto simp: bk_wf_def sorted_wrt_append)

lemma bk_put_last: "bk_wf b \<Longrightarrow> \<forall>e\<in>set b. fst e < k \<Longrightarrow> bk_put k v b = b @ [(k, v)]"
  by (induction k v b rule: bk_put.induct) (auto simp: bk_wf_Cons)

end
