(* ===== verification/State_Store.thy ===== *)
theory State_Store
  imports Bolt_Bucket Go_Time
begin

text \<open>
  The state store (\<open>internal/store\<close>: \<open>store.go\<close>, \<open>bbolt.go\<close>, \<open>codec.go\<close>, \<open>migrate.go\<close>).

  \<^item> A \<open>Store\<close> is the database file: one bucket per kind, the \<open>_meta\<close> bucket with the index and
    the schema version, and the \<open>_changes\<close> bucket, plus the closed flag. Records are kept as the
    code keeps them, an eight byte big-endian index in front of the payload. A change is stored as
    JSON by the code; here the bucket holds the \<open>Change\<close> itself.
  \<^item> \<open>db.Update\<close> is transactional: an operation takes the answer of the commit (\<open>None\<close>, or the
    message of an I/O failure) and returns the store it started from on every error.
  \<^item> \<open>ctx\<close> is the context's error at the time of the call, \<open>None\<close> while it is live.
\<close>

section \<open>Kinds, mutations and errors\<close>

type_synonym Kind = string

definition Kinds :: "Kind list" where
  "Kinds = [''projects'', ''services'', ''allocs'', ''events'', ''certs'', ''secrets'', ''pipelines'',
            ''audit'', ''kv'']"

definition KindKV :: Kind where "KindKV = ''kv''"
definition KindAlloc :: Kind where "KindAlloc = ''allocs''"

definition kind_valid :: "Kind \<Rightarrow> bool" where
  "kind_valid k \<longleftrightarrow> k \<in> set Kinds"

datatype Op = OpPut | OpDelete | BadOp nat

datatype store_error =
    ErrNotFound Kind string
  | ErrConflict nat
  | ErrInvalid string
  | ErrClosed
  | ErrContext string
  | ErrIO string

record Mutation =
  mu_Op :: Op
  mu_Kind :: Kind
  mu_Key :: string
  mu_Value :: string
  mu_PrevIndex :: "64 word"
  mu_ExpectAbsent :: bool

definition validate :: "Mutation \<Rightarrow> store_error option" where
  "validate m =
     (if \<not> kind_valid (mu_Kind m) then Some (ErrInvalid ''unknown kind'')
      else if mu_Key m = '''' then Some (ErrInvalid ''empty key'')
      else if mu_Op m \<noteq> OpPut \<and> mu_Op m \<noteq> OpDelete then Some (ErrInvalid ''bad op'')
      else if mu_PrevIndex m > 0 \<and> mu_ExpectAbsent m then
        Some (ErrInvalid ''PrevIndex and ExpectAbsent are mutually exclusive'')
      else None)"

record Change =
  ch_Index :: "64 word"
  ch_Op :: Op
  ch_Kind :: Kind
  ch_Key :: string
  ch_Value :: string
  ch_Time :: time

record Record =
  rc_Kind :: Kind
  rc_Key :: string
  rc_Index :: "64 word"
  rc_Value :: string

section \<open>Encoding\<close>

definition encodeUint64 :: "64 word \<Rightarrow> string" where
  "encodeUint64 v = be_bytes 8 (unat v)"

definition decodeUint64 :: "string \<Rightarrow> 64 word" where
  "decodeUint64 raw = (if length raw < 8 then 0 else of_nat (be_value (take 8 raw)))"

definition encodeRecord :: "64 word \<Rightarrow> string \<Rightarrow> string" where
  "encodeRecord index v = be_bytes 8 (unat index) @ v"

definition decodeRecord :: "string \<Rightarrow> store_error + 64 word \<times> string" where
  "decodeRecord raw =
     (if length raw < 8 then Inl (ErrInvalid ''record shorter than its header'')
      else Inr (of_nat (be_value (take 8 raw)), drop 8 raw))"

definition changeKey :: "64 word \<Rightarrow> 32 word \<Rightarrow> string" where
  "changeKey index n = be_bytes 8 (unat index) @ be_bytes 4 (unat n)"

text \<open>The first key above every key with the prefix; \<open>None\<close> when the prefix is all \<open>0xff\<close>.\<close>

fun prefix_end_rev :: "string \<Rightarrow> string option" where
  "prefix_end_rev [] = None"
| "prefix_end_rev (c # cs) =
     (if c \<noteq> CHR 0xFF then Some (char_of ((of_char c :: nat) + 1) # cs) else prefix_end_rev cs)"

definition prefixEnd :: "string \<Rightarrow> string option" where
  "prefixEnd p = map_option rev (prefix_end_rev (rev p))"

section \<open>The store\<close>

record Store =
  db_kinds :: "Kind \<Rightarrow> string bucket"
  db_meta :: "string bucket"
  db_changes :: "Change bucket"
  db_closed :: bool

definition metaKeySchema :: string where "metaKeySchema = ''schema_version''"
definition metaKeyIndex :: string where "metaKeyIndex = ''index''"

text \<open>\<open>Bucket.Get\<close> answers nil for a missing key, which \<open>decodeUint64\<close> reads as zero.\<close>

definition meta_uint64 :: "string \<Rightarrow> Store \<Rightarrow> 64 word" where
  "meta_uint64 k s = decodeUint64 (case bk_get (db_meta s) k of None \<Rightarrow> [] | Some raw \<Rightarrow> raw)"

abbreviation store_index :: "Store \<Rightarrow> 64 word" where
  "store_index \<equiv> meta_uint64 metaKeyIndex"

definition check :: "string option \<Rightarrow> Store \<Rightarrow> store_error option" where
  "check ctx s =
     (case ctx of Some e \<Rightarrow> Some (ErrContext e)
      | None \<Rightarrow> if db_closed s then Some ErrClosed else None)"

definition Close :: "Store \<Rightarrow> Store" where
  "Close s = s\<lparr>db_closed := True\<rparr>"

section \<open>Reading\<close>

definition Get :: "string option \<Rightarrow> Kind \<Rightarrow> string \<Rightarrow> Store \<Rightarrow> store_error + Record" where
  "Get ctx kind key s =
     (case check ctx s of Some e \<Rightarrow> Inl e | None \<Rightarrow>
        if \<not> kind_valid kind then Inl (ErrInvalid ''unknown kind'')
        else if key = '''' then Inl (ErrInvalid ''empty key'')
        else case bk_get (db_kinds s kind) key of
               None \<Rightarrow> Inl (ErrNotFound kind key)
             | Some raw \<Rightarrow>
                 (case decodeRecord raw of
                    Inl e \<Rightarrow> Inl e
                  | Inr (index, v) \<Rightarrow> Inr \<lparr>rc_Kind = kind, rc_Key = key, rc_Index = index, rc_Value = v\<rparr>))"

definition DefaultListLimit :: int where "DefaultListLimit = 100"
definition MaxListLimit :: int where "MaxListLimit = 1000"

record ListOptions =
  lo_Prefix :: string
  lo_After :: string
  lo_Limit :: int
  lo_KeysOnly :: bool
  lo_Reverse :: bool

definition page_limit :: "int \<Rightarrow> int" where
  "page_limit n = (if n \<le> 0 then DefaultListLimit else if n > MaxListLimit then MaxListLimit else n)"

record Page =
  pg_Records :: "Record list"
  pg_NextAfter :: string
  pg_More :: bool

text \<open>The entries the cursor yields from its first position on, for the six starting positions of
  \<open>List\<close>.\<close>

definition scan_from :: "ListOptions \<Rightarrow> 'v bucket \<Rightarrow> 'v bucket" where
  "scan_from opts b =
     (if lo_After opts \<noteq> '''' \<and> lo_Reverse opts then
        (if bk_seek (lo_After opts) b = [] then rev b else bk_below (lo_After opts) b)
      else if lo_After opts \<noteq> '''' then
        (case bk_seek (lo_After opts) b of
           [] \<Rightarrow> []
         | (k, v) # rest \<Rightarrow> if k = lo_After opts then rest else (k, v) # rest)
      else if lo_Reverse opts \<and> lo_Prefix opts \<noteq> '''' then
        (case prefixEnd (lo_Prefix opts) of
           None \<Rightarrow> rev b
         | Some e \<Rightarrow> if bk_seek e b = [] then rev b else bk_below e b)
      else if lo_Reverse opts then rev b
      else if lo_Prefix opts \<noteq> '''' then bk_seek (lo_Prefix opts) b
      else b)"

text \<open>The loop over them: \<open>acc\<close> is \<open>page.Records\<close> so far. The result says whether it stopped at a
  full page.\<close>

fun list_loop ::
  "Kind \<Rightarrow> ListOptions \<Rightarrow> nat \<Rightarrow> Record list \<Rightarrow> string bucket \<Rightarrow> store_error + Record list \<times> bool" where
  "list_loop kind opts limit acc [] = Inr (acc, False)"
| "list_loop kind opts limit acc ((k, raw) # rest) =
     (if lo_Prefix opts \<noteq> '''' \<and> \<not> has_prefix k (lo_Prefix opts) then Inr (acc, False)
      else if length acc = limit then Inr (acc, True)
      else case decodeRecord raw of
             Inl e \<Rightarrow> Inl e
           | Inr (index, v) \<Rightarrow>
               list_loop kind opts limit
                 (acc @ [\<lparr>rc_Kind = kind, rc_Key = k, rc_Index = index,
                          rc_Value = (if lo_KeysOnly opts then [] else v)\<rparr>]) rest)"

definition ListPage :: "string option \<Rightarrow> Kind \<Rightarrow> ListOptions \<Rightarrow> Store \<Rightarrow> store_error + Page" where
  "ListPage ctx kind opts s =
     (case check ctx s of Some e \<Rightarrow> Inl e | None \<Rightarrow>
        if \<not> kind_valid kind then Inl (ErrInvalid ''unknown kind'')
        else case list_loop kind opts (nat (page_limit (lo_Limit opts))) [] (scan_from opts (db_kinds s kind)) of
               Inl e \<Rightarrow> Inl e
             | Inr (rs, full) \<Rightarrow>
                 Inr \<lparr>pg_Records = rs,
                      pg_NextAfter = (if full then rc_Key (last rs) else ''''), pg_More = full\<rparr>)"

text \<open>Typed reads: \<open>dec\<close> is \<open>json.Unmarshal\<close> into the caller's type, or an error message. The loop
  is the one every caller that wants a whole bucket runs (\<open>loadDesired\<close>, \<open>loadRecords\<close>, the VIP
  allocator's \<open>load\<close>): page after page, resuming after the last key.\<close>

datatype read_error = ReadFailed store_error | BadValue string

fun decode_all :: "(Record \<Rightarrow> string + 'a) \<Rightarrow> Record list \<Rightarrow> string + 'a list" where
  "decode_all dec [] = Inr []"
| "decode_all dec (r # rs) =
     (case dec r of Inl m \<Rightarrow> Inl m
      | Inr v \<Rightarrow> (case decode_all dec rs of Inl m \<Rightarrow> Inl m | Inr vs \<Rightarrow> Inr (v # vs)))"

definition ListValues ::
  "(Record \<Rightarrow> string + 'a) \<Rightarrow> string option \<Rightarrow> Kind \<Rightarrow> ListOptions \<Rightarrow> Store \<Rightarrow> read_error + 'a list \<times> Page" where
  "ListValues dec ctx kind opts s =
     (case ListPage ctx kind opts s of
        Inl e \<Rightarrow> Inl (ReadFailed e)
      | Inr page \<Rightarrow>
          (case decode_all dec (pg_Records page) of Inl m \<Rightarrow> Inl (BadValue m) | Inr vs \<Rightarrow> Inr (vs, page)))"

partial_function (option) load_all ::
  "(Record \<Rightarrow> string + 'a) \<Rightarrow> string option \<Rightarrow> Kind \<Rightarrow> ListOptions \<Rightarrow> Store \<Rightarrow> 'a list \<Rightarrow> (read_error + 'a list) option" where
  "load_all dec ctx kind opts s acc =
     (case ListValues dec ctx kind opts s of
        Inl e \<Rightarrow> Some (Inl e)
      | Inr (vs, page) \<Rightarrow>
          if \<not> pg_More page then Some (Inr (acc @ vs))
          else load_all dec ctx kind (opts\<lparr>lo_After := pg_NextAfter page\<rparr>) s (acc @ vs))"

definition GetValue :: "(Record \<Rightarrow> string + 'a) \<Rightarrow> string option \<Rightarrow> Kind \<Rightarrow> string \<Rightarrow> Store \<Rightarrow> read_error + 'a \<times> 64 word" where
  "GetValue dec ctx kind key s =
     (case Get ctx kind key s of
        Inl e \<Rightarrow> Inl (ReadFailed e)
      | Inr r \<Rightarrow> (case dec r of Inl m \<Rightarrow> Inl (BadValue m) | Inr v \<Rightarrow> Inr (v, rc_Index r)))"

definition Index :: "string option \<Rightarrow> Store \<Rightarrow> store_error + 64 word" where
  "Index ctx s = (case check ctx s of Some e \<Rightarrow> Inl e | None \<Rightarrow> Inr (store_index s))"

section \<open>Writing\<close>

text \<open>Preconditions, against the state before the batch; the position of the first that fails.\<close>

definition precondition :: "Store \<Rightarrow> Mutation \<Rightarrow> bool" where
  "precondition s m \<longleftrightarrow>
     (if mu_PrevIndex m = 0 \<and> \<not> mu_ExpectAbsent m then True
      else case bk_get (db_kinds s (mu_Kind m)) (mu_Key m) of
             None \<Rightarrow> \<not> mu_PrevIndex m > 0
           | Some raw \<Rightarrow>
               \<not> mu_ExpectAbsent m \<and>
               (mu_PrevIndex m > 0 \<longrightarrow> decodeUint64 (take 8 raw) = mu_PrevIndex m))"

fun first_conflict :: "Store \<Rightarrow> nat \<Rightarrow> Mutation list \<Rightarrow> nat option" where
  "first_conflict s i [] = None"
| "first_conflict s i (m # ms) = (if precondition s m then first_conflict s (Suc i) ms else Some i)"

fun first_invalid :: "Mutation list \<Rightarrow> store_error option" where
  "first_invalid [] = None"
| "first_invalid (m # ms) = (case validate m of Some e \<Rightarrow> Some e | None \<Rightarrow> first_invalid ms)"

definition change_of :: "64 word \<Rightarrow> time \<Rightarrow> Mutation \<Rightarrow> Change" where
  "change_of index now m =
     \<lparr>ch_Index = index, ch_Op = mu_Op m, ch_Kind = mu_Kind m, ch_Key = mu_Key m,
      ch_Value = (if mu_Op m = OpPut then mu_Value m else []), ch_Time = now\<rparr>"

text \<open>The writes of one batch; a delete of a missing key is skipped and leaves no change.\<close>

fun write_all :: "64 word \<Rightarrow> time \<Rightarrow> 32 word \<Rightarrow> Mutation list \<Rightarrow> Store \<Rightarrow> Store" where
  "write_all index now n [] s = s"
| "write_all index now n (m # ms) s =
     (let b = db_kinds s (mu_Kind m) in
      if mu_Op m \<noteq> OpPut \<and> bk_get b (mu_Key m) = None then write_all index now n ms s
      else
        write_all index now (n + 1) ms
          (s\<lparr>db_kinds := (db_kinds s)(mu_Kind m :=
               (if mu_Op m = OpPut then bk_put (mu_Key m) (encodeRecord index (mu_Value m)) b
                else bk_delete (mu_Key m) b)),
             db_changes := bk_put (changeKey index n) (change_of index now m) (db_changes s)\<rparr>))"

definition Apply ::
  "string option \<Rightarrow> string option \<Rightarrow> time \<Rightarrow> Mutation list \<Rightarrow> Store \<Rightarrow> (store_error + 64 word) \<times> Store" where
  "Apply ctx commit now muts s =
     (case check ctx s of Some e \<Rightarrow> (Inl e, s) | None \<Rightarrow>
      case first_invalid muts of Some e \<Rightarrow> (Inl e, s) | None \<Rightarrow>
      if muts = [] then (Index ctx s, s)
      else let index = store_index s + 1 in
        case first_conflict s 0 muts of Some i \<Rightarrow> (Inl (ErrConflict i), s) | None \<Rightarrow>
        case commit of Some e \<Rightarrow> (Inl (ErrIO e), s) | None \<Rightarrow>
          let s' = write_all index now 0 muts s in
          (Inr index, s'\<lparr>db_meta := bk_put metaKeyIndex (encodeUint64 index) (db_meta s')\<rparr>))"

section \<open>The change log\<close>

definition Changes :: "string option \<Rightarrow> 64 word \<Rightarrow> int \<Rightarrow> Store \<Rightarrow> store_error + Change list" where
  "Changes ctx since limit s =
     (case check ctx s of Some e \<Rightarrow> Inl e | None \<Rightarrow>
        Inr (map snd (take (nat (page_limit limit)) (bk_seek (changeKey (since + 1) 0) (db_changes s)))))"

definition PruneChanges :: "string option \<Rightarrow> string option \<Rightarrow> 64 word \<Rightarrow> Store \<Rightarrow> (store_error + nat) \<times> Store" where
  "PruneChanges ctx commit bound s =
     (case check ctx s of Some e \<Rightarrow> (Inl e, s) | None \<Rightarrow>
      case commit of Some e \<Rightarrow> (Inl (ErrIO e), s) | None \<Rightarrow>
        let pruned = takeWhile (\<lambda>e. \<not> decodeUint64 (take 8 (fst e)) > bound) (db_changes s) in
        (Inr (length pruned), s\<lparr>db_changes := drop (length pruned) (db_changes s)\<rparr>))"

section \<open>Building mutations\<close>

definition PutMutation :: "Kind \<Rightarrow> string \<Rightarrow> string \<Rightarrow> Mutation" where
  "PutMutation kind key raw =
     \<lparr>mu_Op = OpPut, mu_Kind = kind, mu_Key = key, mu_Value = raw, mu_PrevIndex = 0, mu_ExpectAbsent = False\<rparr>"

definition CreateMutation :: "Kind \<Rightarrow> string \<Rightarrow> string \<Rightarrow> Mutation" where
  "CreateMutation kind key raw = (PutMutation kind key raw)\<lparr>mu_ExpectAbsent := True\<rparr>"

definition UpdateMutation :: "Kind \<Rightarrow> string \<Rightarrow> string \<Rightarrow> 64 word \<Rightarrow> Mutation" where
  "UpdateMutation kind key raw prevIndex = (PutMutation kind key raw)\<lparr>mu_PrevIndex := prevIndex\<rparr>"

definition DeleteMutation :: "Kind \<Rightarrow> string \<Rightarrow> Mutation" where
  "DeleteMutation kind key =
     \<lparr>mu_Op = OpDelete, mu_Kind = kind, mu_Key = key, mu_Value = [], mu_PrevIndex = 0, mu_ExpectAbsent = False\<rparr>"

section \<open>Schema migrations\<close>

text \<open>\<open>schemaVersion\<close> and \<open>migrations\<close> are package variables of the code and arguments here. A step
  transforms the database inside a transaction or fails.\<close>

record Migration =
  mg_To :: "64 word"
  mg_Apply :: "Store \<Rightarrow> store_error + Store"

record Pending =
  pn_From :: "64 word"
  pn_To :: "64 word"
  pn_Steps :: "Migration list"

fun select_steps :: "64 word \<Rightarrow> Migration list \<Rightarrow> Pending \<Rightarrow> store_error + Pending" where
  "select_steps have [] plan = Inr plan"
| "select_steps have (m # ms) plan =
     (if mg_To m \<le> have then select_steps have ms plan
      else if mg_To m \<noteq> pn_To plan + 1 then Inl (ErrInvalid ''no migration'')
      else select_steps have ms (plan\<lparr>pn_Steps := pn_Steps plan @ [m], pn_To := mg_To m\<rparr>))"

definition planMigration :: "64 word \<Rightarrow> Migration list \<Rightarrow> 64 word \<Rightarrow> store_error + Pending" where
  "planMigration schemaVersion migrations have =
     (if have > schemaVersion then Inl (ErrInvalid ''newer schema'')
      else if have = schemaVersion then Inr \<lparr>pn_From = have, pn_To = have, pn_Steps = []\<rparr>
      else case select_steps have (sort_key mg_To migrations) \<lparr>pn_From = have, pn_To = have, pn_Steps = []\<rparr> of
             Inl e \<Rightarrow> Inl e
           | Inr plan \<Rightarrow>
               if pn_To plan \<noteq> schemaVersion then Inl (ErrInvalid ''no migration past'') else Inr plan)"

definition PendingMigration ::
  "64 word \<Rightarrow> Migration list \<Rightarrow> string option \<Rightarrow> Store \<Rightarrow> store_error + Pending" where
  "PendingMigration schemaVersion migrations ctx s =
     (case check ctx s of Some e \<Rightarrow> Inl e
      | None \<Rightarrow> planMigration schemaVersion migrations (meta_uint64 metaKeySchema s))"

definition run_step :: "Migration \<Rightarrow> Store \<Rightarrow> store_error + Store" where
  "run_step m s =
     (case mg_Apply m s of Inl e \<Rightarrow> Inl e
      | Inr t \<Rightarrow> Inr (t\<lparr>db_meta := bk_put metaKeySchema (encodeUint64 (mg_To m)) (db_meta t)\<rparr>))"

fun run_steps :: "Migration list \<Rightarrow> Store \<Rightarrow> store_error option \<times> Store" where
  "run_steps [] s = (None, s)"
| "run_steps (m # ms) s = (case run_step m s of Inl e \<Rightarrow> (Some e, s) | Inr t \<Rightarrow> run_steps ms t)"

definition Migrate ::
  "64 word \<Rightarrow> Migration list \<Rightarrow> string option \<Rightarrow> Store \<Rightarrow> store_error option \<times> Store" where
  "Migrate schemaVersion migrations ctx s =
     (case PendingMigration schemaVersion migrations ctx s of
        Inl e \<Rightarrow> (Some e, s)
      | Inr plan \<Rightarrow> if pn_Steps plan = [] then (None, s) else run_steps (pn_Steps plan) s)"

definition open_init :: "64 word \<Rightarrow> Migration list \<Rightarrow> Store \<Rightarrow> store_error + Store" where
  "open_init schemaVersion migrations s =
     (case bk_get (db_meta s) metaKeySchema of
        None \<Rightarrow> Inr (s\<lparr>db_meta := bk_put metaKeySchema (encodeUint64 schemaVersion) (db_meta s)\<rparr>)
      | Some found \<Rightarrow>
          let have = decodeUint64 found in
          if have > schemaVersion then Inl (ErrInvalid ''newer schema'')
          else if have < schemaVersion then
            (case planMigration schemaVersion migrations have of Inl e \<Rightarrow> Inl e | Inr _ \<Rightarrow> Inr s)
          else Inr s)"

text \<open>A freshly created database file.\<close>

definition empty_db :: Store where
  "empty_db = \<lparr>db_kinds = (\<lambda>_. []), db_meta = [], db_changes = [], db_closed = False\<rparr>"

end
