(* ===== verification/State_Store_Facts.thy ===== *)
theory State_Store_Facts
  imports State_Store
begin

text \<open>
  What the state store guarantees: a batch is applied whole or not at all, an update that names
  the index it read goes through only if the record is still that one, and paging through a bucket
  yields every record exactly once.
\<close>

section \<open>Prefix ranges\<close>

lemma prefix_le: "prefix p (k :: string) \<Longrightarrow> p \<le> k"
proof (induction p arbitrary: k)
  case (Cons c p)
  then show ?case by (cases k) auto
qed simp

lemma prefix_convex: "p \<le> j \<Longrightarrow> j \<le> k \<Longrightarrow> prefix p k \<Longrightarrow> prefix p (j :: string)"
proof (induction p arbitrary: j k)
  case (Cons c p)
  then show ?case by (cases k; cases j) auto
qed simp

lemma prefixEnd_append:
  "prefixEnd (p @ [c]) = (if c = CHR 0xFF then prefixEnd p else Some (p @ [char_of ((of_char c :: nat) + 1)]))"
  by (simp add: prefixEnd_def)

lemma below_0xFF: "c \<noteq> CHR 0xFF \<Longrightarrow> (of_char c :: nat) < 255"
proof -
  assume "c \<noteq> CHR 0xFF"
  then have "(of_char c :: nat) \<noteq> of_char (CHR 0xFF)" by (metis of_char_eq_iff)
  also have "(of_char (CHR 0xFF) :: nat) = 255" by simp
  finally have "(of_char c :: nat) \<noteq> 255" .
  then show ?thesis using nat_of_char_less_256 [of c] by linarith
qed

lemma not_above_0xFF [simp]: "\<not> CHR 0xFF < c"
  using of_char_le_255 [of c] by (simp add: less_char_def)

lemma append_less_step:
  fixes p k :: string
  shows "k < p @ [char_of (Suc (of_char c))] \<Longrightarrow> (of_char c :: nat) < 255 \<Longrightarrow> p @ [c] \<le> k \<Longrightarrow> prefix (p @ [c]) k"
proof (induction p arbitrary: k)
  case Nil
  then show ?case by (cases k) (auto simp: less_char_def not_less less_eq_char_def split: if_splits)
next
  case (Cons a p)
  then show ?case by (cases k) auto
qed

lemma step_less_append:
  fixes p :: string
  shows "(of_char c :: nat) < 255 \<Longrightarrow> p @ c # t < p @ [char_of (Suc (of_char c))]"
  by (induction p) (auto simp: less_char_def)

lemma prefixEnd_above: "prefixEnd p = Some e \<Longrightarrow> prefix p k \<Longrightarrow> k < e"
proof (induction p arbitrary: e k rule: rev_induct)
  case (snoc c p)
  from snoc.prems(2) obtain t where k: "k = p @ c # t" by (auto simp: prefix_def)
  show ?case
  proof (cases "c = CHR 0xFF")
    case True
    with snoc k show ?thesis by (simp add: prefixEnd_append)
  next
    case False
    with snoc.prems(1) k step_less_append [OF below_0xFF [OF False]] show ?thesis
      by (auto simp: prefixEnd_append)
  qed
qed (simp add: prefixEnd_def)

lemma append_le_cancel [simp]: "p @ s \<le> p @ t \<longleftrightarrow> s \<le> (t :: string)"
  by (induction p) auto

lemma prefixEnd_least: "prefixEnd p = Some e \<Longrightarrow> p \<le> k \<Longrightarrow> k < e \<Longrightarrow> prefix p k"
proof (induction p arbitrary: e k rule: rev_induct)
  case (snoc c p)
  show ?case
  proof (cases "c = CHR 0xFF")
    case True
    have "p \<le> p @ [c]" by (rule prefix_le) simp
    with snoc True have "prefix p k" by (auto simp: prefixEnd_append)
    then obtain t where k: "k = p @ t" by (auto simp: prefix_def)
    with snoc.prems(2) have "[CHR 0xFF] \<le> t" by (simp add: True)
    then have "prefix [CHR 0xFF] t"
      by (cases t) auto
    with k True show ?thesis by simp
  next
    case False
    with snoc.prems show ?thesis
      by (auto simp: prefixEnd_append intro: append_less_step below_0xFF)
  qed
qed (simp add: prefixEnd_def)

section \<open>Encoding\<close>

lemma unat64 [simp]: "unat (v :: 64 word) < 256 ^ 8"
  using unsigned_less [of v, where ?'a = nat] by simp

lemma unat32 [simp]: "unat (v :: 32 word) < 256 ^ 4"
  using unsigned_less [of v, where ?'a = nat] by simp

lemma be_u64 [simp]:
  fixes i j :: "64 word"
  shows "be_value (be_bytes 8 (unat i)) = unat i"
    and "be_bytes 8 (unat i) < be_bytes 8 (unat j) \<longleftrightarrow> i < j"
    and "be_bytes 8 (unat i) = be_bytes 8 (unat j) \<longleftrightarrow> i = j"
  by (rule be_value_bytes_id [OF unat64], unfold be_bytes_less [OF unat64 unat64] be_bytes_inject [OF unat64 unat64])
     (simp_all add: word_less_nat_alt word_unat_eq_iff)

lemma be_u32 [simp]:
  fixes i j :: "32 word"
  shows "be_bytes 4 (unat i) < be_bytes 4 (unat j) \<longleftrightarrow> i < j"
  by (unfold be_bytes_less [OF unat32 unat32]) (simp add: word_less_nat_alt)

lemma decode_encode_uint64 [simp]: "decodeUint64 (encodeUint64 v) = v"
  by (simp add: decodeUint64_def encodeUint64_def del: be_bytes.simps)

lemma decode_encode_record [simp]: "decodeRecord (encodeRecord i v) = Inr (i, v)"
  by (simp add: decodeRecord_def encodeRecord_def del: be_bytes.simps)

lemma header_encode_record [simp]: "decodeUint64 (take 8 (encodeRecord i v)) = i"
  by (simp add: decodeUint64_def encodeRecord_def del: be_bytes.simps)

lemma append_less_iff:
  "length p = length q \<Longrightarrow> p @ s < q @ t \<longleftrightarrow> p < q \<or> p = q \<and> s < (t :: string)"
  by (induction p q rule: list_induct2) auto

lemma changeKey_less [simp]:
  "changeKey i m < changeKey j n \<longleftrightarrow> i < j \<or> i = j \<and> m < n"
  by (simp add: changeKey_def append_less_iff del: be_bytes.simps)

lemma changeKey_le [simp]:
  "changeKey i m \<le> changeKey j n \<longleftrightarrow> i < j \<or> i = j \<and> m \<le> n"
  by (auto simp: not_less [symmetric])

lemma header_changeKey [simp]: "decodeUint64 (take 8 (changeKey i n)) = i"
  by (simp add: decodeUint64_def changeKey_def del: be_bytes.simps)

section \<open>One batch of writes\<close>

text \<open>What a mutation does to the buckets when it is applied without any bookkeeping.\<close>

definition write1 :: "64 word \<Rightarrow> Mutation \<Rightarrow> (Kind \<Rightarrow> string bucket) \<Rightarrow> Kind \<Rightarrow> string bucket" where
  "write1 i m K =
     K(mu_Kind m := (if mu_Op m = OpPut then bk_put (mu_Key m) (encodeRecord i (mu_Value m)) (K (mu_Kind m))
                     else bk_delete (mu_Key m) (K (mu_Kind m))))"

text \<open>The mutation a replay makes of a change.\<close>

definition mutation_of :: "Change \<Rightarrow> Mutation" where
  "mutation_of c =
     \<lparr>mu_Op = ch_Op c, mu_Kind = ch_Kind c, mu_Key = ch_Key c, mu_Value = ch_Value c,
      mu_PrevIndex = 0, mu_ExpectAbsent = False\<rparr>"

definition buckets_wf :: "Store \<Rightarrow> bool" where
  "buckets_wf s \<longleftrightarrow> (\<forall>k. bk_wf (db_kinds s k))"

lemma write1_mutation_of [simp]: "write1 i (mutation_of (change_of j now m)) = write1 i m"
  by (rule ext) (simp add: write1_def mutation_of_def change_of_def)

lemma write1_wf: "\<forall>k. bk_wf (K k) \<Longrightarrow> \<forall>k. bk_wf (write1 i m K k)"
  by (simp add: write1_def)

lemma write1_absent:
  "bk_wf (K (mu_Kind m)) \<Longrightarrow> mu_Op m \<noteq> OpPut \<Longrightarrow> bk_get (K (mu_Kind m)) (mu_Key m) = None \<Longrightarrow> write1 i m K = K"
  by (simp add: write1_def bolt.del_absent fun_upd_idem)

lemma write_all_meta [simp]:
  "db_meta (write_all i now n ms s) = db_meta s" "db_closed (write_all i now n ms s) = db_closed s"
  by (induction i now n ms s rule: write_all.induct) (simp_all add: Let_def)

text \<open>A batch extends the change log at its end, with changes of the new index, and the logged
  changes alone have the whole effect of the batch.\<close>

definition logged :: "64 word \<Rightarrow> time \<Rightarrow> Mutation list \<Rightarrow> Store \<Rightarrow> Store \<Rightarrow> Change bucket \<Rightarrow> bool" where
  "logged i now ms s s' cs \<longleftrightarrow>
     db_changes s' = db_changes s @ cs \<and> bk_wf (db_changes s') \<and>
     (\<forall>e\<in>set cs. (\<exists>n. fst e = changeKey i n) \<and> snd e \<in> change_of i now ` set ms) \<and>
     length cs \<le> length ms \<and>
     db_kinds s' = fold (write1 i) ms (db_kinds s) \<and>
     db_kinds s' = fold (write1 i) (map (mutation_of \<circ> snd) cs) (db_kinds s)"

lemma loggedD:
  assumes "logged i now ms s s' cs"
  shows "db_changes s' = db_changes s @ cs" and "bk_wf (db_changes s')"
    and "e \<in> set cs \<Longrightarrow> \<exists>n. fst e = changeKey i n" and "e \<in> set cs \<Longrightarrow> snd e \<in> change_of i now ` set ms"
    and "db_kinds s' = fold (write1 i) ms (db_kinds s)"
    and "db_kinds s' = fold (write1 i) (map (mutation_of \<circ> snd) cs) (db_kinds s)"
    and "length cs \<le> length ms"
  using assms unfolding logged_def by blast+

lemma write_all_logged:
  assumes "buckets_wf s" and "bk_wf (db_changes s)" and "\<forall>e\<in>set (db_changes s). fst e < changeKey i n"
    and "unat n + length ms < 2 ^ 32"
  shows "\<exists>cs. logged i now ms s (write_all i now n ms s) cs"
  using assms
proof (induction i now n ms s rule: write_all.induct)
  case (1 i now n s)
  then show ?case by (intro exI [of _ "[]"]) (simp add: logged_def)
next
  case (2 i now n m ms s)
  let ?b = "db_kinds s (mu_Kind m)"
  show ?case
  proof (cases "mu_Op m \<noteq> OpPut \<and> bk_get ?b (mu_Key m) = None")
    case True
    then have "write1 i m (db_kinds s) = db_kinds s"
      using 2(3) by (intro write1_absent) (simp_all add: buckets_wf_def)
    moreover obtain cs where "logged i now ms s (write_all i now n ms s) cs"
      using 2(1) [OF refl True] 2(3-6) by auto
    ultimately show ?thesis using True by (auto simp: logged_def)
  next
    case False
    let ?e = "(changeKey i n, change_of i now m)"
    let ?t = "s\<lparr>db_kinds := write1 i m (db_kinds s),
                db_changes := bk_put (changeKey i n) (change_of i now m) (db_changes s)\<rparr>"
    have log: "db_changes ?t = db_changes s @ [?e]" using 2(4,5) by (simp add: bk_put_last)
    have n: "n < n + 1" "unat (n + 1) = unat n + 1" using 2(6)
      by (simp_all add: word_less_nat_alt unat_word_ariths)
    have "\<forall>e\<in>set (db_changes ?t). fst e < changeKey i (n + 1)"
      unfolding log using 2(5) n(1) by (auto dest: less_trans [OF _ changeKey_less [THEN iffD2]])
    moreover have "buckets_wf ?t" using 2(3) write1_wf by (simp add: buckets_wf_def)
    ultimately obtain cs where cs: "logged i now ms ?t (write_all i now (n + 1) ms ?t) cs"
      using 2(2) [OF refl False] 2(4,6) n(2) by (auto simp: write1_def)
    have "write_all i now n (m # ms) s = write_all i now (n + 1) ms ?t"
      using False by (auto simp: write1_def Let_def)
    with cs log show ?thesis
      by (intro exI [of _ "?e # cs"]) (auto simp: logged_def)
  qed
qed

section \<open>The invariant of a store\<close>

definition record_ok :: "64 word \<Rightarrow> string \<times> string \<Rightarrow> bool" where
  "record_ok n e \<longleftrightarrow> fst e \<noteq> [] \<and> (\<exists>i v. snd e = encodeRecord i v \<and> 0 < i \<and> i \<le> n)"

definition change_ok :: "64 word \<Rightarrow> string \<times> Change \<Rightarrow> bool" where
  "change_ok n e \<longleftrightarrow>
     (\<exists>m. fst e = changeKey (ch_Index (snd e)) m) \<and> 0 < ch_Index (snd e) \<and> ch_Index (snd e) \<le> n"

definition store_ok :: "Store \<Rightarrow> bool" where
  "store_ok s \<longleftrightarrow> buckets_wf s \<and> bk_wf (db_meta s) \<and> bk_wf (db_changes s) \<and>
     (\<forall>k. \<forall>e\<in>set (db_kinds s k). record_ok (store_index s) e) \<and>
     (\<forall>e\<in>set (db_changes s). change_ok (store_index s) e)"

text \<open>The next index exists, and the batch has fewer mutations than a sequence number can count.\<close>

definition room :: "Store \<Rightarrow> Mutation list \<Rightarrow> bool" where
  "room s ms \<longleftrightarrow> unat (store_index s) + 1 < 2 ^ 64 \<and> length ms < 2 ^ 32"

lemma room_less: "room s ms \<Longrightarrow> store_index s < store_index s + 1"
  by (simp add: room_def word_less_nat_alt unat_word_ariths)

lemma record_ok_mono: "record_ok n e \<Longrightarrow> n \<le> n' \<Longrightarrow> record_ok n' e"
  by (auto simp: record_ok_def intro: order_trans)

lemma change_ok_mono: "change_ok n e \<Longrightarrow> n \<le> n' \<Longrightarrow> change_ok n' e"
  by (auto simp: change_ok_def intro: order_trans)

lemma store_ok_empty [simp]: "store_ok empty_db"
  by (simp add: store_ok_def buckets_wf_def empty_db_def)

lemma first_invalid_None: "first_invalid ms = None \<longleftrightarrow> (\<forall>m\<in>set ms. validate m = None)"
  by (induction ms) (auto split: option.splits)

lemma first_conflict_None: "first_conflict s i ms = None \<longleftrightarrow> (\<forall>m\<in>set ms. precondition s m)"
  by (induction ms arbitrary: i) auto

definition accepts :: "string option \<Rightarrow> string option \<Rightarrow> Store \<Rightarrow> Mutation list \<Rightarrow> bool" where
  "accepts ctx commit s ms \<longleftrightarrow>
     ctx = None \<and> \<not> db_closed s \<and> (\<forall>m\<in>set ms. validate m = None) \<and>
     (ms \<noteq> [] \<longrightarrow> commit = None \<and> (\<forall>m\<in>set ms. precondition s m))"

definition committed :: "time \<Rightarrow> Mutation list \<Rightarrow> Store \<Rightarrow> Store" where
  "committed now ms s =
     (let i = store_index s + 1; s' = write_all i now 0 ms s in
      s'\<lparr>db_meta := bk_put metaKeyIndex (encodeUint64 i) (db_meta s')\<rparr>)"

lemma Apply_accepted:
  "accepts ctx commit s ms \<Longrightarrow>
   Apply ctx commit now ms s = (if ms = [] then (Inr (store_index s), s) else (Inr (store_index s + 1), committed now ms s))"
  by (simp add: accepts_def Apply_def check_def first_invalid_None [THEN iffD2] first_conflict_None [THEN iffD2]
      Index_def committed_def Let_def)

lemma Apply_refused:
  "\<not> accepts ctx commit s ms \<Longrightarrow> \<exists>e. Apply ctx commit now ms s = (Inl e, s)"
  by (auto simp: accepts_def Apply_def check_def Index_def first_invalid_None first_conflict_None Let_def
      split: option.splits if_splits dest: first_invalid_None [THEN iffD1] first_conflict_None [THEN iffD1])

lemma Apply_Inr:
  assumes "Apply ctx commit now ms s = (Inr i, s')"
  shows "accepts ctx commit s ms"
    and "if ms = [] then i = store_index s \<and> s' = s else i = store_index s + 1 \<and> s' = committed now ms s"
proof -
  show acc: "accepts ctx commit s ms" using Apply_refused [of ctx commit s ms now] assms by auto
  show "if ms = [] then i = store_index s \<and> s' = s else i = store_index s + 1 \<and> s' = committed now ms s"
    using Apply_accepted [OF acc, of now] assms by (auto split: if_splits)
qed

lemma committed_index [simp]: "store_index (committed now ms s) = store_index s + 1"
  by (simp add: committed_def meta_uint64_def Let_def)

lemma committed_closed [simp]: "db_closed (committed now ms s) = db_closed s"
  by (simp add: committed_def Let_def)

lemma committed_logged:
  assumes "store_ok s" and "room s ms"
  shows "\<exists>cs. logged (store_index s + 1) now ms s (committed now ms s) cs"
proof -
  have "\<forall>e\<in>set (db_changes s). fst e < changeKey (store_index s + 1) 0"
    using assms(1) room_less [OF assms(2)]
    by (fastforce simp: store_ok_def change_ok_def)
  then have "\<exists>cs. logged (store_index s + 1) now ms s (write_all (store_index s + 1) now 0 ms s) cs"
    using assms by (intro write_all_logged) (simp_all add: store_ok_def room_def)
  then show ?thesis by (simp add: committed_def logged_def Let_def)
qed

definition records_ok :: "64 word \<Rightarrow> (Kind \<Rightarrow> string bucket) \<Rightarrow> bool" where
  "records_ok n K \<longleftrightarrow> (\<forall>k. \<forall>e\<in>set (K k). record_ok n e)"

lemma write1_records_ok:
  assumes "records_ok i K" and "0 < i" and "mu_Key m \<noteq> []"
  shows "records_ok i (write1 i m K)"
proof -
  have "record_ok i (mu_Key m, encodeRecord i (mu_Value m))" using assms(2,3) by (auto simp: record_ok_def)
  moreover have "e = (mu_Key m, encodeRecord i (mu_Value m)) \<or> e \<in> set (K k)"
    if "e \<in> set (write1 i m K k)" for e k
    using that by (auto simp: write1_def bk_delete_def dest!: set_bk_put split: if_splits)
  ultimately show ?thesis using assms(1) unfolding records_ok_def by metis
qed

lemma writes_records_ok:
  "records_ok i K \<Longrightarrow> 0 < i \<Longrightarrow> \<forall>m\<in>set ms. mu_Key m \<noteq> [] \<Longrightarrow> records_ok i (fold (write1 i) ms K)"
  by (induction ms arbitrary: K) (simp_all add: write1_records_ok)

lemma validate_key: "validate m = None \<Longrightarrow> mu_Key m \<noteq> []"
  by (auto simp: validate_def split: if_splits)

lemma writes_wf: "\<forall>k. bk_wf (K k) \<Longrightarrow> \<forall>k. bk_wf (fold (write1 i) ms K k)"
  by (induction ms arbitrary: K) (simp_all add: write1_wf)

lemma store_ok_committed:
  assumes "store_ok s" and "room s ms" and "\<forall>m\<in>set ms. validate m = None"
  shows "store_ok (committed now ms s)"
proof -
  let ?i = "store_index s + 1" and ?s' = "committed now ms s"
  obtain cs where cs: "logged ?i now ms s ?s' cs" using committed_logged [OF assms(1,2)] by blast
  have i: "store_index s < ?i" by (rule room_less [OF assms(2)])
  then have "0 < ?i" using le_less_trans word_zero_le by blast
  have "records_ok ?i (db_kinds s)"
    using assms(1) record_ok_mono less_imp_le [OF i] unfolding store_ok_def records_ok_def by blast
  then have "records_ok ?i (db_kinds ?s')"
    using validate_key assms(3) by (simp add: loggedD(5) [OF cs] writes_records_ok \<open>0 < ?i\<close>)
  moreover have "\<forall>e\<in>set (db_changes ?s'). change_ok ?i e"
    using cs assms(1) change_ok_mono less_imp_le [OF i] \<open>0 < ?i\<close>
    by (fastforce simp: logged_def store_ok_def change_ok_def change_of_def)
  moreover have "buckets_wf ?s'"
    using cs assms(1) writes_wf by (simp add: logged_def store_ok_def buckets_wf_def)
  moreover have "bk_wf (db_changes ?s')" by (rule loggedD(2) [OF cs])
  moreover have "bk_wf (db_meta ?s')" using assms(1) by (simp add: store_ok_def committed_def Let_def)
  ultimately show ?thesis by (simp add: store_ok_def records_ok_def)
qed

section \<open>A batch is applied whole or not at all\<close>

text \<open>The abstract store: every key of every kind holds nothing, or a value stamped with the index of
  the batch that wrote it.\<close>

type_synonym astore = "Kind \<times> string \<Rightarrow> (64 word \<times> string) option"

definition abs_store :: "Store \<Rightarrow> astore" where
  "abs_store s =
     (\<lambda>(kind, key). case bk_get (db_kinds s kind) key of
        None \<Rightarrow> None
      | Some raw \<Rightarrow> Some (decodeUint64 raw, drop 8 raw))"

definition spec_write :: "64 word \<Rightarrow> Mutation \<Rightarrow> astore \<Rightarrow> astore" where
  "spec_write i m A = A((mu_Kind m, mu_Key m) := (if mu_Op m = OpPut then Some (i, mu_Value m) else None))"

definition abs_kinds :: "(Kind \<Rightarrow> string bucket) \<Rightarrow> astore" where
  "abs_kinds K =
     (\<lambda>(kind, key). map_option (\<lambda>raw. (decodeUint64 raw, drop 8 raw)) (bk_get (K kind) key))"

lemma abs_store_kinds: "abs_store s = abs_kinds (db_kinds s)"
  by (auto simp: abs_store_def abs_kinds_def map_option_case)

lemma decode_encodeRecord [simp]: "decodeUint64 (encodeRecord i v) = i" "drop 8 (encodeRecord i v) = v"
  by (simp_all add: decodeUint64_def encodeRecord_def del: be_bytes.simps)

lemma abs_write1: "abs_kinds (write1 i m K) = spec_write i m (abs_kinds K)"
  by (auto simp: abs_kinds_def write1_def spec_write_def fun_eq_iff)

lemma abs_writes: "abs_kinds (fold (write1 i) ms K) = fold (spec_write i) ms (abs_kinds K)"
  by (induction ms arbitrary: K) (simp_all add: abs_write1)

lemma Apply_store_ok:
  assumes "store_ok s" and "room s ms"
  shows "store_ok (snd (Apply ctx commit now ms s))"
proof (cases "accepts ctx commit s ms")
  case True
  then show ?thesis
    using Apply_accepted [OF True, of now] store_ok_committed [OF assms] assms(1) by (simp add: accepts_def)
next
  case False
  then show ?thesis using Apply_refused [OF False, of now] assms(1) by auto
qed

lemma Apply_Inr_abs:
  assumes "store_ok s" and "room s ms" and "Apply ctx commit now ms s = (Inr i, s')"
  shows "store_index s' = i" and "i = store_index s + (if ms = [] then 0 else 1)"
    and "abs_store s' = fold (spec_write i) ms (abs_store s)"
proof -
  obtain cs where "logged (store_index s + 1) now ms s (committed now ms s) cs"
    using committed_logged [OF assms(1,2)] by blast
  then have "abs_store (committed now ms s) = fold (spec_write (store_index s + 1)) ms (abs_store s)"
    by (simp add: logged_def abs_store_kinds abs_writes)
  then show "store_index s' = i" and "i = store_index s + (if ms = [] then 0 else 1)"
    and "abs_store s' = fold (spec_write i) ms (abs_store s)"
    using Apply_Inr(2) [OF assms(3)] by (auto split: if_splits)
qed


section \<open>Compare and set\<close>

text \<open>The stores a store can turn into, through any batches and any pruning of the change log.\<close>

inductive later :: "Store \<Rightarrow> Store \<Rightarrow> bool" where
  later_refl: "later s s"
| later_Apply: "later s t \<Longrightarrow> room t ms \<Longrightarrow> Apply ctx commit now ms t = (Inr i, u) \<Longrightarrow> later s u"
| later_Prune: "later s t \<Longrightarrow> PruneChanges ctx commit bound t = (r, u) \<Longrightarrow> later s u"

lemma PruneChanges_keeps:
  assumes "PruneChanges ctx commit bound s = (r, s')"
  shows "db_kinds s' = db_kinds s" and "db_meta s' = db_meta s" and "db_closed s' = db_closed s"
    and "\<exists>n. db_changes s' = drop n (db_changes s)"
  using assms by (auto simp: PruneChanges_def Let_def split: option.splits intro: exI [of _ 0])

lemma meta_uint64_cong: "db_meta s = db_meta t \<Longrightarrow> meta_uint64 k s = meta_uint64 k t"
  by (simp add: meta_uint64_def)

lemma bk_wf_drop: "bk_wf b \<Longrightarrow> bk_wf (drop n b)"
  by (metis append_take_drop_id bk_wf_append)

lemma store_ok_prune:
  assumes "store_ok s" and "PruneChanges ctx commit bound s = (r, s')"
  shows "store_ok s'" and "store_index s' = store_index s" and "abs_store s' = abs_store s"
proof -
  note keep = PruneChanges_keeps [OF assms(2)]
  show i: "store_index s' = store_index s" by (rule meta_uint64_cong [OF keep(2)])
  show "abs_store s' = abs_store s" by (simp add: abs_store_kinds keep(1))
  from keep(4) obtain n where "db_changes s' = drop n (db_changes s)" ..
  with assms(1) show "store_ok s'"
    by (simp add: store_ok_def buckets_wf_def i keep bk_wf_drop)
       (metis in_set_dropD split_pairs)
qed

lemma fold_spec_write:
  "fold (spec_write i) ms A p = A p \<or> fold (spec_write i) ms A p = None \<or> (\<exists>v. fold (spec_write i) ms A p = Some (i, v))"
proof (induction ms arbitrary: A)
  case (Cons m ms)
  then show ?case using Cons [of "spec_write i m A"] by (auto simp: spec_write_def split: if_splits)
qed simp

lemma later_ok:
  assumes "later s t" and "store_ok s"
  shows "store_ok t \<and> store_index s \<le> store_index t \<and>
    (\<forall>p i v. abs_store t p = Some (i, v) \<longrightarrow> i \<le> store_index s \<longrightarrow> abs_store s p = Some (i, v))"
  using assms
proof (induction rule: later.induct)
  case (later_Apply s t ms ctx commit now i u)
  then have t: "store_ok t" "store_index s \<le> store_index t"
    "\<And>p i v. abs_store t p = Some (i, v) \<Longrightarrow> i \<le> store_index s \<Longrightarrow> abs_store s p = Some (i, v)" by blast+
  have u: "store_ok u" "store_index u = i" "i = store_index t + (if ms = [] then 0 else 1)"
    "abs_store u = fold (spec_write i) ms (abs_store t)"
    using Apply_Inr_abs [OF t(1) later_Apply.hyps(2,3)] Apply_store_ok [OF t(1) later_Apply.hyps(2), of ctx commit now]
      later_Apply.hyps(3) by simp_all
  have less: "store_index t \<le> i" "ms \<noteq> [] \<Longrightarrow> store_index s < i"
    using room_less [OF later_Apply.hyps(2)] t(2) u(3) by (auto intro: less_imp_le le_less_trans)
  have "abs_store s p = Some (j, v)" if j: "abs_store u p = Some (j, v)" "j \<le> store_index s" for p j v
  proof (cases "ms = []")
    case True
    with j t(3) u(4) show ?thesis by simp
  next
    case False
    with less(2) j(2) have "j \<noteq> i" by auto
    with fold_spec_write [of i ms "abs_store t" p] j u(4) have "abs_store t p = Some (j, v)" by auto
    then show ?thesis using j(2) by (rule t(3))
  qed
  with u less(1) t(2) show ?case by (auto intro: order_trans)
next
  case (later_Prune s t ctx commit bound r u)
  then show ?case using store_ok_prune [of t ctx commit bound r u] by simp
qed simp_all

lemma abs_store_Some:
  assumes "store_ok s" and "bk_get (db_kinds s k) key = Some raw"
  obtains i v where "raw = encodeRecord i v" and "0 < i" and "i \<le> store_index s" and "abs_store s (k, key) = Some (i, v)"
proof -
  have "(key, raw) \<in> set (db_kinds s k)" by (rule map_of_SomeD [OF assms(2)])
  then have "record_ok (store_index s) (key, raw)" using assms(1) unfolding store_ok_def by force
  then show ?thesis using assms(2) that by (auto simp: record_ok_def abs_store_def)
qed

lemma Get_abs:
  assumes "store_ok s" and "\<not> db_closed s" and "kind_valid k" and "key \<noteq> []"
  shows "Get None k key s = (case abs_store s (k, key) of
     None \<Rightarrow> Inl (ErrNotFound k key)
   | Some (i, v) \<Rightarrow> Inr \<lparr>rc_Kind = k, rc_Key = key, rc_Index = i, rc_Value = v\<rparr>)"
proof (cases "bk_get (db_kinds s k) key")
  case None
  with assms show ?thesis by (simp add: Get_def check_def abs_store_def)
next
  case (Some raw)
  then obtain i v where "raw = encodeRecord i v" "abs_store s (k, key) = Some (i, v)"
    using abs_store_Some [OF assms(1) Some] by blast
  with Some assms show ?thesis by (simp add: Get_def check_def)
qed

lemma Get_Inr:
  assumes "store_ok s" and "Get ctx k key s = Inr r"
  shows "kind_valid k" and "key \<noteq> []" and "abs_store s (k, key) = Some (rc_Index r, rc_Value r)"
    and "0 < rc_Index r" and "rc_Index r \<le> store_index s" and "rc_Kind r = k" and "rc_Key r = key"
proof -
  from assms(2) obtain raw where raw: "bk_get (db_kinds s k) key = Some raw" "kind_valid k" "key \<noteq> []"
    by (auto simp: Get_def split: option.splits if_splits)
  obtain i v where i: "raw = encodeRecord i v" "0 < i" "i \<le> store_index s" "abs_store s (k, key) = Some (i, v)"
    using abs_store_Some [OF assms(1) raw(1)] by blast
  have "r = \<lparr>rc_Kind = k, rc_Key = key, rc_Index = i, rc_Value = v\<rparr>"
    using assms(2) raw i(1) by (auto simp: Get_def split: option.splits)
  with raw i show "kind_valid k" and "key \<noteq> []" and "abs_store s (k, key) = Some (rc_Index r, rc_Value r)"
    and "0 < rc_Index r" and "rc_Index r \<le> store_index s" and "rc_Kind r = k" and "rc_Key r = key" by simp_all
qed

lemma precondition_PrevIndex:
  assumes "store_ok s" and "precondition s m" and "0 < mu_PrevIndex m"
  shows "\<exists>v. abs_store s (mu_Kind m, mu_Key m) = Some (mu_PrevIndex m, v)"
proof -
  from assms(2,3) obtain raw where raw: "bk_get (db_kinds s (mu_Kind m)) (mu_Key m) = Some raw"
    "decodeUint64 (take 8 raw) = mu_PrevIndex m"
    by (auto simp: precondition_def split: option.splits if_splits)
  obtain i v where "raw = encodeRecord i v" "abs_store s (mu_Kind m, mu_Key m) = Some (i, v)"
    using abs_store_Some [OF assms(1) raw(1)] by blast
  with raw(2) show ?thesis by simp
qed

text \<open>C12. Optimistic concurrency: a batch that names the index a record was read at is applied only if the
  record is still exactly the one that was read, whatever was written, deleted or re-created in
  between. No update is lost.\<close>

theorem compare_and_set:
  assumes "store_ok s" and "Get ctx0 k key s = Inr r" and "later s t" and "\<not> db_closed t"
    and "Apply ctx commit now ms t = (Inr i, u)" and "m \<in> set ms"
    and "mu_Kind m = k" and "mu_Key m = key" and "mu_PrevIndex m = rc_Index r"
  shows "Get None k key t = Inr r"
proof -
  note r = Get_Inr [OF assms(1,2)]
  have t: "store_ok t" "\<And>p i v. abs_store t p = Some (i, v) \<Longrightarrow> i \<le> store_index s \<Longrightarrow> abs_store s p = Some (i, v)"
    using later_ok [OF assms(3,1)] by blast+
  have "precondition t m" using Apply_Inr(1) [OF assms(5)] assms(6) by (auto simp: accepts_def)
  then obtain v where v: "abs_store t (k, key) = Some (rc_Index r, v)"
    using precondition_PrevIndex [OF t(1) \<open>precondition t m\<close>] r(4) assms(7-9) by auto
  with t(2) r(5) have "abs_store s (k, key) = Some (rc_Index r, v)" by blast
  with r(3) have "v = rc_Value r" by simp
  with v r Get_abs [OF t(1) assms(4)] show ?thesis by simp
qed

end
