(* ===== verification/State_Store_Pages.thy ===== *)
theory State_Store_Pages
  imports State_Store_Facts
begin

text \<open>
  Reading a bucket page by page. The loop every caller runs ends, whatever the page size, and
  returns each record under the prefix exactly once and in key order, or in reverse key order for a
  reverse scan.
\<close>

section \<open>A page of a scan\<close>

definition under :: "ListOptions \<Rightarrow> string \<times> 'v \<Rightarrow> bool" where
  "under opts e \<longleftrightarrow> has_prefix (fst e) (lo_Prefix opts)"

definition beyond :: "ListOptions \<Rightarrow> string \<times> 'v \<Rightarrow> bool" where
  "beyond opts e \<longleftrightarrow>
     lo_After opts = '''' \<or> (if lo_Reverse opts then fst e < lo_After opts else lo_After opts < fst e)"

definition in_direction :: "ListOptions \<Rightarrow> 'v bucket \<Rightarrow> 'v bucket" where
  "in_direction opts b = (if lo_Reverse opts then rev b else b)"

lemma takeWhile_eq_filter: "sorted_wrt (\<lambda>x y. P y \<longrightarrow> P x) xs \<Longrightarrow> takeWhile P xs = filter P xs"
  by (induction xs) (auto simp: filter_empty_conv)

lemma bk_wf_sorted_wrt: "bk_wf b \<longleftrightarrow> sorted_wrt (\<lambda>x y. fst x < fst y) b"
  by (simp add: bk_wf_def sorted_wrt_map)

lemma filter_le_beyond:
  "bk_wf b \<Longrightarrow> (case filter (\<lambda>e. a \<le> fst e) b of [] \<Rightarrow> [] | (k, v) # rest \<Rightarrow> if k = a then rest else (k, v) # rest)
     = filter (\<lambda>e. a < fst e) b"
proof (induction b)
  case (Cons e b)
  show ?case
  proof (cases "fst e < a")
    case True
    then have "\<not> a \<le> fst e" "\<not> a < fst e" by auto
    with Cons show ?thesis by (simp add: bk_wf_Cons)
  next
    case False
    with Cons.prems have "filter (\<lambda>e. a \<le> fst e) b = b" "filter (\<lambda>e. a < fst e) b = b"
      by (auto simp: bk_wf_Cons intro!: filter_True)
    with False show ?thesis by (cases e) auto
  qed
qed simp

lemma prefixEnd_None: "prefixEnd p = None \<Longrightarrow> p \<le> k \<Longrightarrow> prefix p k"
proof (induction p arbitrary: k)
  case (Cons c p)
  have "prefix_end_rev (xs @ [x]) = None \<longleftrightarrow> prefix_end_rev xs = None \<and> x = CHR 0xFF" for xs x
    by (induction xs) auto
  with Cons.prems(1) have "prefixEnd p = None" "c = CHR 0xFF" by (simp_all add: prefixEnd_def)
  with Cons show ?case by (cases k) auto
qed simp

text \<open>The keys a reverse scan can still reach.\<close>

definition reach :: "ListOptions \<Rightarrow> string \<times> 'v \<Rightarrow> bool" where
  "reach opts e \<longleftrightarrow>
     (if lo_After opts \<noteq> '''' then fst e < lo_After opts
      else case prefixEnd (lo_Prefix opts) of None \<Rightarrow> True | Some x \<Rightarrow> fst e < x)"

lemma filter_below_all: "filter (\<lambda>e. k \<le> fst e) (b :: 'v bucket) = [] \<Longrightarrow> filter (\<lambda>e. fst e < k) b = b"
  by (auto simp: filter_empty_conv not_le intro!: filter_True)

lemma prefixEnd_Nil [simp]: "prefixEnd [] = None"
  by (simp add: prefixEnd_def)

lemma scan_from_reverse:
  "bk_wf b \<Longrightarrow> lo_Reverse opts \<Longrightarrow> scan_from opts b = rev (filter (reach opts) b)"
  by (auto simp: scan_from_def reach_def [abs_def] bk_seek_eq bk_below_eq filter_below_all split: option.splits)

lemma scan_from_forward:
  "bk_wf b \<Longrightarrow> \<not> lo_Reverse opts \<Longrightarrow>
   scan_from opts b = filter (\<lambda>e. if lo_After opts \<noteq> '''' then lo_After opts < fst e else lo_Prefix opts \<le> fst e) b"
  by (simp add: scan_from_def bk_seek_eq filter_le_beyond)

lemma takeWhile_under:
  assumes "sorted_wrt R xs" and "\<And>x y. x \<in> set xs \<Longrightarrow> y \<in> set xs \<Longrightarrow> R x y \<Longrightarrow> under opts y \<Longrightarrow> under opts x"
  shows "takeWhile (under opts) xs = filter (under opts) xs"
  using assms by (intro takeWhile_eq_filter) (blast intro: sorted_wrt_mono_rel)

text \<open>Where the cursor starts, the records under the prefix come first.\<close>

lemma scan_from_eq:
  assumes wf: "bk_wf b" and "lo_After opts \<noteq> '''' \<Longrightarrow> has_prefix (lo_After opts) (lo_Prefix opts)"
  shows "takeWhile (under opts) (scan_from opts b) = filter (\<lambda>e. under opts e \<and> beyond opts e) (in_direction opts b)"
proof (cases "lo_Reverse opts")
  case True
  have step: "under opts x" if "reach opts x" "lo_Prefix opts \<le> fst x" for x :: "string \<times> 'a"
    using that assms(2) prefixEnd_least prefixEnd_None prefix_convex [of "lo_Prefix opts" "fst x" "lo_After opts"]
    by (auto simp: reach_def under_def split: if_splits option.splits)
  have "takeWhile (under opts) (rev (filter (reach opts) b)) = filter (under opts) (rev (filter (reach opts) b))"
  proof (rule takeWhile_under)
    show "sorted_wrt (\<lambda>x y. fst y < fst x) (rev (filter (reach opts) b))"
      using bk_wf_filter [OF wf] by (simp add: bk_wf_sorted_wrt sorted_wrt_rev)
    show "under opts x" if "x \<in> set (rev (filter (reach opts) b))" "fst y < fst x" "under opts y" for x y
    proof (rule step)
      show "reach opts x" using that(1) by simp
      have "lo_Prefix opts \<le> fst y" using that(3) prefix_le by (simp add: under_def)
      then show "lo_Prefix opts \<le> fst x" using that(2) by simp
    qed
  qed
  moreover have "reach opts e \<and> under opts e \<longleftrightarrow> under opts e \<and> beyond opts e" for e :: "string \<times> 'a"
    using True prefixEnd_above by (auto simp: under_def reach_def beyond_def split: option.splits)
  ultimately show ?thesis
    using True by (simp add: scan_from_reverse [OF wf] in_direction_def rev_filter)
next
  case False
  let ?xs = "scan_from opts b"
  have low: "lo_Prefix opts \<le> fst x" if "x \<in> set ?xs" for x
    using that assms(2) prefix_le [of "lo_Prefix opts" "lo_After opts"]
    by (auto simp: scan_from_forward [OF wf False] split: if_splits)
  have "takeWhile (under opts) ?xs = filter (under opts) ?xs"
  proof (rule takeWhile_under)
    show "sorted_wrt (\<lambda>x y. fst x < fst y) ?xs"
      using bk_wf_filter [OF wf] by (simp add: bk_wf_sorted_wrt scan_from_forward [OF wf False])
    show "under opts x" if "x \<in> set ?xs" "fst x < fst y" "under opts y" for x y
      using prefix_convex [OF low [OF that(1)] less_imp_le [OF that(2)]] that(3) by (simp add: under_def)
  qed
  with False show ?thesis
    by (auto simp: scan_from_forward [OF wf False] in_direction_def under_def beyond_def
        intro!: filter_cong dest: prefix_le)
qed

section \<open>One page\<close>

text \<open>The record a stored entry stands for.\<close>

definition record_of :: "Kind \<Rightarrow> ListOptions \<Rightarrow> string \<times> string \<Rightarrow> Record" where
  "record_of kind opts e =
     \<lparr>rc_Kind = kind, rc_Key = fst e, rc_Index = decodeUint64 (snd e),
      rc_Value = (if lo_KeysOnly opts then [] else drop 8 (snd e))\<rparr>"

lemma record_ok_decode: "record_ok n e \<Longrightarrow> decodeRecord (snd e) = Inr (decodeUint64 (snd e), drop 8 (snd e))"
  by (auto simp: record_ok_def)

lemma list_loop_eq:
  assumes "\<forall>e\<in>set xs. record_ok n e" and "length acc \<le> limit"
  shows "list_loop kind opts limit acc xs =
    Inr (acc @ map (record_of kind opts) (take (limit - length acc) (takeWhile (under opts) xs)),
         limit - length acc < length (takeWhile (under opts) xs))"
  using assms
proof (induction kind opts limit acc xs rule: list_loop.induct)
  case (2 kind opts limit acc k raw rest)
  have u: "under opts (k, raw) \<longleftrightarrow> \<not> (lo_Prefix opts \<noteq> '''' \<and> \<not> has_prefix k (lo_Prefix opts))"
    by (auto simp: under_def)
  have d: "decodeRecord raw = Inr (decodeUint64 raw, drop 8 raw)"
    using record_ok_decode [of n "(k, raw)"] 2(2) by simp
  show ?case
  proof (cases "under opts (k, raw) \<and> length acc \<noteq> limit")
    case True
    then have "length acc < limit" using 2(3) by auto
    then have "limit - length acc = Suc (limit - Suc (length acc))" by (simp add: Suc_diff_Suc)
    with True u d 2(1) [OF _ _ d refl] 2(2,3) show ?thesis
      by (auto simp: record_of_def)
  next
    case False
    with u d show ?thesis by auto
  qed
qed simp

lemma page_limit_pos: "0 < nat (page_limit n)"
  by (simp add: page_limit_def DefaultListLimit_def MaxListLimit_def)

lemma set_scan_from: "bk_wf b \<Longrightarrow> set (scan_from opts b) \<subseteq> set b"
  by (cases "lo_Reverse opts") (auto simp: scan_from_reverse scan_from_forward)

definition remaining :: "ListOptions \<Rightarrow> 'v bucket \<Rightarrow> 'v bucket" where
  "remaining opts b = filter (\<lambda>e. under opts e \<and> beyond opts e) (in_direction opts b)"

lemma ListPage_eq:
  assumes "store_ok s" and "\<not> db_closed s" and "kind_valid kind"
    and "lo_After opts \<noteq> '''' \<Longrightarrow> has_prefix (lo_After opts) (lo_Prefix opts)"
  shows "ListPage None kind opts s =
    (let ys = remaining opts (db_kinds s kind); n = nat (page_limit (lo_Limit opts)); rs = map (record_of kind opts) (take n ys)
     in Inr \<lparr>pg_Records = rs, pg_NextAfter = (if n < length ys then rc_Key (last rs) else ''''),
            pg_More = n < length ys\<rparr>)"
proof -
  have wf: "bk_wf (db_kinds s kind)" using assms(1) by (simp add: store_ok_def buckets_wf_def)
  have ok: "\<forall>e\<in>set (scan_from opts (db_kinds s kind)). record_ok (store_index s) e"
    using assms(1) set_scan_from [OF wf] unfolding store_ok_def by blast
  show ?thesis
    using assms(2,3) list_loop_eq [OF ok, of "[]"]
    by (simp add: ListPage_def check_def scan_from_eq [OF wf assms(4)] remaining_def Let_def)
qed

section \<open>All pages\<close>

lemma decode_all_append:
  "decode_all dec (rs @ ts) =
     (case decode_all dec rs of Inl m \<Rightarrow> Inl m
      | Inr vs \<Rightarrow> (case decode_all dec ts of Inl m \<Rightarrow> Inl m | Inr us \<Rightarrow> Inr (vs @ us)))"
  by (induction rs) (auto split: sum.splits)

lemma record_of_After [simp]: "record_of kind (opts\<lparr>lo_After := a\<rparr>) = record_of kind opts"
  by (simp add: fun_eq_iff record_of_def)

lemma under_After [simp]: "under (opts\<lparr>lo_After := a\<rparr>) = under opts"
  by (simp add: fun_eq_iff under_def)

lemma in_direction_After [simp]: "in_direction (opts\<lparr>lo_After := a\<rparr>) = in_direction opts"
  by (simp add: fun_eq_iff in_direction_def)

lemma sorted_in_direction:
  "bk_wf b \<Longrightarrow> sorted_wrt (\<lambda>x y. if lo_Reverse opts then fst y < fst x else fst x < fst y) (in_direction opts b)"
  by (auto simp: in_direction_def bk_wf_sorted_wrt sorted_wrt_rev)

lemma remaining_after:
  assumes "bk_wf b" and "remaining (opts\<lparr>lo_After := ''''\<rparr>) b = past @ ys" and "past \<noteq> []"
    and "\<forall>e\<in>set b. fst e \<noteq> []"
  shows "remaining (opts\<lparr>lo_After := fst (last past)\<rparr>) b = ys"
    and "has_prefix (fst (last past)) (lo_Prefix opts)"
proof -
  let ?a = "fst (last past)" and ?o = "opts\<lparr>lo_After := fst (last past)\<rparr>"
  let ?R = "\<lambda>x y. if lo_Reverse opts then fst y < fst x else fst x < (fst y :: string)"
  have all: "filter (under opts) (in_direction opts b) = past @ ys"
    using assms(2) by (simp add: remaining_def beyond_def)
  have past: "past = butlast past @ [last past]" using assms(3) by simp
  have "last past \<in> set (filter (under opts) (in_direction opts b))"
    using all assms(3) by simp
  then have l: "under opts (last past)" "last past \<in> set b"
    by (auto simp: in_direction_def split: if_splits)
  then show "has_prefix ?a (lo_Prefix opts)" by (simp add: under_def)
  have a: "?a \<noteq> []" using l(2) assms(4) by auto
  have "sorted_wrt ?R (past @ ys)"
    unfolding all [symmetric] by (rule sorted_wrt_filter [OF sorted_in_direction [OF assms(1)]])
  then have srt: "sorted_wrt ?R (butlast past @ last past # ys)" by (subst (asm) past) simp
  have ys: "filter (beyond ?o) ys = ys"
    using srt a by (intro filter_True) (auto simp: sorted_wrt_append beyond_def split: if_splits)
  have "\<not> beyond ?o e" if "e \<in> set past" for e
  proof -
    from that past have "e \<in> set (butlast past) \<or> e = last past" by (metis Un_iff empty_iff insertE list.set set_append)
    then show ?thesis using srt a by (auto simp: sorted_wrt_append beyond_def split: if_splits dest: less_asym)
  qed
  then have "filter (beyond ?o) past = []" by (simp add: filter_empty_conv)
  with ys have "filter (beyond ?o) (filter (under opts) (in_direction opts b)) = ys" by (simp add: all)
  then show "remaining ?o b = ys" by (simp add: remaining_def conj_commute)
qed

lemma load_all_page:
  assumes ok: "store_ok s" "\<not> db_closed s" "kind_valid kind"
    and pre: "lo_After opts \<noteq> [] \<Longrightarrow> has_prefix (lo_After opts) (lo_Prefix opts)"
    and rem: "remaining opts (db_kinds s kind) = ys" and n: "n = nat (page_limit (lo_Limit opts))"
  shows "load_all dec None kind opts s acc =
    (case decode_all dec (map (record_of kind opts) (take n ys)) of
       Inl m \<Rightarrow> Some (Inl (BadValue m))
     | Inr vs \<Rightarrow> if n < length ys then load_all dec None kind (opts\<lparr>lo_After := fst (last (take n ys))\<rparr>) s (acc @ vs)
                 else Some (Inr (acc @ vs)))"
proof -
  have "n < length ys \<Longrightarrow> rc_Key (last (map (record_of kind opts) (take n ys))) = fst (last (take n ys))"
  proof -
    assume "n < length ys"
    then have "take n ys \<noteq> []" using page_limit_pos [of "lo_Limit opts"] n by auto
    then show ?thesis by (simp add: last_map record_of_def)
  qed
  then show ?thesis
    by (subst load_all.simps)
       (simp add: ListValues_def ListPage_eq [OF ok pre] rem n Let_def split: sum.splits)
qed

lemma load_all_from:
  assumes ok: "store_ok s" "\<not> db_closed s" "kind_valid kind"
    and "remaining (opts\<lparr>lo_After := []\<rparr>) (db_kinds s kind) = past @ ys"
    and "lo_After opts = (if past = [] then [] else fst (last past))"
  shows "load_all dec None kind opts s acc =
    Some (case decode_all dec (map (record_of kind opts) ys) of Inl m \<Rightarrow> Inl (BadValue m) | Inr vs \<Rightarrow> Inr (acc @ vs))"
  using assms(4,5)
proof (induction "length ys" arbitrary: ys past opts acc rule: less_induct)
  case less
  let ?b = "db_kinds s kind"
  define n where "n = nat (page_limit (lo_Limit opts))"
  let ?o = "opts\<lparr>lo_After := fst (last (take n ys))\<rparr>"
  have wf: "bk_wf ?b" and key: "\<forall>e\<in>set ?b. fst e \<noteq> []"
    using ok(1) by (auto simp: store_ok_def buckets_wf_def record_ok_def)
  have opts: "opts = opts\<lparr>lo_After := lo_After opts\<rparr>" by simp
  have rem: "remaining opts ?b = ys"
    using less.prems remaining_after(1) [OF wf less.prems(1) _ key] by (cases "past = []") (metis append_Nil opts, metis opts)
  have pre: "lo_After opts \<noteq> [] \<Longrightarrow> has_prefix (lo_After opts) (lo_Prefix opts)"
    using remaining_after(2) [OF wf less.prems(1) _ key] less.prems(2) by (cases "past = []") simp_all
  have rest: "load_all dec None kind ?o s acc' =
      Some (case decode_all dec (map (record_of kind opts) (drop n ys)) of Inl m \<Rightarrow> Inl (BadValue m) | Inr us \<Rightarrow> Inr (acc' @ us))"
    if "n < length ys" for acc'
  proof -
    have ne: "take n ys \<noteq> []" "length (drop n ys) < length ys"
      using that page_limit_pos [of "lo_Limit opts"] by (auto simp: n_def)
    then show ?thesis
      using less.hyps [of "drop n ys" ?o "past @ take n ys" acc'] less.prems(1) by simp
  qed
  have "decode_all dec (map (record_of kind opts) ys) =
    (case decode_all dec (map (record_of kind opts) (take n ys)) of Inl m \<Rightarrow> Inl m
      | Inr vs \<Rightarrow> (case decode_all dec (map (record_of kind opts) (drop n ys)) of Inl m \<Rightarrow> Inl m | Inr us \<Rightarrow> Inr (vs @ us)))"
    using decode_all_append [of dec "map (record_of kind opts) (take n ys)" "map (record_of kind opts) (drop n ys)"]
    by (simp flip: map_append)
  then show ?case
    by (subst load_all_page [OF ok pre rem n_def]) (auto simp: rest split: sum.splits)
qed

lemma load_all_complete:
  assumes "store_ok s" and "\<not> db_closed s" and "kind_valid kind" and "lo_After opts = ''''"
  shows "load_all dec None kind opts s [] =
    Some (case decode_all dec (map (record_of kind opts)
                 (filter (\<lambda>e. has_prefix (fst e) (lo_Prefix opts))
                    (if lo_Reverse opts then rev (db_kinds s kind) else db_kinds s kind))) of
            Inl m \<Rightarrow> Inl (BadValue m) | Inr vs \<Rightarrow> Inr vs)"
proof -
  have o: "opts\<lparr>lo_After := ''''\<rparr> = opts" using assms(4) by simp
  have "remaining opts (db_kinds s kind) = filter (\<lambda>e. has_prefix (fst e) (lo_Prefix opts))
                    (if lo_Reverse opts then rev (db_kinds s kind) else db_kinds s kind)"
    using assms(4) by (simp add: remaining_def under_def beyond_def in_direction_def)
  then show ?thesis
    using load_all_from [OF assms(1-3), of opts "[]" _ dec "[]"] assms(4) o by (simp cong: sum.case_cong)
qed

text \<open>C13. Paging ends and misses nothing: for every page size and either direction, the loop that asks for
  page after page returns, and what it returns is every record under the prefix, each once, in the
  order of the scan (or the first value that does not decode).\<close>

theorem paging_terminates_and_is_complete:
  assumes "store_ok s" and "\<not> db_closed s" and "kind_valid kind" and "lo_After opts = ''''"
  shows "load_all dec None kind opts s [] =
    Some (case decode_all dec (map (record_of kind opts)
                 (filter (\<lambda>e. has_prefix (fst e) (lo_Prefix opts))
                    (if lo_Reverse opts then rev (db_kinds s kind) else db_kinds s kind))) of
            Inl m \<Rightarrow> Inl (BadValue m) | Inr vs \<Rightarrow> Inr vs)"
  using assms by (rule load_all_complete)

end
