(* ===== verification/Go_Strings.thy ===== *)
theory Go_Strings
  imports Kanea_Prelude "HOL-Library.Word"
begin

text \<open>
  Functions of Go's \<open>strings\<close> and \<open>strconv\<close> that several components use: splitting, trimming and
  reading decimal numbers. Strings are byte lists; where Go looks at runes (\<open>strings.Fields\<close>) the
  model is exact on ASCII.
\<close>

section \<open>Reading numbers\<close>

definition dec_value :: "string \<Rightarrow> nat" where
  "dec_value = foldl (\<lambda>a c. a * 10 + (of_char c - 48)) 0"

text \<open>\<open>strconv.ParseUint(s, 10, 64)\<close>: digits only, at least one, and within 64 bits.\<close>

definition ParseUint :: "string \<Rightarrow> 64 word option" where
  "ParseUint s =
     (if s = [] \<or> (\<exists>c\<in>set s. \<not> is_digit c) then None
      else if dec_value s < 2 ^ 64 then Some (of_nat (dec_value s)) else None)"

text \<open>\<open>strconv.Atoi\<close>: an optional sign, digits, at least one, and within the 64 bits of an \<open>int\<close>.\<close>

definition Atoi :: "string \<Rightarrow> int option" where
  "Atoi s =
     (let neg = (s \<noteq> [] \<and> hd s = CHR ''-'');
          digits = (if s \<noteq> [] \<and> (hd s = CHR ''-'' \<or> hd s = CHR ''+'') then tl s else s);
          v = (if neg then - int (dec_value digits) else int (dec_value digits)) in
      if digits = [] \<or> (\<exists>c\<in>set digits. \<not> is_digit c) then None
      else if - (2 ^ 63) \<le> v \<and> v < 2 ^ 63 then Some v else None)"

lemma dec_value_acc: "foldl (\<lambda>a c. a * 10 + (of_char c - 48)) x s = x * 10 ^ length s + dec_value s"
proof (induction s arbitrary: x)
  case (Cons c s)
  show ?case
    using Cons [of "x * 10 + (of_char c - 48)"] Cons [of "of_char c - 48"]
    by (simp add: dec_value_def algebra_simps)
qed (simp add: dec_value_def)

lemma dec_value_append: "dec_value (s @ t) = dec_value s * 10 ^ length t + dec_value t"
  using dec_value_acc [of "dec_value s" t] by (simp add: dec_value_def)

lemma dec_value_udec [simp]: "dec_value (udec n) = n"
proof (induction n rule: udec.induct)
  case (1 n)
  show ?case
  proof (cases "n < 10")
    case True
    then show ?thesis by (subst udec.simps) (simp add: dec_value_def of_char_digit_char)
  next
    case False
    then have "dec_value (udec (n div 10)) = n div 10" using 1 by simp
    with False show ?thesis
      by (subst udec.simps) (simp add: dec_value_append, simp add: dec_value_def of_char_digit_char)
  qed
qed

lemma dec_value_zeros [simp]: "dec_value (replicate k (CHR ''0'')) = 0"
  by (induction k) (simp_all add: dec_value_def)

lemma Atoi_itoa: "- (2 ^ 63) \<le> i \<Longrightarrow> i < 2 ^ 63 \<Longrightarrow> Atoi (itoa i) = Some i"
proof (cases "i < 0")
  case False
  then have "hd (udec (nat i)) \<noteq> CHR ''-''" "hd (udec (nat i)) \<noteq> CHR ''+''"
    using udec_digits [of "hd (udec (nat i))" "nat i"] by (auto simp: is_digit_def)
  moreover assume "i < 2 ^ 63"
  ultimately show ?thesis using False udec_digits by (auto simp: Atoi_def Let_def itoa_def)
next
  case True
  moreover assume "- (2 ^ 63) \<le> i"
  ultimately show ?thesis using udec_digits by (auto simp: Atoi_def Let_def itoa_def)
qed

section \<open>Trimming and splitting\<close>

definition TrimPrefix :: "string \<Rightarrow> string \<Rightarrow> string" where
  "TrimPrefix s p = (if prefix p s then drop (length p) s else s)"

definition TrimSuffix :: "string \<Rightarrow> string \<Rightarrow> string" where
  "TrimSuffix s t = (if suffix t s then take (length s - length t) s else s)"

text \<open>\<open>strings.Cut\<close> at a byte: the parts around its first occurrence.\<close>

definition cut_byte :: "char \<Rightarrow> string \<Rightarrow> (string \<times> string) option" where
  "cut_byte c s =
     (if c \<in> set s then Some (takeWhile (\<lambda>x. x \<noteq> c) s, tl (dropWhile (\<lambda>x. x \<noteq> c) s)) else None)"

text \<open>\<open>strings.Split\<close> at a byte.\<close>

fun split_byte :: "char \<Rightarrow> string \<Rightarrow> string list" where
  "split_byte c [] = [[]]"
| "split_byte c (x # s) =
     (if x = c then [] # split_byte c s
      else case split_byte c s of w # ws \<Rightarrow> (x # w) # ws | [] \<Rightarrow> [[x]])"

text \<open>\<open>strings.Fields\<close>: the maximal runs of bytes that are not white space.\<close>

definition is_space :: "char \<Rightarrow> bool" where
  "is_space c \<longleftrightarrow> (of_char c :: nat) \<in> {9, 10, 11, 12, 13, 32}"

fun fields_from :: "string \<Rightarrow> string \<Rightarrow> string list" where
  "fields_from w [] = (if w = [] then [] else [rev w])"
| "fields_from w (c # s) =
     (if is_space c then (if w = [] then fields_from [] s else rev w # fields_from [] s)
      else fields_from (c # w) s)"

definition Fields :: "string \<Rightarrow> string list" where
  "Fields s = fields_from [] s"

lemma cut_byte_Some: "cut_byte c s = Some (a, b) \<longleftrightarrow> s = a @ c # b \<and> c \<notin> set a"
proof
  assume "cut_byte c s = Some (a, b)"
  then have "c \<in> set s" and a: "a = takeWhile (\<lambda>x. x \<noteq> c) s" and b: "b = tl (dropWhile (\<lambda>x. x \<noteq> c) s)"
    by (auto simp: cut_byte_def split: if_splits)
  then have "dropWhile (\<lambda>x. x \<noteq> c) s = c # b"
    using hd_dropWhile [of "\<lambda>x. x \<noteq> c" s] by (cases "dropWhile (\<lambda>x. x \<noteq> c) s") auto
  then show "s = a @ c # b \<and> c \<notin> set a"
    using a takeWhile_dropWhile_id [of "\<lambda>x. x \<noteq> c" s] by (metis set_takeWhileD)
next
  assume "s = a @ c # b \<and> c \<notin> set a"
  then show "cut_byte c s = Some (a, b)"
    by (auto simp: cut_byte_def takeWhile_append dropWhile_append)
qed

lemma split_byte_ne [simp]: "split_byte c s \<noteq> []"
  by (cases s) (auto split: list.splits)

lemma split_byte_append: "c \<notin> set a \<Longrightarrow> split_byte c (a @ c # b) = a # split_byte c b"
  by (induction a) auto

lemma split_byte_none: "c \<notin> set a \<Longrightarrow> split_byte c a = [a]"
  by (induction a) auto

end
