(* ===== verification/Replication.thy ===== *)
theory Replication
  imports State_Store_Facts Go_Strings
begin

text \<open>
  Replication of the state store (\<open>internal/backup\<close>: \<open>replicate.go\<close>, \<open>segment.go\<close>, \<open>restore.go\<close>, and
  the retention of \<open>archive.go\<close>).

  \<^item> The sink is an object store: a bucket from object names to bytes. Sealing a segment (JSON lines
    under the archive cipher) is the parameter \<open>seal\<close>, opening one the parameter \<open>unseal\<close>, which may
    fail; the answers of \<open>Put\<close> and \<open>Delete\<close> are parameters too.
  \<^item> An archive is a snapshot: the store as it was, under its index. Fetching one is not modelled;
    \<open>replay\<close> starts from the store that was fetched.
  \<^item> \<open>ShipOnce\<close> is a loop without a bound of its own, so it is an option-valued function: \<open>None\<close>
    would be a ship that never returns.
\<close>

section \<open>Segment names\<close>

record Segment =
  sg_From :: "64 word"
  sg_To :: "64 word"
  sg_Name :: string

definition prefixSegments :: string where "prefixSegments = ''segments/''"

text \<open>\<open>%020d\<close>\<close>

definition pad20 :: "64 word \<Rightarrow> string" where
  "pad20 v = (let d = udec (unat v) in replicate (20 - length d) (CHR ''0'') @ d)"

definition segmentName :: "64 word \<Rightarrow> 64 word \<Rightarrow> string" where
  "segmentName from to = prefixSegments @ pad20 from @ ''-'' @ pad20 to @ ''.seg''"

definition parseSegmentName :: "string \<Rightarrow> Segment option" where
  "parseSegmentName name =
     (let base = TrimSuffix (TrimPrefix name prefixSegments) ''.seg'' in
      if CHR ''-'' \<notin> set base then None
      else case ParseUint (takeWhile (\<lambda>c. c \<noteq> CHR ''-'') base) of
             None \<Rightarrow> None
           | Some from \<Rightarrow>
               (case ParseUint (tl (dropWhile (\<lambda>c. c \<noteq> CHR ''-'') base)) of
                  None \<Rightarrow> None
                | Some to \<Rightarrow> Some \<lparr>sg_From = from, sg_To = to, sg_Name = name\<rparr>))"

section \<open>Shipping segments\<close>

type_synonym sink = "string bucket"

datatype backup_error = StoreError store_error | SinkError string | ErrCorrupt string

definition PutSegment ::
  "(Change list \<Rightarrow> string) \<Rightarrow> (string \<Rightarrow> string option) \<Rightarrow> Change list \<Rightarrow> sink \<Rightarrow> backup_error + Segment \<times> sink" where
  "PutSegment seal put cs k =
     (if cs = [] then Inl (SinkError ''refusing to ship an empty segment'')
      else let from = ch_Index (hd cs); to = ch_Index (last cs); name = segmentName from to in
        case put name of
          Some e \<Rightarrow> Inl (SinkError e)
        | None \<Rightarrow> Inr (\<lparr>sg_From = from, sg_To = to, sg_Name = name\<rparr>, bk_put name (seal cs) k))"

definition Segments :: "sink \<Rightarrow> Segment list" where
  "Segments k =
     sort_key sg_From (List.map_filter parseSegmentName (filter (prefix prefixSegments) (map fst k)))"

definition GetSegment :: "(string \<Rightarrow> backup_error + Change list) \<Rightarrow> sink \<Rightarrow> Segment \<Rightarrow> backup_error + Change list" where
  "GetSegment unseal k seg =
     (case bk_get k (sg_Name seg) of
        None \<Rightarrow> Inl (SinkError ''no such object'')
      | Some body \<Rightarrow> unseal body)"

definition DefaultMaxChanges :: int where "DefaultMaxChanges = 2000"

text \<open>The replicator's state beside the store: the highest index known to be in the sink, and the sink.\<close>

record Replica =
  rp_shipped :: "64 word"
  rp_sink :: sink

text \<open>\<open>prune\<close> answers for the commit of the pruning transaction; its failure is only logged.\<close>

partial_function (option) ShipOnce ::
  "(Change list \<Rightarrow> string) \<Rightarrow> (string \<Rightarrow> string option) \<Rightarrow> (64 word \<Rightarrow> string option) \<Rightarrow> int \<Rightarrow> Replica \<Rightarrow> Store \<Rightarrow>
   (backup_error option \<times> Replica \<times> Store) option" where
  "ShipOnce seal put prune maxChanges r s =
     (case Changes None (rp_shipped r) maxChanges s of
        Inl e \<Rightarrow> Some (Some (StoreError e), r, s)
      | Inr cs \<Rightarrow>
          if cs = [] then Some (None, r, s)
          else case PutSegment seal put cs (rp_sink r) of
                 Inl e \<Rightarrow> Some (Some e, r, s)
               | Inr (seg, k) \<Rightarrow>
                   let r' = \<lparr>rp_shipped = sg_To seg, rp_sink = k\<rparr>;
                       s' = snd (PruneChanges None (prune (sg_To seg)) (sg_To seg) s)
                   in if int (length cs) < maxChanges then Some (None, r', s')
                      else ShipOnce seal put prune maxChanges r' s')"

section \<open>Replaying segments\<close>

definition group_mutations :: "Change list \<Rightarrow> Mutation list" where
  "group_mutations = map mutation_of"

text \<open>Changes of one index are applied as one batch. \<open>commit\<close> is the answer of the restored
  database's commits.\<close>

function applyChanges ::
  "string option \<Rightarrow> time \<Rightarrow> 64 word \<Rightarrow> Change list \<Rightarrow> nat \<times> 64 word \<Rightarrow> Store \<Rightarrow> (backup_error + nat \<times> 64 word) \<times> Store" where
  "applyChanges commit now skipUpto [] res t = (Inr res, t)"
| "applyChanges commit now skipUpto (c # cs) res t =
     (let group = c # takeWhile (\<lambda>x. ch_Index x = ch_Index c) cs;
          rest = dropWhile (\<lambda>x. ch_Index x = ch_Index c) cs in
      if ch_Index c \<le> skipUpto then applyChanges commit now skipUpto rest res t
      else case Apply None commit now (group_mutations group) t of
             (Inl e, t') \<Rightarrow> (Inl (StoreError e), t')
           | (Inr _, t') \<Rightarrow> applyChanges commit now skipUpto rest (fst res + length group, ch_Index c) t')"
  by pat_completeness auto
termination
  by (relation "measure (\<lambda>(_, _, _, cs, _, _). length cs)") (auto simp: less_Suc_eq_le length_dropWhile_le)

fun replay_segments ::
  "(string \<Rightarrow> backup_error + Change list) \<Rightarrow> string option \<Rightarrow> time \<Rightarrow> sink \<Rightarrow> 64 word \<Rightarrow> Segment option \<Rightarrow> Segment list \<Rightarrow>
   nat \<times> 64 word \<Rightarrow> Store \<Rightarrow> (backup_error + nat \<times> 64 word) \<times> Store" where
  "replay_segments unseal commit now k from prev [] res t = (Inr res, t)"
| "replay_segments unseal commit now k from prev (seg # segs) res t =
     (if sg_To seg \<le> from then replay_segments unseal commit now k from prev segs res t
      else if (case prev of None \<Rightarrow> sg_From seg > from + 1 | Some p \<Rightarrow> sg_From seg \<noteq> sg_To p + 1)
      then (Inl (ErrCorrupt ''a segment is missing''), t)
      else case GetSegment unseal k seg of
             Inl e \<Rightarrow> (Inl e, t)
           | Inr cs \<Rightarrow>
               (case applyChanges commit now from cs (0, 0) t of
                  (Inl e, t') \<Rightarrow> (Inl e, t')
                | (Inr (n, l), t') \<Rightarrow>
                    replay_segments unseal commit now k from (Some seg) segs (fst res + n, max (snd res) l) t'))"

definition replay ::
  "(string \<Rightarrow> backup_error + Change list) \<Rightarrow> string option \<Rightarrow> time \<Rightarrow> sink \<Rightarrow> 64 word \<Rightarrow> Store \<Rightarrow> (backup_error + nat \<times> 64 word) \<times> Store" where
  "replay unseal commit now k from t = replay_segments unseal commit now k from None (Segments k) (0, from) t"

section \<open>Snapshots and retention\<close>

record Archive =
  ar_ID :: string
  ar_Index :: "64 word"
  ar_Store :: Store

text \<open>Archives are listed newest first. A delete that fails, of the snapshot object or of the manifest
  that is deleted after it, stops the pruning and leaves the archive listed; \<open>del\<close> answers for both.\<close>

fun prune_archives :: "(string \<Rightarrow> string option) \<Rightarrow> Archive list \<Rightarrow> string list" where
  "prune_archives del [] = []"
| "prune_archives del (a # as) =
     (case del (ar_ID a) of Some _ \<Rightarrow> [] | None \<Rightarrow> ar_ID a # prune_archives del as)"

definition Prune :: "(string \<Rightarrow> string option) \<Rightarrow> int \<Rightarrow> Archive list \<Rightarrow> Archive list" where
  "Prune del keep archives =
     (if keep \<le> 0 \<or> int (length archives) \<le> keep then archives
      else let gone = prune_archives del (drop (nat keep) archives) in
        filter (\<lambda>a. ar_ID a \<notin> set gone) archives)"

fun prune_loop :: "(string \<Rightarrow> string option) \<Rightarrow> 64 word \<Rightarrow> Segment list \<Rightarrow> sink \<Rightarrow> sink" where
  "prune_loop del bound [] k = k"
| "prune_loop del bound (seg # segs) k =
     (if sg_To seg > bound then prune_loop del bound segs k
      else case del (sg_Name seg) of Some _ \<Rightarrow> k | None \<Rightarrow> prune_loop del bound segs (bk_delete (sg_Name seg) k))"

definition PruneSegments :: "(string \<Rightarrow> string option) \<Rightarrow> 64 word \<Rightarrow> sink \<Rightarrow> sink" where
  "PruneSegments del bound k = prune_loop del bound (Segments k) k"

definition oldestIndex :: "Archive list \<Rightarrow> 64 word" where
  "oldestIndex archives = (if archives = [] then 0 else ar_Index (last archives))"

text \<open>\<open>made\<close> is the answer of \<open>archiver.Create\<close>: its failure, or the archive's id.\<close>

definition Snapshot ::
  "string + string \<Rightarrow> (string \<Rightarrow> string option) \<Rightarrow> int \<Rightarrow> Replica \<Rightarrow> Archive list \<Rightarrow> Store \<Rightarrow>
   backup_error option \<times> Replica \<times> Archive list" where
  "Snapshot made del retention r archives s =
     (case made of
        Inl e \<Rightarrow> (Some (SinkError e), r, archives)
      | Inr name \<Rightarrow>
          (case Index None s of
             Inl e \<Rightarrow> (Some (StoreError e), r, archives)
           | Inr index \<Rightarrow>
               let archives1 = \<lparr>ar_ID = name, ar_Index = index, ar_Store = s\<rparr> # archives;
                   r1 = r\<lparr>rp_shipped := max (rp_shipped r) index\<rparr>;
                   archives2 = Prune del retention archives1;
                   r2 = r1\<lparr>rp_sink := PruneSegments del (oldestIndex archives2) (rp_sink r1)\<rparr>
               in (None, r2, archives2)))"

definition Resume :: "sink \<Rightarrow> Archive list \<Rightarrow> 64 word" where
  "Resume k archives =
     fold (\<lambda>a n. max n (ar_Index a)) archives (fold (\<lambda>seg n. max n (sg_To seg)) (Segments k) 0)"

end
