(* ===== verification/VIP_Allocator.thy ===== *)
theory VIP_Allocator
  imports State_Store_Pages Replication
begin

text \<open>
  The allocator of service frontend addresses (\<open>internal/reconciler/vip.go\<close>), on top of the state
  store it remembers its assignments in.

  \<^item> An address of a family is a number below \<open>2 ^ w\<close>, with \<open>w\<close> the family's width (32 or 128);
    \<open>Addr.Next\<close> of the last address is the zero \<open>Addr\<close>, \<open>None\<close> here. \<open>Addr.String\<close> is the parameter
    \<open>str\<close>, of which only injectivity on one family matters.
  \<^item> The JSON rendering of an address and its reading are \<open>enc\<close> and \<open>dec\<close>.
  \<^item> A Go map of assignments is an association list, in an arbitrary order; the allocation itself
    runs over the services sorted by key.
\<close>

section \<open>Address pools\<close>

record Prefix =
  pf_width :: nat
  pf_addr :: nat
  pf_bits :: nat

type_synonym addr_show = "nat \<Rightarrow> nat \<Rightarrow> string"

definition Masked :: "Prefix \<Rightarrow> Prefix" where
  "Masked p = p\<lparr>pf_addr := pf_addr p div 2 ^ (pf_width p - pf_bits p) * 2 ^ (pf_width p - pf_bits p)\<rparr>"

definition Contains :: "Prefix \<Rightarrow> nat \<Rightarrow> bool" where
  "Contains p a \<longleftrightarrow>
     a < 2 ^ pf_width p \<and> a div 2 ^ (pf_width p - pf_bits p) = pf_addr p div 2 ^ (pf_width p - pf_bits p)"

definition addr_next :: "nat \<Rightarrow> nat \<Rightarrow> nat option" where
  "addr_next w a = (if a + 1 < 2 ^ w then Some (a + 1) else None)"

text \<open>The loop of \<open>nextFree\<close>, from an address on.\<close>

function free_from :: "addr_show \<Rightarrow> Prefix \<Rightarrow> string set \<Rightarrow> nat \<Rightarrow> string option" where
  "free_from str p inUse a =
     (if \<not> Contains p a then None
      else if str (pf_width p) a \<notin> inUse then Some (str (pf_width p) a)
      else case addr_next (pf_width p) a of
             None \<Rightarrow> None
           | Some a' \<Rightarrow> free_from str p inUse a')"
  by pat_completeness auto
termination
  by (relation "measure (\<lambda>(_, p, _, a). 2 ^ pf_width p - a)") (auto simp: addr_next_def split: if_splits)

declare free_from.simps [simp del]

definition nextFree :: "addr_show \<Rightarrow> Prefix \<Rightarrow> string set \<Rightarrow> string option" where
  "nextFree str p inUse =
     (case addr_next (pf_width p) (pf_addr p) of None \<Rightarrow> None | Some a \<Rightarrow> free_from str p inUse a)"

section \<open>The allocator\<close>

record serviceRef =
  sr_Project :: string
  sr_Service :: string

definition ref_key :: "serviceRef \<Rightarrow> string" where
  "ref_key r = sr_Project r @ ''/'' @ sr_Service r"

definition sortedRefs :: "serviceRef list \<Rightarrow> serviceRef list" where
  "sortedRefs refs = sort_key ref_key refs"

definition vipKeyPrefix :: string where "vipKeyPrefix = ''lb/vip/''"
definition vip6KeyPrefix :: string where "vip6KeyPrefix = ''lb/vip6/''"

definition VIPKey :: "string \<Rightarrow> string \<Rightarrow> string" where
  "VIPKey project service = vipKeyPrefix @ project @ ''/'' @ service"

definition VIP6Key :: "string \<Rightarrow> string \<Rightarrow> string" where
  "VIP6Key project service = vip6KeyPrefix @ project @ ''/'' @ service"

text \<open>\<open>netip.ParsePrefix\<close> is the parameter \<open>parse\<close>. A parsed prefix carries its family in its width;
  an IPv4-mapped IPv6 address is \<open>is4in6\<close>.\<close>

definition DefaultServiceCIDR :: string where "DefaultServiceCIDR = ''10.201.0.0/16''"

record vipAllocator =
  va_prefix :: Prefix
  va_prefix6 :: "Prefix option"

definition newVIPAllocator ::
  "(string \<Rightarrow> string + Prefix) \<Rightarrow> (Prefix \<Rightarrow> bool) \<Rightarrow> string \<Rightarrow> string \<Rightarrow> string + vipAllocator" where
  "newVIPAllocator parse is4in6 cidr cidr6 =
     (let cidr = (if cidr = '''' then DefaultServiceCIDR else cidr) in
      case parse cidr of
        Inl e \<Rightarrow> Inl (''service CIDR '' @ go_quote cidr @ '': '' @ e)
      | Inr pfx \<Rightarrow>
          if pf_width pfx \<noteq> 32 then
            Inl (''service CIDR '' @ go_quote cidr @ '': v4 frontends come from a v4 pool; --service-cidr6 is the v6 half'')
          else if cidr6 = '''' then Inr \<lparr>va_prefix = Masked pfx, va_prefix6 = None\<rparr>
          else case parse cidr6 of
                 Inl e \<Rightarrow> Inl (''service CIDR6 '' @ go_quote cidr6 @ '': '' @ e)
               | Inr prefix6 \<Rightarrow>
                   if pf_width prefix6 \<noteq> 128 \<or> is4in6 prefix6 then
                     Inl (''service CIDR6 '' @ go_quote cidr6 @ '' is not an IPv6 prefix'')
                   else Inr \<lparr>va_prefix = Masked pfx, va_prefix6 = Some (Masked prefix6)\<rparr>)"

datatype vip_error = LoadFailed read_error | LoadHangs | Exhausted string | PersistFailed store_error

text \<open>The map is filled record by record; a loop that never ended would be \<open>LoadHangs\<close>.\<close>

definition vip_load ::
  "(string \<Rightarrow> string + string) \<Rightarrow> string option \<Rightarrow> string \<Rightarrow> Store \<Rightarrow> vip_error + string gomap" where
  "vip_load dec ctx pre s =
     (case load_all (\<lambda>r. case dec (rc_Value r) of Inl m \<Rightarrow> Inl m | Inr ip \<Rightarrow> Inr (TrimPrefix (rc_Key r) pre, ip)) ctx KindKV
             \<lparr>lo_Prefix = pre, lo_After = [], lo_Limit = 0, lo_KeysOnly = False, lo_Reverse = False\<rparr> s [] of
        None \<Rightarrow> Inl LoadHangs
      | Some (Inl e) \<Rightarrow> Inl (LoadFailed e)
      | Some (Inr kvs) \<Rightarrow> Inr (fold (\<lambda>(k, ip) m. AList.update k ip m) kvs []))"

text \<open>One family's working state: the assignments and the addresses in use. Releasing drops the
  assignments of services that are gone, with a delete for each.\<close>

record pool_state =
  ps_assigned :: "string gomap"
  ps_inUse :: "string set"

definition kept_pool :: "string set \<Rightarrow> string gomap \<Rightarrow> pool_state" where
  "kept_pool wanted assigned =
     (let kept = filter (\<lambda>e. fst e \<in> wanted) assigned in
      \<lparr>ps_assigned = kept, ps_inUse = snd ` set kept\<rparr>)"

definition releases :: "string \<Rightarrow> string set \<Rightarrow> string gomap \<Rightarrow> Mutation list" where
  "releases pre wanted assigned =
     map (\<lambda>e. DeleteMutation KindKV (pre @ fst e)) (filter (\<lambda>e. fst e \<notin> wanted) assigned)"

definition assign_one ::
  "addr_show \<Rightarrow> (string \<Rightarrow> string) \<Rightarrow> Prefix \<Rightarrow> string \<Rightarrow> string \<Rightarrow> pool_state \<Rightarrow> (pool_state \<times> Mutation list) option" where
  "assign_one str enc p pre key st =
     (case map_of (ps_assigned st) key of
        Some _ \<Rightarrow> Some (st, [])
      | None \<Rightarrow>
          (case nextFree str p (ps_inUse st) of
             None \<Rightarrow> None
           | Some ip \<Rightarrow> Some (\<lparr>ps_assigned = AList.update key ip (ps_assigned st), ps_inUse = insert ip (ps_inUse st)\<rparr>,
                            [PutMutation KindKV (pre @ key) (enc ip)])))"

text \<open>The loop over the services: the v4 address, then its v6 twin when there is a v6 pool.\<close>

fun assign_all ::
  "addr_show \<Rightarrow> (string \<Rightarrow> string) \<Rightarrow> vipAllocator \<Rightarrow> string list \<Rightarrow> pool_state \<Rightarrow> pool_state \<Rightarrow> Mutation list \<Rightarrow>
   vip_error + pool_state \<times> pool_state \<times> Mutation list" where
  "assign_all str enc a [] st st6 muts = Inr (st, st6, muts)"
| "assign_all str enc a (key # keys) st st6 muts =
     (case assign_one str enc (va_prefix a) vipKeyPrefix key st of
        None \<Rightarrow> Inl (Exhausted key)
      | Some (st', ms) \<Rightarrow>
          (case va_prefix6 a of
             None \<Rightarrow> assign_all str enc a keys st' st6 (muts @ ms)
           | Some p6 \<Rightarrow>
               (case assign_one str enc p6 vip6KeyPrefix key st6 of
                  None \<Rightarrow> Inl (Exhausted key)
                | Some (st6', ms6) \<Rightarrow> assign_all str enc a keys st' st6' (muts @ ms @ ms6))))"

definition Sync ::
  "addr_show \<Rightarrow> (string \<Rightarrow> string) \<Rightarrow> (string \<Rightarrow> string + string) \<Rightarrow> vipAllocator \<Rightarrow> string option \<Rightarrow> string option \<Rightarrow> time \<Rightarrow>
   serviceRef list \<Rightarrow> Store \<Rightarrow> (vip_error + string gomap \<times> string gomap option) \<times> Store" where
  "Sync str enc dec a ctx commit now services s =
     (case vip_load dec ctx vipKeyPrefix s of Inl e \<Rightarrow> (Inl e, s) | Inr assigned \<Rightarrow>
      case (case va_prefix6 a of None \<Rightarrow> Inr [] | Some _ \<Rightarrow> vip_load dec ctx vip6KeyPrefix s) of
        Inl e \<Rightarrow> (Inl e, s)
      | Inr assigned6 \<Rightarrow>
          let wanted = ref_key ` set services;
              muts = releases vipKeyPrefix wanted assigned @ releases vip6KeyPrefix wanted assigned6
          in case assign_all str enc a (map ref_key (sortedRefs services))
                    (kept_pool wanted assigned) (kept_pool wanted assigned6) muts of
               Inl e \<Rightarrow> (Inl e, s)
             | Inr (st, st6, muts) \<Rightarrow>
                 let res = (ps_assigned st, case va_prefix6 a of None \<Rightarrow> None | Some _ \<Rightarrow> Some (ps_assigned st6))
                 in if muts = [] then (Inr res, s)
                    else case Apply ctx commit now muts s of
                           (Inl e, s') \<Rightarrow> (Inl (PersistFailed e), s')
                         | (Inr _, s') \<Rightarrow> (Inr res, s'))"

end
