(* ===== verification/VIP_Facts.thy ===== *)
theory VIP_Facts
  imports VIP_Allocator
begin

text \<open>
  Frontend addresses are stable and unique: a service keeps its address as long as it exists, no two
  services share one, new ones get the lowest free address of the pool, and what the allocator
  returns is what it has persisted.
\<close>

section \<open>The lowest free address\<close>

text \<open>The addresses of the pool above the network address.\<close>

definition usable :: "Prefix \<Rightarrow> nat \<Rightarrow> bool" where
  "usable p a \<longleftrightarrow> Contains p a \<and> pf_addr p < a"

lemma Contains_convex: "Contains p b \<Longrightarrow> pf_addr p \<le> c \<Longrightarrow> c \<le> b \<Longrightarrow> Contains p c"
proof -
  assume b: "Contains p b" and c: "pf_addr p \<le> c" "c \<le> b"
  let ?d = "2 ^ (pf_width p - pf_bits p) :: nat"
  have "pf_addr p div ?d \<le> c div ?d" "c div ?d \<le> b div ?d" using c by (auto intro: div_le_mono)
  then show ?thesis using b c by (auto simp: Contains_def)
qed

lemma free_from_lowest:
  "(case free_from str p U a of
      None \<Rightarrow> pf_addr p \<le> a \<longrightarrow> (\<forall>b\<ge>a. Contains p b \<longrightarrow> str (pf_width p) b \<in> U)
    | Some x \<Rightarrow> x \<notin> U \<and> (\<exists>b\<ge>a. Contains p b \<and> x = str (pf_width p) b \<and> (\<forall>c. a \<le> c \<and> c < b \<longrightarrow> str (pf_width p) c \<in> U)))"
proof (induction str p U a rule: free_from.induct)
  case (1 str p U a)
  let ?w = "pf_width p"
  show ?case
  proof (cases "Contains p a \<and> str ?w a \<in> U")
    case False
    then consider "\<not> Contains p a" | "Contains p a" "str ?w a \<notin> U" by blast
    then show ?thesis
    proof cases
      case 1
      then have "free_from str p U a = None" by (simp add: free_from.simps)
      moreover have "pf_addr p \<le> a \<Longrightarrow> b \<ge> a \<Longrightarrow> \<not> Contains p b" for b using 1 Contains_convex by blast
      ultimately show ?thesis by auto
    next
      case 2
      then have "free_from str p U a = Some (str ?w a)" by (simp add: free_from.simps)
      with 2 show ?thesis by (auto intro!: exI [of _ a])
    qed
  next
    case True
    show ?thesis
    proof (cases "addr_next ?w a")
      case None
      have "b = a" if "b \<ge> a" "Contains p b" for b
        using None that by (auto simp: addr_next_def Contains_def split: if_splits)
      with True None show ?thesis by (auto simp: free_from.simps [of str p U a])
    next
      case (Some a')
      then have a': "a' = Suc a" by (simp add: addr_next_def split: if_splits)
      have eq: "free_from str p U a = free_from str p U a'" using True Some by (simp add: free_from.simps [of str p U a])
      have step: "(\<forall>c. a \<le> c \<and> c < b \<longrightarrow> str ?w c \<in> U) \<longleftrightarrow> (\<forall>c. a' \<le> c \<and> c < b \<longrightarrow> str ?w c \<in> U)" for b
        using True a' by (metis Suc_leI le_less_trans lessI less_imp_le order_le_less)
      have up: "a \<le> b \<longleftrightarrow> b = a \<or> a' \<le> b" for b using a' by auto
      from 1 [OF _ _ Some] True show ?thesis
        unfolding eq step by (auto simp: up split: option.splits) (use a' in auto)
    qed
  qed
qed

lemma nextFree_spec:
  "case nextFree str p inUse of
     None \<Rightarrow> \<not> (\<exists>a. usable p a \<and> str (pf_width p) a \<notin> inUse)
   | Some ip \<Rightarrow> ip \<notin> inUse \<and> (\<exists>a. usable p a \<and> ip = str (pf_width p) a \<and>
       \<not> (\<exists>c. pf_addr p < c \<and> c < a \<and> str (pf_width p) c \<notin> inUse))"
proof (cases "addr_next (pf_width p) (pf_addr p)")
  case None
  then show ?thesis
    by (auto simp: nextFree_def usable_def Contains_def addr_next_def split: if_splits)
next
  case (Some a)
  then have a: "a = Suc (pf_addr p)" by (simp add: addr_next_def split: if_splits)
  from free_from_lowest [where str = str and p = p and U = inUse and a = a] Some show ?thesis
    unfolding nextFree_def usable_def a by (auto simp: Suc_le_eq split: option.splits)
qed

text \<open>The allocation loop ends and finds the lowest address of the pool that is not in use; it gives up
  only when every address above the network address is in use.\<close>

theorem nextFree_lowest:
  "case nextFree str p inUse of
     None \<Rightarrow> \<not> (\<exists>a. usable p a \<and> str (pf_width p) a \<notin> inUse)
   | Some ip \<Rightarrow> ip \<notin> inUse \<and> (\<exists>a. usable p a \<and> ip = str (pf_width p) a \<and>
       \<not> (\<exists>c. pf_addr p < c \<and> c < a \<and> str (pf_width p) c \<notin> inUse))"
  by (rule nextFree_spec)

section \<open>One family\<close>

text \<open>What the loop over the services does to the pool of one family.\<close>

fun assign_keys :: "addr_show \<Rightarrow> Prefix \<Rightarrow> string list \<Rightarrow> pool_state \<Rightarrow> pool_state option" where
  "assign_keys str p [] st = Some st"
| "assign_keys str p (key # keys) st =
     (case map_of (ps_assigned st) key of
        Some _ \<Rightarrow> assign_keys str p keys st
      | None \<Rightarrow>
          (case nextFree str p (ps_inUse st) of
             None \<Rightarrow> None
           | Some ip \<Rightarrow> assign_keys str p keys
               \<lparr>ps_assigned = AList.update key ip (ps_assigned st), ps_inUse = insert ip (ps_inUse st)\<rparr>))"

definition pool_ok :: "pool_state \<Rightarrow> bool" where
  "pool_ok st \<longleftrightarrow> gm_wf (ps_assigned st) \<and> ps_inUse st = ran (map_of (ps_assigned st))"

lemma pool_ok_update:
  "pool_ok st \<Longrightarrow> map_of (ps_assigned st) key = None \<Longrightarrow>
   pool_ok \<lparr>ps_assigned = AList.update key ip (ps_assigned st), ps_inUse = insert ip (ps_inUse st)\<rparr>"
  by (simp add: pool_ok_def update_conv' ran_map_upd)

lemma inj_on_fresh:
  "inj_on m A \<Longrightarrow> m k = None \<Longrightarrow> ip \<notin> ran m \<Longrightarrow> A \<subseteq> dom m \<Longrightarrow> inj_on (m(k \<mapsto> ip)) (insert k A)"
  by (auto simp: inj_on_def ran_def domIff)

lemma assign_keys_spec:
  assumes "assign_keys str p keys st = Some st'" and "pool_ok st"
  shows "pool_ok st' \<and> dom (map_of (ps_assigned st')) = dom (map_of (ps_assigned st)) \<union> set keys \<and>
    (\<forall>k ip. map_of (ps_assigned st) k = Some ip \<longrightarrow> map_of (ps_assigned st') k = Some ip) \<and>
    (\<forall>k. map_of (ps_assigned st) k = None \<longrightarrow> k \<in> set keys \<longrightarrow>
       (\<exists>a. usable p a \<and> map_of (ps_assigned st') k = Some (str (pf_width p) a))) \<and>
    (inj_on (map_of (ps_assigned st)) (dom (map_of (ps_assigned st))) \<longrightarrow>
     inj_on (map_of (ps_assigned st')) (dom (map_of (ps_assigned st'))))"
  using assms
proof (induction keys arbitrary: st)
  case (Cons key keys)
  show ?case
  proof (cases "map_of (ps_assigned st) key")
    case (Some ip)
    then have d: "dom (map_of (ps_assigned st)) \<union> set (key # keys) = dom (map_of (ps_assigned st)) \<union> set keys" by auto
    have "assign_keys str p keys st = Some st'" using Cons.prems(1) Some by simp
    from Cons.IH [OF this Cons.prems(2)] Some show ?thesis unfolding d by auto
  next
    case None
    with Cons.prems obtain ip where ip: "nextFree str p (ps_inUse st) = Some ip" by (auto split: option.splits)
    let ?t = "\<lparr>ps_assigned = AList.update key ip (ps_assigned st), ps_inUse = insert ip (ps_inUse st)\<rparr>"
    have fresh: "ip \<notin> ran (map_of (ps_assigned st))" "\<exists>a. usable p a \<and> ip = str (pf_width p) a"
      using nextFree_spec [where str = str and p = p and inUse = "ps_inUse st"] ip Cons.prems(2) by (auto simp: pool_ok_def)
    have m: "map_of (ps_assigned ?t) = (map_of (ps_assigned st))(key \<mapsto> ip)" by (simp add: update_conv')
    have ok: "assign_keys str p keys ?t = Some st'" "pool_ok ?t"
      using Cons.prems None ip pool_ok_update by auto
    let ?m = "map_of (ps_assigned st)" and ?m' = "map_of (ps_assigned st')"
    have IH: "pool_ok st'" "dom ?m' = dom (?m(key \<mapsto> ip)) \<union> set keys"
      "\<And>k x. (?m(key \<mapsto> ip)) k = Some x \<Longrightarrow> ?m' k = Some x"
      "\<And>k. (?m(key \<mapsto> ip)) k = None \<Longrightarrow> k \<in> set keys \<Longrightarrow> \<exists>a. usable p a \<and> ?m' k = Some (str (pf_width p) a)"
      "inj_on (?m(key \<mapsto> ip)) (dom (?m(key \<mapsto> ip))) \<Longrightarrow> inj_on ?m' (dom ?m')"
      using Cons.IH [OF ok] unfolding m by blast+
    show ?thesis
    proof (intro conjI allI impI)
      show "dom ?m' = dom ?m \<union> set (key # keys)" using IH(2) by auto
      show "?m' k = Some x" if "?m k = Some x" for k x using that None IH(3) [of k x] by (cases "k = key") auto
      show "\<exists>a. usable p a \<and> ?m' k = Some (str (pf_width p) a)" if "?m k = None" "k \<in> set (key # keys)" for k
        using that IH(3) [of key ip] IH(4) [of k] fresh(2) by (cases "k = key") auto
      show "inj_on ?m' (dom ?m')" if "inj_on ?m (dom ?m)"
        using IH(5) inj_on_fresh [OF that None fresh(1) subset_refl] by simp
    qed (rule IH(1))
  qed
qed auto

section \<open>What is remembered\<close>

text \<open>The address the store holds for a key of a family.\<close>

definition remembered :: "(string \<Rightarrow> string + string) \<Rightarrow> astore \<Rightarrow> string \<Rightarrow> string \<Rightarrow> string option" where
  "remembered dec A pre key =
     (case A (KindKV, pre @ key) of
        None \<Rightarrow> None
      | Some (i, v) \<Rightarrow> (case dec v of Inl _ \<Rightarrow> None | Inr ip \<Rightarrow> Some ip))"

lemma map_of_update_all:
  "map_of (fold (\<lambda>(k, v) m. AList.update k v m) kvs m0) = map_of m0 ++ map_of (rev kvs)"
  by (induction kvs arbitrary: m0) (auto simp: update_conv' map_add_def fun_eq_iff split: option.splits)

lemma gm_wf_update_all: "gm_wf m0 \<Longrightarrow> gm_wf (fold (\<lambda>(k, v) m. AList.update k v m) kvs m0)"
  by (induction kvs arbitrary: m0) auto

lemma length_update: "length (AList.update k v m) \<le> Suc (length m)"
  by (induction m) auto

lemma length_update_all: "length (fold (\<lambda>(k, v) m. AList.update k v m) kvs m0) \<le> length kvs + length m0"
proof (induction kvs arbitrary: m0)
  case (Cons e kvs)
  from Cons [of "AList.update (fst e) (snd e) m0"] length_update [of "fst e" "snd e" m0] show ?case
    by (simp add: split_def)
qed simp

lemma decode_all_Inr: "decode_all dec rs = Inr vs \<Longrightarrow> list_all2 (\<lambda>r v. dec r = Inr v) rs vs"
  by (induction rs arbitrary: vs) (auto split: sum.splits)

lemma TrimPrefix_append [simp]: "TrimPrefix (pre @ key) pre = key"
  by (simp add: TrimPrefix_def)

lemma load_all_refused: "check ctx s = Some e \<Longrightarrow> load_all dec ctx kind opts s acc = Some (Inl (ReadFailed e))"
  by (subst load_all.simps) (simp add: ListValues_def ListPage_def)

lemma vip_load_live:
  assumes "vip_load dec ctx pre s = Inr m"
  shows "ctx = None" and "\<not> db_closed s"
proof -
  have "check ctx s = None" using assms by (cases "check ctx s") (simp_all add: vip_load_def load_all_refused)
  then show "ctx = None" and "\<not> db_closed s" by (auto simp: check_def split: option.splits if_splits)
qed

lemma abs_store_bucket:
  "store_ok s \<Longrightarrow> abs_store s (k, key) = Some (i, v) \<longleftrightarrow>
     (\<exists>raw. (key, raw) \<in> set (db_kinds s k) \<and> i = decodeUint64 raw \<and> v = drop 8 raw)"
proof -
  assume "store_ok s"
  then have "distinct (map fst (db_kinds s k))"
    by (simp add: store_ok_def buckets_wf_def bk_wf_def strict_sorted_iff)
  then have "(key, raw) \<in> set (db_kinds s k) \<longleftrightarrow> bk_get (db_kinds s k) key = Some raw" for raw
    by (metis map_of_eq_Some_iff)
  then show ?thesis by (auto simp: abs_store_def split: option.splits)
qed

lemma option_eqI: "(\<And>x. a = Some x \<longleftrightarrow> b = Some x) \<Longrightarrow> a = b"
  by (cases a; cases b) auto

lemma vip_load_spec:
  assumes ok: "store_ok s" and load: "vip_load dec ctx pre s = Inr m"
  shows "gm_wf m" and "map_of m key = remembered dec (abs_store s) pre key"
    and "length m \<le> length (db_kinds s KindKV)"
    and "abs_store s (KindKV, pre @ key) = Some (i, v) \<Longrightarrow> \<exists>ip. dec v = Inr ip"
proof -
  let ?b = "db_kinds s KindKV"
  let ?opts = "\<lparr>lo_Prefix = pre, lo_After = [], lo_Limit = 0, lo_KeysOnly = False, lo_Reverse = False\<rparr>"
  let ?D = "\<lambda>r. case dec (rc_Value r) of Inl m \<Rightarrow> Inl m | Inr ip \<Rightarrow> Inr (TrimPrefix (rc_Key r) pre, ip)"
  let ?es = "filter (\<lambda>e. has_prefix (fst e) pre) ?b"
  have live: "ctx = None" "\<not> db_closed s" using vip_load_live [OF load] by auto
  have "kind_valid KindKV" by (simp add: kind_valid_def Kinds_def KindKV_def)
  from load_all_complete [OF ok live(2) this, of ?opts ?D] live(1) load obtain kvs
    where kvs: "decode_all ?D (map (record_of KindKV ?opts) ?es) = Inr kvs"
      and m: "m = fold (\<lambda>(k, ip) m. AList.update k ip m) kvs []"
    by (auto simp: vip_load_def split: option.splits sum.splits)
  define f where "f = (\<lambda>e. (TrimPrefix (fst e) pre, projr (dec (drop 8 (snd e)))))"
  have two: "list_all2 (\<lambda>e kv. ?D (record_of KindKV ?opts e) = Inr kv) ?es kvs"
    using decode_all_Inr [OF kvs] by (simp add: list_all2_map1)
  have D: "?D (record_of KindKV ?opts e) = Inr kv \<Longrightarrow> kv = f e \<and> dec (drop 8 (snd e)) = Inr (snd kv)" for e kv
    by (auto simp: record_of_def f_def split: sum.splits)
  have f: "kvs = map f ?es" using two by (induction rule: list_all2_induct) (auto dest: D)
  have dec: "\<exists>ip. dec (drop 8 (snd e)) = Inr ip" if "e \<in> set ?es" for e
    using two that by (induction rule: list_all2_induct) (auto dest: D)
  have inj: "fst e = pre @ fst (f e)" if "e \<in> set ?es" for e using that by (auto simp: f_def prefix_def)
  have dist: "distinct (map fst ?b)" using ok by (simp add: store_ok_def buckets_wf_def bk_wf_def strict_sorted_iff)
  have "map fst ?es = map ((@) pre) (map fst kvs)" unfolding f map_map by (rule map_cong [OF refl]) (unfold o_apply, rule inj)
  then have "distinct (map fst kvs)" using distinct_map_filter [OF dist] by (metis distinct_map)
  moreover have "map_of m = map_of (rev kvs)" unfolding m by (simp add: map_of_update_all)
  ultimately have set: "map_of m key = Some ip \<longleftrightarrow> (key, ip) \<in> set kvs" for ip
    by (metis map_of_eq_Some_iff distinct_rev rev_map set_rev)
  show "gm_wf m" unfolding m by (rule gm_wf_update_all) simp
  show "length m \<le> length ?b"
    using length_update_all [of kvs "[]"] list_all2_lengthD [OF two] length_filter_le [of "\<lambda>e. has_prefix (fst e) pre" ?b] m
    by simp
  have mem: "(key, ip) \<in> set kvs \<longleftrightarrow> (\<exists>raw. (pre @ key, raw) \<in> set ?b \<and> dec (drop 8 raw) = Inr ip)" for ip
  proof
    assume "(key, ip) \<in> set kvs"
    then obtain e where e: "e \<in> set ?es" "f e = (key, ip)" by (auto simp: f)
    then have "fst e = pre @ key" using inj [OF e(1)] by simp
    moreover have "dec (drop 8 (snd e)) = Inr ip" using dec [OF e(1)] e(2) by (auto simp: f_def)
    ultimately show "\<exists>raw. (pre @ key, raw) \<in> set ?b \<and> dec (drop 8 raw) = Inr ip"
      using e(1) by (cases e) auto
  next
    assume "\<exists>raw. (pre @ key, raw) \<in> set ?b \<and> dec (drop 8 raw) = Inr ip"
    then obtain raw where "(pre @ key, raw) \<in> set ?es" "f (pre @ key, raw) = (key, ip)" by (auto simp: f_def)
    then show "(key, ip) \<in> set kvs" unfolding f by (metis image_eqI list.set_map)
  qed
  show "\<exists>ip. dec v = Inr ip" if "abs_store s (KindKV, pre @ key) = Some (i, v)"
    using that dec by (force simp: abs_store_bucket [OF ok])
  show "map_of m key = remembered dec (abs_store s) pre key"
  proof (rule option_eqI)
    fix ip
    show "map_of m key = Some ip \<longleftrightarrow> remembered dec (abs_store s) pre key = Some ip"
      unfolding set mem map_of_eq_Some_iff [OF dist, symmetric]
      by (auto simp: remembered_def abs_store_def split: option.splits sum.splits)
  qed
qed

section \<open>What a pass writes\<close>

text \<open>A map of assignments agrees with the store when both hold the same addresses under a prefix, and
  every stored value can be read.\<close>

definition agrees :: "(string \<Rightarrow> string + string) \<Rightarrow> astore \<Rightarrow> string \<Rightarrow> string gomap \<Rightarrow> bool" where
  "agrees dec A pre m \<longleftrightarrow> (\<forall>key. map_of m key = remembered dec A pre key)"

lemma remembered_delete:
  "remembered dec (spec_write i (DeleteMutation KindKV (pre @ key)) A) pre = (remembered dec A pre)(key := None)"
  by (auto simp: remembered_def spec_write_def DeleteMutation_def)

lemma remembered_put:
  "dec (enc ip) = Inr ip \<Longrightarrow>
   remembered dec (spec_write i (PutMutation KindKV (pre @ key) (enc ip)) A) pre = (remembered dec A pre)(key \<mapsto> ip)"
  by (auto simp: remembered_def spec_write_def PutMutation_def)

lemma remembered_other:
  "mu_Key m \<noteq> pre @ key \<Longrightarrow> remembered dec (spec_write i m A) pre key = remembered dec A pre key"
  by (simp add: remembered_def spec_write_def)

lemma prefixes_apart: "vipKeyPrefix @ key \<noteq> vip6KeyPrefix @ key'" "vip6KeyPrefix @ key \<noteq> vipKeyPrefix @ key'"
  by (simp_all add: vipKeyPrefix_def vip6KeyPrefix_def)

lemma remembered_releases:
  "remembered dec (fold (spec_write i) (releases pre wanted m) A) pre key =
     (if key \<in> fst ` set m - wanted then None else remembered dec A pre key)"
  unfolding releases_def
proof (induction m arbitrary: A)
  case (Cons e m)
  then show ?case
    by (cases "fst e \<in> wanted") (auto simp: remembered_delete)
qed simp

lemma remembered_fold_other:
  "(\<And>m. m \<in> set ms \<Longrightarrow> mu_Key m \<noteq> pre @ key) \<Longrightarrow> remembered dec (fold (spec_write i) ms A) pre key = remembered dec A pre key"
  by (induction ms arbitrary: A) (simp_all add: remembered_other)

lemma releases_key: "m \<in> set (releases pre wanted as) \<Longrightarrow> \<exists>key. mu_Key m = pre @ key"
  by (auto simp: releases_def DeleteMutation_def)

lemma map_of_kept:
  "gm_wf m \<Longrightarrow> map_of (ps_assigned (kept_pool wanted m)) key = (if key \<in> wanted then map_of m key else None)"
  by (induction m) (auto simp: kept_pool_def gm_wf_Cons Let_def)

lemma agrees_kept:
  assumes "gm_wf m" and "agrees dec A pre m" and "\<And>key. remembered dec A' pre key = remembered dec A pre key"
  shows "agrees dec (fold (spec_write i) (releases pre wanted m) A') pre (ps_assigned (kept_pool wanted m))"
proof -
  have "key \<notin> fst ` set m \<Longrightarrow> map_of m key = None" for key by (simp add: map_of_eq_None_iff)
  then show ?thesis
    using assms by (auto simp: agrees_def remembered_releases map_of_kept)
qed

lemma pool_ok_kept: "gm_wf m \<Longrightarrow> pool_ok (kept_pool wanted m)"
proof -
  assume "gm_wf m"
  then have wf: "gm_wf (filter (\<lambda>e. fst e \<in> wanted) m)" by (simp add: gm_wf_def distinct_map_filter)
  then have "snd ` set (filter (\<lambda>e. fst e \<in> wanted) m) = ran (map_of (filter (\<lambda>e. fst e \<in> wanted) m))"
    by (simp add: gm_wf_def ran_distinct)
  with wf show ?thesis by (simp add: pool_ok_def kept_pool_def Let_def)
qed

lemma agrees_put:
  "agrees dec A pre m \<Longrightarrow> dec (enc ip) = Inr ip \<Longrightarrow>
   agrees dec (spec_write i (PutMutation KindKV (pre @ key) (enc ip)) A) pre (AList.update key ip m)"
  by (simp add: agrees_def remembered_put update_conv')

lemma agrees_other:
  "agrees dec A pre m \<Longrightarrow> (\<And>x key. x \<in> set ms \<Longrightarrow> mu_Key x \<noteq> pre @ key) \<Longrightarrow> agrees dec (fold (spec_write i) ms A) pre m"
  by (simp add: agrees_def remembered_fold_other)

lemma assign_one_spec:
  assumes "assign_one str enc p pre key st = Some (st', ms)"
  shows "assign_keys str p (key # keys) st = assign_keys str p keys st'" and "length ms \<le> 1"
    and "x \<in> set ms \<Longrightarrow> mu_Key x = pre @ key"
    and "\<forall>ip. dec (enc ip) = Inr ip \<Longrightarrow> agrees dec A pre (ps_assigned st) \<Longrightarrow>
         agrees dec (fold (spec_write i) ms A) pre (ps_assigned st')"
  using assms agrees_put [of dec A pre "ps_assigned st" enc]
  by (auto simp: assign_one_def PutMutation_def split: option.splits)

lemma assign_all_spec:
  assumes "assign_all str enc a keys st st6 muts = Inr (st', st6', muts')" and dec: "\<forall>ip. dec (enc ip) = Inr ip"
  shows "assign_keys str (va_prefix a) keys st = Some st'"
    and "case va_prefix6 a of None \<Rightarrow> st6' = st6 | Some p6 \<Rightarrow> assign_keys str p6 keys st6 = Some st6'"
    and "length muts' \<le> length muts + 2 * length keys"
    and "agrees dec (fold (spec_write i) muts A) vipKeyPrefix (ps_assigned st) \<Longrightarrow>
         agrees dec (fold (spec_write i) muts' A) vipKeyPrefix (ps_assigned st')"
    and "agrees dec (fold (spec_write i) muts A) vip6KeyPrefix (ps_assigned st6) \<Longrightarrow>
         agrees dec (fold (spec_write i) muts' A) vip6KeyPrefix (ps_assigned st6')"
proof -
  have "assign_keys str (va_prefix a) keys st = Some st' \<and>
    (case va_prefix6 a of None \<Rightarrow> st6' = st6 | Some p6 \<Rightarrow> assign_keys str p6 keys st6 = Some st6') \<and>
    length muts' \<le> length muts + 2 * length keys \<and>
    (agrees dec (fold (spec_write i) muts A) vipKeyPrefix (ps_assigned st) \<longrightarrow>
     agrees dec (fold (spec_write i) muts' A) vipKeyPrefix (ps_assigned st')) \<and>
    (agrees dec (fold (spec_write i) muts A) vip6KeyPrefix (ps_assigned st6) \<longrightarrow>
     agrees dec (fold (spec_write i) muts' A) vip6KeyPrefix (ps_assigned st6'))"
    using assms(1)
  proof (induction keys arbitrary: st st6 muts)
    case (Cons key keys)
    from Cons.prems obtain st1 ms where one: "assign_one str enc (va_prefix a) vipKeyPrefix key st = Some (st1, ms)"
      by (auto split: option.splits)
    note v4 = assign_one_spec(1) [OF one, of keys] assign_one_spec(2) [OF one]
      assign_one_spec(4) [OF one dec, of "fold (spec_write i) muts A" i]
    have o6: "agrees dec B vip6KeyPrefix m \<Longrightarrow> agrees dec (fold (spec_write i) ms B) vip6KeyPrefix m" for B m
      by (rule agrees_other) (use assign_one_spec(3) [OF one] prefixes_apart in auto)
    show ?case
    proof (cases "va_prefix6 a")
      case None
      with Cons.prems one have "assign_all str enc a keys st1 st6 (muts @ ms) = Inr (st', st6', muts')" by simp
      from Cons.IH [OF this] None v4 o6 show ?thesis by auto
    next
      case (Some p6)
      from Cons.prems one Some obtain st2 ms6 where six: "assign_one str enc p6 vip6KeyPrefix key st6 = Some (st2, ms6)"
        by (auto split: option.splits)
      note v6 = assign_one_spec(1) [OF six, of keys] assign_one_spec(2) [OF six]
        assign_one_spec(4) [OF six dec, of "fold (spec_write i) ms (fold (spec_write i) muts A)" i]
      have o4: "agrees dec B vipKeyPrefix m \<Longrightarrow> agrees dec (fold (spec_write i) ms6 B) vipKeyPrefix m" for B m
        by (rule agrees_other) (use assign_one_spec(3) [OF six] prefixes_apart in auto)
      from Cons.prems one Some six have "assign_all str enc a keys st1 st2 (muts @ ms @ ms6) = Inr (st', st6', muts')" by simp
      from Cons.IH [OF this] Some v4 v6 o4 o6 show ?thesis by auto
    qed
  qed (simp split: option.splits)
  then show "assign_keys str (va_prefix a) keys st = Some st'"
    and "case va_prefix6 a of None \<Rightarrow> st6' = st6 | Some p6 \<Rightarrow> assign_keys str p6 keys st6 = Some st6'"
    and "length muts' \<le> length muts + 2 * length keys"
    and "agrees dec (fold (spec_write i) muts A) vipKeyPrefix (ps_assigned st) \<Longrightarrow>
         agrees dec (fold (spec_write i) muts' A) vipKeyPrefix (ps_assigned st')"
    and "agrees dec (fold (spec_write i) muts A) vip6KeyPrefix (ps_assigned st6) \<Longrightarrow>
         agrees dec (fold (spec_write i) muts' A) vip6KeyPrefix (ps_assigned st6')" by blast+
qed

section \<open>Stable, unique, persisted\<close>

text \<open>What a pass promises of one family, from the addresses remembered before (\<open>A\<close>) to those
  remembered after (\<open>A'\<close>) and returned.\<close>

definition family_ok ::
  "addr_show \<Rightarrow> (string \<Rightarrow> string + string) \<Rightarrow> Prefix \<Rightarrow> string \<Rightarrow> string set \<Rightarrow> astore \<Rightarrow> astore \<Rightarrow> string gomap \<Rightarrow> bool" where
  "family_ok str dec p pre wanted A A' vips \<longleftrightarrow>
     dom (map_of vips) = wanted \<and>
     (\<forall>key\<in>wanted. case remembered dec A pre key of
        Some ip \<Rightarrow> map_of vips key = Some ip
      | None \<Rightarrow> (\<exists>a. usable p a \<and> map_of vips key = Some (str (pf_width p) a))) \<and>
     (inj_on (remembered dec A pre) {key \<in> wanted. remembered dec A pre key \<noteq> None} \<longrightarrow> inj_on (map_of vips) wanted) \<and>
     agrees dec A' pre vips"

lemma family_ok_pass:
  assumes "gm_wf m" and "agrees dec A pre m" and "assign_keys str p keys (kept_pool (set keys) m) = Some st"
    and "agrees dec A' pre (ps_assigned st)"
  shows "family_ok str dec p pre (set keys) A A' (ps_assigned st)"
proof -
  let ?K = "map_of (ps_assigned (kept_pool (set keys) m))" and ?W = "set keys"
  have K: "?K = (\<lambda>key. if key \<in> ?W then remembered dec A pre key else None)"
    using map_of_kept [OF assms(1)] assms(2) by (auto simp: agrees_def)
  then have domK: "dom ?K = {key \<in> ?W. remembered dec A pre key \<noteq> None}" by (auto simp: dom_def)
  note spec = assign_keys_spec [OF assms(3) pool_ok_kept [OF assms(1)]]
  have inj: "inj_on ?K (dom ?K) \<longleftrightarrow> inj_on (remembered dec A pre) (dom ?K)"
    unfolding domK by (rule inj_on_cong) (simp add: K)
  have dom: "dom (map_of (ps_assigned st)) = ?W" using spec domK by auto
  moreover have "case remembered dec A pre key of
        Some ip \<Rightarrow> map_of (ps_assigned st) key = Some ip
      | None \<Rightarrow> (\<exists>a. usable p a \<and> map_of (ps_assigned st) key = Some (str (pf_width p) a))" if "key \<in> ?W" for key
  proof (cases "remembered dec A pre key")
    case None
    with K that have "?K key = None" by simp
    with spec that None show ?thesis by auto
  next
    case (Some ip)
    with K that have "?K key = Some ip" by simp
    with spec Some show ?thesis by auto
  qed
  moreover have "inj_on (remembered dec A pre) {key \<in> ?W. remembered dec A pre key \<noteq> None} \<Longrightarrow> inj_on (map_of (ps_assigned st)) ?W"
    using spec inj dom unfolding domK by simp
  ultimately show ?thesis using assms(4) unfolding family_ok_def by blast
qed

definition Sync_room :: "serviceRef list \<Rightarrow> Store \<Rightarrow> bool" where
  "Sync_room services s \<longleftrightarrow>
     unat (store_index s) + 1 < 2 ^ 64 \<and> 2 * length (db_kinds s KindKV) + 2 * length services < 2 ^ 32"

lemma set_sortedRefs [simp]: "set (sortedRefs services) = set services"
  by (simp add: sortedRefs_def)

lemma Sync_Inr:
  assumes "Sync str enc dec a ctx commit now services s = (Inr (vips, vips6), s')"
  obtains m m6 st st6 muts where "vip_load dec ctx vipKeyPrefix s = Inr m"
    "(case va_prefix6 a of None \<Rightarrow> m6 = [] | Some _ \<Rightarrow> vip_load dec ctx vip6KeyPrefix s = Inr m6)"
    "assign_all str enc a (map ref_key (sortedRefs services)) (kept_pool (ref_key ` set services) m)
       (kept_pool (ref_key ` set services) m6)
       (releases vipKeyPrefix (ref_key ` set services) m @ releases vip6KeyPrefix (ref_key ` set services) m6) = Inr (st, st6, muts)"
    "vips = ps_assigned st" "vips6 = (case va_prefix6 a of None \<Rightarrow> None | Some _ \<Rightarrow> Some (ps_assigned st6))"
    "muts = [] \<and> s' = s \<or> muts \<noteq> [] \<and> (\<exists>i. Apply ctx commit now muts s = (Inr i, s'))"
  using assms by (auto simp: Sync_def Let_def split: sum.splits option.splits prod.splits if_splits)

lemma Sync_Inl:
  assumes "Sync str enc dec a ctx commit now services s = (Inl e, s')"
  shows "s' = s"
proof -
  have "s2 = s" if "Apply ctx commit now muts s = (Inl x, s2)" for muts x s2
    using that Apply_accepted [of ctx commit s muts now] Apply_refused [of ctx commit s muts now]
    by (cases "accepts ctx commit s muts") (auto split: if_splits)
  then show ?thesis
    using assms by (auto simp: Sync_def Let_def split: sum.splits option.splits prod.splits if_splits)
qed

lemma Sync_family:
  assumes ok: "store_ok s" and room: "Sync_room services s" and dec: "\<forall>ip. dec (enc ip) = Inr ip"
    and sync: "Sync str enc dec a ctx commit now services s = (Inr (vips, vips6), s')"
  shows "store_ok s'"
    and "family_ok str dec (va_prefix a) vipKeyPrefix (ref_key ` set services) (abs_store s) (abs_store s') vips"
    and "case va_prefix6 a of None \<Rightarrow> vips6 = None
         | Some p6 \<Rightarrow> \<exists>v6. vips6 = Some v6 \<and>
             family_ok str dec p6 vip6KeyPrefix (ref_key ` set services) (abs_store s) (abs_store s') v6"
proof -
  let ?W = "ref_key ` set services" and ?keys = "map ref_key (sortedRefs services)"
  obtain m m6 st st6 muts where load: "vip_load dec ctx vipKeyPrefix s = Inr m"
    and load6: "case va_prefix6 a of None \<Rightarrow> m6 = [] | Some _ \<Rightarrow> vip_load dec ctx vip6KeyPrefix s = Inr m6"
    and all: "assign_all str enc a ?keys (kept_pool ?W m) (kept_pool ?W m6)
       (releases vipKeyPrefix ?W m @ releases vip6KeyPrefix ?W m6) = Inr (st, st6, muts)"
    and res: "vips = ps_assigned st" "vips6 = (case va_prefix6 a of None \<Rightarrow> None | Some _ \<Rightarrow> Some (ps_assigned st6))"
    and app: "muts = [] \<and> s' = s \<or> muts \<noteq> [] \<and> (\<exists>i. Apply ctx commit now muts s = (Inr i, s'))"
    using Sync_Inr [OF sync] by blast
  note v4 = vip_load_spec [OF ok load]
  have wf6: "gm_wf m6" and len6: "length m6 \<le> length (db_kinds s KindKV)"
    using load6 vip_load_spec(1,3) [OF ok] by (auto split: option.splits)
  note spec = assign_all_spec [OF all dec]
  have "length (releases pre W as) \<le> length as" for pre W as by (simp add: releases_def)
  from this [of vipKeyPrefix ?W m] this [of vip6KeyPrefix ?W m6] have "length muts < 2 ^ 32"
    using spec(3) v4(3) len6 room by (simp add: Sync_room_def sortedRefs_def)
  then have "room s muts" using room by (simp add: room_def Sync_room_def)
  then obtain i where s': "store_ok s'" "abs_store s' = fold (spec_write i) muts (abs_store s)"
    using app Apply_store_ok [OF ok] Apply_Inr_abs(3) [OF ok] ok by (metis fold_simps(1) snd_conv)
  then show "store_ok s'" by simp
  have agr: "agrees dec (abs_store s) vipKeyPrefix m" by (simp add: agrees_def v4(2))
  have o4: "remembered dec (fold (spec_write i) (releases vip6KeyPrefix ?W m6) B) vipKeyPrefix key = remembered dec B vipKeyPrefix key" for B key
    by (rule remembered_fold_other) (use releases_key prefixes_apart in metis)
  have o6: "remembered dec (fold (spec_write i) (releases vipKeyPrefix ?W m) B) vip6KeyPrefix key = remembered dec B vip6KeyPrefix key" for B key
    by (rule remembered_fold_other) (use releases_key prefixes_apart in metis)
  have "agrees dec (abs_store s') vipKeyPrefix (ps_assigned st)"
    unfolding s'(2) using agrees_kept [OF v4(1) agr refl, of i ?W]
    by (intro spec(4)) (simp add: agrees_def o4)
  moreover have "assign_keys str (va_prefix a) ?keys (kept_pool (set ?keys) m) = Some st" using spec(1) by simp
  ultimately show "family_ok str dec (va_prefix a) vipKeyPrefix ?W (abs_store s) (abs_store s') vips"
    using family_ok_pass [OF v4(1) agr, of str "va_prefix a" ?keys] res(1) by simp
  show "case va_prefix6 a of None \<Rightarrow> vips6 = None
         | Some p6 \<Rightarrow> \<exists>v6. vips6 = Some v6 \<and> family_ok str dec p6 vip6KeyPrefix ?W (abs_store s) (abs_store s') v6"
  proof (cases "va_prefix6 a")
    case None
    then show ?thesis using res(2) by simp
  next
    case (Some p6)
    then have agr6: "agrees dec (abs_store s) vip6KeyPrefix m6" using load6 vip_load_spec(2) [OF ok] by (simp add: agrees_def)
    have "agrees dec (abs_store s') vip6KeyPrefix (ps_assigned st6)"
      unfolding s'(2) using agrees_kept [OF wf6 agr6, of "fold (spec_write i) (releases vipKeyPrefix ?W m) (abs_store s)" i ?W]
      by (intro spec(5)) (simp add: o6)
    then have "family_ok str dec p6 vip6KeyPrefix ?W (abs_store s) (abs_store s') (ps_assigned st6)"
      using family_ok_pass [OF wf6 agr6, of str p6 ?keys st6] spec(2) Some by simp
    then show ?thesis using res(2) Some by simp
  qed
qed

text \<open>C15. A pass of the allocator either fails and leaves the store as it was, or gives every service one
  address per family: the remembered one where there is one, else an address of the pool that
  nobody else holds; no two services share an address if none did before; services that are gone
  hold none; and the addresses returned are the ones the store then remembers.\<close>

theorem frontends_are_stable_and_unique:
  assumes "store_ok s" and "Sync_room services s" and "\<forall>ip. dec (enc ip) = Inr ip"
  shows "case Sync str enc dec a ctx commit now services s of
      (Inl e, s') \<Rightarrow> s' = s
    | (Inr (vips, vips6), s') \<Rightarrow>
        store_ok s' \<and>
        family_ok str dec (va_prefix a) vipKeyPrefix (ref_key ` set services) (abs_store s) (abs_store s') vips \<and>
        (case va_prefix6 a of None \<Rightarrow> vips6 = None
         | Some p6 \<Rightarrow> \<exists>v6. vips6 = Some v6 \<and>
             family_ok str dec p6 vip6KeyPrefix (ref_key ` set services) (abs_store s) (abs_store s') v6)"
  using Sync_family [where dec = dec and enc = enc, OF assms] Sync_Inl by (auto split: prod.splits sum.splits)

end
