(* ===== verification/Store_Examples.thy ===== *)
theory Store_Examples
  imports State_Store_Pages Replication_Facts VIP_Facts "HOL-Library.Code_Target_Nat"
begin

text \<open>
  Concrete stores: a cipher for segments, the cases in which replication is not faithful, and the
  theorems of the store and of replication applied to a concrete run.
\<close>

section \<open>A way to seal a segment\<close>

text \<open>Every character is marked, so the end of a string needs no escape.\<close>

fun enc_str :: "string \<Rightarrow> string" where
  "enc_str [] = ''.''"
| "enc_str (c # cs) = CHR ''x'' # c # enc_str cs"

fun dec_str :: "string \<Rightarrow> (string \<times> string) option" where
  "dec_str (m # r) =
     (if m = CHR ''.'' then Some ([], r)
      else case r of [] \<Rightarrow> None
           | c # r' \<Rightarrow> (case dec_str r' of None \<Rightarrow> None | Some (s, t) \<Rightarrow> Some (c # s, t)))"
| "dec_str [] = None"

definition enc_op :: "Op \<Rightarrow> string" where
  "enc_op x = (case x of OpPut \<Rightarrow> ''p'' | OpDelete \<Rightarrow> ''d'' | BadOp n \<Rightarrow> udec n)"

definition dec_op :: "string \<Rightarrow> Op" where
  "dec_op s = (if s = ''p'' then OpPut else if s = ''d'' then OpDelete else BadOp (dec_value s))"

definition dec_int :: "string \<Rightarrow> int" where
  "dec_int s = (if hd s = CHR ''-'' then - int (dec_value (tl s)) else int (dec_value s))"

definition enc_change :: "Change \<Rightarrow> string" where
  "enc_change c =
     enc_str (encodeUint64 (ch_Index c)) @ enc_str (enc_op (ch_Op c)) @ enc_str (ch_Kind c) @
     enc_str (ch_Key c) @ enc_str (ch_Value c) @ enc_str (itoa (ch_Time c))"

definition dec_change :: "string \<Rightarrow> (Change \<times> string) option" where
  "dec_change r0 =
     Option.bind (dec_str r0) (\<lambda>(i, r1). Option.bind (dec_str r1) (\<lambda>(x, r2). Option.bind (dec_str r2) (\<lambda>(k, r3).
     Option.bind (dec_str r3) (\<lambda>(key, r4). Option.bind (dec_str r4) (\<lambda>(v, r5). Option.bind (dec_str r5) (\<lambda>(at, r6).
       Some (\<lparr>ch_Index = decodeUint64 i, ch_Op = dec_op x, ch_Kind = k, ch_Key = key, ch_Value = v,
              ch_Time = dec_int at\<rparr>, r6)))))))"

definition line_seal :: "Change list \<Rightarrow> string" where
  "line_seal cs = concat (map enc_change cs)"

fun dec_lines :: "nat \<Rightarrow> string \<Rightarrow> Change list option" where
  "dec_lines n [] = Some []"
| "dec_lines 0 (c # r) = None"
| "dec_lines (Suc n) (c # r) =
     (case dec_change (c # r) of None \<Rightarrow> None | Some (x, r') \<Rightarrow> map_option ((#) x) (dec_lines n r'))"

definition line_unseal :: "string \<Rightarrow> backup_error + Change list" where
  "line_unseal s = (case dec_lines (length s) s of None \<Rightarrow> Inl (ErrCorrupt ''segment'') | Some cs \<Rightarrow> Inr cs)"

lemma dec_enc_str [simp]: "dec_str (enc_str s @ r) = Some (s, r)"
  by (induction s) simp_all

lemma dec_enc_op [simp]: "dec_op (enc_op x) = x"
proof -
  have "\<not> is_digit (CHR ''p'')" "\<not> is_digit (CHR ''d'')" by (simp_all add: is_digit_def)
  then have "udec n \<noteq> ''p''" "udec n \<noteq> ''d''" for n using udec_digits [of _ n] by force+
  then show ?thesis by (simp add: dec_op_def enc_op_def split: Op.splits)
qed

lemma dec_itoa [simp]: "dec_int (itoa i) = i"
proof -
  have "\<not> is_digit (CHR ''-'')" by (simp add: is_digit_def)
  then have "hd (udec n) \<noteq> CHR ''-''" for n using udec_digits [of "hd (udec n)" n] by (metis hd_in_set udec_nonempty)
  then show ?thesis by (simp add: dec_int_def itoa_def)
qed

lemma dec_enc_change [simp]: "dec_change (enc_change c @ r) = Some (c, r)"
  by (simp add: dec_change_def enc_change_def)

lemma enc_str_nonempty [simp]: "enc_str s \<noteq> []"
  by (cases s) simp_all

lemma dec_enc_lines: "length (line_seal cs) \<le> n \<Longrightarrow> dec_lines n (line_seal cs) = Some cs"
proof (induction cs arbitrary: n)
  case (Cons c cs)
  have ne: "enc_change c \<noteq> []" by (simp add: enc_change_def)
  then obtain x r where x: "line_seal (c # cs) = x # r" by (cases "enc_change c") (simp_all add: line_seal_def)
  moreover have "dec_change (line_seal (c # cs)) = Some (c, line_seal cs)" by (simp add: line_seal_def)
  moreover have "length (line_seal cs) < length (line_seal (c # cs))" using ne by (simp add: line_seal_def)
  moreover obtain m where "n = Suc m" using Cons.prems x by (cases n) auto
  ultimately show ?case using Cons by simp
qed (simp add: line_seal_def)

lemma line_unseal_seal [simp]: "line_unseal (line_seal cs) = Inr cs"
  by (simp add: line_unseal_def dec_enc_lines)

section \<open>Where replication is not faithful\<close>

declare ShipOnce.simps [code]

definition kv_put :: "string \<Rightarrow> Mutation" where
  "kv_put key = PutMutation KindKV key ''1''"

abbreviation written :: "Mutation list \<Rightarrow> Store \<Rightarrow> Store" where
  "written ms s \<equiv> snd (Apply None None 0 ms s)"

definition kv_keys :: "Store \<Rightarrow> string list" where
  "kv_keys s = map fst (db_kinds s KindKV)"

definition no_replica :: Replica where
  "no_replica = \<lparr>rp_shipped = 0, rp_sink = []\<rparr>"

text \<open>The page limit cuts a batch of three changes after the second. The ship takes the batch for
  shipped: it prunes the third change from the log although no segment holds it, and the restored
  store lacks the record while claiming the same index.\<close>

theorem split_batch_is_lost:
  "case ShipOnce line_seal (\<lambda>_. None) (\<lambda>_. None) 2 no_replica (written [kv_put ''a'', kv_put ''b'', kv_put ''c''] empty_db) of
     Some (None, r, s) \<Rightarrow>
       kv_keys s = [''a'', ''b'', ''c''] \<and> rp_shipped r = store_index s \<and> db_changes s = [] \<and>
       (case replay line_unseal None 0 (rp_sink r) 0 empty_db of
          (Inr (n, i), t) \<Rightarrow> i = store_index s \<and> kv_keys t = [''a'', ''b'']
        | _ \<Rightarrow> False)
   | _ \<Rightarrow> False"
  by code_simp

definition ship100 :: "Replica \<times> Store \<Rightarrow> Replica \<times> Store" where
  "ship100 x = (case ShipOnce line_seal (\<lambda>_. None) (\<lambda>_. None) 100 (fst x) (snd x) of
                  Some (None, r, s) \<Rightarrow> (r, s) | _ \<Rightarrow> x)"

definition is_corrupt :: "(backup_error + 'a) \<times> 'b \<Rightarrow> bool" where
  "is_corrupt x = (case fst x of Inl (ErrCorrupt _) \<Rightarrow> True | _ \<Rightarrow> False)"

text \<open>Everything was shipped, yet the restore reports a missing segment: in the first run because a batch
  that only deleted a missing key took an index and logged nothing, in the second because a
  snapshot moved the cursor past a change that no segment holds, so that the older archive, which
  retention kept, cannot be brought forward.\<close>

theorem restore_reports_a_missing_segment:
  "(let (r1, s1) = ship100 (no_replica, written [kv_put ''a''] empty_db);
        (r2, s2) = ship100 (r1, written [kv_put ''b''] (written [DeleteMutation KindKV ''zz''] s1))
    in kv_keys s2 = [''a'', ''b''] \<and> rp_shipped r2 = store_index s2 \<and>
       is_corrupt (replay line_unseal None 0 (rp_sink r2) 0 empty_db)) \<and>
   (let (r1, s1) = ship100 (no_replica, written [kv_put ''a''] empty_db);
        old = \<lparr>ar_ID = ''old'', ar_Index = 0, ar_Store = empty_db\<rparr>
    in case Snapshot (Inr ''new'') (\<lambda>_. None) 7 r1 [old] (written [kv_put ''b''] s1) of
         (None, r2, archives) \<Rightarrow>
           map ar_ID archives = [''new'', ''old''] \<and>
           is_corrupt (replay line_unseal None 0
             (rp_sink (fst (ship100 (r2, written [kv_put ''c''] (written [kv_put ''b''] s1)))))
             (ar_Index (last archives)) (ar_Store (last archives)))
       | _ \<Rightarrow> False)"
  by (rule conjI) code_simp+

section \<open>The theorems at a concrete store\<close>

definition kv1 :: Store where
  "kv1 = written [kv_put ''a''] empty_db"

definition kv2 :: Store where
  "kv2 = written [kv_put ''b'', kv_put ''c''] kv1"

lemma room_empty: "room empty_db [kv_put ''a'']" and room_kv1: "room kv1 [kv_put ''b'', kv_put ''c'']"
  unfolding room_def by code_simp+

lemma store_ok_kv1: "store_ok kv1"
  unfolding kv1_def using store_ok_empty room_empty by (rule Apply_store_ok)

lemma store_ok_kv2: "store_ok kv2"
  unfolding kv2_def using store_ok_kv1 room_kv1 by (rule Apply_store_ok)

lemma Apply_kv1: "Apply None None 0 [kv_put ''a''] empty_db = (Inr 1, kv1)"
  unfolding kv1_def by (rule prod_eqI) (simp_all, code_simp)

lemma Apply_kv2: "Apply None None 0 [kv_put ''b'', kv_put ''c''] kv1 = (Inr 2, kv2)"
  unfolding kv2_def by (rule prod_eqI) (simp_all, code_simp)


definition kv_record :: Record where
  "kv_record = \<lparr>rc_Kind = KindKV, rc_Key = ''a'', rc_Index = 1, rc_Value = ''1''\<rparr>"

theorem compare_and_set_witness:
  "fst (Apply None None 0 [UpdateMutation KindKV ''a'' ''2'' 1] kv2) = Inr 3 \<and> Get None KindKV ''a'' kv2 = Inr kv_record"
proof -
  let ?m = "UpdateMutation KindKV ''a'' ''2'' 1"
  have "Get None KindKV ''a'' kv1 = Inr kv_record" by code_simp
  moreover have "later kv1 kv2" using later_Apply [OF later_refl room_kv1 Apply_kv2] .
  moreover have "\<not> db_closed kv2" by code_simp
  moreover have i: "fst (Apply None None 0 [?m] kv2) = Inr 3" by code_simp
  then have "Apply None None 0 [?m] kv2 = (Inr 3, snd (Apply None None 0 [?m] kv2))" by (simp add: prod_eq_iff)
  ultimately have "Get None KindKV ''a'' kv2 = Inr kv_record"
    by (rule compare_and_set [OF store_ok_kv1, where m = ?m])
       (simp_all add: UpdateMutation_def PutMutation_def kv_record_def)
  with i show ?thesis by blast
qed

definition pages_of_2 :: ListOptions where
  "pages_of_2 = \<lparr>lo_Prefix = '''', lo_After = '''', lo_Limit = 2, lo_KeysOnly = False, lo_Reverse = True\<rparr>"

theorem paging_witness:
  "load_all (\<lambda>r. Inr (rc_Key r)) None KindKV pages_of_2 kv2 [] = Some (Inr [''c'', ''b'', ''a''])"
proof -
  have "\<not> db_closed kv2" "kind_valid KindKV" "lo_After pages_of_2 = ''''" by code_simp+
  note paging_terminates_and_is_complete [OF store_ok_kv2 this, of "\<lambda>r. Inr (rc_Key r)"]
  also have "(case decode_all (\<lambda>r. Inr (rc_Key r)) (map (record_of KindKV pages_of_2)
                 (filter (\<lambda>e. has_prefix (fst e) (lo_Prefix pages_of_2))
                    (if lo_Reverse pages_of_2 then rev (db_kinds kv2 KindKV) else db_kinds kv2 KindKV))) of
            Inl m \<Rightarrow> Inl (BadValue m) | Inr vs \<Rightarrow> Inr vs) = Inr [''c'', ''b'', ''a'']"
    by code_simp
  finally show ?thesis .
qed

definition shipped2 :: "backup_error option \<times> Replica \<times> Store" where
  "shipped2 = the (ShipOnce line_seal (\<lambda>_. None) (\<lambda>_. None) 100 no_replica kv2)"

lemma replicated_kv2: "replicated line_seal empty_db no_replica kv2"
proof -
  have "replicated line_seal empty_db no_replica empty_db"
    using rep_start [of line_seal empty_db] by (simp add: no_replica_def meta_uint64_def empty_db_def decodeUint64_def)
  then have "replicated line_seal empty_db no_replica kv1"
    by (rule rep_write [OF _ room_empty Apply_kv1]) code_simp
  then show ?thesis
    by (rule rep_write [OF _ room_kv1 Apply_kv2]) code_simp
qed


section \<open>Frontend addresses\<close>

definition dotted :: addr_show where
  "dotted w a = str_join ''.'' (map (\<lambda>k. udec (a div 256 ^ k mod 256)) [3, 2, 1, 0])"

definition quoted :: "string \<Rightarrow> string" where
  "quoted ip = [CHR 0x22] @ ip @ [CHR 0x22]"

definition unquoted :: "string \<Rightarrow> string + string" where
  "unquoted v = (if length v < 2 then Inl ''unexpected end of JSON input'' else Inr (butlast (tl v)))"

lemma unquoted_quoted: "\<forall>ip. unquoted (quoted ip) = Inr ip"
  by (simp add: unquoted_def quoted_def)

definition ex_pool :: vipAllocator where
  "ex_pool = \<lparr>va_prefix = \<lparr>pf_width = 32, pf_addr = 10 * 256 ^ 3 + 201 * 256 ^ 2, pf_bits = 16\<rparr>, va_prefix6 = None\<rparr>"

definition ex_services :: "serviceRef list" where
  "ex_services = [\<lparr>sr_Project = ''shop'', sr_Service = ''web''\<rparr>, \<lparr>sr_Project = ''shop'', sr_Service = ''api''\<rparr>]"

declare load_all.simps [code]

definition ex_sync :: "(vip_error + string gomap \<times> string gomap option) \<times> Store" where
  "ex_sync = Sync dotted quoted unquoted ex_pool None None 0 ex_services kv2"

lemma ex_sync_result:
  "fst ex_sync = Inr ([(''shop/api'', ''10.201.0.1''), (''shop/web'', ''10.201.0.2'')], None)"
  by code_simp

theorem frontends_are_stable_and_unique_witness:
  "family_ok dotted unquoted (va_prefix ex_pool) vipKeyPrefix {''shop/web'', ''shop/api''} (abs_store kv2) (abs_store (snd ex_sync))
     [(''shop/api'', ''10.201.0.1''), (''shop/web'', ''10.201.0.2'')]"
proof -
  have "Sync_room ex_services kv2" by code_simp
  moreover have "ref_key ` set ex_services = {''shop/web'', ''shop/api''}" by code_simp
  moreover have "va_prefix6 ex_pool = None" by code_simp
  moreover obtain s' where "ex_sync = (Inr ([(''shop/api'', ''10.201.0.1''), (''shop/web'', ''10.201.0.2'')], None), s')"
    using ex_sync_result by (metis prod.collapse)
  ultimately show ?thesis
    using frontends_are_stable_and_unique [OF store_ok_kv2, of ex_services unquoted quoted dotted ex_pool None None 0]
      unquoted_quoted by (simp add: ex_sync_def)
qed

end
