(* ===== verification/Go_Calendar.thy ===== *)
theory Go_Calendar
  imports Go_Time
begin

text \<open>
  The civil calendar behind Go's \<open>time.Time\<close> in UTC: the proleptic Gregorian calendar, the clock of a
  day, \<open>time.Date\<close> with its normalisation of out-of-range months and days, and \<open>AddDate\<close>. Day 0 is the
  day of the zero time, Monday, 1 January of year 1. The lemmas of this theory say that months are
  consecutive intervals of days, which is all a search that jumps from month to month relies on.
\<close>

section \<open>Years\<close>

definition is_leap :: "int \<Rightarrow> bool" where
  "is_leap y \<longleftrightarrow> y mod 4 = 0 \<and> (y mod 100 \<noteq> 0 \<or> y mod 400 = 0)"

definition days_before_year :: "int \<Rightarrow> int" where
  "days_before_year y = 365 * (y - 1) + (y - 1) div 4 - (y - 1) div 100 + (y - 1) div 400"

text \<open>The year of a day: cycles of 400, 100, 4 and 1 years, the last century of a cycle and the last year
  of four being longer.\<close>

definition Year :: "int \<Rightarrow> int" where
  "Year d =
     (let r = d mod 146097; c = min 3 (r div 36524);
          r1 = r - 36524 * c; r2 = r1 mod 1461 in
      400 * (d div 146097) + 100 * c + 4 * (r1 div 1461) + min 3 (r2 div 365) + 1)"

lemma div_pred: "0 < n \<Longrightarrow> y div n = (y - 1) div n + (if y mod n = 0 then 1 else 0)" for n :: int
proof (cases "y mod n = 0")
  case True
  assume n: "0 < n"
  obtain k where y: "y = n * k" using True by (auto simp: mod_eq_0_iff_dvd)
  have "y - 1 = (n - 1) + n * (k - 1)" by (simp add: y algebra_simps)
  then have "(y - 1) div n = (n - 1) div n + (k - 1)" using n by (metis div_mult_self2 less_irrefl add.commute)
  then have "(y - 1) div n = k - 1" using n by (simp add: div_pos_pos_trivial)
  then show ?thesis using n True y by simp
next
  case False
  assume n: "0 < n"
  have y: "y - 1 = (y mod n - 1) + n * (y div n)" by (simp add: mult_div_mod_eq diff_add_eq)
  have "(y - 1) div n = y div n + (y mod n - 1) div n"
    by (subst y, rule div_mult_self2) (use n in simp)
  moreover have "(y mod n - 1) div n = 0"
    using n False pos_mod_bound [of n y] pos_mod_sign [of n y] by (intro div_pos_pos_trivial) linarith+
  ultimately show ?thesis using False by simp
qed

lemma leap_arith:
  fixes a a' b b' c c' :: int
  assumes "r \<Longrightarrow> q" and "q \<Longrightarrow> p" and "a = a' + (if p then 1 else 0)" and "b = b' + (if q then 1 else 0)"
    and "c = c' + (if r then 1 else 0)"
  shows "365 * y + a - b + c = 365 * (y - 1) + a' - b' + c' + (if p \<and> (\<not> q \<or> r) then 366 else 365)"
  using assms by (cases p; cases q; cases r) simp_all

lemma days_before_year_Suc: "days_before_year (y + 1) = days_before_year y + (if is_leap y then 366 else 365)"
proof -
  have h: "y mod 400 = 0 \<Longrightarrow> y mod 100 = 0" "y mod 100 = 0 \<Longrightarrow> y mod 4 = 0"
    using dvd_trans [of 100 400 y] dvd_trans [of 4 100 y] by (simp_all add: dvd_eq_mod_eq_0)
  have d: "(0::int) < 4" "(0::int) < 100" "(0::int) < 400" by simp_all
  show ?thesis
    unfolding days_before_year_def is_leap_def add_diff_cancel_right'
    by (rule leap_arith [OF h div_pred [OF d(1)] div_pred [OF d(2)] div_pred [OF d(3)]])
qed

lemma days_before_year_parts:
  assumes "0 \<le> c" "c \<le> 3" "0 \<le> q" "q \<le> 24" "0 \<le> y" "y \<le> 3"
  shows "days_before_year (400 * n + 100 * c + 4 * q + y + 1) = 146097 * n + 36524 * c + 1461 * q + 365 * y"
proof -
  have "(400 * n + 100 * c + 4 * q + y) div 4 = 100 * n + 25 * c + q"
    and "(400 * n + 100 * c + 4 * q + y) div 100 = 4 * n + c"
    and "(400 * n + 100 * c + 4 * q + y) div 400 = n"
    using assms div_mult_self2 [of 4 y "100 * n + 25 * c + q"]
      div_mult_self2 [of 100 "4 * q + y" "4 * n + c"] div_mult_self2 [of 400 "100 * c + 4 * q + y" n]
    by (simp_all add: algebra_simps)
  then show ?thesis by (simp add: days_before_year_def)
qed

lemma Year_bounds: "days_before_year (Year d) \<le> d" "d < days_before_year (Year d + 1)"
proof -
  define n r where "n = d div 146097" and "r = d mod 146097"
  define c where "c = min 3 (r div 36524)"
  define r1 where "r1 = r - 36524 * c"
  define q r2 where "q = r1 div 1461" and "r2 = r1 mod 1461"
  define y where "y = min 3 (r2 div 365)"
  have d: "d = 146097 * n + r" and r: "0 \<le> r" "r \<le> 146096" by (simp_all add: n_def r_def)
  have c: "0 \<le> c" "c \<le> 3" "0 \<le> r1" "r1 \<le> 36524" "c < 3 \<Longrightarrow> r1 < 36524"
    using r unfolding c_def r1_def min_def by (auto split: if_splits)
  have q: "0 \<le> q" "q \<le> 24" "0 \<le> r2" "r2 \<le> 1460" "r1 = 1461 * q + r2"
    using c unfolding q_def r2_def by auto
  have y: "0 \<le> y" "y \<le> 3" "365 * y \<le> r2" "y < 3 \<Longrightarrow> r2 < 365 * y + 365" "r2 \<le> 365 * y + 365"
    using q unfolding y_def min_def by auto
  have Y: "Year d = 400 * n + 100 * c + 4 * q + y + 1"
    unfolding Year_def Let_def n_def r_def c_def r1_def q_def r2_def y_def by simp
  have b: "days_before_year (Year d) = 146097 * n + 36524 * c + 1461 * q + 365 * y"
    unfolding Y using c q y days_before_year_parts by simp
  then show "days_before_year (Year d) \<le> d" using d q y by (simp add: r1_def)
  have "is_leap (Year d)" if "r2 = 1460" "\<not> (q = 24 \<and> c < 3)"
  proof -
    have "y = 3" using that(1) by (simp add: y_def)
    then have Y4: "Year d = 4 * (100 * n + 25 * c + q + 1)" using Y by simp
    show ?thesis
    proof (cases "q = 24")
      case True
      then have "Year d = 400 * (n + 1)" using Y4 that(2) c by simp
      then show ?thesis by (simp only: is_leap_def mod_mult_self1_is_0) (simp add: mod_eq_0_iff_dvd)
    next
      case False
      have "Year d = (4 * q + 4) + 100 * (4 * n + c)" using Y4 by simp
      then have "Year d mod 100 = (4 * q + 4) mod 100" by (simp only: mod_mult_self2)
      then have "Year d mod 100 = 4 * q + 4" using False q by simp
      moreover have "Year d mod 4 = 0" by (simp only: Y4 mod_mult_self1_is_0)
      ultimately show ?thesis using q by (simp add: is_leap_def)
    qed
  qed
  moreover have "r2 < 1460" if "q = 24" "c < 3" using that c q by simp
  ultimately have "is_leap (Year d)" if "r2 = 1460" using that by blast
  then have "r2 < 365 * y + (if is_leap (Year d) then 366 else 365)"
    using y q by (cases "r2 = 1460"; cases "y < 3") auto
  then show "d < days_before_year (Year d + 1)"
    unfolding days_before_year_Suc b using d q by (simp add: r1_def)
qed

section \<open>Months\<close>

definition month_start :: "bool \<Rightarrow> int \<Rightarrow> int" where
  "month_start leap m =
     [0, 31, 59, 90, 120, 151, 181, 212, 243, 273, 304, 334, 365] ! nat (m - 1) + (if leap \<and> m > 2 then 1 else 0)"

text \<open>\<open>time.Date\<close> at midnight: a month beyond December or before January moves the year, a day beyond the
  month's end spills into the next month.\<close>

definition Date :: "int \<Rightarrow> int \<Rightarrow> int \<Rightarrow> int" where
  "Date y m d =
     (let y' = y + (m - 1) div 12; m' = (m - 1) mod 12 + 1 in
      days_before_year y' + month_start (is_leap y') m' + (d - 1))"

definition year_day :: "int \<Rightarrow> int" where
  "year_day d = d - days_before_year (Year d)"

function month_from :: "bool \<Rightarrow> int \<Rightarrow> int \<Rightarrow> int" where
  "month_from leap x m = (if m \<ge> 12 \<or> x < month_start leap (m + 1) then m else month_from leap x (m + 1))"
  by pat_completeness auto
termination
  by (relation "measure (\<lambda>(_, _, m). nat (12 - m))") auto

declare month_from.simps [simp del]

definition Month :: "int \<Rightarrow> int" where
  "Month d = month_from (is_leap (Year d)) (year_day d) 1"

definition Day :: "int \<Rightarrow> int" where
  "Day d = year_day d - month_start (is_leap (Year d)) (Month d) + 1"

definition Weekday :: "int \<Rightarrow> int" where
  "Weekday d = (d + 1) mod 7"

text \<open>Months are numbered through, and \<open>month_first k\<close> is the first day of month \<open>k\<close>.\<close>

definition month_no :: "int \<Rightarrow> int" where
  "month_no d = 12 * Year d + (Month d - 1)"

definition month_first :: "int \<Rightarrow> int" where
  "month_first k = Date (k div 12) (k mod 12 + 1) 1"

lemma Date_eq: "Date y m d = month_first (12 * y + (m - 1)) + (d - 1)"
proof -
  have "(12 * y + (m - 1)) div 12 = y + (m - 1) div 12" "(12 * y + (m - 1)) mod 12 = (m - 1) mod 12"
    by (simp_all add: div_mult_self4 mod_mult_self4)
  then show ?thesis by (simp add: month_first_def Date_def Let_def)
qed

lemma month_numbers: "0 \<le> k \<Longrightarrow> k \<le> 11 \<Longrightarrow> k \<in> {0, 1, 2, 3, 4, 5, 6, 7, 8, 9, 10, 11 :: int}"
  by simp presburger

lemma month_first_year: "0 \<le> k \<Longrightarrow> k \<le> 11 \<Longrightarrow>
    month_first (12 * y + k) = days_before_year y + month_start (is_leap y) (k + 1)"
  by (simp add: month_first_def Date_def Let_def div_add1_eq)

lemma month_first_next_year: "month_first (12 * y + 12) = days_before_year (y + 1)"
  using month_first_year [of 0 "y + 1"] by (simp add: month_start_def algebra_simps)

lemma month_start_step:
  assumes "0 \<le> m" and "m \<le> 10"
  shows "month_start leap (m + 1) + 28 \<le> month_start leap (m + 1 + 1)"
proof -
  have "m \<in> {0, 1, 2, 3, 4, 5, 6, 7, 8, 9, 10, 11}" using month_numbers [of m] assms by linarith
  then show ?thesis using assms by (elim insertE emptyE) (simp_all add: month_start_def)
qed

lemma month_first_less: "month_first k + 28 \<le> month_first (k + 1)"
proof -
  define y m where "y = k div 12" and "m = k mod 12"
  have k: "k = 12 * y + m" and m: "0 \<le> m" "m \<le> 11" by (simp_all add: y_def m_def)
  show ?thesis
  proof (cases "m = 11")
    case True
    then show ?thesis
      using month_first_year [of 11 y] month_first_next_year [of y] days_before_year_Suc [of y] k
      by (simp add: month_start_def ac_simps split: if_splits)
  next
    case False
    then have "month_first (k + 1) = days_before_year y + month_start (is_leap y) (m + 1 + 1)"
      using month_first_year [of "m + 1" y] k m by (simp add: algebra_simps)
    moreover have "month_first k = days_before_year y + month_start (is_leap y) (m + 1)"
      using month_first_year [of m y] k m by simp
    ultimately show ?thesis using month_start_step [of m "is_leap y"] m False by simp
  qed
qed

lemma month_first_mono: "j \<le> k \<Longrightarrow> month_first j + 28 * (k - j) \<le> month_first k"
proof (induction "nat (k - j)" arbitrary: k)
  case (Suc n)
  then have "n = nat (k - 1 - j)" "j \<le> k - 1" by auto
  then have "month_first j + 28 * (k - 1 - j) \<le> month_first (k - 1)" by (rule Suc.hyps(1))
  then show ?case using month_first_less [of "k - 1"] by simp
qed simp

lemma month_from_bounds:
  assumes "month_start leap m \<le> x" and "x < month_start leap 13" and "m \<le> 12"
  shows "m \<le> month_from leap x m \<and> month_from leap x m \<le> 12 \<and>
    month_start leap (month_from leap x m) \<le> x \<and> x < month_start leap (month_from leap x m + 1)"
  using assms
proof (induction leap x m rule: month_from.induct)
  case (1 leap x m)
  show ?case
  proof (cases "m \<ge> 12 \<or> x < month_start leap (m + 1)")
    case True
    then have "m = 12 \<or> x < month_start leap (m + 1)" using "1.prems" by auto
    moreover have "month_from leap x m = m" using True by (simp add: month_from.simps [of leap x m])
    ultimately show ?thesis using "1.prems" by auto
  next
    case False
    then have "month_from leap x m = month_from leap x (m + 1)" by (subst month_from.simps) simp
    then show ?thesis using "1.IH" [OF False] False "1.prems" by auto
  qed
qed

lemma year_day_bounds: "0 \<le> year_day d" "year_day d < month_start (is_leap (Year d)) 13"
  using Year_bounds [of d] by (simp_all add: year_day_def days_before_year_Suc month_start_def split: if_splits)

lemma Month_bounds: "1 \<le> Month d" "Month d \<le> 12"
  "month_start (is_leap (Year d)) (Month d) \<le> year_day d"
  "year_day d < month_start (is_leap (Year d)) (Month d + 1)"
  using month_from_bounds [of "is_leap (Year d)" 1 "year_day d"] year_day_bounds [of d]
  by (simp_all only: Month_def) (simp_all add: month_start_def [of _ 1])

lemma month_no_bounds: "month_first (month_no d) \<le> d" "d < month_first (month_no d + 1)"
proof -
  let ?y = "Year d" let ?l = "is_leap ?y"
  note m = Month_bounds(3,4) [of d]
  have "month_first (month_no d) = days_before_year ?y + month_start ?l (Month d)"
    using month_first_year [of "Month d - 1" ?y] Month_bounds [of d] by (simp add: month_no_def)
  then show "month_first (month_no d) \<le> d" using m by (simp add: year_day_def)
  show "d < month_first (month_no d + 1)"
  proof (cases "Month d = 12")
    case True
    then show ?thesis
      using month_first_next_year [of ?y] Year_bounds [of d] by (simp add: month_no_def add.commute)
  next
    case False
    then have "month_first (month_no d + 1) = days_before_year ?y + month_start ?l (Month d + 1)"
      using month_first_year [of "Month d" ?y] Month_bounds [of d] by (simp add: month_no_def algebra_simps)
    then show ?thesis using m by (simp add: year_day_def)
  qed
qed

text \<open>The month is determined by the interval a day lies in, and \<open>Date\<close> inverts the civil fields.\<close>

lemma month_no_unique:
  assumes "month_first k \<le> d" and "d < month_first (k + 1)"
  shows "month_no d = k"
proof (rule ccontr)
  assume "month_no d \<noteq> k"
  then consider "k + 1 \<le> month_no d" | "month_no d + 1 \<le> k" by linarith
  then show False
    using month_first_mono [of "k + 1" "month_no d"] month_first_mono [of "month_no d + 1" k]
      month_no_bounds [of d] assms by cases auto
qed

lemma Day_eq: "Day d = d - month_first (month_no d) + 1"
  using month_first_year [of "Month d - 1" "Year d"] Month_bounds [of d]
  by (simp add: Day_def year_day_def month_no_def)

lemma Date_of_fields: "Date (Year d) (Month d) (Day d) = d"
  by (simp add: Date_eq Day_eq month_no_def)

lemma fields_of_month_no: "Year d = month_no d div 12" "Month d = month_no d mod 12 + 1"
proof -
  define k where "k = Month d - 1"
  have "k div 12 = 0" "k mod 12 = k" "month_no d = 12 * Year d + k"
    using Month_bounds [of d] by (simp_all add: k_def month_no_def)
  then show "Year d = month_no d div 12" "Month d = month_no d mod 12 + 1"
    by (simp_all add: k_def)
qed

section \<open>The clock of a day\<close>

definition day_length :: duration where "day_length = 24 * hour"

definition day_of :: "time \<Rightarrow> int" where "day_of t = t div day_length"
definition Hour :: "time \<Rightarrow> int" where "Hour t = t mod day_length div hour"
definition Minute :: "time \<Rightarrow> int" where "Minute t = t mod hour div minute"

text \<open>\<open>time.Date\<close> with an hour, and \<open>Time.AddDate\<close>, which keeps the time of day.\<close>

definition DateTime :: "int \<Rightarrow> int \<Rightarrow> int \<Rightarrow> int \<Rightarrow> time" where
  "DateTime y m d h = Date y m d * day_length + h * hour"

definition AddDate :: "time \<Rightarrow> int \<Rightarrow> int \<Rightarrow> int \<Rightarrow> time" where
  "AddDate t y m d =
     (let n = day_of t in Date (Year n + y) (Month n + m) (Day n + d) * day_length + t mod day_length)"

definition time_truncate :: "time \<Rightarrow> duration \<Rightarrow> time" where
  "time_truncate t d = t - t mod d"

lemma day_length_pos [simp]: "0 < day_length" by (simp add: day_length_def)

lemma day_of_times [simp]: "0 \<le> r \<Longrightarrow> r < day_length \<Longrightarrow> day_of (n * day_length + r) = n"
  "day_of (n * day_length) = n"
  using less_imp_neq [OF day_length_pos] by (simp_all add: day_of_def)

lemma time_split: "t = day_of t * day_length + t mod day_length" "0 \<le> t mod day_length" "t mod day_length < day_length"
  by (simp_all add: day_of_def)

lemma day_of_ge: "n * day_length \<le> t \<longleftrightarrow> n \<le> day_of t"
proof
  assume "n \<le> day_of t"
  then have "n * day_length \<le> day_of t * day_length" by (simp add: mult_right_mono)
  then show "n * day_length \<le> t" using time_split [of t] by linarith
next
  assume n: "n * day_length \<le> t"
  show "n \<le> day_of t"
  proof (rule ccontr)
    assume "\<not> n \<le> day_of t"
    then have "(day_of t + 1) * day_length \<le> n * day_length" by (simp add: mult_right_mono)
    then show False using n time_split [of t] by (simp add: distrib_right)
  qed
qed

end
