(* ===== verification/Cron.thy ===== *)
theory Cron
  imports Go_Calendar Go_Strings
begin

unbundle bit_operations_syntax

text \<open>
  Cron schedules (\<open>internal/functions/cron/cron.go\<close>): parsing a five-field expression into bit masks,
  and the search for the next firing, which jumps a month, a day or an hour at a time.

  \<^item> A mask is a 64-bit word, as in the code. Numbers are Go \<open>int\<close>s: the loop that sets the bits of a
    range adds the step with the wrap-around of 64 bits, and a shift by a negative amount panics.
  \<^item> That loop has no bound the type shows, so it is an option-valued function; it is shown to return.
  \<^item> The search is total: every jump moves forward, towards the horizon.
  \<^item> \<open>next_by_minutes\<close> is the reference: try every minute up to the horizon. The search is equal to it.
\<close>

section \<open>Parsing\<close>

record Schedule =
  sc_minute :: "64 word"
  sc_hour :: "64 word"
  sc_dom :: "64 word"
  sc_month :: "64 word"
  sc_dow :: "64 word"
  sc_domStar :: bool
  sc_dowStar :: bool

record cron_field =
  f_name :: string
  f_min :: int
  f_max :: int

definition fields :: "cron_field list" where
  "fields =
     [\<lparr>f_name = ''minute'', f_min = 0, f_max = 59\<rparr>,
      \<lparr>f_name = ''hour'', f_min = 0, f_max = 23\<rparr>,
      \<lparr>f_name = ''day-of-month'', f_min = 1, f_max = 31\<rparr>,
      \<lparr>f_name = ''month'', f_min = 1, f_max = 12\<rparr>,
      \<lparr>f_name = ''day-of-week'', f_min = 0, f_max = 7\<rparr>]"

datatype cron_error = FieldCount nat | BadStep | Inverted | SingleStep | NotANumber | OutOfRange | MatchesNothing | NegativeShift

definition parseValue :: "string \<Rightarrow> cron_field \<Rightarrow> cron_error + int" where
  "parseValue s f =
     (case Atoi s of
        None \<Rightarrow> Inl NotANumber
      | Some n \<Rightarrow> if n < f_min f \<or> n > f_max f then Inl OutOfRange else Inr n)"

definition fold7 :: "int \<Rightarrow> cron_field \<Rightarrow> int" where
  "fold7 v f = (if f_name f = ''day-of-week'' \<and> v = 7 then 0 else v)"

text \<open>The sum of two \<open>int\<close>s, which wraps beyond 63 bits.\<close>

definition int_add :: "int \<Rightarrow> int \<Rightarrow> int" where
  "int_add a b =
     (let c = a + b in
      if c \<ge> 0x8000000000000000 then c - 0x10000000000000000
      else if c < - 0x8000000000000000 then c + 0x10000000000000000 else c)"

partial_function (option) range_mask :: "cron_field \<Rightarrow> int \<Rightarrow> int \<Rightarrow> int \<Rightarrow> 64 word \<Rightarrow> (cron_error + 64 word) option" where
  "range_mask f v hi step bits =
     (if v \<le> hi then
        if fold7 v f < 0 then Some (Inl NegativeShift)
        else range_mask f (int_add v step) hi step (bits OR push_bit (nat (fold7 v f)) 1)
      else Some (Inr bits))"

definition range_bounds :: "string \<Rightarrow> int \<Rightarrow> cron_field \<Rightarrow> cron_error + int \<times> int" where
  "range_bounds body step f =
     (if body = ''*'' then Inr (f_min f, f_max f)
      else case cut_byte (CHR ''-'') body of
             Some (a, b) \<Rightarrow>
               (case parseValue a f of
                  Inl e \<Rightarrow> Inl e
                | Inr lo \<Rightarrow>
                    (case parseValue b f of
                       Inl e \<Rightarrow> Inl e
                     | Inr hi \<Rightarrow> if hi < lo then Inl Inverted else Inr (lo, hi)))
           | None \<Rightarrow>
               (case parseValue body f of
                  Inl e \<Rightarrow> Inl e
                | Inr lo \<Rightarrow> if step > 1 then Inl SingleStep else Inr (lo, lo)))"

definition range_step :: "string \<Rightarrow> cron_error + string \<times> int" where
  "range_step s =
     (case cut_byte (CHR ''/'') s of
        None \<Rightarrow> Inr (s, 1)
      | Some (body, t) \<Rightarrow>
          (case Atoi t of None \<Rightarrow> Inl BadStep | Some n \<Rightarrow> if n \<le> 0 then Inl BadStep else Inr (body, n)))"

definition parseRange :: "string \<Rightarrow> cron_field \<Rightarrow> (cron_error + 64 word \<times> bool) option" where
  "parseRange s f =
     (case range_step s of
        Inl e \<Rightarrow> Some (Inl e)
      | Inr (body, step) \<Rightarrow>
          (case range_bounds body step f of
             Inl e \<Rightarrow> Some (Inl e)
           | Inr (lo, hi) \<Rightarrow>
               map_option (\<lambda>r. case r of Inl e \<Rightarrow> Inl e | Inr bits \<Rightarrow> Inr (bits, body = ''*''))
                 (range_mask f lo hi step 0)))"

fun parse_items :: "bool \<Rightarrow> cron_field \<Rightarrow> string list \<Rightarrow> 64 word \<Rightarrow> bool \<Rightarrow> (cron_error + 64 word \<times> bool) option" where
  "parse_items alone f [] bits star = Some (if bits = 0 then Inl MatchesNothing else Inr (bits, star))"
| "parse_items alone f (x # xs) bits star =
     (case parseRange x f of
        None \<Rightarrow> None
      | Some (Inl e) \<Rightarrow> Some (Inl e)
      | Some (Inr (m, s)) \<Rightarrow> parse_items alone f xs (bits OR m) (star \<or> s \<and> alone))"

definition parseField :: "string \<Rightarrow> cron_field \<Rightarrow> (cron_error + 64 word \<times> bool) option" where
  "parseField s f = parse_items (CHR '','' \<notin> set s) f (split_byte (CHR '','') s) 0 False"

fun parse_parts :: "(string \<times> cron_field) list \<Rightarrow> (cron_error + (64 word \<times> bool) list) option" where
  "parse_parts [] = Some (Inr [])"
| "parse_parts ((s, f) # xs) =
     (case parseField s f of
        None \<Rightarrow> None
      | Some (Inl e) \<Rightarrow> Some (Inl e)
      | Some (Inr m) \<Rightarrow>
          (case parse_parts xs of
             None \<Rightarrow> None | Some (Inl e) \<Rightarrow> Some (Inl e) | Some (Inr ms) \<Rightarrow> Some (Inr (m # ms))))"

definition Parse :: "string \<Rightarrow> (cron_error + Schedule) option" where
  "Parse expr =
     (let parts = Fields expr in
      if length parts \<noteq> 5 then Some (Inl (FieldCount (length parts)))
      else map_option
             (\<lambda>r. case r of
                Inl e \<Rightarrow> Inl e
              | Inr ms \<Rightarrow>
                  Inr \<lparr>sc_minute = fst (ms ! 0), sc_hour = fst (ms ! 1), sc_dom = fst (ms ! 2),
                       sc_month = fst (ms ! 3), sc_dow = fst (ms ! 4),
                       sc_domStar = snd (ms ! 2), sc_dowStar = snd (ms ! 4)\<rparr>)
             (parse_parts (zip parts fields)))"

section \<open>The next firing\<close>

definition bit_set :: "64 word \<Rightarrow> int \<Rightarrow> bool" where
  "bit_set bits n \<longleftrightarrow> bits AND push_bit (nat n) 1 \<noteq> 0"

definition dayMatches :: "Schedule \<Rightarrow> time \<Rightarrow> bool" where
  "dayMatches s t =
     (let dom = bit_set (sc_dom s) (Day (day_of t)); dow = bit_set (sc_dow s) (Weekday (day_of t)) in
      if sc_domStar s \<and> sc_dowStar s then True
      else if sc_domStar s then dow
      else if sc_dowStar s then dom
      else dom \<or> dow)"

definition month_jump :: "time \<Rightarrow> time" where
  "month_jump t = (let n = day_of t in AddDate (DateTime (Year n) (Month n) 1 0) 0 1 0)"

definition day_jump :: "time \<Rightarrow> time" where
  "day_jump t = (let n = day_of t in AddDate (DateTime (Year n) (Month n) (Day n) 0) 0 0 1)"

definition hour_jump :: "time \<Rightarrow> time" where
  "hour_jump t = (let n = day_of t in DateTime (Year n) (Month n) (Day n) (Hour t) + hour)"

text \<open>What the jumps amount to: the first instant of the next month, day and hour.\<close>

lemma month_jump_eq: "month_jump t = month_first (month_no (day_of t) + 1) * day_length"
proof -
  let ?n = "day_of t" let ?f = "month_first (month_no ?n)"
  have f: "DateTime (Year ?n) (Month ?n) 1 0 = ?f * day_length"
    by (simp add: DateTime_def Date_eq month_no_def)
  have k: "month_no ?f = month_no ?n" by (rule month_no_unique) (use month_first_less [of "month_no ?n"] in simp_all)
  then have "12 * Year ?f + Month ?f = month_no ?n + 1" by (simp add: month_no_def [of ?f])
  then have "Date (Year ?f) (Month ?f + 1) (Day ?f) = month_first (month_no ?n + 1)"
    using k by (simp add: Date_eq Day_eq)
  then show ?thesis unfolding month_jump_def Let_def f AddDate_def by simp
qed

lemma day_jump_eq: "day_jump t = (day_of t + 1) * day_length"
proof -
  have f: "DateTime (Year n) (Month n) (Day n) 0 = n * day_length" for n
    by (simp add: DateTime_def Date_of_fields)
  have "Date (Year n) (Month n) (Day n + 1) = n + 1" for n
    using Date_of_fields [of n] by (simp add: Date_eq)
  then show ?thesis unfolding day_jump_def Let_def f AddDate_def by simp
qed

lemma hour_split: "day_of t * day_length + Hour t * hour = t - t mod hour"
proof -
  have "t mod day_length div hour * hour = t mod day_length - t mod day_length mod hour"
    by (simp add: minus_mod_eq_div_mult)
  moreover have "t mod day_length mod hour = t mod hour"
    by (rule mod_mod_cancel) (simp add: day_length_def)
  ultimately show ?thesis using time_split(1) [of t] by (simp add: Hour_def)
qed

lemma hour_jump_eq: "hour_jump t = t - t mod hour + hour"
  by (simp add: hour_jump_def Let_def DateTime_def Date_of_fields hour_split)

lemma jumps_forward: "t < month_jump t" "t < day_jump t" "t < hour_jump t"
proof -
  have "day_of t + 1 \<le> month_first (month_no (day_of t) + 1)"
    using month_no_bounds(2) [of "day_of t"] by simp
  then show "t < month_jump t"
    unfolding month_jump_eq using day_of_ge [of _ t] by (meson linorder_not_le zless_add1_eq less_le_trans add1_zle_eq)
  show "t < day_jump t" unfolding day_jump_eq using day_of_ge [of "day_of t + 1" t] by simp
  show "t < hour_jump t" using pos_mod_bound [of hour t] by (simp add: hour_jump_eq)
qed

function next_from :: "Schedule \<Rightarrow> time \<Rightarrow> time \<Rightarrow> time option" where
  "next_from s limit t =
     (if t < limit then
        if \<not> bit_set (sc_month s) (Month (day_of t)) then next_from s limit (month_jump t)
        else if \<not> dayMatches s t then next_from s limit (day_jump t)
        else if \<not> bit_set (sc_hour s) (Hour t) then next_from s limit (hour_jump t)
        else if \<not> bit_set (sc_minute s) (Minute t) then next_from s limit (t + minute)
        else Some t
      else None)"
  by pat_completeness auto
termination
  by (relation "measure (\<lambda>(s, limit, t). nat (limit - t))") (use jumps_forward in \<open>auto simp: less_diff_eq nat_less_iff\<close>)

declare next_from.simps [simp del]

definition next_minute :: "time \<Rightarrow> time" where
  "next_minute t = time_truncate t minute + minute"

text \<open>\<open>None\<close> is the error: the schedule does not fire within four years.\<close>

definition NextFire :: "Schedule \<Rightarrow> time \<Rightarrow> time option" where
  "NextFire s t = (let u = next_minute t in next_from s (AddDate u 4 0 0) u)"

section \<open>The search against a scan of every minute\<close>

definition matches :: "Schedule \<Rightarrow> time \<Rightarrow> bool" where
  "matches s t \<longleftrightarrow> bit_set (sc_month s) (Month (day_of t)) \<and> dayMatches s t \<and>
     bit_set (sc_hour s) (Hour t) \<and> bit_set (sc_minute s) (Minute t)"

text \<open>The minutes from \<open>lo\<close> on, below \<open>hi\<close>.\<close>

definition minutes :: "time \<Rightarrow> time \<Rightarrow> time list" where
  "minutes lo hi = map (\<lambda>k. lo + k * minute) [0..(hi - lo - 1) div minute]"

definition next_by_minutes :: "Schedule \<Rightarrow> time \<Rightarrow> time option" where
  "next_by_minutes s t =
     (let u = next_minute t in find (matches s) (minutes u (AddDate u 4 0 0)))"

lemma minutes_Nil: "hi \<le> lo \<Longrightarrow> minutes lo hi = []"
proof -
  assume "hi \<le> lo"
  then have "(hi - lo - 1) div minute < 0" using minute_pos by (simp add: pos_imp_zdiv_neg_iff)
  then show ?thesis by (simp add: minutes_def)
qed

lemma minutes_Cons: "lo < hi \<Longrightarrow> minutes lo hi = lo # minutes (lo + minute) hi"
proof -
  assume "lo < hi"
  let ?n = "(hi - lo - 1) div minute"
  have n: "0 \<le> ?n" using \<open>lo < hi\<close> by (simp add: pos_imp_zdiv_nonneg_iff)
  have m: "(hi - (lo + minute) - 1) div minute = ?n - 1"
    using div_mult_self2 [of minute "hi - lo - 1" "- 1"] minute_pos by (simp add: algebra_simps)
  have "[0..?n] = 0 # [1..?n]" using n by (simp add: upto_rec1)
  also have "[1..?n] = map (\<lambda>k. k + 1) [0..?n - 1]" by (rule nth_equalityI) (auto simp: nth_upto)
  finally have "minutes lo hi = lo # map (\<lambda>k. lo + minute + k * minute) [0..?n - 1]"
    by (simp add: minutes_def comp_def distrib_right add.assoc add.commute)
  then show ?thesis unfolding minutes_def m .
qed

lemma find_minutes_skip:
  assumes "\<And>u. t \<le> u \<Longrightarrow> u < t + int k * minute \<Longrightarrow> \<not> matches s u"
  shows "find (matches s) (minutes t limit) = find (matches s) (minutes (t + int k * minute) limit)"
  using assms
proof (induction k arbitrary: t)
  case (Suc k)
  show ?case
  proof (cases "t < limit")
    case True
    moreover have "\<not> matches s t" using Suc.prems [of t] minute_pos by (simp add: add_pos_nonneg)
    moreover have "\<not> matches s u" if "t + minute \<le> u" "u < t + minute + int k * minute" for u
      using Suc.prems [of u] that minute_pos by (simp add: algebra_simps)
    ultimately show ?thesis using Suc.IH [of "t + minute"] by (simp add: minutes_Cons algebra_simps)
  next
    case False
    moreover have "limit \<le> t + int (Suc k) * minute" using False mult_nonneg_nonneg [of "int (Suc k)" minute] minute_pos by linarith
    ultimately show ?thesis by (simp only: minutes_Nil not_less)
  qed
qed simp

lemma next_skip:
  assumes "minute dvd t" and "minute dvd j" and "t \<le> j"
    and "\<And>u. t \<le> u \<Longrightarrow> u < j \<Longrightarrow> \<not> matches s u"
  shows "find (matches s) (minutes t limit) = find (matches s) (minutes j limit)"
proof -
  obtain q where q: "j - t = minute * q" using assms(1,2) by (meson dvd_def dvd_diff)
  then have "0 \<le> q" using assms(3) minute_pos by (metis diff_ge_0_iff_ge mult.commute zero_le_mult_iff not_less)
  then have "j = t + int (nat q) * minute" using q by (simp add: algebra_simps)
  then show ?thesis using find_minutes_skip [of t "nat q"] assms(4) by metis
qed

section \<open>What a jump skips\<close>

lemma day_of_mono: "t \<le> u \<Longrightarrow> day_of t \<le> day_of u"
  by (simp add: day_of_def zdiv_mono1)

lemma day_of_less: "u < n * day_length \<Longrightarrow> day_of u < n"
  using day_of_ge [of n u] by simp

lemma same_month: "t \<le> u \<Longrightarrow> u < month_jump t \<Longrightarrow> Month (day_of u) = Month (day_of t)"
proof -
  assume "t \<le> u" and "u < month_jump t"
  then have "month_first (month_no (day_of t)) \<le> day_of u" "day_of u < month_first (month_no (day_of t) + 1)"
    using day_of_mono [of t u] month_no_bounds(1) [of "day_of t"] day_of_less by (simp_all add: month_jump_eq)
  then have "month_no (day_of u) = month_no (day_of t)" by (rule month_no_unique)
  then show ?thesis by (simp add: fields_of_month_no)
qed

lemma same_day: "t \<le> u \<Longrightarrow> u < day_jump t \<Longrightarrow> day_of u = day_of t"
  using day_of_mono [of t u] day_of_less [of u "day_of t + 1"] by (simp add: day_jump_eq)

lemma Hour_eq: "Hour t = t div hour mod 24"
proof -
  have "t mod day_length = hour * (t div hour mod 24) + t mod hour"
    using zmod_zmult2_eq [of 24 t hour] by (simp add: day_length_def mult.commute)
  then show ?thesis using hour_pos by (simp add: Hour_def div_add1_eq)
qed

lemma same_hour: "t \<le> u \<Longrightarrow> u < hour_jump t \<Longrightarrow> Hour u = Hour t"
proof -
  assume u: "t \<le> u" "u < hour_jump t"
  then have "u < (t div hour + 1) * hour"
    by (simp add: hour_jump_eq minus_mod_eq_div_mult distrib_right)
  moreover have "u div hour * hour \<le> u" using pos_mod_sign [of hour u] hour_pos by (simp flip: minus_mod_eq_div_mult)
  ultimately have "u div hour * hour < (t div hour + 1) * hour" by (rule le_less_trans [rotated])
  then have "u div hour < t div hour + 1" using hour_pos by (simp add: mult_less_cancel_right)
  moreover have "t div hour \<le> u div hour" using u hour_pos by (simp add: zdiv_mono1)
  ultimately show ?thesis by (simp add: Hour_eq)
qed

lemma minute_dvd: "minute dvd hour" "minute dvd day_length"
  by (simp_all add: hour_def day_length_def)

lemma jumps_on_minutes: "minute dvd month_jump t" "minute dvd day_jump t" "minute dvd hour_jump t"
  using minute_dvd by (simp_all add: month_jump_eq day_jump_eq hour_jump_eq minus_mod_eq_div_mult dvd_add)

lemma next_from_eq_scan: "minute dvd t \<Longrightarrow> next_from s limit t = find (matches s) (minutes t limit)"
proof (induction s limit t rule: next_from.induct)
  case (1 s limit t)
  note forward = less_imp_le [OF jumps_forward(1)] less_imp_le [OF jumps_forward(2)] less_imp_le [OF jumps_forward(3)]
  show ?case
  proof (cases "t < limit")
    case False
    then show ?thesis by (subst next_from.simps) (simp add: minutes_Nil)
  next
    case t: True
    consider (month) "\<not> bit_set (sc_month s) (Month (day_of t))"
      | (day) "bit_set (sc_month s) (Month (day_of t))" "\<not> dayMatches s t"
      | (hour) "bit_set (sc_month s) (Month (day_of t))" "dayMatches s t" "\<not> bit_set (sc_hour s) (Hour t)"
      | (minute) "bit_set (sc_month s) (Month (day_of t))" "dayMatches s t" "bit_set (sc_hour s) (Hour t)"
          "\<not> bit_set (sc_minute s) (Minute t)"
      | (hit) "matches s t"
      by (auto simp: matches_def)
    then show ?thesis
    proof cases
      case month
      then have "next_from s limit t = find (matches s) (minutes (month_jump t) limit)"
        using "1.IH"(1) t jumps_on_minutes by (subst next_from.simps) simp
      moreover have "\<not> matches s u" if "t \<le> u" "u < month_jump t" for u
        using same_month [OF that] month by (simp add: matches_def)
      ultimately show ?thesis using next_skip [OF "1.prems" jumps_on_minutes(1) forward(1)] by metis
    next
      case day
      then have "next_from s limit t = find (matches s) (minutes (day_jump t) limit)"
        using "1.IH"(2) t jumps_on_minutes by (subst next_from.simps) simp
      moreover have "\<not> matches s u" if "t \<le> u" "u < day_jump t" for u
        using same_day [OF that] day by (simp add: matches_def dayMatches_def)
      ultimately show ?thesis using next_skip [OF "1.prems" jumps_on_minutes(2) forward(2)] by metis
    next
      case hour
      then have "next_from s limit t = find (matches s) (minutes (hour_jump t) limit)"
        using "1.IH"(3) t jumps_on_minutes by (subst next_from.simps) simp
      moreover have "\<not> matches s u" if "t \<le> u" "u < hour_jump t" for u
        using same_hour [OF that] hour by (simp add: matches_def)
      ultimately show ?thesis using next_skip [OF "1.prems" jumps_on_minutes(3) forward(3)] by metis
    next
      case minute
      then have "next_from s limit t = find (matches s) (minutes (t + Go_Time.minute) limit)"
        using "1.IH"(4) t "1.prems" by (subst next_from.simps) simp
      moreover have "\<not> matches s t" using minute by (simp add: matches_def)
      ultimately show ?thesis using t by (simp add: minutes_Cons)
    next
      case hit
      then show ?thesis using t by (subst next_from.simps) (simp add: minutes_Cons matches_def)
    qed
  qed
qed

text \<open>
  C30. The search that jumps by months, days and hours finds exactly what trying every minute of the next
  four years finds, for every schedule and every instant: the first matching minute strictly after
  it, or the report that there is none.
\<close>

theorem next_equals_minute_scan: "NextFire s t = next_by_minutes s t"
proof -
  have "next_minute t = (t div minute + 1) * minute"
    by (simp add: next_minute_def time_truncate_def minus_mod_eq_div_mult distrib_right)
  then have "minute dvd next_minute t" by simp
  then show ?thesis by (simp add: NextFire_def next_by_minutes_def next_from_eq_scan)
qed

section \<open>Parsing returns\<close>

text \<open>The loop over a range ends for every step an \<open>int\<close> can hold: either the value passes the end of the
  range, or the addition wraps and the next shift panics.\<close>

lemma range_mask_returns:
  assumes "hi < 2 ^ 62" and "0 < step" and "step < 2 ^ 63"
  shows "\<exists>r. range_mask f v hi step bits = Some r"
  using assms
proof (induction "nat (hi + 1 - v)" arbitrary: v bits rule: less_induct)
  case less
  show ?case
  proof (cases "v \<le> hi \<and> 0 \<le> fold7 v f")
    case True
    then have v: "0 \<le> v" "v \<le> hi" by (auto simp: fold7_def split: if_splits)
    let ?w = "int_add v step"
    have w: "v < ?w \<or> ?w < 0" using v less.prems by (simp add: int_add_def Let_def)
    have "\<exists>r. range_mask f ?w hi step b = Some r" for b
    proof (cases "v < ?w")
      case True
      then show ?thesis using less v by simp
    next
      case False
      then have "fold7 ?w f < 0" "?w \<le> hi" using w v by (auto simp: fold7_def)
      then show ?thesis by (subst range_mask.simps) simp
    qed
    then show ?thesis using True by (subst range_mask.simps) auto
  next
    case False
    then show ?thesis by (subst range_mask.simps) auto
  qed
qed

lemma Atoi_bounds: "Atoi s = Some n \<Longrightarrow> n < 2 ^ 63"
  by (auto simp: Atoi_def Let_def split: if_splits)

lemma range_step_bounds: "range_step s = Inr (body, step) \<Longrightarrow> 0 < step \<and> step < 2 ^ 63"
  using Atoi_bounds by (fastforce simp: range_step_def split: option.splits if_splits prod.splits)

lemma range_bounds_upper: "range_bounds body step f = Inr (lo, hi) \<Longrightarrow> hi \<le> f_max f"
  by (auto simp: range_bounds_def parseValue_def split: option.splits if_splits prod.splits sum.splits)

lemma parseRange_returns:
  assumes "f_max f < 2 ^ 62"
  shows "\<exists>r. parseRange s f = Some r"
proof (cases "range_step s")
  case (Inr p)
  obtain body step where p: "p = (body, step)" by (cases p)
  show ?thesis
  proof (cases "range_bounds body step f")
    case (Inr q)
    obtain lo hi where q: "q = (lo, hi)" by (cases q)
    have "hi < 2 ^ 62" "0 < step" "step < 2 ^ 63"
      using range_bounds_upper [of body step f lo hi] range_step_bounds [of s body step] \<open>range_step s = Inr p\<close> Inr p q assms
      by auto
    from range_mask_returns [OF this] obtain r where "range_mask f lo hi step 0 = Some r" by blast
    then show ?thesis using \<open>range_step s = Inr p\<close> Inr by (simp add: parseRange_def p q)
  qed (use \<open>range_step s = Inr p\<close> in \<open>simp add: parseRange_def p\<close>)
qed (simp add: parseRange_def)

lemma parse_items_returns: "f_max f < 2 ^ 62 \<Longrightarrow> \<exists>r. parse_items alone f xs bits star = Some r"
proof (induction xs arbitrary: bits star)
  case (Cons x xs)
  obtain r where "parseRange x f = Some r" using parseRange_returns [OF Cons.prems] by blast
  then show ?case using Cons by (cases r) auto
qed simp

lemma parse_parts_returns: "(\<And>s f. (s, f) \<in> set xs \<Longrightarrow> f_max f < 2 ^ 62) \<Longrightarrow> \<exists>r. parse_parts xs = Some r"
proof (induction xs)
  case (Cons x xs)
  obtain s f where x: "x = (s, f)" by (cases x)
  obtain r where "parseField s f = Some r" using parse_items_returns Cons.prems x by (fastforce simp: parseField_def)
  moreover obtain r' where "parse_parts xs = Some r'" using Cons by fastforce
  ultimately show ?case by (cases r; cases r') (simp_all add: x)
qed simp

theorem Parse_returns: "\<exists>r. Parse expr = Some r"
proof -
  have "f_max f < 2 ^ 62" if "(s, f) \<in> set (zip (Fields expr) fields)" for s f
    using set_zip_rightD [OF that] by (auto simp: fields_def)
  then have "\<exists>r. parse_parts (zip (Fields expr) fields) = Some r" by (rule parse_parts_returns)
  then show ?thesis by (auto simp: Parse_def Let_def)
qed

end
