(* ===== verification/Cron_Examples.thy ===== *)
theory Cron_Examples
  imports Cron
begin

text \<open>
  Three limits of the cron component, on concrete expressions: a step in a day field has no effect, the
  horizon of the search misses leap days, and a huge step makes the parser panic.
\<close>

lemma bit_set_bit: "0 \<le> n \<Longrightarrow> n < 64 \<Longrightarrow> bit_set w n \<longleftrightarrow> bit w (nat n)"
  by (auto simp: bit_set_def bit_iff_and_push_bit_not_eq_0)

lemma Minute_midnight: "Hour (n * day_length) = 0" "Minute (n * day_length) = 0"
proof -
  have "n * day_length mod hour = 0" by (simp add: day_length_def)
  then show "Minute (n * day_length) = 0" "Hour (n * day_length) = 0"
    by (simp_all add: Minute_def Hour_def)
qed

definition every_midnight :: Schedule where
  "every_midnight = \<lparr>sc_minute = 1, sc_hour = 1, sc_dom = 0xAAAAAAAA, sc_month = 0x1FFE, sc_dow = 127,
     sc_domStar = True, sc_dowStar = True\<rparr>"

lemmas parse_eval = parseField_def parseRange_def range_step_def range_bounds_def cut_byte_def parseValue_def
  Atoi_def dec_value_def is_digit_def range_mask.simps fold7_def int_add_def Let_def

lemma Parse_every_other_day: "Parse ''0 0 */2 * *'' = Some (Inr every_midnight)"
proof -
  have "Fields ''0 0 */2 * *'' = [''0'', ''0'', ''*/2'', ''*'', ''*'']" by (simp add: Fields_def is_space_def)
  moreover have "parseField ''0'' (fields ! 0) = Some (Inr (1, False))" by (simp add: parse_eval fields_def)
  moreover have "parseField ''0'' (fields ! 1) = Some (Inr (1, False))" by (simp add: parse_eval fields_def)
  moreover have "parseField ''*/2'' (fields ! 2) = Some (Inr (0xAAAAAAAA, True))" by (simp add: parse_eval fields_def)
  moreover have "parseField ''*'' (fields ! 3) = Some (Inr (0x1FFE, True))" by (simp add: parse_eval fields_def)
  moreover have "parseField ''*'' (fields ! 4) = Some (Inr (127, True))" by (simp add: parse_eval fields_def)
  ultimately show ?thesis
    by (simp add: Parse_def every_midnight_def fields_def)
qed

lemma month_bits: "1 \<le> m \<Longrightarrow> m \<le> 12 \<Longrightarrow> bit_set (0x1FFE :: 64 word) m"
proof -
  assume "1 \<le> m" and "m \<le> 12"
  then have "m - 1 \<in> {0, 1, 2, 3, 4, 5, 6, 7, 8, 9, 10, 11}" using month_numbers [of "m - 1"] by simp
  then have "m \<in> {1, 2, 3, 4, 5, 6, 7, 8, 9, 10, 11, 12}" by auto
  then show ?thesis by (elim insertE emptyE) (simp_all add: bit_set_def)
qed

text \<open>
  A step in a day field is ignored. The expression \<open>0 0 */2 * *\<close> sets the odd days only in its mask, but
  the field counts as a star because its body is one, and with both day fields starred no mask is
  consulted: the schedule fires at midnight of every day.
\<close>

theorem day_step_is_ignored:
  "\<exists>s. Parse ''0 0 */2 * *'' = Some (Inr s) \<and> \<not> bit_set (sc_dom s) 2 \<and> (\<forall>n. matches s (n * day_length))"
proof -
  have "matches every_midnight (n * day_length)" for n
    using month_bits Month_bounds(1,2)
    by (simp add: matches_def dayMatches_def Let_def every_midnight_def Minute_midnight) (simp add: bit_set_def)
  moreover have "\<not> bit_set (sc_dom every_midnight) 2" by (simp add: bit_set_def every_midnight_def)
  ultimately show ?thesis using Parse_every_other_day by blast
qed

definition leap_days :: Schedule where
  "leap_days = \<lparr>sc_minute = 1, sc_hour = 1, sc_dom = 0x20000000, sc_month = 4, sc_dow = 127,
     sc_domStar = False, sc_dowStar = True\<rparr>"

lemma Parse_leap_days: "Parse ''0 0 29 2 *'' = Some (Inr leap_days)"
proof -
  have "Fields ''0 0 29 2 *'' = [''0'', ''0'', ''29'', ''2'', ''*'']" by (simp add: Fields_def is_space_def)
  moreover have "parseField ''0'' (fields ! 0) = Some (Inr (1, False))" by (simp add: parse_eval fields_def)
  moreover have "parseField ''0'' (fields ! 1) = Some (Inr (1, False))" by (simp add: parse_eval fields_def)
  moreover have "parseField ''29'' (fields ! 2) = Some (Inr (0x20000000, False))" by (simp add: parse_eval fields_def)
  moreover have "parseField ''2'' (fields ! 3) = Some (Inr (4, False))" by (simp add: parse_eval fields_def)
  moreover have "parseField ''*'' (fields ! 4) = Some (Inr (127, True))" by (simp add: parse_eval fields_def)
  ultimately show ?thesis
    by (simp add: Parse_def leap_days_def fields_def)
qed

lemma matches_leap_days:
  "matches leap_days t \<longleftrightarrow>
     bit_set 4 (Month (day_of t)) \<and> bit_set 0x20000000 (Day (day_of t)) \<and> bit_set 1 (Hour t) \<and> bit_set 1 (Minute t)"
  by (simp add: matches_def dayMatches_def leap_days_def Let_def)

lemma bit_set_pow: "0 \<le> n \<Longrightarrow> n < 64 \<Longrightarrow> k < 64 \<Longrightarrow> bit_set (2 ^ k) n \<longleftrightarrow> n = int k"
  by (auto simp: bit_set_bit bit_simps)

lemma Day_bounds: "1 \<le> Day n" "Day n \<le> month_first (month_no n + 1) - month_first (month_no n)"
  using month_no_bounds [of n] by (simp_all add: Day_eq)

lemma february_29_leap: "Month n = 2 \<Longrightarrow> Day n = 29 \<Longrightarrow> is_leap (Year n)"
  using Day_bounds(2) [of n] month_first_year [of 1 "Year n"] month_first_year [of 2 "Year n"]
  by (simp add: month_no_def month_start_def ac_simps split: if_splits)

lemma Day_less: "Day n < 64"
proof -
  define y m where "y = Year n" and "m = Month n - 1"
  have m: "m \<in> {0, 1, 2, 3, 4, 5, 6, 7, 8, 9, 10, 11}" using month_numbers [of m] Month_bounds [of n] by (simp add: m_def)
  have "month_first (12 * y + m + 1) - month_first (12 * y + m) < 64"
  proof (cases "m = 11")
    case True
    then show ?thesis
      using month_first_year [of 11 y] month_first_next_year [of y] days_before_year_Suc [of y]
      by (simp add: month_start_def ac_simps)
  next
    case False
    then have "month_start l (m + 1 + 1) - month_start l (m + 1) < 64" for l
      using m by (elim insertE emptyE) (simp_all add: month_start_def)
    moreover have "0 \<le> m" "m \<le> 10" using m False by auto
    ultimately show ?thesis
      using month_first_year [of m y] month_first_year [of "m + 1" y] by (simp add: add.assoc)
  qed
  then show ?thesis using Day_bounds(2) [of n] by (simp add: y_def m_def month_no_def)
qed

lemma month_no_mono: "d \<le> e \<Longrightarrow> month_no d \<le> month_no e"
  using month_no_bounds [of d] month_no_bounds [of e] month_first_mono [of "month_no e + 1" "month_no d"] by force

lemma month_no_first [simp]: "month_no (month_first k) = k"
  by (rule month_no_unique) (use month_first_less [of k] in simp_all)

lemma first_of_month: "Day (month_first k) = 1" "Year (month_first k) = k div 12" "Month (month_first k) = k mod 12 + 1"
  by (simp_all add: Day_eq fields_of_month_no)

lemma minute_in_day [simp]: "day_of (n * day_length + minute) = n" "(n * day_length + minute) mod day_length = minute"
  by (simp_all add: day_of_def day_length_def hour_def minute_def second_def)

lemma minutes_bounds: "v \<in> set (minutes lo hi) \<Longrightarrow> lo \<le> v \<and> v < hi"
proof -
  assume "v \<in> set (minutes lo hi)"
  then obtain k where k: "v = lo + k * minute" "0 \<le> k" "k \<le> (hi - lo - 1) div minute"
    unfolding minutes_def set_map set_upto image_iff Bex_def atLeastAtMost_iff by blast
  then have "k * minute \<le> (hi - lo - 1) div minute * minute" by (simp add: mult_right_mono)
  also have "\<dots> \<le> hi - lo - 1" unfolding minus_mod_eq_div_mult [symmetric] using pos_mod_sign [OF minute_pos, of "hi - lo - 1"] by linarith
  finally show ?thesis using k mult_nonneg_nonneg [of k minute] minute_pos by linarith
qed

text \<open>
  The horizon of four years does not cover every leap day: from 1 March 2096 on, a schedule for 29
  February is reported as one that never fires, although it matches midnight of that day in 2104.
\<close>

theorem leap_day_beyond_horizon:
  "\<exists>s. Parse ''0 0 29 2 *'' = Some (Inr s) \<and> NextFire s (DateTime 2096 3 1 0) = None \<and>
    matches s (DateTime 2104 2 29 0)"
proof -
  let ?k = "12 * 2096 + 2 :: int" and ?k' = "12 * 2100 + 2 :: int"
  have t: "DateTime 2096 3 1 0 = month_first ?k * day_length" by (simp add: DateTime_def Date_eq)
  have u: "next_minute (DateTime 2096 3 1 0) = month_first ?k * day_length + minute"
    unfolding t next_minute_def time_truncate_def by (simp add: day_length_def hour_def)
  have limit: "AddDate (month_first ?k * day_length + minute) 4 0 0 = month_first ?k' * day_length + minute"
    using minute_in_day first_of_month [of ?k] by (simp add: AddDate_def Let_def Date_eq)
  have "\<not> matches leap_days v"
    if "v \<in> set (minutes (month_first ?k * day_length + minute) (month_first ?k' * day_length + minute))" for v
  proof
    let ?d = "day_of v"
    assume "matches leap_days v"
    then have d: "Month ?d = 2" "Day ?d = 29"
      using bit_set_pow [of "Month ?d" 2] bit_set_pow [of "Day ?d" 29] Month_bounds [of ?d] Day_bounds(1) [of ?d] Day_less [of ?d]
      by (simp_all add: matches_leap_days)
    have "month_first ?k \<le> ?d" "?d \<le> month_first ?k'"
      using minutes_bounds [OF that] day_of_mono [of "month_first ?k * day_length + minute" v] day_of_mono [of v "month_first ?k' * day_length + minute"]
      by (auto dest: less_imp_le)
    then have "?k \<le> month_no ?d" "month_no ?d \<le> ?k'" using month_no_mono by fastforce+
    then have "2097 \<le> Year ?d" "Year ?d \<le> 2100" using d by (simp_all add: month_no_def)
    then have "Year ?d \<in> {2097, 2098, 2099, 2100}" by auto
    then show False using february_29_leap [OF d] by (auto simp: is_leap_def)
  qed
  then have "NextFire leap_days (DateTime 2096 3 1 0) = None"
    unfolding next_equals_minute_scan next_by_minutes_def u Let_def limit find_None_iff by blast
  moreover have "matches leap_days (DateTime 2104 2 29 0)"
  proof -
    let ?n = "month_first (12 * 2104 + 1) + 28"
    have n: "DateTime 2104 2 29 0 = ?n * day_length" by (simp add: DateTime_def Date_eq)
    have m: "month_no ?n = 12 * 2104 + 1"
      using month_first_year [of 1 2104] month_first_year [of 2 2104]
      by (intro month_no_unique) (simp_all add: is_leap_def month_start_def)
    then have "Month ?n = 2" "Day ?n = 29" by (simp_all add: fields_of_month_no Day_eq)
    then show ?thesis unfolding n matches_leap_days by (simp add: Minute_midnight bit_set_def)
  qed
  ultimately show ?thesis using Parse_leap_days by blast
qed

text \<open>
  A step that fits an \<open>int\<close> but whose addition overflows makes the loop of \<open>parseRange\<close> continue at a
  negative value, and shifting by it panics.
\<close>

theorem step_overflow_panics:
  "Parse ''0 0 */9223372036854775807 * *'' = Some (Inl NegativeShift)"
proof -
  have "Fields ''0 0 */9223372036854775807 * *'' = [''0'', ''0'', ''*/9223372036854775807'', ''*'', ''*'']"
    by (simp add: Fields_def is_space_def)
  moreover have "parseField ''0'' (fields ! 0) = Some (Inr (1, False))" by (simp add: parse_eval fields_def)
  moreover have "parseField ''0'' (fields ! 1) = Some (Inr (1, False))" by (simp add: parse_eval fields_def)
  moreover have "parseField ''*/9223372036854775807'' (fields ! 2) = Some (Inl NegativeShift)"
    by (simp add: parse_eval fields_def)
  ultimately show ?thesis by (simp add: Parse_def fields_def)
qed

end
