(* ===== verification/Go_Float.thy ===== *)
theory Go_Float
  imports Complex_Main Go_Time "HOL-Library.Log_Nat"
begin

text \<open>
  Go's \<open>float64\<close> and \<open>float32\<close> as the metrics and the autoscaler use them: a finite value is the rational it
  stands for, and every operation rounds its exact result to 53 or 24 significant bits, to the
  nearest with ties to even. NaN is \<open>None\<close> where the code uses it as a marker. The exponent is not
  bounded: the values (percentages, counts, latencies and their means) stay far from both ends.
\<close>

definition pow2 :: "int \<Rightarrow> rat" where
  "pow2 e = (if 0 \<le> e then 2 ^ nat e else 1 / 2 ^ nat (- e))"

text \<open>The exponent of a positive rational: \<open>pow2 e \<le> x < pow2 (e + 1)\<close>.\<close>

definition exponent_of :: "rat \<Rightarrow> int" where
  "exponent_of x =
     (case quotient_of x of (n, d) \<Rightarrow>
        let e = int (floorlog 2 (nat n)) - int (floorlog 2 (nat d)) in if pow2 e \<le> x then e else e - 1)"

definition round_even :: "rat \<Rightarrow> int" where
  "round_even x =
     (let n = \<lfloor>x\<rfloor>; r = x - of_int n in
      if r < 1 / 2 then n else if r > 1 / 2 then n + 1 else if even n then n else n + 1)"

definition round_bits :: "nat \<Rightarrow> rat \<Rightarrow> rat" where
  "round_bits p x =
     (if x = 0 then 0
      else let u = pow2 (exponent_of \<bar>x\<bar> - (int p - 1)) in sgn x * (of_int (round_even (\<bar>x\<bar> / u)) * u))"

definition f64 :: "rat \<Rightarrow> rat" where "f64 = round_bits 53"
definition f32 :: "rat \<Rightarrow> rat" where "f32 = round_bits 24"

lemma pow2_pos [simp]: "0 < pow2 e"
  by (simp add: pow2_def)

lemma round_even_int [simp]: "round_even (of_int n) = n"
  by (simp add: round_even_def)

lemma exponent_of_nat:
  assumes "0 < n"
  shows "exponent_of (of_nat n) \<ge> 0" and "n < 2 ^ p \<Longrightarrow> exponent_of (of_nat n) < int p"
proof -
  let ?e = "int (floorlog 2 n) - 1"
  have q: "quotient_of (of_nat n) = (int n, 1)" using quotient_of_int [of "int n"] by simp
  have f: "2 ^ (floorlog 2 n - 1) \<le> n" using floorlog_bounds [of n 2] assms by simp
  have f0: "0 < floorlog 2 n" using assms by (simp add: floorlog_def)
  have "(of_nat (2 ^ (floorlog 2 n - 1)) :: rat) \<le> of_nat n" using f by (simp only: of_nat_le_iff)
  moreover have "0 \<le> ?e" "nat ?e = floorlog 2 n - 1" using f0 by auto
  ultimately have "pow2 ?e \<le> of_nat n" by (simp add: pow2_def)
  moreover have "floorlog 2 (nat 1) = 1" by (simp add: floorlog_def)
  ultimately have e: "exponent_of (of_nat n) = ?e"
    using q by (simp add: exponent_of_def Let_def)
  then show "exponent_of (of_nat n) \<ge> 0" using f0 by simp
  show "exponent_of (of_nat n) < int p" if "n < 2 ^ p"
  proof -
    have "(2::nat) ^ (floorlog 2 n - 1) < 2 ^ p" using f that by linarith
    then have "floorlog 2 n - 1 < p" by simp
    then show ?thesis using e f0 by simp
  qed
qed

text \<open>Integers below \<open>2 ^ 53\<close> are exact.\<close>

lemma f64_of_nat:
  assumes "n < 2 ^ 53"
  shows "f64 (of_nat n) = of_nat n"
proof (cases "n = 0")
  case False
  define k where "k = nat (52 - exponent_of (of_nat n))"
  have e: "exponent_of (of_nat n) - 52 = - int k" "0 \<le> 52 - exponent_of (of_nat n)"
    using exponent_of_nat(1) [of n] exponent_of_nat(2) [of n 53] assms False by (simp_all add: k_def)
  have u: "pow2 (exponent_of (of_nat n) - 52) = 1 / 2 ^ k" unfolding e(1) by (cases "k = 0") (simp_all add: pow2_def)
  have "of_nat n / (1 / 2 ^ k) = (of_int (int n * 2 ^ k) :: rat)" by simp
  then have "round_even (of_nat n / (1 / 2 ^ k)) = int n * 2 ^ k" by (metis round_even_int)
  then show ?thesis using False u by (simp add: f64_def round_bits_def Let_def sgn_if)
qed (simp add: f64_def round_bits_def)

end
