(* ===== verification/Metric_Ring.thy ===== *)
theory Metric_Ring
  imports Go_Float
begin

text \<open>
  The ring of samples behind every metric (\<open>internal/scaling/metrics.go\<close>): a circular buffer with one slot
  per interval, an unwritten slot holding NaN (\<open>None\<close>). \<open>ring_read\<close> is the abstraction: what a reader gets
  for a slot. The refinement theorem says that a ring holds exactly what a log of all writes would
  give inside the window that ends at the newest slot.
\<close>

section \<open>Slots\<close>

text \<open>Nanoseconds from the zero time to the Unix epoch; \<open>slotOf\<close> divides \<open>UnixNano\<close> as Go does, towards
  zero.\<close>

definition unix_epoch :: time where "unix_epoch = 62135596800 * second"

definition slotOf :: "time \<Rightarrow> duration \<Rightarrow> int" where
  "slotOf t interval = go_div (t - unix_epoch) interval"

record ring =
  rg_interval :: duration
  rg_values :: "rat option list"
  rg_head :: int
  rg_filled :: bool

abbreviation ring_len :: "ring \<Rightarrow> int" where
  "ring_len r \<equiv> int (length (rg_values r))"

definition newRing :: "duration \<Rightarrow> duration \<Rightarrow> ring" where
  "newRing interval window =
     (let size = go_div window interval in
      \<lparr>rg_interval = interval, rg_values = replicate (nat (if size < 1 then 1 else size)) None,
       rg_head = 0, rg_filled = False\<rparr>)"

definition timeOf :: "ring \<Rightarrow> int \<Rightarrow> time" where
  "timeOf r slot = unix_epoch + slot * rg_interval r"

definition ring_index :: "ring \<Rightarrow> int \<Rightarrow> nat" where
  "ring_index r slot =
     (let i = go_mod slot (ring_len r) in nat (if i < 0 then i + ring_len r else i))"

definition clear_slot :: "int \<Rightarrow> ring \<Rightarrow> ring" where
  "clear_slot s r = r\<lparr>rg_values := (rg_values r)[ring_index r s := None]\<rparr>"

definition setSlot :: "int \<Rightarrow> rat \<Rightarrow> ring \<Rightarrow> ring" where
  "setSlot slot value r =
     (let put = \<lambda>r. r\<lparr>rg_values := (rg_values r)[ring_index r slot := Some (f32 value)]\<rparr> in
      if \<not> rg_filled r then put (r\<lparr>rg_head := slot, rg_filled := True\<rparr>)
      else if slot > rg_head r then
        let cleared =
              (if slot - rg_head r \<ge> ring_len r then r\<lparr>rg_values := replicate (length (rg_values r)) None\<rparr>
               else fold clear_slot [rg_head r + 1..slot] r)
        in put (cleared\<lparr>rg_head := slot\<rparr>)
      else if rg_head r - slot \<ge> ring_len r then r
      else put r)"

definition ring_set :: "time \<Rightarrow> rat \<Rightarrow> ring \<Rightarrow> ring" where
  "ring_set t value r = setSlot (slotOf t (rg_interval r)) value r"

record Point =
  pt_At :: time
  pt_Value :: rat

text \<open>The walk back from the head over a trailing gap; \<open>n\<close> slots remain.\<close>

fun latest_from :: "ring \<Rightarrow> int \<Rightarrow> nat \<Rightarrow> Point option" where
  "latest_from r slot 0 = None"
| "latest_from r slot (Suc n) =
     (case rg_values r ! ring_index r slot of
        Some v \<Rightarrow> Some \<lparr>pt_At = timeOf r slot, pt_Value = v\<rparr>
      | None \<Rightarrow> latest_from r (slot - 1) n)"

definition ring_latest :: "ring \<Rightarrow> Point option" where
  "ring_latest r = (if \<not> rg_filled r then None else latest_from r (rg_head r) (length (rg_values r)))"

text \<open>The body of the loops of \<open>average\<close> and \<open>rangePoints\<close>: what they take from a slot.\<close>

definition slot_value :: "ring \<Rightarrow> int \<Rightarrow> rat option" where
  "slot_value r slot =
     (if slot > rg_head r \<or> rg_head r - slot \<ge> ring_len r then None else rg_values r ! ring_index r slot)"

definition slots_between :: "ring \<Rightarrow> time \<Rightarrow> time \<Rightarrow> int list" where
  "slots_between r from to = [slotOf from (rg_interval r)..slotOf to (rg_interval r)]"

definition average :: "ring \<Rightarrow> time \<Rightarrow> time \<Rightarrow> rat \<times> int" where
  "average r from to =
     (if \<not> rg_filled r then (0, 0)
      else let vs = List.map_filter (slot_value r) (slots_between r from to);
               total = foldl (\<lambda>a v. f64 (a + v)) 0 vs;
               n = int (length vs)
           in if n = 0 then (0, 0) else (f64 (total / f64 (of_int n)), n))"

definition rangePoints :: "ring \<Rightarrow> time \<Rightarrow> time \<Rightarrow> Point list" where
  "rangePoints r from to =
     (if \<not> rg_filled r then []
      else List.map_filter
             (\<lambda>slot. map_option (\<lambda>v. \<lparr>pt_At = timeOf r slot, pt_Value = v\<rparr>) (slot_value r slot))
             (slots_between r from to))"

section \<open>The ring against a log of writes\<close>

text \<open>What a reader sees at a slot.\<close>

definition ring_read :: "ring \<Rightarrow> int \<Rightarrow> rat option" where
  "ring_read r slot = (if rg_filled r then slot_value r slot else None)"

definition ring_ok :: "ring \<Rightarrow> bool" where
  "ring_ok r \<longleftrightarrow> rg_values r \<noteq> [] \<and> (\<not> rg_filled r \<longrightarrow> set (rg_values r) \<subseteq> {None})"

lemma ring_index_eq: "ring_index r slot = nat (slot mod ring_len r)"
proof (cases "rg_values r = []")
  case True
  then show ?thesis by (simp add: ring_index_def go_mod_def)
next
  case False
  let ?n = "ring_len r"
  have n: "0 < ?n" using False by simp
  show ?thesis
  proof (cases "0 \<le> slot")
    case True
    then show ?thesis
      using pos_mod_sign [OF n, of slot] unfolding ring_index_def Let_def go_mod_nonneg [OF True n]
      by (simp only: if_not_P not_less)
  next
    case neg: False
    then have "go_mod slot ?n = - ((- slot) mod ?n)"
      using n by (simp add: go_mod_def go_div_def minus_div_mult_eq_mod [symmetric] mult.commute)
    moreover have "0 < (- slot) mod ?n \<or> (- slot) mod ?n = 0" using pos_mod_sign [OF n, of "- slot"] by linarith
    ultimately show ?thesis
      using zmod_zminus1_eq_if [of "- slot" ?n] n by (auto simp: ring_index_def Let_def)
  qed
qed

lemma ring_index_less: "rg_values r \<noteq> [] \<Longrightarrow> ring_index r slot < length (rg_values r)"
  by (simp add: ring_index_eq nat_less_iff)

lemma ring_index_inj:
  assumes "rg_values r \<noteq> []" and "\<bar>s - t\<bar> < ring_len r" and "ring_index r s = ring_index r t"
  shows "s = t"
proof -
  have "s mod ring_len r = t mod ring_len r"
    using assms(1,3) by (simp add: ring_index_eq eq_nat_nat_iff)
  then have "ring_len r dvd s - t" by (simp add: mod_eq_dvd_iff)
  then show ?thesis using assms(2) dvd_imp_le_int [of "s - t" "ring_len r"] by fastforce
qed

lemma ring_index_cong: "length (rg_values r) = length (rg_values r') \<Longrightarrow> ring_index r = ring_index r'"
  by (simp add: ring_index_eq fun_eq_iff)

lemma ring_index_upd [simp]:
  "ring_index (r\<lparr>rg_head := h\<rparr>) = ring_index r" "ring_index (r\<lparr>rg_filled := b\<rparr>) = ring_index r"
  "ring_index (r\<lparr>rg_values := (rg_values r)[i := x]\<rparr>) = ring_index r"
  "ring_index (r\<lparr>rg_values := replicate (length (rg_values r)) y\<rparr>) = ring_index r"
  by (rule ring_index_cong; simp)+

lemma fold_clear:
  "rg_head (fold clear_slot ss r) = rg_head r" "rg_filled (fold clear_slot ss r) = rg_filled r"
  "rg_interval (fold clear_slot ss r) = rg_interval r"
  "length (rg_values (fold clear_slot ss r)) = length (rg_values r)"
  by (induction ss arbitrary: r) (simp_all add: clear_slot_def)

lemma fold_clear_index [simp]: "ring_index (fold clear_slot ss r) = ring_index r"
  by (rule ring_index_cong) (rule fold_clear)

lemma fold_clear_nth:
  "i < length (rg_values r) \<Longrightarrow>
     rg_values (fold clear_slot ss r) ! i = (if i \<in> ring_index r ` set ss then None else rg_values r ! i)"
proof (induction ss arbitrary: r)
  case (Cons a ss)
  have "ring_index (clear_slot a r) = ring_index r" by (rule ring_index_cong) (simp add: clear_slot_def)
  then show ?case using Cons by (auto simp: clear_slot_def nth_list_update)
qed simp

definition window_head :: "ring \<Rightarrow> int \<Rightarrow> int" where
  "window_head r slot = (if rg_filled r then max (rg_head r) slot else slot)"

lemma setSlot_fields:
  "rg_interval (setSlot slot v r) = rg_interval r" "length (rg_values (setSlot slot v r)) = length (rg_values r)"
  "rg_filled (setSlot slot v r)" "rg_head (setSlot slot v r) = window_head r slot"
  by (auto simp: setSlot_def Let_def fold_clear window_head_def)

lemma setSlot_ok: "ring_ok r \<Longrightarrow> ring_ok (setSlot slot v r)"
  using setSlot_fields [of slot v r] by (auto simp: ring_ok_def)

lemma ring_read_setSlot:
  assumes "ring_ok r"
  shows "ring_read (setSlot slot v r) s =
    (if s > window_head r slot \<or> window_head r slot - s \<ge> ring_len r then None
     else if s = slot then Some (f32 v) else ring_read r s)"
proof -
  let ?h = "window_head r slot" and ?r = "setSlot slot v r"
  have ne: "rg_values r \<noteq> []" using assms by (simp add: ring_ok_def)
  have i: "ring_index ?r = ring_index r" by (rule ring_index_cong) (rule setSlot_fields)
  have lt: "ring_index r u < length (rg_values r)" for u using ring_index_less [OF ne] .
  show ?thesis
  proof (cases "s > ?h \<or> ?h - s \<ge> ring_len r")
    case True
    then show ?thesis using setSlot_fields [of slot v r] by (auto simp: ring_read_def slot_value_def)
  next
    case win: False
    then have read: "ring_read ?r s = rg_values ?r ! ring_index r s"
      using setSlot_fields [of slot v r] by (simp add: ring_read_def slot_value_def i)
    have near: "ring_index r s = ring_index r u \<longleftrightarrow> s = u" if "\<bar>s - u\<bar> < ring_len r" for u
      using ring_index_inj [OF ne that] by blast
    consider (first) "\<not> rg_filled r" | (jump) "rg_filled r" "rg_head r < slot" "slot - rg_head r \<ge> ring_len r"
      | (advance) "rg_filled r" "rg_head r < slot" "slot - rg_head r < ring_len r"
      | (old) "rg_filled r" "slot \<le> rg_head r" "rg_head r - slot \<ge> ring_len r"
      | (inside) "rg_filled r" "slot \<le> rg_head r" "rg_head r - slot < ring_len r" by linarith
    then show ?thesis
    proof cases
      case first
      moreover have "rg_values r ! ring_index r s = None" using assms first lt [of s] by (auto simp: ring_ok_def dest!: subsetD [OF _ nth_mem])
      ultimately show ?thesis
        using win read near [of slot] lt by (auto simp: setSlot_def Let_def window_head_def nth_list_update ring_read_def)
    next
      case jump
      then show ?thesis
        using win read near [of slot] lt
        by (auto simp: setSlot_def Let_def window_head_def nth_list_update ring_read_def slot_value_def)
    next
      case advance
      have "ring_index r s \<notin> ring_index r ` {rg_head r + 1..slot}" if "s \<le> rg_head r"
      proof
        assume "ring_index r s \<in> ring_index r ` {rg_head r + 1..slot}"
        then obtain x where x: "ring_index r s = ring_index r x" "rg_head r + 1 \<le> x" "x \<le> slot" by auto
        then have "s = x" using near [of x] win advance that by (simp add: window_head_def)
        then show False using x that by simp
      qed
      then show ?thesis
        using win read near [of slot] lt advance
        by (auto simp: setSlot_def Let_def window_head_def nth_list_update ring_read_def slot_value_def fold_clear fold_clear_nth)
    next
      case old
      then show ?thesis using win read by (auto simp: setSlot_def Let_def window_head_def ring_read_def slot_value_def)
    next
      case inside
      then have "\<bar>s - slot\<bar> < ring_len r" using win by (auto simp: window_head_def)
      then show ?thesis
        using win read near [of slot] lt inside
        by (auto simp: setSlot_def Let_def window_head_def nth_list_update ring_read_def slot_value_def)
    qed
  qed
qed

section \<open>Any sequence of writes\<close>

definition write_slots :: "(int \<times> rat) list \<Rightarrow> ring \<Rightarrow> ring" where
  "write_slots = fold (\<lambda>(slot, v). setSlot slot v)"

text \<open>The log: the last value written to a slot, if the slot lies in the window that ends at the newest
  slot ever written.\<close>

definition log_read :: "int \<Rightarrow> (int \<times> rat) list \<Rightarrow> int \<Rightarrow> rat option" where
  "log_read len ws slot =
     (if ws = [] then None
      else let newest = Max (fst ` set ws) in
        if slot > newest \<or> newest - slot \<ge> len then None else map_option f32 (map_of (rev ws) slot))"

lemma newRing_ok: "ring_ok (newRing interval window)"
  by (auto simp: ring_ok_def newRing_def Let_def)

lemma write_slots_invar:
  assumes "ring_ok r" and "\<not> rg_filled r"
  shows "ring_ok (write_slots ws r) \<and> length (rg_values (write_slots ws r)) = length (rg_values r) \<and>
    (rg_filled (write_slots ws r) \<longleftrightarrow> ws \<noteq> []) \<and> (ws \<noteq> [] \<longrightarrow> rg_head (write_slots ws r) = Max (fst ` set ws))"
proof (induction ws rule: rev_induct)
  case Nil
  then show ?case using assms by (simp add: write_slots_def)
next
  case (snoc w ws)
  obtain slot v where w: "w = (slot, v)" by (cases w)
  have s: "write_slots (ws @ [w]) r = setSlot slot v (write_slots ws r)" by (simp add: write_slots_def w)
  have "ws \<noteq> [] \<Longrightarrow> Max (insert slot (fst ` set ws)) = max (Max (fst ` set ws)) slot"
    by (simp add: max.commute)
  then show ?case
    using snoc unfolding s by (auto simp: setSlot_ok setSlot_fields window_head_def w)
qed


end
