(* ===== verification/Metric_Store.thy ===== *)
theory Metric_Store
  imports Metric_Ring Kanea_Prelude
begin

text \<open>
  The in-memory metric store (\<open>internal/scaling/metrics.go\<close>): a ring of raw samples and a ring of one-minute
  means per series. The map of series is an association list; the mutex makes every method one
  step. The clock reading of a method is an argument.
\<close>

definition RawInterval :: duration where "RawInterval = 5 * second"
definition RawWindow :: duration where "RawWindow = hour"
definition RollupInterval :: duration where "RollupInterval = minute"
definition RollupWindow :: duration where "RollupWindow = 6 * hour"
definition MaxSeries :: nat where "MaxSeries = 20000"

record Key =
  k_Subject :: string
  k_Metric :: string

record seriesPair =
  se_raw :: ring
  se_rollup :: ring
  se_pendingSlot :: int
  se_pendingSum :: rat
  se_pendingCount :: int
  se_last :: time

text \<open>\<open>epoch\<close> is a 64-bit counter of created and dropped series; no run of the process wraps it.\<close>

record Metrics =
  mt_series :: "(Key \<times> seriesPair) list"
  mt_dropped :: int
  mt_epoch :: nat

definition NewMetrics :: Metrics where
  "NewMetrics = \<lparr>mt_series = [], mt_dropped = 0, mt_epoch = 0\<rparr>"

definition new_series :: "time \<Rightarrow> seriesPair" where
  "new_series t =
     \<lparr>se_raw = newRing RawInterval RawWindow, se_rollup = newRing RollupInterval RollupWindow,
      se_pendingSlot = slotOf t RollupInterval, se_pendingSum = 0, se_pendingCount = 0, se_last = 0\<rparr>"

text \<open>The part of \<open>Record\<close> that writes one series.\<close>

definition record_into :: "time \<Rightarrow> rat \<Rightarrow> seriesPair \<Rightarrow> seriesPair" where
  "record_into t v p =
     (let p = p\<lparr>se_raw := ring_set t v (se_raw p), se_last := t\<rparr>;
          slot = slotOf t RollupInterval;
          p = (if slot \<noteq> se_pendingSlot p then
                 let p = (if se_pendingCount p > 0
                          then p\<lparr>se_rollup := setSlot (se_pendingSlot p)
                                   (f64 (se_pendingSum p / f64 (of_int (se_pendingCount p)))) (se_rollup p)\<rparr>
                          else p)
                 in p\<lparr>se_pendingSlot := slot, se_pendingSum := 0, se_pendingCount := 0\<rparr>
               else p)
      in p\<lparr>se_pendingSum := f64 (se_pendingSum p + v), se_pendingCount := se_pendingCount p + 1\<rparr>)"

text \<open>A sample that is NaN is \<open>None\<close>.\<close>

definition RecordSample :: "Key \<Rightarrow> time \<Rightarrow> rat option \<Rightarrow> Metrics \<Rightarrow> Metrics" where
  "RecordSample key t value m =
     (case value of
        None \<Rightarrow> m
      | Some v \<Rightarrow>
          if k_Subject key = '''' \<or> k_Metric key = '''' then m
          else case map_of (mt_series m) key of
                 Some p \<Rightarrow> m\<lparr>mt_series := AList.update key (record_into t v p) (mt_series m)\<rparr>
               | None \<Rightarrow>
                   if length (mt_series m) \<ge> MaxSeries then m\<lparr>mt_dropped := mt_dropped m + 1\<rparr>
                   else m\<lparr>mt_series := AList.update key (record_into t v (new_series t)) (mt_series m),
                          mt_epoch := mt_epoch m + 1\<rparr>)"

definition Latest :: "Key \<Rightarrow> time \<Rightarrow> Metrics \<Rightarrow> Point option" where
  "Latest key now m =
     (case map_of (mt_series m) key of
        None \<Rightarrow> None
      | Some p \<Rightarrow>
          (case ring_latest (se_raw p) of
             None \<Rightarrow> None
           | Some pt \<Rightarrow> if time_sub now (pt_At pt) > RawWindow then None else Some pt))"

definition Average :: "Key \<Rightarrow> duration \<Rightarrow> time \<Rightarrow> Metrics \<Rightarrow> rat \<times> int" where
  "Average key window now m =
     (case map_of (mt_series m) key of
        None \<Rightarrow> (0, 0)
      | Some p \<Rightarrow> average (se_raw p) (now - window) now)"

definition rangeInterval :: "time \<Rightarrow> time \<Rightarrow> time \<Rightarrow> duration" where
  "rangeInterval now from to =
     (if time_sub to from \<le> RawWindow \<and> time_sub now from \<le> RawWindow then RawInterval else RollupInterval)"

definition RangePoints :: "Key \<Rightarrow> time \<Rightarrow> time \<Rightarrow> time \<Rightarrow> Metrics \<Rightarrow> Point list" where
  "RangePoints key from to now m =
     (case map_of (mt_series m) key of
        None \<Rightarrow> []
      | Some p \<Rightarrow>
          if rangeInterval now from to = RawInterval then rangePoints (se_raw p) from to
          else rangePoints (se_rollup p) from to)"

definition Subjects :: "string \<Rightarrow> Metrics \<Rightarrow> string list" where
  "Subjects metric m = sort (map (k_Subject \<circ> fst) (filter (\<lambda>e. k_Metric (fst e) = metric) (mt_series m)))"

definition isChildSubject :: "string \<Rightarrow> string \<Rightarrow> bool" where
  "isChildSubject sub service \<longleftrightarrow>
     length sub > length service + 1 \<and> take (length service) sub = service \<and> sub ! length service = CHR ''/''"

text \<open>The loop that \<open>Forget\<close> and \<open>Sweep\<close> share: drop the series that satisfy a condition, count them.\<close>

definition drop_series :: "(Key \<times> seriesPair \<Rightarrow> bool) \<Rightarrow> Metrics \<Rightarrow> Metrics \<times> nat" where
  "drop_series gone m =
     (let n = length (filter gone (mt_series m)) in
      (m\<lparr>mt_series := filter (\<lambda>e. \<not> gone e) (mt_series m), mt_epoch := mt_epoch m + n\<rparr>, n))"

definition ForgetSubject :: "string \<Rightarrow> Metrics \<Rightarrow> Metrics \<times> nat" where
  "ForgetSubject subject =
     drop_series (\<lambda>e. k_Subject (fst e) = subject \<or> isChildSubject (k_Subject (fst e)) subject)"

definition Sweep :: "time \<Rightarrow> Metrics \<Rightarrow> Metrics \<times> nat" where
  "Sweep now = drop_series (\<lambda>e. se_last (snd e) < now - RollupWindow)"

section \<open>The set of series\<close>

datatype metric_op = MRecord Key time "rat option" | MForget string | MSweep time

fun metric_step :: "metric_op \<Rightarrow> Metrics \<Rightarrow> Metrics" where
  "metric_step (MRecord key t v) m = RecordSample key t v m"
| "metric_step (MForget subject) m = fst (ForgetSubject subject m)"
| "metric_step (MSweep now) m = fst (Sweep now m)"

definition metrics_ok :: "Metrics \<Rightarrow> bool" where
  "metrics_ok m \<longleftrightarrow> distinct (map fst (mt_series m)) \<and> length (mt_series m) \<le> MaxSeries"

abbreviation series_keys :: "Metrics \<Rightarrow> Key set" where
  "series_keys m \<equiv> fst ` set (mt_series m)"

lemma series_length_update: "length (AList.update k v xs) = (if k \<in> fst ` set xs then length xs else Suc (length xs))"
  by (induction xs) auto

lemma map_of_key: "map_of xs k = Some v \<Longrightarrow> k \<in> fst ` set xs"
  by (metis map_of_eq_None_iff option.distinct(1))

lemma pair_key: "(k, v) \<in> set xs \<Longrightarrow> k \<in> fst ` set xs"
  by force

lemma distinct_filter_keys: "distinct (map fst xs) \<Longrightarrow> distinct (map fst (filter P xs))"
  by (induction xs) auto

lemma metric_step_ok: "metrics_ok m \<Longrightarrow> metrics_ok (metric_step op m)"
proof (cases op)
  case (MRecord key t v)
  assume "metrics_ok m"
  then show ?thesis
    using MRecord by (auto simp: metrics_ok_def RecordSample_def distinct_update series_length_update map_of_eq_None_iff
        split: option.splits dest: map_of_key pair_key)
qed (auto simp: metrics_ok_def ForgetSubject_def Sweep_def drop_series_def Let_def distinct_filter_keys
      intro: order_trans [OF length_filter_le])

lemma drop_series_epoch:
  "mt_epoch m \<le> mt_epoch (fst (drop_series g m)) \<and>
   (mt_epoch (fst (drop_series g m)) = mt_epoch m \<longrightarrow> mt_series (fst (drop_series g m)) = mt_series m)"
  by (auto simp: drop_series_def Let_def filter_empty_conv filter_id_conv)

lemma metric_step_epoch:
  "mt_epoch m \<le> mt_epoch (metric_step op m) \<and>
   (mt_epoch (metric_step op m) = mt_epoch m \<longrightarrow> series_keys (metric_step op m) = series_keys m)"
proof (cases op)
  case (MRecord key t v)
  then show ?thesis
    by (auto simp: RecordSample_def dom_update split: option.splits dest: map_of_SomeD intro: rev_image_eqI)
qed (use drop_series_epoch in \<open>simp_all add: ForgetSubject_def Sweep_def\<close>)

text \<open>
  The epoch is a sound cache key: along any sequence of samples, forgotten subjects and sweeps it
  never goes back, and as long as it has not moved the set of series is the same. The number of
  series stays within the cap throughout.
\<close>

theorem epoch_detects_key_changes:
  assumes "metrics_ok m"
  shows "metrics_ok (fold metric_step ops m) \<and> mt_epoch m \<le> mt_epoch (fold metric_step ops m) \<and>
    (mt_epoch (fold metric_step ops m) = mt_epoch m \<longrightarrow> series_keys (fold metric_step ops m) = series_keys m)"
  using assms
proof (induction ops arbitrary: m)
  case (Cons op ops)
  show ?case
    using Cons.IH [OF metric_step_ok [OF Cons.prems, of op]] metric_step_epoch [of m op] by auto
qed simp

end
