(* ===== verification/Autoscaler.thy ===== *)
theory Autoscaler
  imports Metric_Store Circuit_Breaker
begin

text \<open>
  The autoscaler (\<open>internal/scaling/evaluator.go\<close>, \<open>loop.go\<close>): the policy engine with its guardrails, and the
  pass over all services that asks the circuit breaker and writes the new count.

  \<^item> An evaluation reads the clock several times within microseconds; the model gives it one reading.
  \<^item> The sentence of a decision is the constructor of \<open>reason\<close> that produces it, with its numbers.
  \<^item> The fleet is an interface of the loop: reading the services and writing a count are arguments
    that act on a state of their own. The Store behind it is modelled in \<open>Scale_Fleet\<close>.
\<close>

section \<open>Policies and state\<close>

record Rule =
  ru_Metric :: string
  ru_Target :: rat

record Policy =
  po_Min :: int
  po_Max :: int
  po_Rules :: "Rule list"
  po_Cooldown :: duration

definition Enabled :: "Policy \<Rightarrow> bool" where
  "Enabled p \<longleftrightarrow> po_Max p > 0 \<and> po_Rules p \<noteq> []"

definition DefaultAverageWindow :: duration where "DefaultAverageWindow = 15 * second"
definition DefaultMinPoints :: int where "DefaultMinPoints = 3"
definition DefaultScaleDownStabilization :: duration where "DefaultScaleDownStabilization = 5 * minute"
definition DefaultCooldown :: duration where "DefaultCooldown = 2 * minute"
definition DefaultTolerance :: rat where "DefaultTolerance = f64 (1 / 10)"
definition DefaultMaxScaleUpFactor :: rat where "DefaultMaxScaleUpFactor = 2"
definition DefaultMaxScaleDownFactor :: rat where "DefaultMaxScaleDownFactor = 1 / 2"

datatype reason =
  NoPolicy | NoMetrics | NoFullWindow int duration | WasHigher int string duration
  | WithinTolerance string rat rat | WaitingCooldown int duration | Moves string rat rat int int

record Decision =
  de_Service :: string
  de_Current :: int
  de_Desired :: int
  de_Changed :: bool
  de_Rule :: string
  de_Reason :: reason
  de_Observed :: rat
  de_Target :: rat

record EvaluatorConfig =
  ec_AverageWindow :: duration
  ec_MinPoints :: int
  ec_ScaleDownStabilization :: duration
  ec_Tolerance :: rat
  ec_MaxScaleUpFactor :: rat
  ec_MaxScaleDownFactor :: rat

record serviceState =
  ss_lastChange :: time
  ss_since :: time
  ss_history :: "(time \<times> int) list"

record Evaluator =
  ev_window :: duration
  ev_minPoints :: int
  ev_stabilize :: duration
  ev_tolerance :: rat
  ev_upFactor :: rat
  ev_downStep :: rat
  ev_state :: "serviceState gomap"

definition NewEvaluator :: "EvaluatorConfig \<Rightarrow> Evaluator" where
  "NewEvaluator cfg =
     \<lparr>ev_window = (if ec_AverageWindow cfg \<le> 0 then DefaultAverageWindow else ec_AverageWindow cfg),
      ev_minPoints = (if ec_MinPoints cfg \<le> 0 then DefaultMinPoints else ec_MinPoints cfg),
      ev_stabilize = (if ec_ScaleDownStabilization cfg \<le> 0 then DefaultScaleDownStabilization else ec_ScaleDownStabilization cfg),
      ev_tolerance = (if ec_Tolerance cfg \<le> 0 then DefaultTolerance else ec_Tolerance cfg),
      ev_upFactor = (if ec_MaxScaleUpFactor cfg \<le> 1 then DefaultMaxScaleUpFactor else ec_MaxScaleUpFactor cfg),
      ev_downStep = (if ec_MaxScaleDownFactor cfg \<le> 0 \<or> ec_MaxScaleDownFactor cfg \<ge> 1
                     then DefaultMaxScaleDownFactor else ec_MaxScaleDownFactor cfg),
      ev_state = []\<rparr>"

section \<open>One evaluation\<close>

definition f64_int :: "int \<Rightarrow> rat" where
  "f64_int n = f64 (of_int n)"

text \<open>What one rule asks for, given its averaged value.\<close>

definition rule_wants :: "Evaluator \<Rightarrow> int \<Rightarrow> Rule \<Rightarrow> rat \<Rightarrow> int" where
  "rule_wants e current rule value =
     (let ratio = f64 (value / ru_Target rule);
          ratio = (if \<bar>f64 (ratio - 1)\<bar> \<le> ev_tolerance e then 1 else ratio)
      in if current = 0 then (if ratio \<le> 1 then 0 else 1)
         else \<lceil>f64 (f64_int current * ratio)\<rceil>)"

definition raw_step ::
  "Evaluator \<Rightarrow> Metrics \<Rightarrow> time \<Rightarrow> string \<Rightarrow> int \<Rightarrow> (int \<times> Rule \<times> rat) option \<Rightarrow> Rule \<Rightarrow> (int \<times> Rule \<times> rat) option" where
  "raw_step e m now service current best rule =
     (if ru_Target rule \<le> 0 then best
      else let (value, points) = Average \<lparr>k_Subject = service, k_Metric = ru_Metric rule\<rparr> (ev_window e) now m in
        if points < ev_minPoints e then best
        else let want = rule_wants e current rule value in
          case best of
            None \<Rightarrow> Some (want, rule, value)
          | Some (b, _, _) \<Rightarrow> if want > b then Some (want, rule, value) else best)"

definition rawDesired ::
  "Evaluator \<Rightarrow> Metrics \<Rightarrow> time \<Rightarrow> string \<Rightarrow> int \<Rightarrow> Policy \<Rightarrow> (int \<times> Rule \<times> rat) option" where
  "rawDesired e m now service current policy = foldl (raw_step e m now service current) None (po_Rules policy)"

definition capStepUp :: "Evaluator \<Rightarrow> int \<Rightarrow> int \<Rightarrow> int" where
  "capStepUp e current desired =
     min desired (if current = 0 then 1 else \<lceil>f64 (f64_int current * ev_upFactor e)\<rceil>)"

definition capStepDown :: "Evaluator \<Rightarrow> int \<Rightarrow> int \<Rightarrow> int" where
  "capStepDown e current desired = max desired \<lfloor>f64 (f64_int current * ev_downStep e)\<rfloor>"

definition record_desired :: "time \<Rightarrow> int \<Rightarrow> duration \<Rightarrow> serviceState \<Rightarrow> serviceState" where
  "record_desired t desired window s =
     s\<lparr>ss_history := filter (\<lambda>(u, _). \<not> u < t - window) (ss_history s @ [(t, desired)])\<rparr>"

definition maxDesired :: "time \<Rightarrow> duration \<Rightarrow> serviceState \<Rightarrow> int" where
  "maxDesired now window s =
     foldl (\<lambda>highest (u, n). if u < now - window then highest else max highest n) 0 (ss_history s)"

definition clamp :: "int \<Rightarrow> int \<Rightarrow> int \<Rightarrow> int" where
  "clamp value low high =
     (let value = (if high > 0 \<and> value > high then high else value);
          value = (if value < low then low else value)
      in if value < 0 then 0 else value)"

definition stateFor :: "string \<Rightarrow> time \<Rightarrow> Evaluator \<Rightarrow> serviceState" where
  "stateFor service now e =
     (case map_of (ev_state e) service of
        Some s \<Rightarrow> s
      | None \<Rightarrow> \<lparr>ss_lastChange = zero_time, ss_since = now, ss_history = []\<rparr>)"

definition effective_cooldown :: "Policy \<Rightarrow> duration" where
  "effective_cooldown policy = (if po_Cooldown policy \<le> 0 then DefaultCooldown else po_Cooldown policy)"

text \<open>The decision once the raw count is known and recorded in the service's state: \<open>Inl\<close> holds the count,
  \<open>Inr\<close> moves to another one.\<close>

definition guarded_target :: "Evaluator \<Rightarrow> time \<Rightarrow> serviceState \<Rightarrow> int \<Rightarrow> int \<Rightarrow> string \<Rightarrow> Policy \<Rightarrow> reason + int" where
  "guarded_target e now state current raw metric policy =
     (let desired = clamp raw (po_Min policy) (po_Max policy) in
      if desired > current then Inr (capStepUp e current desired)
      else if desired < current then
        if time_sub now (ss_since state) < ev_stabilize e then Inl (NoFullWindow current (ev_stabilize e))
        else let windowed = clamp (maxDesired now (ev_stabilize e) state) (po_Min policy) (po_Max policy) in
          if windowed \<ge> current then Inl (WasHigher current metric (ev_stabilize e))
          else Inr (capStepDown e current (max desired windowed))
      else Inr desired)"

definition Evaluate ::
  "Evaluator \<Rightarrow> Metrics \<Rightarrow> time \<Rightarrow> string \<Rightarrow> int \<Rightarrow> Policy \<Rightarrow> Decision \<times> Evaluator" where
  "Evaluate e m now service current policy =
     (let hold = \<lparr>de_Service = service, de_Current = current, de_Desired = current, de_Changed = False,
                  de_Rule = '''', de_Reason = NoPolicy, de_Observed = 0, de_Target = 0\<rparr> in
      if \<not> Enabled policy then (hold, e)
      else case rawDesired e m now service current policy of
             None \<Rightarrow> (hold\<lparr>de_Reason := NoMetrics\<rparr>, e)
           | Some (raw, rule, observed) \<Rightarrow>
               let hold = hold\<lparr>de_Rule := ru_Metric rule, de_Observed := observed, de_Target := ru_Target rule\<rparr>;
                   state = record_desired now raw (ev_stabilize e) (stateFor service now e);
                   e' = e\<lparr>ev_state := AList.update service state (ev_state e)\<rparr>;
                   cooldown = effective_cooldown policy
               in case guarded_target e now state current raw (ru_Metric rule) policy of
                    Inl why \<Rightarrow> (hold\<lparr>de_Reason := why\<rparr>, e')
                  | Inr desired \<Rightarrow>
                      if desired = current
                      then (hold\<lparr>de_Reason := WithinTolerance (ru_Metric rule) observed (ru_Target rule)\<rparr>, e')
                      else if ss_lastChange state \<noteq> zero_time \<and> time_sub now (ss_lastChange state) < cooldown
                      then (hold\<lparr>de_Reason := WaitingCooldown desired cooldown\<rparr>, e')
                      else (hold\<lparr>de_Desired := desired, de_Changed := True,
                                 de_Reason := Moves (ru_Metric rule) observed (ru_Target rule) current desired\<rparr>, e'))"

definition Applied :: "string \<Rightarrow> time \<Rightarrow> time \<Rightarrow> Evaluator \<Rightarrow> Evaluator" where
  "Applied service t now e =
     e\<lparr>ev_state := AList.update service (stateFor service now e\<lparr>ss_lastChange := t\<rparr>) (ev_state e)\<rparr>"

definition Forget :: "string \<Rightarrow> Evaluator \<Rightarrow> Evaluator" where
  "Forget service e = e\<lparr>ev_state := AList.delete service (ev_state e)\<rparr>"

definition Services :: "Evaluator \<Rightarrow> string list" where
  "Services e = sort (map fst (ev_state e))"

section \<open>The loop\<close>

record ScaledService =
  sv_Key :: string
  sv_Count :: int
  sv_Policy :: Policy

text \<open>The state of a pass: the evaluator, the breaker (nil or not), the fleet behind its interface, and
  the decisions that were carried out, which are the ones the recorder receives.\<close>

record 'w Pass =
  pa_eval :: Evaluator
  pa_breaker :: "Breaker option"
  pa_fleet :: 'w
  pa_decided :: "Decision list"

definition ask_breaker :: "time \<Rightarrow> Breaker option \<Rightarrow> Breaker option \<times> bool" where
  "ask_breaker now br =
     (case br of None \<Rightarrow> (None, True) | Some b \<Rightarrow> (case Allow b now of (b', allowed, _) \<Rightarrow> (Some b', allowed)))"

definition scale_service ::
  "(string \<Rightarrow> int \<Rightarrow> 'w \<Rightarrow> string option \<times> 'w) \<Rightarrow> Metrics \<Rightarrow> time \<Rightarrow> ScaledService \<Rightarrow> 'w Pass \<Rightarrow> 'w Pass" where
  "scale_service setCount m now svc p =
     (if \<not> Enabled (sv_Policy svc) then p
      else let (decision, e) = Evaluate (pa_eval p) m now (sv_Key svc) (sv_Count svc) (sv_Policy svc);
               p = p\<lparr>pa_eval := e\<rparr>
           in if \<not> de_Changed decision then p
              else let (br, allowed) = ask_breaker now (pa_breaker p);
                       p = p\<lparr>pa_breaker := br\<rparr>
                   in if \<not> allowed then p
                      else case setCount (sv_Key svc) (de_Desired decision) (pa_fleet p) of
                             (Some _, w) \<Rightarrow> p\<lparr>pa_fleet := w\<rparr>
                           | (None, w) \<Rightarrow>
                               p\<lparr>pa_fleet := w, pa_eval := Applied (sv_Key svc) now now (pa_eval p),
                                 pa_decided := pa_decided p @ [decision]\<rparr>)"

definition forget_gone :: "ScaledService list \<Rightarrow> Evaluator \<Rightarrow> Evaluator" where
  "forget_gone services e =
     fold (\<lambda>s e. if s \<in> set (map sv_Key services) then e else Forget s e) (Services e) e"

text \<open>\<open>Once\<close> returns its error, or how many services it changed.\<close>

definition Once ::
  "('w \<Rightarrow> string + ScaledService list) \<Rightarrow> (string \<Rightarrow> int \<Rightarrow> 'w \<Rightarrow> string option \<times> 'w) \<Rightarrow> Metrics \<Rightarrow> time \<Rightarrow>
   'w Pass \<Rightarrow> (string + nat) \<times> 'w Pass" where
  "Once services setCount m now p =
     (case services (pa_fleet p) of
        Inl err \<Rightarrow> (Inl err, p)
      | Inr svcs \<Rightarrow>
          let p' = fold (scale_service setCount m now) svcs p
          in (Inr (length (pa_decided p') - length (pa_decided p)),
              p'\<lparr>pa_eval := forget_gone svcs (pa_eval p')\<rparr>))"

end
