(* ===== verification/Go_Float_Error.thy ===== *)
theory Go_Float_Error
  imports Go_Float
begin

text \<open>
  How far \<open>float64\<close> arithmetic is from the exact one: rounding is monotone, it leaves representable
  values alone, and its relative error is at most half a unit in the last of 53 places.
\<close>

section \<open>The exponent\<close>

lemma pow2_Suc: "pow2 (e + 1) = 2 * pow2 e"
proof (cases "0 \<le> e")
  case True
  then have "nat (e + 1) = Suc (nat e)" by simp
  with True show ?thesis by (simp add: pow2_def)
next
  case False
  then have "nat (- e) = Suc (nat (- (e + 1)))" by simp
  with False show ?thesis by (auto simp: pow2_def)
qed

lemma pow2_nonzero [simp]: "pow2 e \<noteq> 0"
  using pow2_pos [of e] by linarith

lemma pow2_add_nat: "pow2 (e + int k) = 2 ^ k * pow2 e"
proof (induction k)
  case (Suc k)
  have "pow2 (e + int (Suc k)) = pow2 ((e + int k) + 1)" by (simp add: algebra_simps)
  also have "\<dots> = 2 * (2 ^ k * pow2 e)" by (simp only: pow2_Suc Suc.IH)
  finally show ?case by simp
qed simp

lemma pow2_mono: "e \<le> f \<Longrightarrow> pow2 e \<le> pow2 f"
proof -
  assume "e \<le> f"
  then have "pow2 f = 2 ^ nat (f - e) * pow2 e" using pow2_add_nat [of e "nat (f - e)"] by simp
  then show "pow2 e \<le> pow2 f" by simp
qed

lemma pow2_diff: "pow2 (int a - int b) = 2 ^ a / 2 ^ b"
proof -
  have "2 ^ b * pow2 (int a - int b) = pow2 (int a)"
    using pow2_add_nat [of "int a - int b" b] by simp
  then show ?thesis by (simp add: pow2_def field_simps)
qed

lemma floorlog_le: "0 < n \<Longrightarrow> 2 ^ (floorlog 2 n - 1) \<le> n \<and> n < 2 ^ floorlog 2 n \<and> 0 < floorlog 2 n"
  using floorlog_bounds [of n 2] by (auto simp: floorlog_def)

lemma exponent_of_bounds:
  assumes "0 < x"
  shows "pow2 (exponent_of x) \<le> x" and "x < pow2 (exponent_of x + 1)"
proof -
  obtain n d where nd: "quotient_of x = (n, d)" by (cases "quotient_of x")
  have d: "0 < d" using quotient_of_denom_pos [OF nd] .
  have x: "x = of_int n / of_int d" using quotient_of_div [OF nd] .
  have n: "0 < n" using assms d x by (simp add: zero_less_divide_iff)
  let ?a = "floorlog 2 (nat n)" and ?b = "floorlog 2 (nat d)"
  let ?e = "int ?a - int ?b"
  have fa: "2 ^ (?a - 1) \<le> nat n" "nat n < 2 ^ ?a" "0 < ?a" using floorlog_le [of "nat n"] n by auto
  have fb: "2 ^ (?b - 1) \<le> nat d" "nat d < 2 ^ ?b" "0 < ?b" using floorlog_le [of "nat d"] d by auto
  have rn: "(of_nat (nat n) :: rat) = of_int n" and rd: "(of_nat (nat d) :: rat) = of_int d" using n d by simp_all
  have n1: "(2::rat) ^ (?a - 1) \<le> of_int n" using fa(1) rn by (metis of_nat_le_iff of_nat_numeral of_nat_power)
  have n2: "(of_int n :: rat) < 2 ^ ?a" using fa(2) rn by (metis of_nat_less_iff of_nat_numeral of_nat_power)
  have d1: "(2::rat) ^ (?b - 1) \<le> of_int d" using fb(1) rd by (metis of_nat_le_iff of_nat_numeral of_nat_power)
  have d2: "(of_int d :: rat) < 2 ^ ?b" using fb(2) rd by (metis of_nat_less_iff of_nat_numeral of_nat_power)
  have dp: "(0::rat) < of_int d" using d by simp
  have pa: "(2::rat) ^ ?a = 2 * 2 ^ (?a - 1)" using fa(3) by (cases ?a) simp_all
  have pb: "(2::rat) ^ ?b = 2 * 2 ^ (?b - 1)" using fb(3) by (cases ?b) simp_all
  have up: "x < pow2 (?e + 1)"
  proof -
    have "x < 2 ^ ?a / of_int d" unfolding x using n2 dp by (rule divide_strict_right_mono)
    also have "\<dots> \<le> 2 ^ ?a / 2 ^ (?b - 1)" using d1 dp by (intro divide_left_mono) simp_all
    also have "\<dots> = pow2 (?e + 1)" unfolding pow2_Suc pow2_diff pb by simp
    finally show ?thesis .
  qed
  have lo: "pow2 (?e - 1) \<le> x"
  proof -
    have "2 * pow2 (?e - 1) = pow2 ?e" using pow2_Suc [of "?e - 1"] by simp
    also have "\<dots> = 2 * (2 ^ (?a - 1) / 2 ^ ?b)" unfolding pow2_diff pa by simp
    finally have "pow2 (?e - 1) = 2 ^ (?a - 1) / 2 ^ ?b" by simp
    also have "\<dots> \<le> 2 ^ (?a - 1) / of_int d" using d2 dp by (intro divide_left_mono) simp_all
    also have "\<dots> \<le> x" unfolding x using n1 dp by (intro divide_right_mono) simp_all
    finally show ?thesis .
  qed
  have e: "exponent_of x = (if pow2 ?e \<le> x then ?e else ?e - 1)" by (simp add: exponent_of_def nd Let_def)
  show "pow2 (exponent_of x) \<le> x" using e lo by simp
  show "x < pow2 (exponent_of x + 1)" using e up by (simp add: not_le)
qed

lemma exponent_of_mono:
  assumes "0 < x" and "x \<le> y"
  shows "exponent_of x \<le> exponent_of y"
proof (rule ccontr)
  assume "\<not> ?thesis"
  then have "pow2 (exponent_of y + 1) \<le> pow2 (exponent_of x)" by (intro pow2_mono) simp
  then show False using exponent_of_bounds [of x] exponent_of_bounds [of y] assms by simp
qed

lemma exponent_of_unique:
  assumes "pow2 f \<le> y" and "y < pow2 (f + 1)"
  shows "exponent_of y = f"
proof -
  have y: "0 < y" using assms(1) pow2_pos [of f] by linarith
  have "\<not> f + 1 \<le> exponent_of y" "\<not> exponent_of y + 1 \<le> f"
    using pow2_mono [of "f + 1" "exponent_of y"] pow2_mono [of "exponent_of y + 1" f]
      exponent_of_bounds [OF y] assms by linarith+
  then show ?thesis by linarith
qed

section \<open>Rounding to an integer\<close>

lemma round_even_mono: "x \<le> y \<Longrightarrow> round_even x \<le> round_even y"
proof -
  assume le: "x \<le> y"
  have r: "\<lfloor>x\<rfloor> \<le> round_even x" "round_even x \<le> \<lfloor>x\<rfloor> + 1" for x
    by (simp_all add: round_even_def Let_def)
  show ?thesis
  proof (cases "\<lfloor>x\<rfloor> < \<lfloor>y\<rfloor>")
    case True
    then show ?thesis using r(2) [of x] r(1) [of y] by linarith
  next
    case False
    then have "\<lfloor>x\<rfloor> = \<lfloor>y\<rfloor>" using floor_mono [OF le] by simp
    then show ?thesis using le by (auto simp: round_even_def Let_def)
  qed
qed

lemma round_even_near: "\<bar>of_int (round_even x) - x\<bar> \<le> 1 / 2"
proof -
  define r where "r = x - of_int \<lfloor>x\<rfloor>"
  have r: "0 \<le> r" "r < 1" and x: "x = of_int \<lfloor>x\<rfloor> + r" unfolding r_def by linarith+
  have "round_even x = (if r < 1 / 2 then \<lfloor>x\<rfloor> else if r > 1 / 2 then \<lfloor>x\<rfloor> + 1
                        else if even \<lfloor>x\<rfloor> then \<lfloor>x\<rfloor> else \<lfloor>x\<rfloor> + 1)"
    by (simp add: round_even_def Let_def r_def)
  then have "of_int (round_even x) - x = - r \<and> r \<le> 1 / 2 \<or> of_int (round_even x) - x = 1 - r \<and> 1 / 2 \<le> r"
    using x by (auto split: if_splits)
  then show ?thesis using r by auto
qed

section \<open>Rounding to a float\<close>

lemma round_bits_0 [simp]: "round_bits p 0 = 0"
  by (simp add: round_bits_def)

lemma round_bits_pos:
  "0 < x \<Longrightarrow> round_bits p x = of_int (round_even (x / pow2 (exponent_of x - (int p - 1)))) * pow2 (exponent_of x - (int p - 1))"
  by (simp add: round_bits_def Let_def)

lemma round_bits_neg: "round_bits p (- x) = - round_bits p x"
  by (simp add: round_bits_def Let_def sgn_if)

text \<open>A positive value is rounded into its own binade, both ends included.\<close>

lemma round_bits_binade:
  assumes "0 < x" and "0 < p"
  shows "pow2 (exponent_of x) \<le> round_bits p x" and "round_bits p x \<le> pow2 (exponent_of x + 1)"
proof -
  let ?e = "exponent_of x" and ?u = "pow2 (exponent_of x - (int p - 1))"
  have p: "?e = (?e - (int p - 1)) + int (p - 1)" using assms(2) by simp
  have lo: "pow2 ?e = 2 ^ (p - 1) * ?u" by (subst p) (rule pow2_add_nat)
  have p': "?e + 1 = (?e - (int p - 1)) + int p" by simp
  have hi: "pow2 (?e + 1) = 2 ^ p * ?u" by (subst p') (rule pow2_add_nat)
  have "(of_int (2 ^ (p - 1)) :: rat) \<le> x / ?u" "x / ?u \<le> of_int (2 ^ p)"
    using exponent_of_bounds [OF assms(1)] unfolding lo hi by (simp_all add: field_simps)
  then have "2 ^ (p - 1) \<le> round_even (x / ?u)" "round_even (x / ?u) \<le> 2 ^ p"
    by (metis round_even_int round_even_mono)+
  then have "(of_int (2 ^ (p - 1)) :: rat) \<le> of_int (round_even (x / ?u))"
    "(of_int (round_even (x / ?u)) :: rat) \<le> of_int (2 ^ p)" by (simp_all only: of_int_le_iff)
  then show "pow2 ?e \<le> round_bits p x" "round_bits p x \<le> pow2 (?e + 1)"
    unfolding round_bits_pos [OF assms(1)] lo hi by simp_all
qed

lemma round_bits_mono_pos:
  assumes "0 < x" and "x \<le> y" and "0 < p"
  shows "round_bits p x \<le> round_bits p y"
proof (cases "exponent_of x = exponent_of y")
  case True
  have "x / pow2 (exponent_of y - (int p - 1)) \<le> y / pow2 (exponent_of y - (int p - 1))"
    using assms(2) by (simp add: divide_right_mono less_imp_le)
  from round_even_mono [OF this] show ?thesis
    using assms(1,2) by (simp add: round_bits_pos True mult_right_mono less_imp_le)
next
  case False
  then have "exponent_of x + 1 \<le> exponent_of y" using exponent_of_mono [OF assms(1,2)] by simp
  then have "pow2 (exponent_of x + 1) \<le> pow2 (exponent_of y)" by (rule pow2_mono)
  then show ?thesis
    using round_bits_binade [of x p] round_bits_binade [of y p] assms by simp
qed

lemma round_bits_nonneg: "0 \<le> x \<Longrightarrow> 0 < p \<Longrightarrow> 0 \<le> round_bits p x"
  using round_bits_binade(1) [of x p] pow2_pos [of "exponent_of x"] by (cases "x = 0") (simp, linarith)

lemma round_bits_mono:
  assumes "x \<le> y" and "0 < p"
  shows "round_bits p x \<le> round_bits p y"
proof -
  consider "0 < x" | "x \<le> 0" "0 \<le> y" | "y < 0" using assms by linarith
  then show ?thesis
  proof cases
    case 1
    then show ?thesis using round_bits_mono_pos assms by blast
  next
    case 2
    then have "0 \<le> round_bits p (- x)" "0 \<le> round_bits p y" using round_bits_nonneg assms(2) by auto
    then show ?thesis by (simp add: round_bits_neg)
  next
    case 3
    then have "round_bits p (- y) \<le> round_bits p (- x)" using round_bits_mono_pos assms by simp
    then show ?thesis by (simp add: round_bits_neg)
  qed
qed

lemma round_bits_error:
  assumes "0 \<le> x" and "0 < p"
  shows "\<bar>round_bits p x - x\<bar> \<le> x / 2 ^ p"
proof (cases "x = 0")
  case False
  then have x: "0 < x" using assms(1) by simp
  let ?e = "exponent_of x" and ?u = "pow2 (exponent_of x - (int p - 1))"
  have p: "?e = (?e - (int p - 1)) + int (p - 1)" using assms(2) by simp
  have lo: "pow2 ?e = 2 ^ (p - 1) * ?u" by (subst p) (rule pow2_add_nat)
  have "round_bits p x - x = (of_int (round_even (x / ?u)) - x / ?u) * ?u"
    by (simp add: round_bits_pos [OF x] left_diff_distrib)
  then have "\<bar>round_bits p x - x\<bar> = \<bar>of_int (round_even (x / ?u)) - x / ?u\<bar> * ?u"
    by (simp add: abs_mult less_imp_le)
  also have "\<dots> \<le> 1 / 2 * ?u"
    using round_even_near [of "x / ?u"] by (intro mult_right_mono) (auto intro: less_imp_le)
  also have "\<dots> \<le> x / 2 ^ p"
  proof -
    have "(2::rat) ^ p = 2 * 2 ^ (p - 1)" using assms(2) by (cases p) simp_all
    then show ?thesis using exponent_of_bounds(1) [OF x] unfolding lo by (simp add: field_simps)
  qed
  finally show ?thesis .
qed simp

text \<open>A rounded value is representable: rounding it again changes nothing.\<close>

lemma round_bits_idem:
  assumes x: "0 < x" and p: "0 < p"
  shows "round_bits p (round_bits p x) = round_bits p x"
proof -
  let ?e = "exponent_of x"
  let ?u = "pow2 (?e - (int p - 1))" and ?y = "round_bits p x"
  have y: "?y = of_int (round_even (x / ?u)) * ?u" by (rule round_bits_pos [OF x])
  have b: "pow2 ?e \<le> ?y" "?y \<le> pow2 (?e + 1)" using round_bits_binade [OF x p] by simp_all
  have yp: "0 < ?y" using b(1) pow2_pos [of ?e] by linarith
  show ?thesis
  proof (cases "?y = pow2 (?e + 1)")
    case False
    then have e: "exponent_of ?y = ?e" using b by (intro exponent_of_unique) simp_all
    have q: "?y / ?u = of_int (round_even (x / ?u))" by (simp add: y)
    have "round_bits p ?y = of_int (round_even (?y / ?u)) * ?u" using round_bits_pos [OF yp, of p] by (simp only: e)
    then show ?thesis unfolding q round_even_int y [symmetric] .
  next
    case True
    moreover have "pow2 (?e + 1) < pow2 (?e + 1 + 1)" unfolding pow2_Suc [of "?e + 1"] using pow2_pos [of "?e + 1"] by linarith
    ultimately have e: "exponent_of ?y = ?e + 1" by (intro exponent_of_unique) linarith+
    have "?e + 1 = (?e + 1 - (int p - 1)) + int (p - 1)" using p by simp
    then have "pow2 (?e + 1) = 2 ^ (p - 1) * pow2 (?e + 1 - (int p - 1))" by (metis pow2_add_nat)
    then have m: "?y = of_int (2 ^ (p - 1)) * pow2 (?e + 1 - (int p - 1))" by (simp add: True)
    then have q: "?y / pow2 (?e + 1 - (int p - 1)) = of_int (2 ^ (p - 1))" by simp
    have "round_bits p ?y =
        of_int (round_even (?y / pow2 (?e + 1 - (int p - 1)))) * pow2 (?e + 1 - (int p - 1))"
      using round_bits_pos [OF yp, of p] by (simp only: e)
    then show ?thesis by (simp only: q round_even_int flip: m)
  qed
qed

lemma f64_0 [simp]: "f64 0 = 0"
  by (simp add: f64_def)

lemma f64_mono: "x \<le> y \<Longrightarrow> f64 x \<le> f64 y"
  by (simp add: f64_def round_bits_mono)

lemma f64_nonneg [simp]: "0 \<le> x \<Longrightarrow> 0 \<le> f64 x"
  by (simp add: f64_def round_bits_nonneg)

lemma f64_pos: "0 < x \<Longrightarrow> 0 < f64 x"
  unfolding f64_def using round_bits_binade(1) [of x 53] pow2_pos [of "exponent_of x"] by linarith

lemma f64_idem: "0 \<le> x \<Longrightarrow> f64 (f64 x) = f64 x"
  unfolding f64_def by (cases "x = 0") (simp_all add: round_bits_idem)

lemma f64_upper: "0 \<le> x \<Longrightarrow> f64 x \<le> x * (1 + 1 / 2 ^ 53)"
  using round_bits_error [of x 53] by (simp add: f64_def abs_if algebra_simps split: if_splits)

lemma f64_lower: "0 \<le> x \<Longrightarrow> x * (1 - 1 / 2 ^ 53) \<le> f64 x"
  using round_bits_error [of x 53] by (simp add: f64_def abs_if algebra_simps split: if_splits)

lemma f64_le_nat: "x \<le> of_nat n \<Longrightarrow> n < 2 ^ 53 \<Longrightarrow> f64 x \<le> of_nat n"
  using f64_mono [of x "of_nat n"] f64_of_nat [of n] by simp

lemma f64_of_int: "0 \<le> i \<Longrightarrow> i < 2 ^ 53 \<Longrightarrow> f64 (of_int i) = of_int i"
  using f64_of_nat [of "nat i"] by (simp add: nat_less_iff)

end
