(* ===== verification/Autoscaler_Facts.thy ===== *)
theory Autoscaler_Facts
  imports Autoscaler Go_Float_Error
begin

text \<open>
  What the guardrails of the autoscaler guarantee: every single decision, the spacing of decisions along
  any run of the loop, and the pause the circuit breaker imposes on it.
\<close>

section \<open>Rounding a product does not lose an integer\<close>

lemma pow2_add: "pow2 (a + b) = pow2 a * pow2 b"
proof -
  have "pow2 e = 2 powi e" for e :: int
    by (cases "0 \<le> e") (simp_all add: pow2_def power_int_def inverse_eq_divide power_one_over)
  then show ?thesis by (simp add: power_int_add)
qed

lemma exponent_of_le:
  assumes "0 < x"
  shows "pow2 (exponent_of x) \<le> x"
proof -
  obtain n d where q: "quotient_of x = (n, d)" by (cases "quotient_of x")
  have d: "0 < d" and x: "x = of_int n / of_int d" using quotient_of_denom_pos [OF q] quotient_of_div [OF q] by auto
  have n: "0 < n" using assms d x by (simp add: zero_less_divide_iff)
  let ?a = "floorlog 2 (nat n)" and ?b = "floorlog 2 (nat d)"
  have "2 ^ (?a - 1) \<le> nat n" "nat d < 2 ^ ?b" "0 < ?a"
    using floorlog_bounds [of "nat n" 2] floorlog_bounds [of "nat d" 2] n d by (simp_all add: floorlog_def)
  then have *: "(2::rat) ^ (?a - 1) \<le> of_int n" "of_int d \<le> (2::rat) ^ ?b" "0 < ?a"
    using n d by (metis of_int_of_nat_eq of_nat_le_iff of_nat_numeral of_nat_power int_nat_eq less_imp_le)+
  have "int ?a - int ?b - 1 = int (?a - 1) + - int ?b" using *(3) by (simp add: of_nat_diff)
  then have "pow2 (int ?a - int ?b - 1) = pow2 (int (?a - 1)) * pow2 (- int ?b)" by (simp only: pow2_add)
  also have "\<dots> = 2 ^ (?a - 1) / 2 ^ ?b" by (cases "?b = 0") (simp_all add: pow2_def)
  also have "\<dots> \<le> of_int n / of_int d" using * d n by (intro frac_le) auto
  finally show ?thesis using q by (simp add: exponent_of_def Let_def x)
qed

lemma round_even_ge: "of_int n \<le> x \<Longrightarrow> n \<le> round_even x"
proof -
  assume "of_int n \<le> x"
  then have "n \<le> \<lfloor>x\<rfloor>" by (simp add: le_floor_iff)
  then show ?thesis by (auto simp: round_even_def Let_def)
qed

lemma f64_ge_nat:
  assumes "of_nat n \<le> x" and "n < 2 ^ 53"
  shows "of_nat n \<le> f64 x"
proof (cases "n = 0")
  case True
  then show ?thesis
    using assms round_even_ge [of 0 "\<bar>x\<bar> / pow2 (exponent_of \<bar>x\<bar> - 52)"]
    by (auto simp: f64_def round_bits_def Let_def sgn_if less_imp_le)
next
  case False
  then have x: "0 < x" using assms by (metis gr_zeroI less_le_trans of_nat_0_less_iff)
  define e where "e = exponent_of x"
  define u where "u = pow2 (e - 52)"
  have u: "0 < u" by (simp add: u_def)
  have f: "f64 x = of_int (round_even (x / u)) * u" using x by (simp add: f64_def round_bits_def Let_def u_def e_def)
  show ?thesis
  proof (cases "53 \<le> e")
    case True
    have "pow2 e = of_int (2 ^ 52) * u" using pow2_add [of "e - 52" 52] by (simp add: u_def pow2_def [of 52])
    then have "of_int (2 ^ 52) \<le> x / u" using exponent_of_le [OF x] u by (simp add: e_def pos_le_divide_eq)
    then have "of_int (2 ^ 52) * u \<le> f64 x" using round_even_ge u f by (metis mult_right_mono of_int_le_iff less_imp_le)
    moreover have "of_nat n \<le> of_int (2 ^ 52) * u"
    proof -
      have "(2::rat) ^ 1 \<le> 2 ^ nat (e - 52)" using True by (intro power_increasing) simp_all
      then have "2 \<le> u" using True by (simp add: u_def pow2_def)
      moreover have "(of_nat n :: rat) \<le> of_nat (2 ^ 53)" using assms(2) by (simp only: of_nat_le_iff less_imp_le)
      ultimately show ?thesis by simp
    qed
    ultimately show ?thesis by (rule order_trans [rotated])
  next
    case False
    define k where "k = nat (52 - e)"
    have "e - 52 = - int k" using False by (simp add: k_def)
    then have uk: "u = 1 / 2 ^ k" by (cases "k = 0") (simp_all add: u_def pow2_def)
    have "of_int (int n * 2 ^ k) \<le> x / u" using assms(1) by (simp add: uk)
    then have "int n * 2 ^ k \<le> round_even (x / u)" by (rule round_even_ge)
    then have "of_int (int n * 2 ^ k) \<le> (of_int (round_even (x / u)) :: rat)" by (simp only: of_int_le_iff)
    then show ?thesis using u by (simp add: f uk pos_le_divide_eq)
  qed
qed

lemma round_even_le: "x \<le> of_int n \<Longrightarrow> round_even x \<le> n"
proof -
  assume x: "x \<le> of_int n"
  then have f: "\<lfloor>x\<rfloor> \<le> n" by (metis floor_mono floor_of_int)
  moreover have "x = of_int n" if "\<lfloor>x\<rfloor> = n" using that x of_int_floor_le [of x] by simp
  ultimately show ?thesis by (cases "\<lfloor>x\<rfloor> = n") (auto simp: round_even_def Let_def)
qed

lemma f64_int_nat: "0 \<le> c \<Longrightarrow> c < 2 ^ 53 \<Longrightarrow> f64_int c = of_nat (nat c)"
  using f64_of_nat [of "nat c"] by (simp add: f64_int_def nat_less_iff)

lemma capStepDown_le:
  assumes "0 \<le> current" and "current < 2 ^ 53" and "ev_downStep e \<le> 1" and "desired \<le> current"
  shows "capStepDown e current desired \<le> current"
proof -
  have "of_nat (nat current) * ev_downStep e \<le> of_nat (nat current)"
    using assms(3) mult_left_mono [of "ev_downStep e" 1 "of_nat (nat current)"] by simp
  then have "f64 (f64_int current * ev_downStep e) \<le> of_nat (nat current)"
    unfolding f64_int_nat [OF assms(1,2)] using assms(1,2) by (intro f64_le_nat) (auto simp: nat_less_iff)
  then have "\<lfloor>f64 (f64_int current * ev_downStep e)\<rfloor> \<le> current" using assms(1) by (metis floor_mono floor_of_nat int_nat_eq)
  then show ?thesis using assms(4) by (simp add: capStepDown_def)
qed

lemma capStepUp_ge:
  assumes "0 \<le> current" and "current < 2 ^ 53" and "1 \<le> ev_upFactor e" and "current < desired"
  shows "current \<le> capStepUp e current desired"
proof -
  obtain n where n: "current = int n" using assms(1) nonneg_int_cases by blast
  then have c: "f64_int current = of_nat n" using assms(2) f64_of_nat [of n] by (simp add: f64_int_def)
  have "of_nat n \<le> of_nat n * ev_upFactor e" using assms(3) mult_left_mono [of 1 "ev_upFactor e" "of_nat n"] by simp
  then have "of_nat n \<le> f64 (of_nat n * ev_upFactor e)" using assms(2) n by (intro f64_ge_nat) simp_all
  then have "int n \<le> \<lceil>f64 (of_nat n * ev_upFactor e)\<rceil>" by (metis ceiling_mono ceiling_of_nat)
  then show ?thesis using assms(4) by (auto simp: capStepUp_def c) (simp add: n)
qed

section \<open>One decision\<close>

lemma clamp_bounds: "po_Min p \<le> clamp v (po_Min p) h" "0 \<le> clamp v l h"
  "l \<le> h \<Longrightarrow> 0 < h \<Longrightarrow> clamp v l h \<le> h"
  by (auto simp: clamp_def Let_def)

lemma clamp_mono: "v \<le> w \<Longrightarrow> clamp v l h \<le> clamp w l h"
  by (auto simp: clamp_def Let_def)

lemma max_fold_acc: fixes a c :: int shows "a \<le> foldl (\<lambda>highest (u, n). if u < c then highest else max highest n) a h"
proof (induction h arbitrary: a)
  case (Cons x h)
  show ?case using Cons [of a] Cons [of "max a (snd x)"] by (auto simp: max.bounded_iff split: prod.splits)
qed simp

lemma max_fold_ge:
  fixes n c :: int
  shows "(u, n) \<in> set h \<Longrightarrow> \<not> u < c \<Longrightarrow> n \<le> foldl (\<lambda>highest (u, n). if u < c then highest else max highest n) a h"
proof (induction h arbitrary: a)
  case (Cons x h)
  show ?case
  proof (cases "x = (u, n)")
    case True
    then show ?thesis using Cons.prems max_fold_acc [of "max a n" c h] by (simp add: max.bounded_iff)
  next
    case False
    then show ?thesis using Cons by (auto split: prod.splits)
  qed
qed simp

lemma maxDesired_ge: "(u, n) \<in> set (ss_history s) \<Longrightarrow> now - window \<le> u \<Longrightarrow> n \<le> maxDesired now window s"
  unfolding maxDesired_def by (rule max_fold_ge) auto

lemma history_recorded: "(u, n) \<in> set (ss_history s) \<Longrightarrow> now - window \<le> u \<Longrightarrow>
    (u, n) \<in> set (ss_history (record_desired now raw window s))"
  by (auto simp: record_desired_def)

lemma rawDesired_data:
  assumes "rawDesired e m now service current policy = Some (raw, rule, v)"
  shows "rule \<in> set (po_Rules policy) \<and> 0 < ru_Target rule \<and>
    ev_minPoints e \<le> snd (Average \<lparr>k_Subject = service, k_Metric = ru_Metric rule\<rparr> (ev_window e) now m)"
proof -
  define ok where "ok rule \<longleftrightarrow> 0 < ru_Target rule \<and>
    ev_minPoints e \<le> snd (Average \<lparr>k_Subject = service, k_Metric = ru_Metric rule\<rparr> (ev_window e) now m)" for rule :: Rule
  have step: "ok r \<and> (r = x \<or> (\<exists>b v. best = Some (b, r, v)))"
    if "raw_step e m now service current best x = Some (b', r, v')" "\<And>b r v. best = Some (b, r, v) \<Longrightarrow> ok r" for best x b' r v'
    using that by (auto simp: raw_step_def ok_def not_less Let_def split: if_splits option.splits prod.splits)
  have "foldl (raw_step e m now service current) best rules = Some (raw, rule, v) \<Longrightarrow>
      (\<And>b r v. best = Some (b, r, v) \<Longrightarrow> ok r) \<Longrightarrow> ok rule \<and> (rule \<in> set rules \<or> (\<exists>b v. best = Some (b, rule, v)))"
    for best rules
  proof (induction rules arbitrary: best)
    case (Cons x rules)
    let ?best = "raw_step e m now service current best x"
    have st: "ok r \<and> (r = x \<or> (\<exists>b v. best = Some (b, r, v)))" if "?best = Some (b', r, v')" for b' r v'
      using step [of best x b' r v'] that Cons.prems(2) by blast
    have "foldl (raw_step e m now service current) ?best rules = Some (raw, rule, v)" using Cons.prems(1) by simp
    then have "ok rule \<and> (rule \<in> set rules \<or> (\<exists>b v. ?best = Some (b, rule, v)))" by (rule Cons.IH) (use st in blast)
    then show ?case using st by auto
  qed auto
  then show ?thesis using assms unfolding rawDesired_def ok_def by blast
qed

lemma Evaluate_changed:
  assumes "Evaluate e m now service current policy = (d, e')" and "de_Changed d"
  obtains raw rule v where "rawDesired e m now service current policy = Some (raw, rule, v)"
    and "guarded_target e now (record_desired now raw (ev_stabilize e) (stateFor service now e)) current raw (ru_Metric rule) policy
         = Inr (de_Desired d)"
    and "de_Desired d \<noteq> current" and "Enabled policy" and "de_Service d = service"
    and "ss_lastChange (stateFor service now e) = 0 \<or>
         effective_cooldown policy \<le> time_sub now (ss_lastChange (stateFor service now e))"
  using assms
  by (auto simp: Evaluate_def Let_def record_desired_def not_less split: if_splits option.splits prod.splits sum.splits)

text \<open>
  C27. The guardrails of one decision. A decision to change a service's count was driven by a rule with a
  positive target and at least the required number of samples; the service's last change lies at
  least its cooldown back. Upwards it stays within the policy's maximum and within one step factor.
  Downwards it stays at or above the policy's minimum and one step factor, a full stabilization
  window has been observed, and no count asked for within that window is higher.
\<close>

theorem scaling_guardrails:
  assumes "Evaluate e m now service current policy = (d, e')" and "de_Changed d"
    and "0 \<le> current" and "current < 2 ^ 53" and "1 \<le> ev_upFactor e" and "ev_downStep e \<le> 1"
  shows "let n = de_Desired d; s = stateFor service now e in
    n \<noteq> current \<and>
    (\<exists>rule. rule \<in> set (po_Rules policy) \<and> 0 < ru_Target rule \<and>
       ev_minPoints e \<le> snd (Average \<lparr>k_Subject = service, k_Metric = ru_Metric rule\<rparr> (ev_window e) now m)) \<and>
    (ss_lastChange s = 0 \<or> effective_cooldown policy \<le> time_sub now (ss_lastChange s)) \<and>
    (current < n \<longrightarrow>
       n \<le> (if current = 0 then 1 else \<lceil>f64 (f64_int current * ev_upFactor e)\<rceil>) \<and>
       (po_Min policy \<le> po_Max policy \<longrightarrow> n \<le> po_Max policy)) \<and>
    (n < current \<longrightarrow>
       po_Min policy \<le> n \<and> \<lfloor>f64 (f64_int current * ev_downStep e)\<rfloor> \<le> n \<and>
       ev_stabilize e \<le> time_sub now (ss_since s) \<and>
       (\<forall>u k. (u, k) \<in> set (ss_history s) \<and> now - ev_stabilize e \<le> u \<longrightarrow>
          clamp k (po_Min policy) (po_Max policy) \<le> n))"
proof -
  obtain raw rule v where raw: "rawDesired e m now service current policy = Some (raw, rule, v)"
    and g: "guarded_target e now (record_desired now raw (ev_stabilize e) (stateFor service now e)) current raw (ru_Metric rule) policy
      = Inr (de_Desired d)"
    and n: "de_Desired d \<noteq> current" and en: "Enabled policy"
    and cool: "ss_lastChange (stateFor service now e) = 0 \<or>
      effective_cooldown policy \<le> time_sub now (ss_lastChange (stateFor service now e))"
    using Evaluate_changed [OF assms(1,2)] by metis
  let ?n = "de_Desired d" and ?s = "stateFor service now e"
  let ?st = "record_desired now raw (ev_stabilize e) ?s"
  let ?c = "clamp raw (po_Min policy) (po_Max policy)"
  have up: "?n = capStepUp e current ?c \<and> current \<le> ?n" if "current < ?c"
    using g that capStepUp_ge [OF assms(3,4,5) that] by (simp add: guarded_target_def Let_def)
  have down: "\<not> time_sub now (ss_since ?s) < ev_stabilize e \<and>
      ?n = capStepDown e current (max ?c (clamp (maxDesired now (ev_stabilize e) ?st) (po_Min policy) (po_Max policy)))"
    if "?c < current"
    using g that by (auto simp: guarded_target_def Let_def record_desired_def split: if_splits)
  have same: "?c \<noteq> current" using g n by (auto simp: guarded_target_def Let_def)
  let ?w = "clamp (maxDesired now (ev_stabilize e) ?st) (po_Min policy) (po_Max policy)"
  have down': "?w < current \<and> ?n \<le> current" if "?c < current"
    using g that capStepDown_le [OF assms(3,4,6), of "max ?c ?w"]
    by (auto simp: guarded_target_def Let_def record_desired_def split: if_splits)
  have "current < ?c" if "current < ?n" using down' that same by fastforce
  then have U: "?n \<le> (if current = 0 then 1 else \<lceil>f64 (f64_int current * ev_upFactor e)\<rceil>) \<and>
      (po_Min policy \<le> po_Max policy \<longrightarrow> ?n \<le> po_Max policy)" if "current < ?n"
    using up that en clamp_bounds(3) [of "po_Min policy" "po_Max policy" raw]
    by (auto simp: capStepUp_def Enabled_def min_def split: if_splits)
  have D: "po_Min policy \<le> ?n \<and> \<lfloor>f64 (f64_int current * ev_downStep e)\<rfloor> \<le> ?n \<and>
      ev_stabilize e \<le> time_sub now (ss_since ?s) \<and>
      (\<forall>u k. (u, k) \<in> set (ss_history ?s) \<and> now - ev_stabilize e \<le> u \<longrightarrow> clamp k (po_Min policy) (po_Max policy) \<le> ?n)"
    if "?n < current"
  proof -
    have "?c < current" using up same that by fastforce
    note d = down [OF this]
    have "clamp k (po_Min policy) (po_Max policy) \<le> ?n" if "(u, k) \<in> set (ss_history ?s)" "now - ev_stabilize e \<le> u" for u k
    proof -
      have "k \<le> maxDesired now (ev_stabilize e) ?st" using maxDesired_ge history_recorded that by blast
      then have "clamp k (po_Min policy) (po_Max policy) \<le> ?w" by (rule clamp_mono)
      then show ?thesis using d by (simp add: capStepDown_def)
    qed
    moreover have "po_Min policy \<le> ?n" using d clamp_bounds(1) [of policy raw "po_Max policy"] by (simp add: capStepDown_def)
    moreover have "\<lfloor>f64 (f64_int current * ev_downStep e)\<rfloor> \<le> ?n" using d by (simp add: capStepDown_def)
    moreover have "ev_stabilize e \<le> time_sub now (ss_since ?s)" using d by linarith
    ultimately show ?thesis by blast
  qed
  show ?thesis
    unfolding Let_def using n cool U D rawDesired_data [OF raw] by blast
qed

section \<open>The spacing of changes along a run\<close>

text \<open>The last change the evaluator remembers for a service, 0 if none.\<close>

definition last_change :: "string \<Rightarrow> Evaluator \<Rightarrow> time" where
  "last_change k e = (case map_of (ev_state e) k of None \<Rightarrow> 0 | Some s \<Rightarrow> ss_lastChange s)"

lemma last_change_stateFor: "ss_lastChange (stateFor k now e) = last_change k e"
  by (simp add: last_change_def stateFor_def split: option.splits)

lemma last_change_update:
  "last_change j (e\<lparr>ev_state := AList.update k s (ev_state e)\<rparr>) = (if j = k then ss_lastChange s else last_change j e)"
  by (simp add: last_change_def update_conv')

lemma Evaluate_last_change: "Evaluate e m now service current policy = (d, e') \<Longrightarrow> last_change j e' = last_change j e"
proof -
  assume a: "Evaluate e m now service current policy = (d, e')"
  have "e' = e \<or> (\<exists>raw. e' = e\<lparr>ev_state :=
      AList.update service (record_desired now raw (ev_stabilize e) (stateFor service now e)) (ev_state e)\<rparr>)"
    using a by (auto simp: Evaluate_def Let_def split: if_splits option.splits prod.splits sum.splits)
  then show ?thesis by (auto simp: last_change_update record_desired_def last_change_stateFor)
qed

text \<open>One service either leaves the remembered changes and the decisions alone, or adds one decision of
  its own and remembers its time.\<close>

lemma scale_service_effect:
  fixes setCount m now svc p
  defines "p' \<equiv> scale_service setCount m now svc p"
  shows "pa_decided p' = pa_decided p \<and> (\<forall>j. last_change j (pa_eval p') = last_change j (pa_eval p)) \<or>
    (\<exists>d. pa_decided p' = pa_decided p @ [d] \<and> de_Service d = sv_Key svc \<and>
       (\<forall>j. last_change j (pa_eval p') = (if j = sv_Key svc then now else last_change j (pa_eval p))) \<and>
       (last_change (sv_Key svc) (pa_eval p) = 0 \<or>
        effective_cooldown (sv_Policy svc) \<le> time_sub now (last_change (sv_Key svc) (pa_eval p))))"
proof -
  obtain d e where ev: "Evaluate (pa_eval p) m now (sv_Key svc) (sv_Count svc) (sv_Policy svc) = (d, e)"
    by fastforce
  note lc = Evaluate_last_change [OF ev]
  have applied: "last_change j (Applied (sv_Key svc) now now e) = (if j = sv_Key svc then now else last_change j e)" for j
    by (simp add: Applied_def last_change_update)
  show ?thesis
  proof (cases "Enabled (sv_Policy svc) \<and> de_Changed d")
    case True
    then have "de_Service d = sv_Key svc" and "last_change (sv_Key svc) (pa_eval p) = 0 \<or>
        effective_cooldown (sv_Policy svc) \<le> time_sub now (last_change (sv_Key svc) (pa_eval p))"
      using Evaluate_changed [OF ev] by (auto simp: last_change_stateFor)
    then show ?thesis
      using True lc applied unfolding p'_def scale_service_def
      by (auto simp: ev Let_def split: prod.splits option.splits)
  next
    case False
    then show ?thesis using lc unfolding p'_def scale_service_def by (auto simp: ev Let_def)
  qed
qed

definition changes_of :: "string \<Rightarrow> Decision list \<Rightarrow> nat" where
  "changes_of k ds = length (filter (\<lambda>d. de_Service d = k) ds)"

text \<open>The times of a service's changes are spaced, and the evaluator remembers the last one.\<close>

definition spaced :: "duration \<Rightarrow> string \<Rightarrow> time list \<Rightarrow> Evaluator \<Rightarrow> bool" where
  "spaced c k ts e \<longleftrightarrow>
     sorted_wrt (\<lambda>a b. a + c \<le> b) ts \<and> (ts \<noteq> [] \<longrightarrow> last_change k e = last ts) \<and> (\<forall>t\<in>set ts. 0 < t)"

lemma spaced_append:
  assumes "spaced c k ts e" and "0 < c" and "c \<le> max_duration" and "0 < now"
    and "last_change k e = 0 \<or> c \<le> time_sub now (last_change k e)" and "last_change k e' = now"
  shows "spaced c k (ts @ [now]) e'"
proof -
  have "t + c \<le> now" if "t \<in> set ts" for t
  proof -
    from that have ne: "ts \<noteq> []" by auto
    then have l: "last_change k e = last ts" "0 < last ts" using assms(1) by (auto simp: spaced_def)
    then have "c \<le> time_sub now (last ts)" using assms(5) by simp
    then have "last ts + c \<le> now"
      using time_sub_less_iff [of c now "last ts"] assms(2,3) by (simp add: min_duration_def not_less [symmetric])
    moreover have "t = last ts \<or> t + c \<le> last ts"
    proof -
      have "sorted_wrt (\<lambda>a b. a + c \<le> b) (butlast ts @ [last ts])" using assms(1) ne by (simp add: spaced_def)
      moreover have "t \<in> set (butlast ts) \<or> t = last ts" using that ne by (metis append_butlast_last_id in_set_conv_decomp rotate1.simps(2) set_ConsD set_rotate1)
      ultimately show ?thesis by (auto simp: sorted_wrt_append)
    qed
    ultimately show ?thesis using assms(2) by linarith
  qed
  then show ?thesis using assms(1,4,6) by (auto simp: spaced_def sorted_wrt_append)
qed

lemma scale_service_spaced:
  assumes "spaced c k ts (pa_eval p)" and "0 < c" and "c \<le> max_duration" and "0 < now"
    and "sv_Key svc = k \<Longrightarrow> c \<le> effective_cooldown (sv_Policy svc)"
  shows "\<exists>new. pa_decided (scale_service setCount m now svc p) = pa_decided p @ new \<and>
    spaced c k (ts @ replicate (changes_of k new) now) (pa_eval (scale_service setCount m now svc p))"
  using scale_service_effect [of setCount m now svc p]
proof
  assume "pa_decided (scale_service setCount m now svc p) = pa_decided p \<and>
    (\<forall>j. last_change j (pa_eval (scale_service setCount m now svc p)) = last_change j (pa_eval p))"
  then show ?thesis using assms(1) by (intro exI [of _ "[]"]) (simp add: changes_of_def spaced_def)
next
  assume "\<exists>d. pa_decided (scale_service setCount m now svc p) = pa_decided p @ [d] \<and> de_Service d = sv_Key svc \<and>
    (\<forall>j. last_change j (pa_eval (scale_service setCount m now svc p)) =
       (if j = sv_Key svc then now else last_change j (pa_eval p))) \<and>
    (last_change (sv_Key svc) (pa_eval p) = 0 \<or>
      effective_cooldown (sv_Policy svc) \<le> time_sub now (last_change (sv_Key svc) (pa_eval p)))"
  then obtain d where d: "pa_decided (scale_service setCount m now svc p) = pa_decided p @ [d]" "de_Service d = sv_Key svc"
    and lc: "\<forall>j. last_change j (pa_eval (scale_service setCount m now svc p)) =
      (if j = sv_Key svc then now else last_change j (pa_eval p))"
    and cool: "last_change (sv_Key svc) (pa_eval p) = 0 \<or>
      effective_cooldown (sv_Policy svc) \<le> time_sub now (last_change (sv_Key svc) (pa_eval p))" by blast
  show ?thesis
  proof (cases "sv_Key svc = k")
    case True
    then have "spaced c k (ts @ [now]) (pa_eval (scale_service setCount m now svc p))"
      using assms lc cool by (intro spaced_append [OF assms(1-4)]) auto
    then show ?thesis using d True by (intro exI [of _ "[d]"]) (simp add: changes_of_def)
  next
    case False
    then show ?thesis using d lc assms(1) by (intro exI [of _ "[d]"]) (simp add: changes_of_def spaced_def)
  qed
qed

lemma scale_services_spaced:
  assumes "spaced c k ts (pa_eval p)" and "0 < c" and "c \<le> max_duration" and "0 < now"
    and "\<And>svc. svc \<in> set svcs \<Longrightarrow> sv_Key svc = k \<Longrightarrow> c \<le> effective_cooldown (sv_Policy svc)"
  shows "\<exists>new. pa_decided (fold (scale_service setCount m now) svcs p) = pa_decided p @ new \<and>
    spaced c k (ts @ replicate (changes_of k new) now) (pa_eval (fold (scale_service setCount m now) svcs p))"
  using assms(1,5)
proof (induction svcs arbitrary: p ts)
  case (Cons svc svcs)
  let ?p = "scale_service setCount m now svc p"
  obtain new where new: "pa_decided ?p = pa_decided p @ new" "spaced c k (ts @ replicate (changes_of k new) now) (pa_eval ?p)"
    using scale_service_spaced [OF Cons.prems(1) assms(2-4), of svc setCount m] Cons.prems(2) by auto
  obtain new' where "pa_decided (fold (scale_service setCount m now) svcs ?p) = pa_decided ?p @ new'"
    "spaced c k ((ts @ replicate (changes_of k new) now) @ replicate (changes_of k new') now)
       (pa_eval (fold (scale_service setCount m now) svcs ?p))"
    using Cons.IH [OF new(2)] Cons.prems(2) by auto
  then show ?case using new by (intro exI [of _ "new @ new'"]) (simp add: changes_of_def replicate_add)
qed (auto simp: changes_of_def)

lemma forget_gone_keeps:
  assumes "k \<in> set (map sv_Key svcs)"
  shows "last_change k (forget_gone svcs e) = last_change k e"
proof -
  have "last_change k (fold (\<lambda>s e. if s \<in> set (map sv_Key svcs) then e else Forget s e) ss e) = last_change k e" for ss
    using assms by (induction ss arbitrary: e) (auto simp: Forget_def last_change_def delete_conv' image_iff)
  then show ?thesis by (simp add: forget_gone_def)
qed

text \<open>
  Runs of the loop in which a service is declared in every pass with a cooldown of at least \<open>c\<close>: passes
  happen at any times and with any metrics, and between them the breaker and the fleet change in any
  way. The list holds the times at which the service's count was changed.
\<close>

inductive loop_run ::
  "('w \<Rightarrow> string + ScaledService list) \<Rightarrow> (string \<Rightarrow> int \<Rightarrow> 'w \<Rightarrow> string option \<times> 'w) \<Rightarrow> string \<Rightarrow> duration \<Rightarrow>
   'w Pass \<Rightarrow> time list \<Rightarrow> bool"
  for services setCount k c where
  run_start: "loop_run services setCount k c p []"
| run_world: "loop_run services setCount k c p ts \<Longrightarrow>
    loop_run services setCount k c (p\<lparr>pa_breaker := br, pa_fleet := w\<rparr>) ts"
| run_pass: "loop_run services setCount k c p ts \<Longrightarrow> 0 < now \<Longrightarrow>
    (\<And>svcs. services (pa_fleet p) = Inr svcs \<Longrightarrow>
       k \<in> set (map sv_Key svcs) \<and> (\<forall>svc\<in>set svcs. sv_Key svc = k \<longrightarrow> c \<le> effective_cooldown (sv_Policy svc))) \<Longrightarrow>
    Once services setCount m now p = (res, p') \<Longrightarrow> pa_decided p' = pa_decided p @ new \<Longrightarrow>
    loop_run services setCount k c p' (ts @ replicate (changes_of k new) now)"

lemma loop_run_spaced:
  assumes "loop_run services setCount k c p ts" and "0 < c" and "c \<le> max_duration"
  shows "spaced c k ts (pa_eval p)"
  using assms(1)
proof (induction rule: loop_run.induct)
  case (run_pass p ts now m res p' new)
  show ?case
  proof (cases "services (pa_fleet p)")
    case (Inl err)
    then show ?thesis using run_pass by (simp add: Once_def changes_of_def)
  next
    case (Inr svcs)
    let ?q = "fold (scale_service setCount m now) svcs p"
    have p': "p' = ?q\<lparr>pa_eval := forget_gone svcs (pa_eval ?q)\<rparr>"
      using run_pass.hyps(4) Inr by (auto simp: Once_def Let_def)
    obtain new' where n: "pa_decided ?q = pa_decided p @ new'"
      "spaced c k (ts @ replicate (changes_of k new') now) (pa_eval ?q)"
      using scale_services_spaced [OF run_pass.IH assms(2,3) run_pass.hyps(2), of svcs setCount m] run_pass.hyps(3) [OF Inr] by auto
    then have "new' = new" using run_pass.hyps(5) p' by simp
    moreover have "last_change k (pa_eval p') = last_change k (pa_eval ?q)"
      using forget_gone_keeps run_pass.hyps(3) [OF Inr] p' by simp
    ultimately show ?thesis using n by (simp add: spaced_def)
  qed
qed (simp_all add: spaced_def)

text \<open>
  C28. A cooldown separates the changes of a service: along any run of the loop, whatever the metrics say and
  whatever happens to the breaker and the fleet between two passes, two changes of a service that
  stays declared with a cooldown of at least \<open>c\<close> are at least \<open>c\<close> apart.
\<close>

theorem scale_changes_are_spaced:
  assumes "loop_run services setCount k c p ts" and "0 < c" and "c \<le> max_duration"
  shows "sorted_wrt (\<lambda>t u. t + c \<le> u) ts"
  using loop_run_spaced [OF assms] by (simp add: spaced_def)

section \<open>The circuit breaker pauses the loop\<close>

lemma ask_paused:
  assumes "breaker_ok cd b t" and "t \<le> now" and "now < open_until b"
  shows "ask_breaker now (Some b) = (Some b, False)"
  using openAt_eq [OF assms(1,2)] assms(3) by (auto simp: ask_breaker_def Allow_def Let_def split: prod.splits)

lemma scale_service_paused:
  assumes "ask_breaker now (pa_breaker p) = (pa_breaker p, False)"
  shows "pa_fleet (scale_service setCount m now svc p) = pa_fleet p \<and>
    pa_decided (scale_service setCount m now svc p) = pa_decided p \<and>
    pa_breaker (scale_service setCount m now svc p) = pa_breaker p"
  using assms by (auto simp: scale_service_def Let_def split: prod.splits)

text \<open>
  The loop and the breaker together: after the failure that trips the breaker, every pass of the
  autoscaler within the cooldown writes no count at all, for every fleet, every service and every
  metric. The decisions are still taken, so the evaluator's history goes on.
\<close>

theorem tripped_breaker_blocks_scaling:
  assumes "breaker_ok cd b t" and "t \<le> t'" and "snd (fail_step b t')" and "t' \<le> now" and "now < t' + cd"
    and "pa_breaker p = Some (fst (fail_step b t'))"
  shows "pa_fleet (snd (Once services setCount m now p)) = pa_fleet p \<and>
    pa_decided (snd (Once services setCount m now p)) = pa_decided p"
proof -
  let ?b = "fst (fail_step b t')"
  have ok: "breaker_ok cd ?b t'" using breaker.valid_fail [OF assms(1,2)] .
  have "open_until ?b = t' + cd" using breaker.trip_pauses [OF assms(1,2,3)] by simp
  then have ask: "ask_breaker now (Some ?b) = (Some ?b, False)" using ask_paused [OF ok assms(4)] assms(5) by simp
  have "pa_fleet (fold (scale_service setCount m now) svcs q) = pa_fleet q \<and>
      pa_decided (fold (scale_service setCount m now) svcs q) = pa_decided q" if "pa_breaker q = Some ?b" for svcs q
    using that
  proof (induction svcs arbitrary: q)
    case (Cons svc svcs)
    have "ask_breaker now (pa_breaker q) = (pa_breaker q, False)" using Cons.prems ask by simp
    from scale_service_paused [OF this, of setCount m svc] show ?case using Cons by simp
  qed simp
  then show ?thesis using assms(6) by (simp add: Once_def Let_def split: sum.splits)
qed

end
