(* ===== verification/Scaling_Examples.thy ===== *)
theory Scaling_Examples
  imports Autoscaler_Facts
begin

text \<open>
  The autoscaler on a concrete service: twice its CPU target over the last four samples, so the policy asks
  for twice the replicas.
\<close>

definition start :: time where "start = unix_epoch + 100 * second"

definition hot_ring :: "time \<Rightarrow> ring" where
  "hot_ring t = \<lparr>rg_interval = RawInterval, rg_values = replicate 4 (Some 140), rg_head = slotOf t RawInterval, rg_filled = True\<rparr>"

definition hot :: "time \<Rightarrow> Metrics" where
  "hot t = \<lparr>mt_series = [(\<lparr>k_Subject = ''shop/web'', k_Metric = ''cpu''\<rparr>, (new_series t)\<lparr>se_raw := hot_ring t\<rparr>)],
     mt_dropped = 0, mt_epoch = 1\<rparr>"

definition cpu_policy :: Policy where
  "cpu_policy = \<lparr>po_Min = 1, po_Max = 10, po_Rules = [\<lparr>ru_Metric = ''cpu'', ru_Target = 70\<rparr>], po_Cooldown = 0\<rparr>"

definition fresh :: Evaluator where
  "fresh = NewEvaluator \<lparr>ec_AverageWindow = 0, ec_MinPoints = 0, ec_ScaleDownStabilization = 0, ec_Tolerance = 1 / 4,
     ec_MaxScaleUpFactor = 0, ec_MaxScaleDownFactor = 0\<rparr>"

lemma f64_numeral [simp]: "numeral n < (2 ^ 53 :: nat) \<Longrightarrow> f64 (numeral n) = numeral n"
  using f64_of_nat [of "numeral n"] by simp

lemma f64_small [simp]: "f64 0 = 0" "f64 1 = 1"
  using f64_of_nat [of 0] f64_of_nat [of 1] by simp_all

text \<open>The last four slots before an instant hold 140, so the mean is 140 over four points.\<close>

lemma slotOf_back:
  assumes "unix_epoch + 15 * second \<le> t"
  shows "slotOf (t - 15 * second) (5 * second) = slotOf t (5 * second) - 3"
proof -
  have "(t - unix_epoch + (- 3) * (5 * second)) div (5 * second) = (- 3) + (t - unix_epoch) div (5 * second)"
    by (rule div_mult_self1) (simp add: second_def)
  moreover have "t - unix_epoch + (- 3) * (5 * second) = t - 15 * second - unix_epoch" by simp
  ultimately have "(t - 15 * second - unix_epoch) div (5 * second) = (t - unix_epoch) div (5 * second) - 3"
    by (simp only: add.commute diff_conv_add_uminus)
  moreover have "0 \<le> t - 15 * second - unix_epoch" "0 \<le> t - unix_epoch" using assms second_pos by linarith+
  moreover have "0 < 5 * second" by simp
  ultimately show ?thesis by (simp only: slotOf_def go_div_nonneg)
qed

lemma hot_average:
  assumes "unix_epoch + 15 * second \<le> t"
  shows "Average \<lparr>k_Subject = ''shop/web'', k_Metric = ''cpu''\<rparr> (15 * second) t (hot t) = (140, 4)"
proof -
  let ?h = "slotOf t (5 * second)"
  have "[?h - 3..?h] = [?h - 3, ?h - 2, ?h - 1, ?h]" by (simp add: upto_rec1)
  moreover have "slot_value (hot_ring t) x = Some 140" if "x \<in> {?h - 3, ?h - 2, ?h - 1, ?h}" for x
    using that ring_index_less [of "hot_ring t" x] by (auto simp: slot_value_def hot_ring_def RawInterval_def)
  ultimately have "List.map_filter (slot_value (hot_ring t)) [?h - 3..?h] = [140, 140, 140, 140]"
    by (simp add: List.map_filter_def)
  then show ?thesis
    using slotOf_back [OF assms]
    by (simp add: Average_def hot_def average_def slots_between_def hot_ring_def RawInterval_def Let_def)
qed

definition sized :: "Evaluator \<Rightarrow> bool" where
  "sized e \<longleftrightarrow> ev_window e = 15 * second \<and> ev_minPoints e = 3 \<and> ev_tolerance e = 1 / 4 \<and> ev_upFactor e = 2"

lemma sized_fresh: "sized fresh"
  by (simp add: sized_def fresh_def NewEvaluator_def DefaultAverageWindow_def DefaultMinPoints_def DefaultMaxScaleUpFactor_def)

lemma hot_wants:
  assumes "sized e" and "unix_epoch + 15 * second \<le> t" and "c = 2 \<or> c = 4"
  shows "rawDesired e (hot t) t ''shop/web'' c cpu_policy = Some (2 * c, \<lparr>ru_Metric = ''cpu'', ru_Target = 70\<rparr>, 140)"
  using assms hot_average [OF assms(2)]
  by (auto simp: rawDesired_def raw_step_def cpu_policy_def sized_def rule_wants_def Let_def f64_int_def)

lemma Evaluate_hot:
  assumes "sized e" and "unix_epoch + 15 * second \<le> t" and "c = 2 \<or> c = 4"
    and "last_change ''shop/web'' e = 0 \<or> 2 * minute \<le> time_sub t (last_change ''shop/web'' e)"
  shows "de_Changed (fst (Evaluate e (hot t) t ''shop/web'' c cpu_policy)) \<and>
    de_Desired (fst (Evaluate e (hot t) t ''shop/web'' c cpu_policy)) = 2 * c"
proof -
  have "guarded_target e t st c (2 * c) mm cpu_policy = Inr (2 * c)" for st mm
    using assms(1,3)
    by (auto simp: guarded_target_def clamp_def capStepUp_def cpu_policy_def sized_def f64_int_def Let_def)
  then show ?thesis
    using hot_wants [OF assms(1-3)] assms(3,4)
    by (auto simp: Evaluate_def Let_def Enabled_def cpu_policy_def effective_cooldown_def DefaultCooldown_def
        record_desired_def last_change_stateFor)
qed

lemma sized_Evaluate: "sized e \<Longrightarrow> sized (snd (Evaluate e m now s c p))"
  by (auto simp: sized_def Evaluate_def Let_def split: option.splits prod.splits sum.splits)

definition one_service :: "int \<Rightarrow> string + ScaledService list" where
  "one_service n = Inr [\<lparr>sv_Key = ''shop/web'', sv_Count = n, sv_Policy = cpu_policy\<rparr>]"

definition set_one :: "string \<Rightarrow> int \<Rightarrow> int \<Rightarrow> string option \<times> int" where
  "set_one key n w = (None, n)"

lemma hot_pass:
  assumes "sized (pa_eval p)" and "unix_epoch + 15 * second \<le> t" and "pa_fleet p = 2 \<or> pa_fleet p = 4" and "pa_breaker p = None"
    and "last_change ''shop/web'' (pa_eval p) = 0 \<or> 2 * minute \<le> time_sub t (last_change ''shop/web'' (pa_eval p))"
  shows "\<exists>res p' d. Once one_service set_one (hot t) t p = (res, p') \<and> pa_fleet p' = 2 * pa_fleet p \<and>
    pa_decided p' = pa_decided p @ [d] \<and> de_Service d = ''shop/web'' \<and> pa_breaker p' = None \<and>
    sized (pa_eval p') \<and> last_change ''shop/web'' (pa_eval p') = t"
proof -
  let ?svc = "\<lparr>sv_Key = ''shop/web'', sv_Count = pa_fleet p, sv_Policy = cpu_policy\<rparr>"
  let ?ev = "Evaluate (pa_eval p) (hot t) t ''shop/web'' (pa_fleet p) cpu_policy"
  note ev = Evaluate_hot [OF assms(1-3,5)]
  have en: "Enabled cpu_policy" by (simp add: Enabled_def cpu_policy_def)
  have s: "scale_service set_one (hot t) t ?svc p =
      p\<lparr>pa_eval := Applied ''shop/web'' t t (snd ?ev), pa_fleet := 2 * pa_fleet p, pa_decided := pa_decided p @ [fst ?ev]\<rparr>"
    using ev en assms(4) by (simp add: scale_service_def Let_def ask_breaker_def set_one_def case_prod_beta)
  have "de_Service (fst ?ev) = ''shop/web''"
    using Evaluate_changed [of "pa_eval p" "hot t" t "''shop/web''" "pa_fleet p" cpu_policy "fst ?ev" "snd ?ev"] ev by auto
  moreover have "sized (Applied ''shop/web'' t t (snd ?ev))"
    using sized_Evaluate [OF assms(1)] by (simp add: sized_def Applied_def)
  moreover have "sized (forget_gone [?svc] e) = sized e" for e
  proof -
    have "sized (fold (\<lambda>s e. if s \<in> set (map sv_Key [?svc]) then e else Forget s e) ss e) = sized e" for ss
      by (induction ss arbitrary: e) (auto simp: Forget_def sized_def)
    then show ?thesis by (simp add: forget_gone_def)
  qed
  moreover have "last_change ''shop/web'' (forget_gone [?svc] (Applied ''shop/web'' t t e)) = t" for e
    using forget_gone_keeps [of "''shop/web''" "[?svc]"] by (simp add: Applied_def last_change_update)
  ultimately show ?thesis
    using s assms(4) by (simp add: Once_def one_service_def Let_def)
qed

section \<open>The theorems at work\<close>

lemma start_late: "unix_epoch + 15 * second \<le> start" "unix_epoch + 15 * second \<le> start + 3 * minute"
  by (simp_all add: start_def second_def minute_def)

theorem scaling_guardrails_witness:
  "let d = fst (Evaluate fresh (hot start) start ''shop/web'' 2 cpu_policy) in
   de_Changed d \<and> de_Desired d = 4 \<and> 4 \<le> \<lceil>f64 (f64_int 2 * ev_upFactor fresh)\<rceil> \<and> (4 :: int) \<le> po_Max cpu_policy"
proof -
  let ?ev = "Evaluate fresh (hot start) start ''shop/web'' 2 cpu_policy"
  have ev: "de_Changed (fst ?ev) \<and> de_Desired (fst ?ev) = 4"
    using Evaluate_hot [OF sized_fresh start_late(1), of 2] by (simp add: last_change_def fresh_def NewEvaluator_def)
  moreover have "1 \<le> ev_upFactor fresh" "ev_downStep fresh \<le> 1"
    by (simp_all add: fresh_def NewEvaluator_def DefaultMaxScaleUpFactor_def DefaultMaxScaleDownFactor_def)
  ultimately show ?thesis
    using scaling_guardrails [of fresh "hot start" start "''shop/web''" 2 cpu_policy "fst ?ev" "snd ?ev"]
    by (simp add: Let_def cpu_policy_def)
qed

definition first_pass :: "int Pass" where
  "first_pass = \<lparr>pa_eval = fresh, pa_breaker = None, pa_fleet = 2, pa_decided = []\<rparr>"

text \<open>Two changes three minutes apart under the default cooldown of two.\<close>

theorem scale_changes_are_spaced_witness:
  "\<exists>p. loop_run one_service set_one ''shop/web'' (2 * minute) p [start, start + 3 * minute] \<and>
    sorted_wrt (\<lambda>t u. t + 2 * minute \<le> u) [start, start + 3 * minute]"
proof -
  let ?run = "loop_run one_service set_one ''shop/web'' (2 * minute)"
  have declared: "''shop/web'' \<in> set (map sv_Key svcs) \<and>
      (\<forall>svc\<in>set svcs. sv_Key svc = ''shop/web'' \<longrightarrow> 2 * minute \<le> effective_cooldown (sv_Policy svc))"
    if "one_service w = Inr svcs" for w svcs
    using that by (auto simp: one_service_def cpu_policy_def effective_cooldown_def DefaultCooldown_def)
  have pos: "0 < start" "0 < start + 3 * minute" by (simp_all add: start_def unix_epoch_def second_def minute_def)
  obtain r1 p1 d1 where p1: "Once one_service set_one (hot start) start first_pass = (r1, p1)" "pa_fleet p1 = 4"
    "pa_decided p1 = [d1]" "de_Service d1 = ''shop/web''" "pa_breaker p1 = None" "sized (pa_eval p1)"
    "last_change ''shop/web'' (pa_eval p1) = start"
    using hot_pass [of first_pass start] sized_fresh start_late(1)
    by (auto simp: first_pass_def last_change_def fresh_def NewEvaluator_def)
  have "?run p1 ([] @ replicate (changes_of ''shop/web'' [d1]) start)"
    by (rule run_pass [OF run_start pos(1) declared p1(1)]) (use p1 in \<open>simp_all add: first_pass_def\<close>)
  then have run1: "?run p1 [start]" using p1 by (simp add: changes_of_def)
  have "2 * minute \<le> time_sub (start + 3 * minute) start"
    by (simp add: time_sub_def max_duration_def min_duration_def minute_def second_def)
  then obtain r2 p2 d2 where p2: "Once one_service set_one (hot (start + 3 * minute)) (start + 3 * minute) p1 = (r2, p2)"
    "pa_decided p2 = pa_decided p1 @ [d2]" "de_Service d2 = ''shop/web''"
    using hot_pass [of p1 "start + 3 * minute"] p1 start_late(2) by auto
  have "?run p2 ([start] @ replicate (changes_of ''shop/web'' [d2]) (start + 3 * minute))"
    by (rule run_pass [OF run1 pos(2) declared p2(1)]) (use p2 in simp_all)
  then have "?run p2 [start, start + 3 * minute]" using p2 by (simp add: changes_of_def)
  moreover from scale_changes_are_spaced [OF this]
  have "sorted_wrt (\<lambda>t u. t + 2 * minute \<le> u) [start, start + 3 * minute]"
    by (simp add: max_duration_def minute_def second_def)
  ultimately show ?thesis by blast
qed

definition touchy :: Breaker where
  "touchy = NewBreaker \<lparr>bc_Threshold = 1, bc_Window = minute, bc_Cooldown = 5 * minute\<rparr>"

text \<open>One failure trips a breaker with a threshold of one; a pass a second later writes nothing, although the
  decision to double the count is taken.\<close>

theorem tripped_breaker_blocks_scaling_witness:
  "let p = first_pass\<lparr>pa_breaker := Some (fst (fail_step touchy start))\<rparr>;
       p' = snd (Once one_service set_one (hot (start + second)) (start + second) p)
   in pa_fleet p' = 2 \<and> pa_decided p' = []"
proof -
  let ?p = "first_pass\<lparr>pa_breaker := Some (fst (fail_step touchy start))\<rparr>"
  have "breaker_ok (5 * minute) touchy start"
    by (simp add: breaker_ok_def touchy_def NewBreaker_def start_def unix_epoch_def max_duration_def minute_def second_def)
  moreover have "snd (fail_step touchy start)"
    by (simp add: fail_step_def RecordFailure_def touchy_def NewBreaker_def prune_def openAt_def Let_def minute_def second_def)
  moreover have "start + second < start + 5 * minute" by (simp add: minute_def second_def)
  ultimately show ?thesis
    using tripped_breaker_blocks_scaling [of "5 * minute" touchy start start "start + second" ?p one_service set_one "hot (start + second)"]
      less_imp_le [OF second_pos]
    by (simp add: first_pass_def Let_def)
qed

end
