(* ===== verification/Go_Net.thy ===== *)
theory Go_Net
  imports Go_Strings Go_Float
begin

text \<open>
  The parts of Go's \<open>strings\<close>, \<open>net\<close>, \<open>net/netip\<close>, \<open>net/textproto\<close> and \<open>time\<close> that the edge reads
  untrusted text with: trimming and case, host and port, addresses and prefixes, header names,
  durations. Case mapping and white space are exact on ASCII.
\<close>

section \<open>Strings\<close>

definition lower_char :: "char \<Rightarrow> char" where
  "lower_char c = (let n = (of_char c :: nat) in if 65 \<le> n \<and> n \<le> 90 then char_of (n + 32) else c)"

definition upper_char :: "char \<Rightarrow> char" where
  "upper_char c = (let n = (of_char c :: nat) in if 97 \<le> n \<and> n \<le> 122 then char_of (n - 32) else c)"

definition ToLower :: "string \<Rightarrow> string" where
  "ToLower = map lower_char"

definition EqualFold :: "string \<Rightarrow> string \<Rightarrow> bool" where
  "EqualFold s t \<longleftrightarrow> ToLower s = ToLower t"

text \<open>Cutting every byte of a set off both ends: \<open>strings.Trim\<close> and \<open>strings.TrimSpace\<close>.\<close>

definition trim_both :: "(char \<Rightarrow> bool) \<Rightarrow> string \<Rightarrow> string" where
  "trim_both P s = rev (dropWhile P (rev (dropWhile P s)))"

definition TrimSpace :: "string \<Rightarrow> string" where
  "TrimSpace = trim_both is_space"

definition TrimDots :: "string \<Rightarrow> string" where
  "TrimDots = trim_both (\<lambda>c. c = CHR ''.'')"

text \<open>Cutting at the last occurrence of a byte.\<close>

definition cut_last :: "char \<Rightarrow> string \<Rightarrow> (string \<times> string) option" where
  "cut_last c s = (case cut_byte c (rev s) of None \<Rightarrow> None | Some (b, a) \<Rightarrow> Some (rev a, rev b))"

text \<open>\<open>net.SplitHostPort\<close>.\<close>

definition SplitHostPort :: "string \<Rightarrow> (string \<times> string) option" where
  "SplitHostPort hp =
     (case cut_last (CHR '':'') hp of
        None \<Rightarrow> None
      | Some (front, port) \<Rightarrow>
          if hd hp = CHR ''['' then
            (case cut_byte (CHR '']'') hp of
               None \<Rightarrow> None
             | Some (h, after) \<Rightarrow>
                 if length h + 1 \<noteq> length front then None
                 else if CHR ''['' \<in> set (tl hp) \<or> CHR '']'' \<in> set after then None
                 else Some (tl h, port))
          else if CHR '':'' \<in> set front then None
          else if CHR ''['' \<in> set hp \<or> CHR '']'' \<in> set hp then None
          else Some (front, port))"

section \<open>Addresses\<close>

text \<open>An IPv6 address carries its zone; the invalid zero \<open>Addr\<close> is the absence of one.\<close>

datatype Addr = Addr4 nat | Addr6 nat string

definition bytes_value :: "nat list \<Rightarrow> nat" where
  "bytes_value = foldl (\<lambda>a b. a * 256 + b) 0"

definition dec_octet :: "string \<Rightarrow> nat option" where
  "dec_octet f =
     (if f = [] \<or> (\<exists>c\<in>set f. \<not> is_digit c) \<or> (length f > 1 \<and> hd f = CHR ''0'') \<or> dec_value f > 255 then None
      else Some (dec_value f))"

fun all_some :: "'a option list \<Rightarrow> 'a list option" where
  "all_some [] = Some []"
| "all_some (None # xs) = None"
| "all_some (Some x # xs) = map_option (\<lambda>ys. x # ys) (all_some xs)"

definition parseIPv4Fields :: "string \<Rightarrow> nat list option" where
  "parseIPv4Fields s =
     (let fs = split_byte (CHR ''.'') s in
      if length fs \<noteq> 4 then None else all_some (map dec_octet fs))"

definition is_hex :: "char \<Rightarrow> bool" where
  "is_hex c \<longleftrightarrow> (let n = (of_char c :: nat) in is_digit c \<or> (97 \<le> n \<and> n \<le> 102) \<or> (65 \<le> n \<and> n \<le> 70))"

definition hex_nibble :: "char \<Rightarrow> nat" where
  "hex_nibble c = (let n = (of_char c :: nat) in if is_digit c then n - 48 else if 97 \<le> n then n - 87 else n - 55)"

definition hex_number :: "string \<Rightarrow> nat" where
  "hex_number = foldl (\<lambda>a c. a * 16 + hex_nibble c) 0"

text \<open>The loop of \<open>parseIPv6\<close>: the bytes so far, where the ellipsis stands, and what is left.\<close>

function v6_groups :: "string \<Rightarrow> nat list \<Rightarrow> nat option \<Rightarrow> (nat list \<times> nat option \<times> string) option" where
  "v6_groups s ip ellipsis =
     (if length ip \<ge> 16 then Some (ip, ellipsis, s)
      else
        let ds = takeWhile is_hex s; rest = dropWhile is_hex s in
        if ds = [] \<or> length ds > 4 then None
        else if rest \<noteq> [] \<and> hd rest = CHR ''.'' then
          (if ellipsis = None \<and> length ip \<noteq> 12 then None
           else if length ip + 4 > 16 then None
           else map_option (\<lambda>fs. (ip @ fs, ellipsis, [])) (parseIPv4Fields s))
        else
          let v = hex_number ds; ip = ip @ [v div 256, v mod 256] in
          if rest = [] then Some (ip, ellipsis, [])
          else if hd rest \<noteq> CHR '':'' then None
          else if tl rest = [] then None
          else if hd (tl rest) = CHR '':'' then
            (if ellipsis \<noteq> None then None
             else if tl (tl rest) = [] then Some (ip, Some (length ip), [])
             else v6_groups (tl (tl rest)) ip (Some (length ip)))
          else v6_groups (tl rest) ip ellipsis)"
  by pat_completeness auto
termination
proof (relation "measure (\<lambda>(s, _, _). length s)", goal_cases)
  case (2 s)
  then show ?case using length_dropWhile_le [of is_hex s] by (cases "dropWhile is_hex s") auto
next
  case (3 s)
  then show ?case using length_dropWhile_le [of is_hex s] by (cases "dropWhile is_hex s") auto
qed simp

declare v6_groups.simps [simp del]

definition v6_finish :: "string \<Rightarrow> (nat list \<times> nat option \<times> string) option \<Rightarrow> Addr option" where
  "v6_finish zone r =
     (case r of
        None \<Rightarrow> None
      | Some (ip, ellipsis, left) \<Rightarrow>
          if left \<noteq> [] then None
          else if length ip < 16 then
            (case ellipsis of
               None \<Rightarrow> None
             | Some e \<Rightarrow> Some (Addr6 (bytes_value (take e ip @ replicate (16 - length ip) 0 @ drop e ip)) zone))
          else if ellipsis \<noteq> None then None
          else Some (Addr6 (bytes_value ip) zone))"

definition parseIPv6 :: "string \<Rightarrow> Addr option" where
  "parseIPv6 s =
     (let (body, zone) = (case cut_byte (CHR ''%'') s of None \<Rightarrow> (s, None) | Some (b, z) \<Rightarrow> (b, Some z)) in
      if zone = Some [] then None
      else
        let z = (case zone of None \<Rightarrow> [] | Some z \<Rightarrow> z) in
        if prefix ''::'' body then
          (if drop 2 body = [] then Some (Addr6 0 z) else v6_finish z (v6_groups (drop 2 body) [] (Some 0)))
        else v6_finish z (v6_groups body [] None))"

text \<open>\<open>netip.ParseAddr\<close>: the first of the bytes \<open>.\<close>, \<open>:\<close> and \<open>%\<close> decides.\<close>

definition ParseAddr :: "string \<Rightarrow> Addr option" where
  "ParseAddr s =
     (case dropWhile (\<lambda>c. c \<noteq> CHR ''.'' \<and> c \<noteq> CHR '':'' \<and> c \<noteq> CHR ''%'') s of
        [] \<Rightarrow> None
      | c # _ \<Rightarrow>
          if c = CHR ''.'' then map_option (\<lambda>fs. Addr4 (bytes_value fs)) (parseIPv4Fields s)
          else if c = CHR '':'' then parseIPv6 s
          else None)"

fun BitLen :: "Addr \<Rightarrow> nat" where
  "BitLen (Addr4 _) = 32"
| "BitLen (Addr6 _ _) = 128"

fun addr_bits :: "Addr \<Rightarrow> nat" where
  "addr_bits (Addr4 a) = a"
| "addr_bits (Addr6 a _) = a"

text \<open>\<open>Unmap\<close>: an IPv4 address written as the IPv6 one it is mapped to.\<close>

fun Unmap :: "Addr \<Rightarrow> Addr" where
  "Unmap (Addr4 a) = Addr4 a"
| "Unmap (Addr6 a z) = (if a div 2 ^ 32 = 0xffff then Addr4 (a mod 2 ^ 32) else Addr6 a z)"

text \<open>A prefix has no zone.\<close>

record NetPrefix =
  np_width :: nat
  np_addr :: nat
  np_bits :: nat

definition PrefixFrom :: "Addr \<Rightarrow> nat \<Rightarrow> NetPrefix" where
  "PrefixFrom a bits = \<lparr>np_width = BitLen a, np_addr = addr_bits a, np_bits = bits\<rparr>"

definition prefix_masked :: "NetPrefix \<Rightarrow> NetPrefix" where
  "prefix_masked p =
     p\<lparr>np_addr := np_addr p div 2 ^ (np_width p - np_bits p) * 2 ^ (np_width p - np_bits p)\<rparr>"

text \<open>\<open>Prefix.Contains\<close>: families must agree, and an address with a zone is in no prefix.\<close>

fun prefix_contains :: "NetPrefix \<Rightarrow> Addr \<Rightarrow> bool" where
  "prefix_contains p (Addr4 a) \<longleftrightarrow>
     np_width p = 32 \<and> a div 2 ^ (32 - np_bits p) = np_addr p div 2 ^ (32 - np_bits p)"
| "prefix_contains p (Addr6 a z) \<longleftrightarrow>
     z = [] \<and> np_width p = 128 \<and> a div 2 ^ (128 - np_bits p) = np_addr p div 2 ^ (128 - np_bits p)"

definition has_zone :: "Addr \<Rightarrow> bool" where
  "has_zone a \<longleftrightarrow> (case a of Addr4 _ \<Rightarrow> False | Addr6 _ z \<Rightarrow> z \<noteq> [])"

definition ParsePrefix :: "string \<Rightarrow> NetPrefix option" where
  "ParsePrefix s =
     (case cut_last (CHR ''/'') s of
        None \<Rightarrow> None
      | Some (a, b) \<Rightarrow>
          (case ParseAddr a of
             None \<Rightarrow> None
           | Some ip \<Rightarrow>
               if has_zone ip then None
               else if length b > 1 \<and> (hd b = CHR ''0'' \<or> \<not> is_digit (hd b)) then None
               else case Atoi b of
                      None \<Rightarrow> None
                    | Some n \<Rightarrow> if n < 0 \<or> n > int (BitLen ip) then None else Some (PrefixFrom ip (nat n))))"

section \<open>Rendering an address\<close>

fun hex_render :: "nat \<Rightarrow> string" where
  "hex_render n = (if n < 16 then [hex_digit n] else hex_render (n div 16) @ [hex_digit (n mod 16)])"

declare hex_render.simps [simp del]

definition string4 :: "nat \<Rightarrow> string" where
  "string4 a =
     udec (a div 2 ^ 24) @ ''.'' @ udec (a div 2 ^ 16 mod 256) @ ''.'' @
     udec (a div 2 ^ 8 mod 256) @ ''.'' @ udec (a mod 256)"

definition v6_words :: "nat \<Rightarrow> nat list" where
  "v6_words a = map (\<lambda>i. a div 2 ^ (112 - 16 * i) mod 65536) [0..<8]"

text \<open>The longest run of at least two zero groups, the first of equals.\<close>

definition zero_run :: "nat list \<Rightarrow> nat \<Rightarrow> nat" where
  "zero_run ws i = length (takeWhile (\<lambda>w. w = 0) (drop i ws))"

fun best_run :: "nat list \<Rightarrow> nat list \<Rightarrow> (nat \<times> nat) option \<Rightarrow> (nat \<times> nat) option" where
  "best_run ws [] best = best"
| "best_run ws (i # js) best =
     (let l = zero_run ws i in
      best_run ws js
        (if l \<ge> 2 \<and> (case best of None \<Rightarrow> True | Some (_, m) \<Rightarrow> l > m) then Some (i, l) else best))"

definition string6 :: "nat \<Rightarrow> string" where
  "string6 a =
     (let ws = v6_words a in
      case best_run ws [0..<8] None of
        None \<Rightarrow> str_join '':'' (map hex_render ws)
      | Some (i, l) \<Rightarrow>
          str_join '':'' (map hex_render (take i ws)) @ ''::'' @ str_join '':'' (map hex_render (drop (i + l) ws)))"

fun addr_String :: "Addr \<Rightarrow> string" where
  "addr_String (Addr4 a) = string4 a"
| "addr_String (Addr6 a z) =
     (if a div 2 ^ 32 = 0xffff then ''::ffff:'' @ string4 (a mod 2 ^ 32) else string6 a) @
     (if z = [] then [] else CHR ''%'' # z)"

section \<open>Header names\<close>

definition is_lower :: "char \<Rightarrow> bool" where
  "is_lower c \<longleftrightarrow> 97 \<le> (of_char c :: nat) \<and> (of_char c :: nat) \<le> 122"

definition is_upper :: "char \<Rightarrow> bool" where
  "is_upper c \<longleftrightarrow> 65 \<le> (of_char c :: nat) \<and> (of_char c :: nat) \<le> 90"

definition validHeaderFieldByte :: "char \<Rightarrow> bool" where
  "validHeaderFieldByte c \<longleftrightarrow> is_digit c \<or> is_lower c \<or> is_upper c \<or> c \<in> set ''!#$%&*+-.^_|~'' \<or> (of_char c :: nat) \<in> {39, 96}"

fun mime_case :: "bool \<Rightarrow> string \<Rightarrow> string" where
  "mime_case up [] = []"
| "mime_case up (c # cs) = (if up then upper_char c else lower_char c) # mime_case (c = CHR ''-'') cs"

text \<open>\<open>textproto.CanonicalMIMEHeaderKey\<close>; a name with a byte no header may have stays as it is.\<close>

definition CanonicalMIMEHeaderKey :: "string \<Rightarrow> string" where
  "CanonicalMIMEHeaderKey s = (if \<exists>c\<in>set s. \<not> validHeaderFieldByte c then s else mime_case True s)"

section \<open>Durations\<close>

fun leading_int :: "nat \<Rightarrow> string \<Rightarrow> (nat \<times> string) option" where
  "leading_int x [] = Some (x, [])"
| "leading_int x (c # s) =
     (if \<not> is_digit c then Some (x, c # s)
      else if x > 2 ^ 63 div 10 then None
      else let y = x * 10 + (of_char c - 48) in if y > 2 ^ 63 then None else leading_int y s)"

fun leading_fraction :: "nat \<Rightarrow> rat \<Rightarrow> bool \<Rightarrow> string \<Rightarrow> nat \<times> rat \<times> string" where
  "leading_fraction x scale overflow [] = (x, scale, [])"
| "leading_fraction x scale overflow (c # s) =
     (if \<not> is_digit c then (x, scale, c # s)
      else if overflow then leading_fraction x scale True s
      else if x > (2 ^ 63 - 1) div 10 then leading_fraction x scale True s
      else let y = x * 10 + (of_char c - 48) in
        if y > 2 ^ 63 then leading_fraction x scale True s
        else leading_fraction y (f64 (scale * 10)) False s)"

definition duration_unit :: "string \<Rightarrow> nat option" where
  "duration_unit u =
     (if u = ''ns'' then Some 1
      else if u = ''us'' \<or> u = [CHR 0xC2, CHR 0xB5, CHR ''s''] \<or> u = [CHR 0xCE, CHR 0xBC, CHR ''s''] then Some 1000
      else if u = ''ms'' then Some 1000000
      else if u = ''s'' then Some 1000000000
      else if u = ''m'' then Some 60000000000
      else if u = ''h'' then Some 3600000000000
      else None)"

abbreviation number_char :: "char \<Rightarrow> bool" where
  "number_char c \<equiv> c = CHR ''.'' \<or> is_digit c"

text \<open>One number with its unit, at the head of the text: its nanoseconds and the rest.\<close>

definition duration_term :: "string \<Rightarrow> (nat \<times> string) option" where
  "duration_term s =
     (if s = [] \<or> \<not> number_char (hd s) then None
      else case leading_int 0 s of
        None \<Rightarrow> None
      | Some (v, s1) \<Rightarrow>
          let pre = (length s1 \<noteq> length s);
              dot = (s1 \<noteq> [] \<and> hd s1 = CHR ''.'');
              (f, scale, s2) = (if dot then leading_fraction 0 1 False (tl s1) else (0, 1, s1));
              post = (dot \<and> length s2 \<noteq> length (tl s1));
              u = takeWhile (\<lambda>c. \<not> number_char c) s2;
              s3 = dropWhile (\<lambda>c. \<not> number_char c) s2 in
          if \<not> pre \<and> \<not> post then None
          else case duration_unit u of
            None \<Rightarrow> None
          | Some unit \<Rightarrow>
              if v > 2 ^ 63 div unit then None
              else
                let w = v * unit + (if f > 0 then nat \<lfloor>f64 (f64 (of_nat f) * f64 (of_nat unit / scale))\<rfloor> else 0) in
                if w > 2 ^ 63 then None else Some (w, s3))"

lemma leading_int_length: "leading_int x s = Some (v, r) \<Longrightarrow> length r \<le> length s"
  by (induction x s rule: leading_int.induct) (auto simp: Let_def split: if_splits intro: le_SucI)

lemma leading_fraction_length: "length (snd (snd (leading_fraction x sc ov s))) \<le> length s"
  by (induction x sc ov s rule: leading_fraction.induct) (auto simp: Let_def intro: le_SucI)

lemma duration_term_shorter:
  assumes "duration_term s = Some (w, s3)"
  shows "length s3 < length s"
proof -
  obtain v s1 where li: "leading_int 0 s = Some (v, s1)"
    using assms by (auto simp: duration_term_def split: if_splits option.splits)
  define dot where "dot = (s1 \<noteq> [] \<and> hd s1 = CHR ''.'')"
  obtain f scale s2 where fr: "(if dot then leading_fraction 0 1 False (tl s1) else (0, 1, s1)) = (f, scale, s2)"
    by (metis prod_cases3)
  have s1: "length s1 \<le> length s" using leading_int_length [OF li] .
  have "length s1 \<noteq> length s \<or> dot \<and> length s2 \<noteq> length (tl s1)" and s3: "s3 = dropWhile (\<lambda>c. \<not> number_char c) s2"
    using assms li fr
    by (auto simp: duration_term_def Let_def dot_def [symmetric] split: if_splits option.splits)
  moreover have "length s2 \<le> length (tl s1) \<and> s1 \<noteq> []" if dot
    using leading_fraction_length [of 0 1 False "tl s1"] fr that by (auto simp: dot_def)
  moreover have "s2 = s1" if "\<not> dot" using fr that by simp
  moreover have "length s3 \<le> length s2" unfolding s3 by (rule length_dropWhile_le)
  ultimately show ?thesis using s1 by (cases dot; cases s1) auto
qed

text \<open>The sum is kept in 64 bits.\<close>

function duration_sum :: "nat \<Rightarrow> string \<Rightarrow> nat option" where
  "duration_sum d s =
     (if s = [] then Some d
      else case duration_term s of
        None \<Rightarrow> None
      | Some (w, s3) \<Rightarrow> let d = (d + w) mod 2 ^ 64 in if d > 2 ^ 63 then None else duration_sum d s3)"
  by pat_completeness auto
termination
  by (relation "measure (\<lambda>(_, s). length s)") (auto dest: duration_term_shorter)

declare duration_sum.simps [simp del]

definition ParseDuration :: "string \<Rightarrow> duration option" where
  "ParseDuration s =
     (let neg = (s \<noteq> [] \<and> hd s = CHR ''-'');
          body = (if s \<noteq> [] \<and> (hd s = CHR ''-'' \<or> hd s = CHR ''+'') then tl s else s) in
      if body = ''0'' then Some 0
      else if body = [] then None
      else case duration_sum 0 body of
        None \<Rightarrow> None
      | Some d \<Rightarrow>
          if neg then Some (- int d)
          else if d > 2 ^ 63 - 1 then None
          else Some (int d))"

end
