(* ===== verification/Rate_Limiter.thy ===== *)
theory Rate_Limiter
  imports Go_Float_Error
begin

text \<open>
  \<open>internal/ratelimit/ratelimit.go\<close>: the bounded set of token buckets both public surfaces use. The
  list is in use order, most recent first, and \<open>buckets\<close> is the index over it: an element is named by
  its key, so the index is the set of keys present. The clock reading is an argument. Token counts
  are \<open>float64\<close>; callers pass specs that satisfy \<open>spec_Valid\<close>, so a rate is never a division by zero.
\<close>

section \<open>Specs\<close>

record limit_spec =
  ls_Requests :: int
  ls_Window :: duration
  ls_Burst :: int

definition spec_Valid :: "limit_spec \<Rightarrow> bool" where
  "spec_Valid s \<longleftrightarrow> ls_Requests s > 0 \<and> ls_Window s > 0 \<and> ls_Burst s \<ge> 0"

text \<open>\<open>Duration.Seconds\<close>: whole seconds and the fraction, added as floats.\<close>

definition Seconds :: "duration \<Rightarrow> rat" where
  "Seconds d = f64 (f64 (of_int (go_div d second)) + f64 (f64 (of_int (go_mod d second)) / 1000000000))"

definition spec_Rate :: "limit_spec \<Rightarrow> rat" where
  "spec_Rate s = f64 (f64 (of_int (ls_Requests s)) / Seconds (ls_Window s))"

definition spec_Capacity :: "limit_spec \<Rightarrow> rat" where
  "spec_Capacity s =
     (if ls_Burst s > 0 then f64 (of_int (ls_Requests s + ls_Burst s)) else f64 (of_int (ls_Requests s)))"

definition spec_Equal :: "limit_spec \<Rightarrow> limit_spec \<Rightarrow> bool" where
  "spec_Equal s t \<longleftrightarrow>
     ls_Requests s = ls_Requests t \<and> ls_Window s = ls_Window t \<and> ls_Burst s = ls_Burst t"

section \<open>The limiter\<close>

record bucket =
  bk_key :: string
  bk_spec :: limit_spec
  bk_tokens :: rat
  bk_last :: time

record Limiter =
  lm_capacity :: int
  lm_buckets :: "string set"
  lm_order :: "bucket list"

definition DefaultCapacity :: int where "DefaultCapacity = 65536"
definition idleFactor :: int where "idleFactor = 2"

definition New :: "int \<Rightarrow> Limiter" where
  "New capacity =
     \<lparr>lm_capacity = (if capacity \<le> 0 then DefaultCapacity else capacity), lm_buckets = {}, lm_order = []\<rparr>"

definition Len :: "Limiter \<Rightarrow> nat" where
  "Len l = card (lm_buckets l)"

definition drop_back :: "Limiter \<Rightarrow> Limiter" where
  "drop_back l = l\<lparr>lm_order := butlast (lm_order l), lm_buckets := lm_buckets l - {bk_key (last (lm_order l))}\<rparr>"

text \<open>The loop of \<open>evictIfFull\<close>; the guard before it is its first test.\<close>

function evictIfFull :: "Limiter \<Rightarrow> Limiter" where
  "evictIfFull l =
     (if int (card (lm_buckets l)) < lm_capacity l then l
      else if lm_order l = [] then l
      else evictIfFull (drop_back l))"
  by pat_completeness auto
termination
  by (relation "measure (\<lambda>l. length (lm_order l))") (auto simp: drop_back_def)

declare evictIfFull.simps [simp del]

text \<open>
  \<open>bucketFor\<close>: the bucket of the key ends up at the front of the list, where \<open>Allow\<close> goes on with it.
\<close>

definition moved_front :: "string \<Rightarrow> bucket list \<Rightarrow> bucket list" where
  "moved_front key bs = filter (\<lambda>b. bk_key b = key) bs @ filter (\<lambda>b. bk_key b \<noteq> key) bs"

definition bucketFor :: "Limiter \<Rightarrow> string \<Rightarrow> limit_spec \<Rightarrow> time \<Rightarrow> Limiter" where
  "bucketFor l key spec now =
     (if key \<in> lm_buckets l then
        (case moved_front key (lm_order l) of
           [] \<Rightarrow> l
         | b # bs \<Rightarrow>
             (let b' = (if spec_Equal (bk_spec b) spec then b
                        else b\<lparr>bk_spec := spec, bk_tokens := spec_Capacity spec, bk_last := now\<rparr>)
              in l\<lparr>lm_order := b' # bs\<rparr>))
      else
        (let l = evictIfFull l;
             b = \<lparr>bk_key = key, bk_spec = spec, bk_tokens = spec_Capacity spec, bk_last = now\<rparr>
         in l\<lparr>lm_order := b # lm_order l, lm_buckets := insert key (lm_buckets l)\<rparr>))"

definition refilled :: "bucket \<Rightarrow> limit_spec \<Rightarrow> time \<Rightarrow> bucket" where
  "refilled b spec now =
     (let elapsed = time_sub now (bk_last b) in
      if elapsed > 0
      then b\<lparr>bk_tokens := min (spec_Capacity spec) (f64 (bk_tokens b + f64 (Seconds elapsed * spec_Rate spec))),
             bk_last := now\<rparr>
      else b)"

text \<open>The wait a refusal reports: rounded up to a millisecond.\<close>

definition retry_after :: "bucket \<Rightarrow> limit_spec \<Rightarrow> duration" where
  "retry_after b spec =
     \<lceil>f64 (f64 (f64 (f64 (1 - bk_tokens b) / spec_Rate spec) * 1000000000) / 1000000)\<rceil> * 1000000"

definition limiter_Allow :: "Limiter \<Rightarrow> string \<Rightarrow> limit_spec \<Rightarrow> time \<Rightarrow> Limiter \<times> bool \<times> duration" where
  "limiter_Allow l key spec now =
     (let l = bucketFor l key spec now in
      case lm_order l of
        [] \<Rightarrow> (l, False, 0)
      | b # bs \<Rightarrow>
          (let b = refilled b spec now in
           if bk_tokens b \<ge> 1
           then (l\<lparr>lm_order := b\<lparr>bk_tokens := f64 (bk_tokens b - 1)\<rparr> # bs\<rparr>, True, 0)
           else (l\<lparr>lm_order := b # bs\<rparr>, False, retry_after b spec)))"

text \<open>\<open>Sweep\<close> walks from the back and stops at the first bucket that is still live.\<close>

definition bucket_live :: "bucket \<Rightarrow> time \<Rightarrow> bool" where
  "bucket_live b now \<longleftrightarrow> time_sub now (bk_last b) < idleFactor * ls_Window (bk_spec b)"

function sweep_loop :: "Limiter \<Rightarrow> time \<Rightarrow> nat \<Rightarrow> Limiter \<times> nat" where
  "sweep_loop l now dropped =
     (if lm_order l = [] then (l, dropped)
      else if bucket_live (last (lm_order l)) now then (l, dropped)
      else sweep_loop (drop_back l) now (dropped + 1))"
  by pat_completeness auto
termination
  by (relation "measure (\<lambda>(l, _, _). length (lm_order l))") (auto simp: drop_back_def)

declare sweep_loop.simps [simp del]

definition limiter_Sweep :: "Limiter \<Rightarrow> time \<Rightarrow> Limiter \<times> nat" where
  "limiter_Sweep l now = sweep_loop l now 0"

section \<open>The invariant\<close>

definition bucket_ok :: "bucket \<Rightarrow> bool" where
  "bucket_ok b \<longleftrightarrow> 0 \<le> bk_tokens b \<and> bk_tokens b \<le> spec_Capacity (bk_spec b)"

definition limiter_ok :: "Limiter \<Rightarrow> bool" where
  "limiter_ok l \<longleftrightarrow>
     0 < lm_capacity l \<and> distinct (map bk_key (lm_order l)) \<and>
     lm_buckets l = bk_key ` set (lm_order l) \<and> int (Len l) \<le> lm_capacity l \<and>
     (\<forall>b\<in>set (lm_order l). bucket_ok b)"

lemma Len_length: "distinct (map bk_key bs) \<Longrightarrow> card (bk_key ` set bs) = length bs"
  by (metis distinct_card length_map set_map)

lemma limiter_ok_length: "limiter_ok l \<Longrightarrow> card (lm_buckets l) = length (lm_order l)"
  by (simp add: limiter_ok_def Len_length)

lemma spec_Capacity_nonneg: "spec_Valid s \<Longrightarrow> 0 \<le> spec_Capacity s"
  by (simp add: spec_Capacity_def spec_Valid_def)

text \<open>Dropping the back element keeps everything but its bucket.\<close>

lemma drop_back_keys:
  assumes "distinct (map bk_key bs)" and "bs \<noteq> []"
  shows "bk_key ` set bs - {bk_key (last bs)} = bk_key ` set (butlast bs)"
proof -
  obtain cs c where bs: "bs = cs @ [c]" using assms(2) by (metis rev_exhaust)
  show ?thesis using assms(1) by (auto simp: bs)
qed

lemma drop_back_ok:
  assumes "limiter_ok l" and "lm_order l \<noteq> []"
  shows "limiter_ok (drop_back l)"
proof -
  have d: "distinct (map bk_key (butlast (lm_order l)))"
    using assms(1) by (simp add: limiter_ok_def map_butlast distinct_butlast)
  have "card (bk_key ` set (butlast (lm_order l))) \<le> card (lm_buckets l)"
    using d limiter_ok_length [OF assms(1)] by (simp add: Len_length)
  with d show ?thesis
    using assms drop_back_keys [of "lm_order l"]
    by (auto simp: limiter_ok_def drop_back_def Len_def dest: in_set_butlastD)
qed

lemma evictIfFull_spec:
  "limiter_ok l \<Longrightarrow>
   limiter_ok (evictIfFull l) \<and> int (Len (evictIfFull l)) < lm_capacity (evictIfFull l) \<and>
   lm_capacity (evictIfFull l) = lm_capacity l \<and> prefix (lm_order (evictIfFull l)) (lm_order l) \<and>
   (int (Len l) < lm_capacity l \<longrightarrow> evictIfFull l = l)"
proof (induction l rule: evictIfFull.induct)
  case (1 l)
  show ?case
  proof (cases "int (card (lm_buckets l)) < lm_capacity l")
    case True
    with 1 show ?thesis by (subst (1 2 3 4 5 6) evictIfFull.simps) (simp add: Len_def)
  next
    case False
    have ne: "lm_order l \<noteq> []"
    proof
      assume "lm_order l = []"
      then show False using False 1(2) by (simp add: limiter_ok_def)
    qed
    have e: "evictIfFull l = evictIfFull (drop_back l)" using False ne by (subst evictIfFull.simps) simp
    have "prefix (butlast (lm_order l)) (lm_order l)" by (metis append_butlast_last_id ne prefixI)
    then show ?thesis
      using 1(1) [OF False ne drop_back_ok [OF 1(2) ne]] False
      unfolding e by (auto simp: drop_back_def Len_def)
  qed
qed

end
