(* ===== verification/Edge_Middleware.thy ===== *)
theory Edge_Middleware
  imports Desired_State Go_Net Rate_Limiter
begin

text \<open>
  \<open>internal/edge/middleware.go\<close> with the routes of \<open>snapshot.go\<close>: a route, its middleware compiled once at
  reload, and what the compiled middleware decides about a request. An error is \<open>None\<close>; its text is for
  the log only.
\<close>

section \<open>Routes\<close>

record Route =
  rt_Project :: string
  rt_Service :: string
  rt_Domains :: "string list"
  rt_Upstream :: string
  rt_Port :: int
  rt_IPRestriction :: "IPRestriction option"
  rt_RateLimit :: "RateLimit option"
  rt_Headers :: "Headers option"
  rt_AuthRequired :: bool
  rt_Protocol :: string

definition RouteProtocolGRPC :: string where "RouteProtocolGRPC = ''grpc''"

definition route_Name :: "Route \<Rightarrow> string" where
  "route_Name r = rt_Project r @ ''/'' @ rt_Service r"

definition route_Address :: "Route \<Rightarrow> string" where
  "route_Address r = rt_Upstream r @ '':'' @ itoa (rt_Port r)"

record compiled =
  c_Route :: Route
  c_allow :: "NetPrefix list"
  c_deny :: "NetPrefix list"
  c_limit :: "limit_spec option"
  c_per :: string
  c_requestSet :: "string gomap"
  c_requestRemove :: "string list"
  c_responseSet :: "string gomap"
  c_responseRemove :: "string list"

section \<open>Compiling\<close>

definition RateLimitPerIP :: string where "RateLimitPerIP = ''ip''"
definition RateLimitPerService :: string where "RateLimitPerService = ''service''"
definition RateLimitPerHeaderPrefix :: string where "RateLimitPerHeaderPrefix = ''header:''"

definition parsePrefix :: "string \<Rightarrow> NetPrefix option" where
  "parsePrefix entry =
     (let entry = TrimSpace entry in
      if CHR ''/'' \<in> set entry then map_option prefix_masked (ParsePrefix entry)
      else map_option (\<lambda>a. PrefixFrom a (BitLen a)) (ParseAddr entry))"

definition parsePrefixes :: "string list \<Rightarrow> NetPrefix list option" where
  "parsePrefixes entries = all_some (map parsePrefix entries)"

text \<open>The bytes no header name may hold: white space, the delimiters, a quote and a backslash.\<close>

definition validHeaderName :: "string \<Rightarrow> bool" where
  "validHeaderName s \<longleftrightarrow>
     s \<noteq> '''' \<and>
     (\<forall>c\<in>set s. c \<notin> set '':()<>@,;/[]?={}'' \<and> (of_char c :: nat) \<notin> {9, 10, 13, 32, 34, 92})"

definition hopByHop :: "string set" where
  "hopByHop = {''connection'', ''keep-alive'', ''proxy-authenticate'', ''proxy-authorization'', ''te'',
     ''trailer'', ''transfer-encoding'', ''upgrade''}"

definition forwardedHeaders :: "string list" where
  "forwardedHeaders = [''forwarded'', ''x-forwarded-for'', ''x-forwarded-host'', ''x-forwarded-port'',
     ''x-forwarded-proto'', ''x-forwarded-server'', ''x-forwarded-ssl'', ''x-original-forwarded-for'', ''x-real-ip'']"

definition canonicalHeaderName :: "string \<Rightarrow> string option" where
  "canonicalHeaderName name =
     (if \<not> validHeaderName name then None
      else
        let canonical = CanonicalMIMEHeaderKey name in
        if ToLower canonical \<in> hopByHop then None
        else if \<exists>owned\<in>set forwardedHeaders. EqualFold owned canonical then None
        else Some canonical)"

fun canonicalHeaders :: "string gomap \<Rightarrow> string gomap \<Rightarrow> string gomap option" where
  "canonicalHeaders out [] = Some out"
| "canonicalHeaders out ((name, value) # m) =
     (case canonicalHeaderName name of
        None \<Rightarrow> None
      | Some canonical \<Rightarrow> canonicalHeaders (AList.update canonical value out) m)"

definition canonicalNames :: "string list \<Rightarrow> string list option" where
  "canonicalNames names = all_some (map canonicalHeaderName names)"

definition compileRateLimit :: "RateLimit \<Rightarrow> (limit_spec \<times> string) option" where
  "compileRateLimit rl =
     (if rl_Requests rl \<le> 0 then None
      else if rl_Burst rl < 0 then None
      else case ParseDuration (rl_Window rl) of
        None \<Rightarrow> None
      | Some window \<Rightarrow>
          if window \<le> 0 then None
          else
            let per = TrimSpace (rl_Per rl);
                per = (if per = '''' then RateLimitPerIP else per);
                spec = \<lparr>ls_Requests = rl_Requests rl, ls_Window = window, ls_Burst = rl_Burst rl\<rparr> in
            if per = RateLimitPerIP \<or> per = RateLimitPerService then Some (spec, per)
            else if has_prefix per RateLimitPerHeaderPrefix then
              (if validHeaderName (TrimPrefix per RateLimitPerHeaderPrefix) then Some (spec, per) else None)
            else None)"

text \<open>The three parts of \<open>compile\<close>, each only when the route has it.\<close>

definition compile_ip :: "Route \<Rightarrow> compiled \<Rightarrow> compiled option" where
  "compile_ip r c =
     (case rt_IPRestriction r of
        None \<Rightarrow> Some c
      | Some ip \<Rightarrow>
          (case parsePrefixes (ipr_Allow ip) of
             None \<Rightarrow> None
           | Some allow \<Rightarrow>
               map_option (\<lambda>deny. c\<lparr>c_allow := allow, c_deny := deny\<rparr>) (parsePrefixes (ipr_Deny ip))))"

definition compile_limit :: "Route \<Rightarrow> compiled \<Rightarrow> compiled option" where
  "compile_limit r c =
     (case rt_RateLimit r of
        None \<Rightarrow> Some c
      | Some rl \<Rightarrow> map_option (\<lambda>(spec, per). c\<lparr>c_limit := Some spec, c_per := per\<rparr>) (compileRateLimit rl))"

definition compile_headers :: "Route \<Rightarrow> compiled \<Rightarrow> compiled option" where
  "compile_headers r c =
     (case rt_Headers r of
        None \<Rightarrow> Some c
      | Some h \<Rightarrow>
          (case (canonicalHeaders [] (hdr_RequestSet h), canonicalHeaders [] (hdr_ResponseSet h),
                 canonicalNames (hdr_RequestRemove h), canonicalNames (hdr_ResponseRemove h)) of
             (Some qs, Some ps, Some qr, Some pr) \<Rightarrow>
               Some (c\<lparr>c_requestSet := qs, c_responseSet := ps, c_requestRemove := qr, c_responseRemove := pr\<rparr>)
           | _ \<Rightarrow> None))"

definition compile :: "Route \<Rightarrow> compiled option" where
  "compile r =
     (let c = \<lparr>c_Route = r, c_allow = [], c_deny = [], c_limit = None, c_per = '''', c_requestSet = [],
               c_requestRemove = [], c_responseSet = [], c_responseRemove = []\<rparr> in
      case compile_ip r c of
        None \<Rightarrow> None
      | Some c \<Rightarrow>
          (case compile_limit r c of
             None \<Rightarrow> None
           | Some c \<Rightarrow> compile_headers r c))"

section \<open>The request path\<close>

text \<open>A request as the middleware sees it; header fields are indexed by canonical name.\<close>

record Request =
  rq_Method :: string
  rq_Host :: string
  rq_Path :: string
  rq_RemoteAddr :: string
  rq_TLS :: bool
  rq_Header :: "string \<Rightarrow> string list"

definition Header_Get :: "(string \<Rightarrow> string list) \<Rightarrow> string \<Rightarrow> string" where
  "Header_Get h name = (case h (CanonicalMIMEHeaderKey name) of [] \<Rightarrow> '''' | v # _ \<Rightarrow> v)"

definition Header_Set :: "(string \<Rightarrow> string list) \<Rightarrow> string \<Rightarrow> string \<Rightarrow> string \<Rightarrow> string list" where
  "Header_Set h name v = h(CanonicalMIMEHeaderKey name := [v])"

definition Header_Del :: "(string \<Rightarrow> string list) \<Rightarrow> string \<Rightarrow> string \<Rightarrow> string list" where
  "Header_Del h name = h(CanonicalMIMEHeaderKey name := [])"

text \<open>\<open>None\<close> is the invalid address.\<close>

definition allowsAddress :: "compiled \<Rightarrow> Addr option \<Rightarrow> bool" where
  "allowsAddress c addr =
     (case addr of
        None \<Rightarrow> c_deny c = [] \<and> c_allow c = []
      | Some a \<Rightarrow>
          if \<exists>p\<in>set (c_deny c). prefix_contains p a then False
          else if c_allow c = [] then True
          else \<exists>p\<in>set (c_allow c). prefix_contains p a)"

text \<open>The empty key means that the request is not limited.\<close>

definition rateKey :: "compiled \<Rightarrow> Request \<Rightarrow> Addr option \<Rightarrow> string" where
  "rateKey c r addr =
     (if c_limit c = None then ''''
      else if c_per c = RateLimitPerService then ''service''
      else if has_prefix (c_per c) RateLimitPerHeaderPrefix then
        (let v = Header_Get (rq_Header r) (TrimPrefix (c_per c) RateLimitPerHeaderPrefix) in
         if v \<noteq> '''' then ''h:'' @ v else ''h:'')
      else case addr of None \<Rightarrow> '''' | Some a \<Rightarrow> ''a:'' @ addr_String a)"

text \<open>Removals run before sets. The sets are a map ranged over; its keys are canonical and distinct.\<close>

definition apply_headers ::
  "string list \<Rightarrow> string gomap \<Rightarrow> (string \<Rightarrow> string list) \<Rightarrow> string \<Rightarrow> string list" where
  "apply_headers remove sets h =
     fold (\<lambda>(name, value) h. Header_Set h name value) sets (fold (\<lambda>name h. Header_Del h name) remove h)"

definition applyRequestHeaders :: "compiled \<Rightarrow> (string \<Rightarrow> string list) \<Rightarrow> string \<Rightarrow> string list" where
  "applyRequestHeaders c = apply_headers (c_requestRemove c) (c_requestSet c)"

definition applyResponseHeaders :: "compiled \<Rightarrow> (string \<Rightarrow> string list) \<Rightarrow> string \<Rightarrow> string list" where
  "applyResponseHeaders c = apply_headers (c_responseRemove c) (c_responseSet c)"

section \<open>What compiling guarantees\<close>

lemma compile_fields:
  assumes "compile r = Some c"
  shows "c_Route c = r"
    and "(rt_IPRestriction r = None \<and> c_allow c = [] \<and> c_deny c = []) \<or>
         (\<exists>ip. rt_IPRestriction r = Some ip \<and> parsePrefixes (ipr_Allow ip) = Some (c_allow c) \<and>
               parsePrefixes (ipr_Deny ip) = Some (c_deny c))"
    and "(rt_RateLimit r = None \<and> c_limit c = None) \<or>
         (\<exists>rl spec. rt_RateLimit r = Some rl \<and> compileRateLimit rl = Some (spec, c_per c) \<and> c_limit c = Some spec)"
proof -
  show "c_Route c = r"
    using assms
    by (auto simp: compile_def compile_ip_def compile_limit_def compile_headers_def Let_def
        split: option.splits prod.splits)
  show "(rt_IPRestriction r = None \<and> c_allow c = [] \<and> c_deny c = []) \<or>
         (\<exists>ip. rt_IPRestriction r = Some ip \<and> parsePrefixes (ipr_Allow ip) = Some (c_allow c) \<and>
               parsePrefixes (ipr_Deny ip) = Some (c_deny c))"
    using assms
    by (auto simp: compile_def compile_ip_def compile_limit_def compile_headers_def Let_def
        split: option.splits prod.splits)
  show "(rt_RateLimit r = None \<and> c_limit c = None) \<or>
         (\<exists>rl spec. rt_RateLimit r = Some rl \<and> compileRateLimit rl = Some (spec, c_per c) \<and> c_limit c = Some spec)"
    using assms
    by (auto simp: compile_def compile_ip_def compile_limit_def compile_headers_def Let_def
        split: option.splits prod.splits)
qed

lemma compileRateLimit_valid: "compileRateLimit rl = Some (spec, per) \<Longrightarrow> spec_Valid spec"
  by (auto simp: compileRateLimit_def spec_Valid_def Let_def split: option.splits if_splits)

lemma compile_limit_valid: "compile r = Some c \<Longrightarrow> c_limit c = Some spec \<Longrightarrow> spec_Valid spec"
  using compile_fields(3) compileRateLimit_valid by fastforce

text \<open>Whether a route compiles does not depend on where it leads.\<close>

lemma compile_None_iff:
  "compile r = None \<longleftrightarrow>
     (\<exists>ip. rt_IPRestriction r = Some ip \<and> (parsePrefixes (ipr_Allow ip) = None \<or> parsePrefixes (ipr_Deny ip) = None)) \<or>
     (\<exists>rl. rt_RateLimit r = Some rl \<and> compileRateLimit rl = None) \<or>
     (\<exists>h. rt_Headers r = Some h \<and>
        (canonicalHeaders [] (hdr_RequestSet h) = None \<or> canonicalHeaders [] (hdr_ResponseSet h) = None \<or>
         canonicalNames (hdr_RequestRemove h) = None \<or> canonicalNames (hdr_ResponseRemove h) = None))"
  by (auto simp: compile_def compile_ip_def compile_limit_def compile_headers_def Let_def
      split: option.splits prod.splits)

end
