(* ===== verification/Edge_Snapshot.thy ===== *)
theory Edge_Snapshot
  imports Edge_Middleware
begin

text \<open>
  \<open>internal/edge/snapshot.go\<close> and \<open>table.go\<close>: the projection kanead publishes for the edge, what makes it
  valid, and the table the edge serves it from. JSON and the atomic rename are not modelled: a file
  holds a snapshot or nothing readable.
\<close>

section \<open>The snapshot\<close>

definition ListenerHTTP :: string where "ListenerHTTP = ''http''"
definition ListenerTCP :: string where "ListenerTCP = ''tcp''"
definition ListenerUDP :: string where "ListenerUDP = ''udp''"

record Listener =
  ln_Project :: string
  ln_Service :: string
  ln_Port :: int
  ln_Mode :: string
  ln_Upstream :: string
  ln_UpstreamPort :: int
  ln_Backends :: "string list"
  ln_MaxConns :: int
  ln_IPRestriction :: "IPRestriction option"
  ln_RateLimit :: "RateLimit option"
  ln_Headers :: "Headers option"

definition listener_Name :: "Listener \<Rightarrow> string" where
  "listener_Name l = ln_Project l @ ''/'' @ ln_Service l"

definition listener_asRoute :: "Listener \<Rightarrow> Route" where
  "listener_asRoute l =
     \<lparr>rt_Project = ln_Project l, rt_Service = ln_Service l, rt_Domains = [], rt_Upstream = ln_Upstream l,
      rt_Port = ln_UpstreamPort l, rt_IPRestriction = ln_IPRestriction l, rt_RateLimit = ln_RateLimit l,
      rt_Headers = ln_Headers l, rt_AuthRequired = False, rt_Protocol = ''''\<rparr>"

record FunctionRoute =
  fr_Project :: string
  fr_Function :: string
  fr_Upstream :: string
  fr_UpstreamPort :: int
  fr_IPRestriction :: "IPRestriction option"
  fr_RateLimit :: "RateLimit option"
  fr_Headers :: "Headers option"
  fr_AuthRequired :: bool

definition function_Name :: "FunctionRoute \<Rightarrow> string" where
  "function_Name f = fr_Project f @ ''/'' @ fr_Function f"

definition function_Prefix :: "FunctionRoute \<Rightarrow> string" where
  "function_Prefix f = ''/'' @ fr_Project f @ ''/'' @ fr_Function f"

definition function_asRoute :: "FunctionRoute \<Rightarrow> Route" where
  "function_asRoute f =
     \<lparr>rt_Project = fr_Project f, rt_Service = fr_Function f, rt_Domains = [], rt_Upstream = fr_Upstream f,
      rt_Port = fr_UpstreamPort f, rt_IPRestriction = fr_IPRestriction f, rt_RateLimit = fr_RateLimit f,
      rt_Headers = fr_Headers f, rt_AuthRequired = fr_AuthRequired f, rt_Protocol = ''''\<rparr>"

record edge_Snapshot =
  sn_Index :: nat
  sn_Routes :: "Route list"
  sn_Listeners :: "Listener list"
  sn_Functions :: "FunctionRoute list"

section \<open>Validation\<close>

text \<open>Why a snapshot cannot be served; the entry is named by its position.\<close>

datatype snapshot_error =
  RouteUnnamed nat | RouteUpstream nat | RoutePort nat | RouteNoDomain nat
| RouteDomainForm nat string | RouteDomainTaken string string string | RouteProtocol nat | RouteMiddleware nat
| ListenerUnnamed nat | ListenerMode nat | ListenerUDPUpstream nat | ListenerBackend nat string
| ListenerUpstream nat | ListenerBackends nat | ListenerPort nat | ListenerUpstreamPort nat
| ListenerMaxConns nat | ListenerLimit nat | ListenerHeaders nat | ListenerPortTaken int string string
| ListenerMiddleware nat
| FunctionUnnamed nat | FunctionUpstream nat | FunctionPort nat | FunctionTaken string string string
| FunctionMiddleware nat

definition port_ok :: "int \<Rightarrow> bool" where
  "port_ok p \<longleftrightarrow> 1 \<le> p \<and> p \<le> 65535"

definition domain_canonical :: "string \<Rightarrow> bool" where
  "domain_canonical d \<longleftrightarrow> d = ToLower d \<and> TrimSpace d = d"

fun validate_domains :: "nat \<Rightarrow> string \<Rightarrow> string list \<Rightarrow> string gomap \<Rightarrow> snapshot_error + string gomap" where
  "validate_domains i name [] seen = Inr seen"
| "validate_domains i name (d # ds) seen =
     (if \<not> domain_canonical d then Inl (RouteDomainForm i d)
      else case map_of seen d of
        Some owner \<Rightarrow> Inl (RouteDomainTaken d owner name)
      | None \<Rightarrow> validate_domains i name ds (AList.update d name seen))"

definition validate_route :: "nat \<Rightarrow> Route \<Rightarrow> string gomap \<Rightarrow> snapshot_error + string gomap" where
  "validate_route i r seen =
     (if rt_Project r = '''' \<or> rt_Service r = '''' then Inl (RouteUnnamed i)
      else if ParseAddr (rt_Upstream r) = None then Inl (RouteUpstream i)
      else if \<not> port_ok (rt_Port r) then Inl (RoutePort i)
      else if rt_Domains r = [] then Inl (RouteNoDomain i)
      else case validate_domains i (route_Name r) (rt_Domains r) seen of
        Inl e \<Rightarrow> Inl e
      | Inr seen \<Rightarrow>
          if rt_Protocol r \<noteq> '''' \<and> rt_Protocol r \<noteq> RouteProtocolGRPC then Inl (RouteProtocol i)
          else if compile r = None then Inl (RouteMiddleware i)
          else Inr seen)"

fun validate_routes :: "nat \<Rightarrow> Route list \<Rightarrow> string gomap \<Rightarrow> snapshot_error + string gomap" where
  "validate_routes i [] seen = Inr seen"
| "validate_routes i (r # rs) seen =
     (case validate_route i r seen of Inl e \<Rightarrow> Inl e | Inr seen \<Rightarrow> validate_routes (i + 1) rs seen)"

text \<open>A node port is claimed within one L4 family.\<close>

type_synonym port_key = "bool \<times> int"

definition listener_key :: "Listener \<Rightarrow> port_key" where
  "listener_key l = (ln_Mode l = ListenerUDP, ln_Port l)"

definition validate_listener ::
  "nat \<Rightarrow> Listener \<Rightarrow> (port_key \<times> string) list \<Rightarrow> snapshot_error + (port_key \<times> string) list" where
  "validate_listener i l byPort =
     (if ln_Project l = '''' \<or> ln_Service l = '''' then Inl (ListenerUnnamed i)
      else if ln_Mode l \<noteq> ListenerHTTP \<and> ln_Mode l \<noteq> ListenerTCP \<and> ln_Mode l \<noteq> ListenerUDP then Inl (ListenerMode i)
      else if ln_Mode l = ListenerUDP \<and> ln_Upstream l \<noteq> '''' then Inl (ListenerUDPUpstream i)
      else case (if ln_Mode l = ListenerUDP then find (\<lambda>b. ParseAddr b = None) (ln_Backends l) else None) of
        Some b \<Rightarrow> Inl (ListenerBackend i b)
      | None \<Rightarrow>
          if ln_Mode l \<noteq> ListenerUDP \<and> ParseAddr (ln_Upstream l) = None then Inl (ListenerUpstream i)
          else if ln_Mode l \<noteq> ListenerUDP \<and> ln_Backends l \<noteq> [] then Inl (ListenerBackends i)
          else if \<not> port_ok (ln_Port l) then Inl (ListenerPort i)
          else if \<not> port_ok (ln_UpstreamPort l) then Inl (ListenerUpstreamPort i)
          else if ln_MaxConns l < 0 then Inl (ListenerMaxConns i)
          else if (ln_Mode l = ListenerTCP \<or> ln_Mode l = ListenerUDP) \<and> ln_RateLimit l \<noteq> None then Inl (ListenerLimit i)
          else if (ln_Mode l = ListenerTCP \<or> ln_Mode l = ListenerUDP) \<and> ln_Headers l \<noteq> None then Inl (ListenerHeaders i)
          else case map_of byPort (listener_key l) of
            Some owner \<Rightarrow> Inl (ListenerPortTaken (ln_Port l) owner (listener_Name l))
          | None \<Rightarrow>
              if compile (listener_asRoute l) = None then Inl (ListenerMiddleware i)
              else Inr (AList.update (listener_key l) (listener_Name l) byPort))"

fun validateListeners ::
  "nat \<Rightarrow> Listener list \<Rightarrow> (port_key \<times> string) list \<Rightarrow> snapshot_error + (port_key \<times> string) list" where
  "validateListeners i [] byPort = Inr byPort"
| "validateListeners i (l # ls) byPort =
     (case validate_listener i l byPort of Inl e \<Rightarrow> Inl e | Inr byPort \<Rightarrow> validateListeners (i + 1) ls byPort)"

definition validate_function :: "nat \<Rightarrow> FunctionRoute \<Rightarrow> string gomap \<Rightarrow> snapshot_error + string gomap" where
  "validate_function i f byPrefix =
     (if fr_Project f = '''' \<or> fr_Function f = '''' then Inl (FunctionUnnamed i)
      else if ParseAddr (fr_Upstream f) = None then Inl (FunctionUpstream i)
      else if \<not> port_ok (fr_UpstreamPort f) then Inl (FunctionPort i)
      else case map_of byPrefix (function_Prefix f) of
        Some owner \<Rightarrow> Inl (FunctionTaken (function_Prefix f) owner (function_Name f))
      | None \<Rightarrow>
          if compile (function_asRoute f) = None then Inl (FunctionMiddleware i)
          else Inr (AList.update (function_Prefix f) (function_Name f) byPrefix))"

fun validateFunctions :: "nat \<Rightarrow> FunctionRoute list \<Rightarrow> string gomap \<Rightarrow> snapshot_error + string gomap" where
  "validateFunctions i [] byPrefix = Inr byPrefix"
| "validateFunctions i (f # fs) byPrefix =
     (case validate_function i f byPrefix of Inl e \<Rightarrow> Inl e | Inr byPrefix \<Rightarrow> validateFunctions (i + 1) fs byPrefix)"

definition snapshot_Validate :: "edge_Snapshot \<Rightarrow> snapshot_error option" where
  "snapshot_Validate s =
     (case validate_routes 0 (sn_Routes s) [] of
        Inl e \<Rightarrow> Some e
      | Inr _ \<Rightarrow>
          (case validateListeners 0 (sn_Listeners s) [] of
             Inl e \<Rightarrow> Some e
           | Inr _ \<Rightarrow>
               (case validateFunctions 0 (sn_Functions s) [] of
                  Inl e \<Rightarrow> Some e
                | Inr _ \<Rightarrow> None)))"

section \<open>Publishing and loading\<close>

text \<open>
  What is at the path: nothing that can be read as a snapshot, or one. \<open>Publish\<close> validates before it
  writes; the write itself may fail, which is an answer of the file system.
\<close>

datatype publish_error = Invalid snapshot_error | WriteFailed

definition Publish :: "bool \<Rightarrow> edge_Snapshot option \<Rightarrow> edge_Snapshot \<Rightarrow> edge_Snapshot option \<times> publish_error option" where
  "Publish write_ok file snap =
     (case snapshot_Validate snap of
        Some e \<Rightarrow> (file, Some (Invalid e))
      | None \<Rightarrow> if write_ok then (Some snap, None) else (file, Some WriteFailed))"

definition Load :: "edge_Snapshot option \<Rightarrow> edge_Snapshot option" where
  "Load file = (case file of None \<Rightarrow> None | Some s \<Rightarrow> if snapshot_Validate s = None then Some s else None)"

section \<open>The table\<close>

record Table =
  tb_byHost :: "compiled gomap"
  tb_listeners :: "Listener list"
  tb_functions :: "FunctionRoute list"
  tb_index :: nat

definition EmptyTable :: Table where
  "EmptyTable = \<lparr>tb_byHost = [], tb_listeners = [], tb_functions = [], tb_index = 0\<rparr>"

fun index_routes :: "Route list \<Rightarrow> compiled gomap \<Rightarrow> compiled gomap option" where
  "index_routes [] m = Some m"
| "index_routes (r # rs) m =
     (case compile r of
        None \<Rightarrow> None
      | Some c \<Rightarrow> index_routes rs (fold (\<lambda>d. AList.update d c) (rt_Domains r) m))"

definition NewTable :: "edge_Snapshot \<Rightarrow> Table option" where
  "NewTable snap =
     (if snapshot_Validate snap \<noteq> None then None
      else map_option
        (\<lambda>m. \<lparr>tb_byHost = m, tb_listeners = sn_Listeners snap, tb_functions = sn_Functions snap,
              tb_index = sn_Index snap\<rparr>)
        (index_routes (sn_Routes snap) []))"

definition NormalizeHost :: "string \<Rightarrow> string" where
  "NormalizeHost host =
     (let host = TrimSpace host in
      if host = '''' then ''''
      else
        let host = (case SplitHostPort host of Some (h, _) \<Rightarrow> h | None \<Rightarrow> host) in
        ToLower (TrimSuffix host ''.''))"

definition lookup :: "Table \<Rightarrow> string \<Rightarrow> compiled option" where
  "lookup t host = map_of (tb_byHost t) (NormalizeHost host)"

definition Lookup :: "Table \<Rightarrow> string \<Rightarrow> Route option" where
  "Lookup t host = map_option c_Route (lookup t host)"

text \<open>\<open>Services\<close>: the distinct services of the table, sorted, whatever order the map is ranged in.\<close>

definition table_Services :: "Table \<Rightarrow> string list" where
  "table_Services t = sort (remdups (map (\<lambda>(_, c). route_Name (c_Route c)) (tb_byHost t)))"

section \<open>What a valid snapshot guarantees\<close>

lemma validate_domains_Inr:
  "validate_domains i name ds seen = Inr seen' \<longleftrightarrow>
     distinct ds \<and> (\<forall>d\<in>set ds. domain_canonical d \<and> map_of seen d = None) \<and>
     seen' = fold (\<lambda>d. AList.update d name) ds seen"
proof (induction ds arbitrary: seen)
  case (Cons d ds)
  show ?case
    by (auto simp: Cons.IH update_conv' split: option.splits if_splits)
qed auto

lemma fold_update_keys:
  "map_of (fold (\<lambda>d. AList.update d v) ds m) k = (if k \<in> set ds then Some v else map_of m k)"
  by (induction ds arbitrary: m) (auto simp: update_conv')

definition route_valid :: "Route \<Rightarrow> bool" where
  "route_valid r \<longleftrightarrow>
     rt_Project r \<noteq> '''' \<and> rt_Service r \<noteq> '''' \<and> ParseAddr (rt_Upstream r) \<noteq> None \<and> port_ok (rt_Port r) \<and>
     rt_Domains r \<noteq> [] \<and> (\<forall>d\<in>set (rt_Domains r). domain_canonical d) \<and>
     (rt_Protocol r = '''' \<or> rt_Protocol r = RouteProtocolGRPC) \<and> compile r \<noteq> None"

lemma validate_route_Inr:
  "validate_route i r seen = Inr seen' \<longleftrightarrow>
     route_valid r \<and> distinct (rt_Domains r) \<and> (\<forall>d\<in>set (rt_Domains r). map_of seen d = None) \<and>
     seen' = fold (\<lambda>d. AList.update d (route_Name r)) (rt_Domains r) seen"
proof (cases "validate_domains i (route_Name r) (rt_Domains r) seen")
  case (Inl e)
  then have "\<not> (distinct (rt_Domains r) \<and> (\<forall>d\<in>set (rt_Domains r). domain_canonical d \<and> map_of seen d = None))"
    using validate_domains_Inr [of i "route_Name r" "rt_Domains r" seen] by auto
  then show ?thesis using Inl by (auto simp: validate_route_def route_valid_def)
next
  case (Inr s)
  then have "distinct (rt_Domains r)" "\<forall>d\<in>set (rt_Domains r). domain_canonical d \<and> map_of seen d = None"
    "s = fold (\<lambda>d. AList.update d (route_Name r)) (rt_Domains r) seen"
    by (simp_all add: validate_domains_Inr)
  then show ?thesis using Inr by (auto simp: validate_route_def route_valid_def)
qed

lemma validate_routes_Inr:
  "(\<exists>seen'. validate_routes i rs seen = Inr seen') \<longleftrightarrow>
     (\<forall>r\<in>set rs. route_valid r) \<and> distinct (concat (map rt_Domains rs)) \<and>
     (\<forall>r\<in>set rs. \<forall>d\<in>set (rt_Domains r). map_of seen d = None)"
proof (induction rs arbitrary: i seen)
  case (Cons r rs)
  have IH: "(\<exists>seen'. validate_routes (i + 1) rs s = Inr seen') \<longleftrightarrow>
     (\<forall>r\<in>set rs. route_valid r) \<and> distinct (concat (map rt_Domains rs)) \<and>
     (\<forall>r\<in>set rs. \<forall>d\<in>set (rt_Domains r). map_of s d = None)" for s
    by (rule Cons.IH)
  show ?case
  proof (cases "validate_route i r seen")
    case (Inl e)
    then have "\<not> (\<exists>s. validate_route i r seen = Inr s)" by simp
    then show ?thesis using Inl unfolding validate_route_Inr by auto
  next
    case (Inr s)
    then have "route_valid r" "distinct (rt_Domains r)" "\<forall>d\<in>set (rt_Domains r). map_of seen d = None"
      and s: "s = fold (\<lambda>d. AList.update d (route_Name r)) (rt_Domains r) seen"
      by (simp_all add: validate_route_Inr)
    then show ?thesis
      unfolding validate_routes.simps Inr sum.case IH
      by (auto simp: fold_update_keys split: if_splits)
  qed
qed simp

end
