(* ===== verification/Edge_Routes.thy ===== *)
theory Edge_Routes
  imports Planner Edge_Snapshot
begin

text \<open>
  \<open>internal/reconciler/routes.go\<close> with \<open>backendsFor\<close> and \<open>lbPorts\<close> of \<open>reconcile.go\<close>: the projection of desired
  state the edge serves from, and the pass that publishes it when the file does not already hold it.
  Two pointers of the code are compared to see whether an expose block is the service's first; here
  each block carries that bit. Log lines are left out.
\<close>

section \<open>Hostnames\<close>

definition canonicalDomain :: "string \<Rightarrow> string" where
  "canonicalDomain d = ToLower (TrimDots (TrimSpace d))"

definition tagged_exposes :: "Desired \<Rightarrow> (bool \<times> Expose) list" where
  "tagged_exposes d = (case AllExposes d of [] \<Rightarrow> [] | e # es \<Rightarrow> (True, e) # map (Pair False) es)"

definition EdgeDomainsFor :: "Desired \<Rightarrow> bool \<Rightarrow> Expose \<Rightarrow> string \<Rightarrow> string list" where
  "EdgeDomainsFor d first e baseDomain =
     (if ex_Domains e \<noteq> [] then filter (\<lambda>c. c \<noteq> '''') (map canonicalDomain (ex_Domains e))
      else if \<not> first then []
      else
        let base = TrimDots (TrimSpace baseDomain) in
        if base = '''' then [] else [canonicalDomain (d_Service d @ ''.'' @ d_Project d @ ''.'' @ base)])"

definition EdgeDomains :: "Desired \<Rightarrow> string \<Rightarrow> string list" where
  "EdgeDomains d baseDomain = concat (map (\<lambda>(first, e). EdgeDomainsFor d first e baseDomain) (tagged_exposes d))"

definition ResolveTLSMode :: "Expose option \<Rightarrow> string \<Rightarrow> string" where
  "ResolveTLSMode e nodeDefault =
     (case e of
        None \<Rightarrow> ''''
      | Some e \<Rightarrow> if ex_TLSMode e \<noteq> '''' then ex_TLSMode e else if ex_LetsEncrypt e then ''acme'' else nodeDefault)"

text \<open>Service keys are unique in the Store, so the sort has no ties to break.\<close>

definition sortedDesired :: "Desired list \<Rightarrow> Desired list" where
  "sortedDesired = sort_key d_key"

definition vip_of :: "string gomap \<Rightarrow> Desired \<Rightarrow> string" where
  "vip_of vips d = (case map_of vips (d_key d) of Some v \<Rightarrow> v | None \<Rightarrow> '''')"

section \<open>Routes\<close>

text \<open>First writer wins: the domains a service keeps are those nobody claimed before.\<close>

fun claim_domains :: "string \<Rightarrow> string list \<Rightarrow> string gomap \<Rightarrow> string list \<Rightarrow> string gomap \<times> string list" where
  "claim_domains name [] claimed kept = (claimed, kept)"
| "claim_domains name (d # ds) claimed kept =
     (case map_of claimed d of
        Some _ \<Rightarrow> claim_domains name ds claimed kept
      | None \<Rightarrow> claim_domains name ds (AList.update d name claimed) (kept @ [d]))"

definition route_for :: "Desired \<Rightarrow> Expose \<Rightarrow> string \<Rightarrow> string list \<Rightarrow> Route" where
  "route_for d e vip kept =
     \<lparr>rt_Project = d_Project d, rt_Service = d_Service d, rt_Domains = kept, rt_Upstream = vip,
      rt_Port = ex_Port e, rt_IPRestriction = ex_IPRestriction e, rt_RateLimit = ex_RateLimit e,
      rt_Headers = ex_Headers e, rt_AuthRequired = (ex_Auth e \<noteq> None), rt_Protocol = ex_Protocol e\<rparr>"

fun build_exposes ::
  "string \<Rightarrow> Desired \<Rightarrow> string \<Rightarrow> (bool \<times> Expose) list \<Rightarrow> string gomap \<Rightarrow> string gomap \<times> Route list" where
  "build_exposes baseDomain d vip [] claimed = (claimed, [])"
| "build_exposes baseDomain d vip ((first, e) # es) claimed =
     (let domains = EdgeDomainsFor d first e baseDomain in
      if domains = [] then build_exposes baseDomain d vip es claimed
      else case claim_domains (d_key d) domains claimed [] of
        (claimed, kept) \<Rightarrow>
          (case build_exposes baseDomain d vip es claimed of
             (claimed, routes) \<Rightarrow> (claimed, if kept = [] then routes else route_for d e vip kept # routes)))"

fun build_services :: "string \<Rightarrow> string gomap \<Rightarrow> Desired list \<Rightarrow> string gomap \<Rightarrow> Route list" where
  "build_services baseDomain vips [] claimed = []"
| "build_services baseDomain vips (d # ds) claimed =
     (if AllExposes d = [] \<or> vip_of vips d = '''' then build_services baseDomain vips ds claimed
      else case build_exposes baseDomain d (vip_of vips d) (tagged_exposes d) claimed of
        (claimed, routes) \<Rightarrow> routes @ build_services baseDomain vips ds claimed)"

definition buildRoutes :: "string \<Rightarrow> World \<Rightarrow> string gomap \<Rightarrow> Route list" where
  "buildRoutes baseDomain w vips = build_services baseDomain vips (sortedDesired (w_Desired w)) []"

section \<open>Backends\<close>

text \<open>The fields of \<open>network.Attachment\<close> and \<open>network.Backend\<close> the reconciler reads and writes.\<close>

record Attachment =
  na_IPv4 :: string
  na_IPv6 :: string
  na_Ready :: bool

record Backend =
  be_AllocID :: string
  be_IPv4 :: string
  be_IPv6 :: string

definition backend_of :: "World \<Rightarrow> Attachment gomap \<Rightarrow> string \<Rightarrow> Backend option" where
  "backend_of w attachments i =
     (case map_of (w_Actual w) i of
        None \<Rightarrow> None
      | Some status \<Rightarrow>
          if st_State status \<noteq> StateRunning then None
          else case map_of attachments i of
            None \<Rightarrow> None
          | Some att \<Rightarrow>
              if \<not> na_Ready att \<or> na_IPv4 att = '''' then None
              else Some \<lparr>be_AllocID = i, be_IPv4 = na_IPv4 att, be_IPv6 = na_IPv6 att\<rparr>)"

definition backendsFor :: "World \<Rightarrow> Desired \<Rightarrow> Attachment gomap \<Rightarrow> Backend list" where
  "backendsFor w d attachments =
     sort_key be_AllocID
       (List.map_filter (\<lambda>i. backend_of w attachments (AllocID (d_Project d) (d_Service d) i)) (range_int (d_Count d)))"

definition lbPorts :: "Desired \<Rightarrow> Port list" where
  "lbPorts d = filter (\<lambda>p. \<not> IsUDP p) (d_Ports d)"

definition backendAddrs :: "Backend list \<Rightarrow> string list" where
  "backendAddrs bs = sort (filter (\<lambda>a. a \<noteq> '''') (map be_IPv4 bs))"

section \<open>Published ports\<close>

definition listener_for ::
  "World \<Rightarrow> Attachment gomap \<Rightarrow> string \<Rightarrow> Desired \<Rightarrow> PublishedPort \<Rightarrow> string \<Rightarrow> int \<Rightarrow> Listener" where
  "listener_for w attachments vip d p mode upstream =
     \<lparr>ln_Project = d_Project d, ln_Service = d_Service d, ln_Port = pp_Host p, ln_Mode = mode,
      ln_Upstream = (if mode = ListenerUDP then '''' else vip), ln_UpstreamPort = upstream,
      ln_Backends = (if mode = ListenerUDP then backendAddrs (backendsFor w d attachments) else []),
      ln_MaxConns = pp_MaxConns p, ln_IPRestriction = pp_IPRestriction p,
      ln_RateLimit = (if mode = ListenerHTTP then pp_RateLimit p else None),
      ln_Headers = (if mode = ListenerHTTP then pp_Headers p else None)\<rparr>"

fun build_published ::
  "World \<Rightarrow> Attachment gomap \<Rightarrow> string \<Rightarrow> Desired \<Rightarrow> PublishedPort list \<Rightarrow> (port_key \<times> string) list \<Rightarrow>
   (port_key \<times> string) list \<times> Listener list" where
  "build_published w attachments vip d [] claimed = (claimed, [])"
| "build_published w attachments vip d (p # ps) claimed =
     (let mode = (if pp_Mode p = '''' then ListenerHTTP else pp_Mode p);
          upstream = portNumber d (pp_Port p);
          key = (mode = ListenerUDP, pp_Host p) in
      if mode \<noteq> ListenerUDP \<and> vip = '''' then build_published w attachments vip d ps claimed
      else if upstream = 0 then build_published w attachments vip d ps claimed
      else case map_of claimed key of
        Some _ \<Rightarrow> build_published w attachments vip d ps claimed
      | None \<Rightarrow>
          (case build_published w attachments vip d ps (AList.update key (d_key d) claimed) of
             (claimed, ls) \<Rightarrow> (claimed, listener_for w attachments vip d p mode upstream # ls)))"

fun build_listeners_from ::
  "World \<Rightarrow> string gomap \<Rightarrow> Attachment gomap \<Rightarrow> Desired list \<Rightarrow> (port_key \<times> string) list \<Rightarrow> Listener list" where
  "build_listeners_from w vips attachments [] claimed = []"
| "build_listeners_from w vips attachments (d # ds) claimed =
     (if d_Publish d = [] then build_listeners_from w vips attachments ds claimed
      else case build_published w attachments (vip_of vips d) d (d_Publish d) claimed of
        (claimed, ls) \<Rightarrow> ls @ build_listeners_from w vips attachments ds claimed)"

definition buildListeners :: "World \<Rightarrow> string gomap \<Rightarrow> Attachment gomap \<Rightarrow> Listener list" where
  "buildListeners w vips attachments = build_listeners_from w vips attachments (sortedDesired (w_Desired w)) []"

section \<open>The functions dispatch table\<close>

definition function_route_for :: "string \<Rightarrow> string gomap \<Rightarrow> Desired \<Rightarrow> FunctionRoute option" where
  "function_route_for baseDomain vips d =
     (case (d_Function d, d_Expose d) of
        (Some fm, Some e) \<Rightarrow>
          if \<not> fn_HTTP fm then None
          else if EdgeDomains d baseDomain \<noteq> [] then None
          else if vip_of vips d = '''' then None
          else Some \<lparr>fr_Project = d_Project d, fr_Function = d_Service d, fr_Upstream = vip_of vips d,
                 fr_UpstreamPort = ex_Port e, fr_IPRestriction = ex_IPRestriction e, fr_RateLimit = ex_RateLimit e,
                 fr_Headers = ex_Headers e, fr_AuthRequired = (ex_Auth e \<noteq> None)\<rparr>
      | _ \<Rightarrow> None)"

definition buildFunctionRoutes :: "string \<Rightarrow> World \<Rightarrow> string gomap \<Rightarrow> FunctionRoute list" where
  "buildFunctionRoutes baseDomain w vips =
     List.map_filter (function_route_for baseDomain vips) (sortedDesired (w_Desired w))"

section \<open>Comparing with what is published\<close>

text \<open>\<open>reflect.DeepEqual\<close> on header rules: the maps are compared as maps.\<close>

definition headers_equal :: "Headers option \<Rightarrow> Headers option \<Rightarrow> bool" where
  "headers_equal x y =
     (case (x, y) of
        (None, None) \<Rightarrow> True
      | (Some a, Some b) \<Rightarrow>
          set (hdr_RequestSet a) = set (hdr_RequestSet b) \<and> hdr_RequestRemove a = hdr_RequestRemove b \<and>
          set (hdr_ResponseSet a) = set (hdr_ResponseSet b) \<and> hdr_ResponseRemove a = hdr_ResponseRemove b
      | _ \<Rightarrow> False)"

definition route_equal :: "Route \<Rightarrow> Route \<Rightarrow> bool" where
  "route_equal x y \<longleftrightarrow>
     rt_Project x = rt_Project y \<and> rt_Service x = rt_Service y \<and> rt_Upstream x = rt_Upstream y \<and>
     rt_Port x = rt_Port y \<and> rt_AuthRequired x = rt_AuthRequired y \<and> rt_Protocol x = rt_Protocol y \<and>
     rt_Domains x = rt_Domains y \<and> rt_IPRestriction x = rt_IPRestriction y \<and>
     rt_RateLimit x = rt_RateLimit y \<and> headers_equal (rt_Headers x) (rt_Headers y)"

definition listener_equal :: "Listener \<Rightarrow> Listener \<Rightarrow> bool" where
  "listener_equal x y \<longleftrightarrow>
     ln_Project x = ln_Project y \<and> ln_Service x = ln_Service y \<and> ln_Port x = ln_Port y \<and> ln_Mode x = ln_Mode y \<and>
     ln_Upstream x = ln_Upstream y \<and> ln_UpstreamPort x = ln_UpstreamPort y \<and> ln_Backends x = ln_Backends y \<and>
     ln_MaxConns x = ln_MaxConns y \<and> ln_IPRestriction x = ln_IPRestriction y \<and>
     ln_RateLimit x = ln_RateLimit y \<and> headers_equal (ln_Headers x) (ln_Headers y)"

definition function_equal :: "FunctionRoute \<Rightarrow> FunctionRoute \<Rightarrow> bool" where
  "function_equal x y \<longleftrightarrow>
     fr_Project x = fr_Project y \<and> fr_Function x = fr_Function y \<and> fr_Upstream x = fr_Upstream y \<and>
     fr_UpstreamPort x = fr_UpstreamPort y \<and> fr_AuthRequired x = fr_AuthRequired y \<and>
     fr_IPRestriction x = fr_IPRestriction y \<and> fr_RateLimit x = fr_RateLimit y \<and>
     headers_equal (fr_Headers x) (fr_Headers y)"

definition routesEqual :: "Route list \<Rightarrow> Route list \<Rightarrow> bool" where
  "routesEqual = list_all2 route_equal"

definition listenersEqual :: "Listener list \<Rightarrow> Listener list \<Rightarrow> bool" where
  "listenersEqual = list_all2 listener_equal"

definition functionsEqual :: "FunctionRoute list \<Rightarrow> FunctionRoute list \<Rightarrow> bool" where
  "functionsEqual = list_all2 function_equal"

definition snapshotIsPublished ::
  "edge_Snapshot option \<Rightarrow> Route list \<Rightarrow> Listener list \<Rightarrow> FunctionRoute list \<Rightarrow> bool" where
  "snapshotIsPublished file routes listeners functions =
     (case Load file of
        None \<Rightarrow> False
      | Some published \<Rightarrow>
          routesEqual routes (sn_Routes published) \<and> listenersEqual listeners (sn_Listeners published) \<and>
          functionsEqual functions (sn_Functions published))"

text \<open>
  One pass. \<open>enabled\<close> is that a snapshot path is configured, \<open>index\<close> the Store's answer, \<open>write_ok\<close> the file
  system's; the result is the file afterwards and whether \<open>Publish\<close> was called.
\<close>

definition syncEdgeRoutes ::
  "bool \<Rightarrow> string \<Rightarrow> nat option \<Rightarrow> bool \<Rightarrow> World \<Rightarrow> string gomap \<Rightarrow> Attachment gomap \<Rightarrow> edge_Snapshot option \<Rightarrow>
   edge_Snapshot option \<times> bool" where
  "syncEdgeRoutes enabled baseDomain index write_ok w vips attachments file =
     (if \<not> enabled then (file, False)
      else
        let routes = buildRoutes baseDomain w vips;
            listeners = buildListeners w vips attachments;
            functions = buildFunctionRoutes baseDomain w vips in
        if snapshotIsPublished file routes listeners functions then (file, False)
        else
          let snap = \<lparr>sn_Index = (case index of Some i \<Rightarrow> i | None \<Rightarrow> 0), sn_Routes = routes,
                      sn_Listeners = listeners, sn_Functions = functions\<rparr>
          in (fst (Publish write_ok file snap), True))"

end
