(* ===== verification/Edge_Routes_Facts.thy ===== *)
theory Edge_Routes_Facts
  imports Edge_Routes
begin

text \<open>
  What the projection promises: each hostname goes to the first service, in the order of the keys,
  that claims it; a projection of servable records is valid and is published once.
\<close>

section \<open>Who claims what\<close>

text \<open>Every claim of the desired state, in the order the code meets them.\<close>

definition expose_claims :: "string \<Rightarrow> Desired \<Rightarrow> (bool \<times> Expose) list \<Rightarrow> (string \<times> Desired \<times> Expose) list" where
  "expose_claims baseDomain d es =
     concat (map (\<lambda>(first, e). map (\<lambda>h. (h, d, e)) (EdgeDomainsFor d first e baseDomain)) es)"

definition claims :: "string \<Rightarrow> string gomap \<Rightarrow> Desired list \<Rightarrow> (string \<times> Desired \<times> Expose) list" where
  "claims baseDomain vips ds =
     concat (map (\<lambda>d. if vip_of vips d = '''' then [] else expose_claims baseDomain d (tagged_exposes d)) ds)"

text \<open>
  Routes realise a list of claims beyond the names already taken: no hostname is in two places, a
  route has the names its block was the first to claim, and each name claimed is in a route.
\<close>

definition realises ::
  "string gomap \<Rightarrow> string set \<Rightarrow> (string \<times> Desired \<times> Expose) list \<Rightarrow> Route list \<Rightarrow> bool" where
  "realises vips K cs rs \<longleftrightarrow>
     distinct (concat (map rt_Domains rs)) \<and>
     (\<forall>r\<in>set rs. rt_Domains r \<noteq> [] \<and>
        (\<exists>d e. r = route_for d e (vip_of vips d) (rt_Domains r) \<and>
           (\<forall>h\<in>set (rt_Domains r). h \<notin> K \<and> map_of cs h = Some (d, e)))) \<and>
     (\<forall>h. h \<notin> K \<and> map_of cs h \<noteq> None \<longrightarrow> (\<exists>r\<in>set rs. h \<in> set (rt_Domains r)))"

lemma realises_Nil [simp]: "realises vips K [] []"
  by (simp add: realises_def)

lemma realises_keys: "realises vips K cs rs \<Longrightarrow> r \<in> set rs \<Longrightarrow> h \<in> set (rt_Domains r) \<Longrightarrow> h \<notin> K \<and> h \<in> fst ` set cs"
  unfolding realises_def by (metis map_of_eq_None_iff option.distinct(1))

lemma realises_append:
  assumes a: "realises vips K cs rs" and b: "realises vips (K \<union> fst ` set cs) cs' rs'"
  shows "realises vips K (cs @ cs') (rs @ rs')"
  unfolding realises_def
proof (intro conjI)
  show "distinct (concat (map rt_Domains (rs @ rs')))"
    using a b realises_keys [OF a] realises_keys [OF b] by (fastforce simp: realises_def)
  show "\<forall>h. h \<notin> K \<and> map_of (cs @ cs') h \<noteq> None \<longrightarrow> (\<exists>r\<in>set (rs @ rs'). h \<in> set (rt_Domains r))"
  proof (intro allI impI)
    fix h assume h: "h \<notin> K \<and> map_of (cs @ cs') h \<noteq> None"
    show "\<exists>r\<in>set (rs @ rs'). h \<in> set (rt_Domains r)"
    proof (cases "map_of cs h")
      case None
      then have "h \<notin> K \<union> fst ` set cs" using h by (auto simp: map_of_eq_None_iff)
      moreover have "map_of cs' h \<noteq> None" using h None by (simp add: map_add_def)
      ultimately show ?thesis using b by (auto simp: realises_def)
    qed (use a h in \<open>auto simp: realises_def\<close>)
  qed
  show "\<forall>r\<in>set (rs @ rs'). rt_Domains r \<noteq> [] \<and>
        (\<exists>d e. r = route_for d e (vip_of vips d) (rt_Domains r) \<and>
           (\<forall>h\<in>set (rt_Domains r). h \<notin> K \<and> map_of (cs @ cs') h = Some (d, e)))"
  proof
    fix r assume "r \<in> set (rs @ rs')"
    then consider "r \<in> set rs" | "r \<in> set rs'" by auto
    then show "rt_Domains r \<noteq> [] \<and> (\<exists>d e. r = route_for d e (vip_of vips d) (rt_Domains r) \<and>
           (\<forall>h\<in>set (rt_Domains r). h \<notin> K \<and> map_of (cs @ cs') h = Some (d, e)))"
    proof cases
      case 1
      then have "rt_Domains r \<noteq> []" and "\<exists>d e. r = route_for d e (vip_of vips d) (rt_Domains r) \<and>
           (\<forall>h\<in>set (rt_Domains r). h \<notin> K \<and> map_of cs h = Some (d, e))" using a by (auto simp: realises_def)
      then show ?thesis by (fastforce simp: map_add_def)
    next
      case 2
      then have "rt_Domains r \<noteq> []" and "\<exists>d e. r = route_for d e (vip_of vips d) (rt_Domains r) \<and>
           (\<forall>h\<in>set (rt_Domains r). h \<notin> K \<union> fst ` set cs \<and> map_of cs' h = Some (d, e))"
        using b by (auto simp: realises_def)
      moreover have "map_of cs h = None" if "h \<notin> K \<union> fst ` set cs" for h using that by (auto simp: map_of_eq_None_iff)
      ultimately show ?thesis by (metis (no_types, lifting) Un_iff map_add_def map_of_append option.simps(4) option.simps(5))
    qed
  qed
qed

lemma claim_domains_spec:
  assumes "claim_domains name ds claimed kept = (claimed', kept')"
  shows "gm_keys claimed' = gm_keys claimed \<union> set ds \<and>
    (\<exists>new. kept' = kept @ new \<and> distinct new \<and> set new = set ds - gm_keys claimed)"
  using assms
proof (induction ds arbitrary: claimed kept)
  case (Cons d ds)
  show ?case
  proof (cases "map_of claimed d")
    case None
    then have nk: "d \<notin> gm_keys claimed" by (simp add: gm_keys_map_of)
    have ku: "gm_keys (AList.update d name claimed) = insert d (gm_keys claimed)"
      by (auto simp: set_eq_iff gm_keys_map_of update_conv')
    have p: "claim_domains name ds (AList.update d name claimed) (kept @ [d]) = (claimed', kept')"
      using Cons.prems None by simp
    obtain new where "kept' = (kept @ [d]) @ new" "distinct new" "set new = set ds - insert d (gm_keys claimed)"
      and "gm_keys claimed' = insert d (gm_keys claimed) \<union> set ds"
      using Cons.IH [OF p] unfolding ku by blast
    then show ?thesis using nk by (intro conjI exI [of _ "d # new"]) auto
  next
    case (Some x)
    then have "d \<in> gm_keys claimed" by (simp add: gm_keys_map_of)
    moreover have "claim_domains name ds claimed kept = (claimed', kept')" using Cons.prems Some by simp
    ultimately show ?thesis using Cons.IH [of claimed kept] by auto
  qed
qed auto


lemma realises_block:
  assumes "claim_domains name ds claimed [] = (claimed', kept)" and "vip = vip_of vips d"
  shows "realises vips (gm_keys claimed) (map (\<lambda>h. (h, d, e)) ds) (if kept = [] then [] else [route_for d e vip kept])"
proof -
  have k: "distinct kept" "set kept = set ds - gm_keys claimed" using claim_domains_spec [OF assms(1)] by auto
  have m: "map_of (map (\<lambda>h. (h, d, e)) ds) h = (if h \<in> set ds then Some (d, e) else None)" for h
    by (induction ds) auto
  show ?thesis using k by (auto simp: realises_def m assms(2) route_for_def)
qed

lemma build_exposes_realises:
  assumes "build_exposes baseDomain d (vip_of vips d) es claimed = (claimed', rs)"
  shows "realises vips (gm_keys claimed) (expose_claims baseDomain d es) rs \<and>
         gm_keys claimed' = gm_keys claimed \<union> fst ` set (expose_claims baseDomain d es)"
  using assms
proof (induction es arbitrary: claimed claimed' rs)
  case Nil
  then show ?case by (simp add: expose_claims_def)
next
  case (Cons x es)
  obtain first e where x: "x = (first, e)" by (cases x)
  let ?ds = "EdgeDomainsFor d first e baseDomain"
  have ec: "expose_claims baseDomain d (x # es) = map (\<lambda>h. (h, d, e)) ?ds @ expose_claims baseDomain d es"
    by (simp add: expose_claims_def x)
  show ?case
  proof (cases "?ds = []")
    case True
    then have e2: "expose_claims baseDomain d (x # es) = expose_claims baseDomain d es" unfolding ec by simp
    have "build_exposes baseDomain d (vip_of vips d) es claimed = (claimed', rs)" using Cons.prems True by (simp add: x)
    from Cons.IH [OF this] show ?thesis unfolding e2 .
  next
    case False
    obtain c1 kept where c1: "claim_domains (d_key d) ?ds claimed [] = (c1, kept)" by fastforce
    obtain c2 rs2 where c2: "build_exposes baseDomain d (vip_of vips d) es c1 = (c2, rs2)" by fastforce
    have out: "claimed' = c2" "rs = (if kept = [] then [] else [route_for d e (vip_of vips d) kept]) @ rs2"
      using Cons.prems False c1 c2 by (auto simp: x split: if_splits)
    have k1: "gm_keys c1 = gm_keys claimed \<union> fst ` set (map (\<lambda>h. (h, d, e)) ?ds)"
      using claim_domains_spec [OF c1] by (auto simp: image_image)
    note b = realises_block [OF c1 refl, where d = d and e = e and vips = vips]
    note IH = Cons.IH [OF c2]
    have "realises vips (gm_keys claimed) (expose_claims baseDomain d (x # es)) rs"
      unfolding ec out(2) by (rule realises_append [OF b]) (use IH k1 in simp)
    then show ?thesis using IH k1 out(1) by (auto simp: ec)
  qed
qed

lemma build_services_realises:
  "realises vips (gm_keys claimed) (claims baseDomain vips ds) (build_services baseDomain vips ds claimed)"
proof (induction ds arbitrary: claimed)
  case Nil
  then show ?case by (simp add: claims_def)
next
  case (Cons d ds)
  have cc: "claims baseDomain vips (d # ds) =
      (if vip_of vips d = '''' then [] else expose_claims baseDomain d (tagged_exposes d)) @ claims baseDomain vips ds"
    by (simp add: claims_def)
  show ?case
  proof (cases "AllExposes d = [] \<or> vip_of vips d = ''''")
    case True
    then have "(if vip_of vips d = '''' then [] else expose_claims baseDomain d (tagged_exposes d)) = []"
      by (auto simp: tagged_exposes_def expose_claims_def)
    then show ?thesis using Cons True by (simp only: cc append_Nil build_services.simps if_True)
  next
    case False
    obtain c rs where c: "build_exposes baseDomain d (vip_of vips d) (tagged_exposes d) claimed = (c, rs)" by fastforce
    note b = build_exposes_realises [OF c]
    have "realises vips (gm_keys claimed) (expose_claims baseDomain d (tagged_exposes d) @ claims baseDomain vips ds)
        (rs @ build_services baseDomain vips ds c)"
      by (rule realises_append) (use b Cons [of c] in auto)
    then show ?thesis using False c by (simp add: cc)
  qed
qed

lemma buildRoutes_realises:
  "realises vips {} (claims baseDomain vips (sortedDesired (w_Desired w))) (buildRoutes baseDomain w vips)"
  using build_services_realises [where claimed = "[]" and vips = vips] by (simp add: buildRoutes_def gm_keys_def)

section \<open>The table the edge builds from it\<close>

lemma index_routes_map_of:
  assumes "index_routes rs m = Some m'" and "distinct (concat (map rt_Domains rs))"
  shows "map_of m' h =
    (case find (\<lambda>r. h \<in> set (rt_Domains r)) rs of Some r \<Rightarrow> compile r | None \<Rightarrow> map_of m h)"
  using assms
proof (induction rs arbitrary: m)
  case (Cons r rs)
  obtain c where c: "compile r = Some c" and m': "index_routes rs (fold (\<lambda>d. AList.update d c) (rt_Domains r) m) = Some m'"
    using Cons.prems(1) by (auto split: option.splits)
  have d: "distinct (concat (map rt_Domains rs))" using Cons.prems(2) by simp
  note IH = Cons.IH [OF m' d]
  show ?case
  proof (cases "h \<in> set (rt_Domains r)")
    case True
    then have "find (\<lambda>r. h \<in> set (rt_Domains r)) rs = None"
      using Cons.prems(2) by (auto simp: find_None_iff)
    then show ?thesis using IH True c by (simp add: fold_update_keys)
  next
    case False
    then show ?thesis using IH by (simp add: fold_update_keys split: option.splits)
  qed
qed simp

lemma index_routes_compile: "index_routes rs m = Some m' \<Longrightarrow> r \<in> set rs \<Longrightarrow> \<exists>c. compile r = Some c"
  by (induction rs arbitrary: m) (auto split: option.splits)

text \<open>What stands behind an entry of the table: the first block that claims its name, compiled.\<close>

lemma lookup_claim:
  assumes "sn_Routes snap = buildRoutes baseDomain w vips" and "NewTable snap = Some t"
  shows "case map_of (claims baseDomain vips (sortedDesired (w_Desired w))) (NormalizeHost host) of
           None \<Rightarrow> lookup t host = None
         | Some (d, e) \<Rightarrow> \<exists>c kept. lookup t host = Some c \<and> compile (route_for d e (vip_of vips d) kept) = Some c"
proof -
  let ?rs = "buildRoutes baseDomain w vips" and ?cs = "claims baseDomain vips (sortedDesired (w_Desired w))"
  let ?h = "NormalizeHost host"
  note R = buildRoutes_realises [of vips baseDomain w]
  obtain m where m: "index_routes ?rs [] = Some m" and t: "tb_byHost t = m"
    using assms by (auto simp: NewTable_def split: if_splits)
  have dist: "distinct (concat (map rt_Domains ?rs))" using R by (simp add: realises_def)
  note look = index_routes_map_of [OF m dist, of ?h]
  show ?thesis
  proof (cases "find (\<lambda>r. ?h \<in> set (rt_Domains r)) ?rs")
    case None
    then have "map_of ?cs ?h = None" using R unfolding realises_def find_None_iff by blast
    then show ?thesis using look None by (simp add: lookup_def t)
  next
    case (Some r)
    then have r: "r \<in> set ?rs" "?h \<in> set (rt_Domains r)" by (auto simp: find_Some_iff)
    then obtain d e where re: "r = route_for d e (vip_of vips d) (rt_Domains r)" and cl: "map_of ?cs ?h = Some (d, e)"
      using R by (auto simp: realises_def)
    obtain c where c: "compile r = Some c" using index_routes_compile [OF m r(1)] by blast
    then show ?thesis using look Some cl re by (auto simp: lookup_def t intro!: exI [of _ "rt_Domains r"])
  qed
qed

text \<open>
  C19. The whole way from desired state to a routing decision: whatever valid snapshot carries the routes
  kanead builds, a Host header is answered by the first expose block, in the order of the service
  keys, that claims the name it normalises to, and by nobody when nobody does. The route has that
  block's address, port, rules and authentication marker.
\<close>

theorem lookup_is_first_claim:
  assumes "sn_Routes snap = buildRoutes baseDomain w vips" and "NewTable snap = Some t"
  shows "map_option (\<lambda>r. r\<lparr>rt_Domains := []\<rparr>) (Lookup t host) =
         map_option (\<lambda>(d, e). route_for d e (vip_of vips d) [])
           (map_of (claims baseDomain vips (sortedDesired (w_Desired w))) (NormalizeHost host))"
  using lookup_claim [OF assms, of host]
  by (auto simp: Lookup_def route_for_def compile_fields(1) split: option.splits)


section \<open>A projection of servable records is valid\<close>

lemma compile_cong:
  "rt_IPRestriction r = rt_IPRestriction r' \<Longrightarrow> rt_RateLimit r = rt_RateLimit r' \<Longrightarrow> rt_Headers r = rt_Headers r' \<Longrightarrow>
   compile r = None \<longleftrightarrow> compile r' = None"
  by (simp add: compile_None_iff)

definition expose_servable :: "string \<Rightarrow> Desired \<Rightarrow> bool \<times> Expose \<Rightarrow> bool" where
  "expose_servable baseDomain d x \<longleftrightarrow>
     (case x of (first, e) \<Rightarrow>
        (\<forall>h\<in>set (EdgeDomainsFor d first e baseDomain). domain_canonical h) \<and> port_ok (ex_Port e) \<and>
        (ex_Protocol e = '''' \<or> ex_Protocol e = RouteProtocolGRPC) \<and> compile (route_for d e '''' []) \<noteq> None)"

definition publish_servable :: "Desired \<Rightarrow> PublishedPort \<Rightarrow> bool" where
  "publish_servable d p \<longleftrightarrow>
     pp_Mode p \<in> {'''', ListenerHTTP, ListenerTCP, ListenerUDP} \<and> port_ok (pp_Host p) \<and>
     (portNumber d (pp_Port p) = 0 \<or> port_ok (portNumber d (pp_Port p))) \<and> 0 \<le> pp_MaxConns p \<and>
     compile (route_for d \<lparr>ex_Domains = [], ex_Port = 0, ex_TLSMode = '''', ex_TLSName = '''', ex_LetsEncrypt = False,
       ex_Auth = None, ex_IPRestriction = pp_IPRestriction p, ex_RateLimit = pp_RateLimit p,
       ex_Headers = pp_Headers p, ex_Protocol = ''''\<rparr> '''' []) \<noteq> None"

definition servable :: "string \<Rightarrow> string gomap \<Rightarrow> Desired \<Rightarrow> bool" where
  "servable baseDomain vips d \<longleftrightarrow>
     d_Project d \<noteq> '''' \<and> d_Service d \<noteq> '''' \<and>
     (vip_of vips d = '''' \<or> ParseAddr (vip_of vips d) \<noteq> None) \<and>
     (\<forall>x\<in>set (tagged_exposes d). expose_servable baseDomain d x) \<and> (\<forall>p\<in>set (d_Publish d). publish_servable d p)"

lemma build_exposes_source:
  "build_exposes baseDomain d vip es claimed = (claimed', rs) \<Longrightarrow> r \<in> set rs \<Longrightarrow>
   \<exists>x\<in>set es. \<exists>kept. r = route_for d (snd x) vip kept \<and> kept \<noteq> [] \<and>
      set kept \<subseteq> set (EdgeDomainsFor d (fst x) (snd x) baseDomain)"
proof (induction es arbitrary: claimed claimed' rs)
  case (Cons x es)
  obtain first e where x: "x = (first, e)" by (cases x)
  show ?case
  proof (cases "EdgeDomainsFor d first e baseDomain = []")
    case True
    then have "build_exposes baseDomain d vip es claimed = (claimed', rs)" using Cons.prems(1) by (simp add: x)
    from Cons.IH [OF this Cons.prems(2)] show ?thesis by auto
  next
    case False
    obtain c1 kept where c1: "claim_domains (d_key d) (EdgeDomainsFor d first e baseDomain) claimed [] = (c1, kept)" by fastforce
    obtain c2 rs2 where c2: "build_exposes baseDomain d vip es c1 = (c2, rs2)" by fastforce
    have "rs = (if kept = [] then [] else [route_for d e vip kept]) @ rs2"
      using Cons.prems(1) False c1 c2 by (auto simp: x split: if_splits)
    then have "r \<in> set rs2 \<or> (kept \<noteq> [] \<and> r = route_for d e vip kept)" using Cons.prems(2) by (auto split: if_splits)
    then show ?thesis
    proof
      assume "r \<in> set rs2"
      from Cons.IH [OF c2 this] show ?thesis by auto
    next
      assume "kept \<noteq> [] \<and> r = route_for d e vip kept"
      then show ?thesis using claim_domains_spec [OF c1] by (auto simp: x intro!: exI [of _ kept])
    qed
  qed
qed simp

lemma build_services_source:
  "r \<in> set (build_services baseDomain vips ds claimed) \<Longrightarrow>
   \<exists>d\<in>set ds. \<exists>x\<in>set (tagged_exposes d). \<exists>kept. r = route_for d (snd x) (vip_of vips d) kept \<and> kept \<noteq> [] \<and>
      vip_of vips d \<noteq> '''' \<and> set kept \<subseteq> set (EdgeDomainsFor d (fst x) (snd x) baseDomain)"
proof (induction ds arbitrary: claimed)
  case (Cons d ds)
  show ?case
  proof (cases "AllExposes d = [] \<or> vip_of vips d = ''''")
    case True
    then show ?thesis using Cons by auto
  next
    case False
    obtain c rs where c: "build_exposes baseDomain d (vip_of vips d) (tagged_exposes d) claimed = (c, rs)" by fastforce
    then have "r \<in> set rs \<or> r \<in> set (build_services baseDomain vips ds c)" using Cons.prems False by simp
    then show ?thesis
    proof
      assume "r \<in> set rs"
      from build_exposes_source [OF c this] show ?thesis using False by auto
    next
      assume "r \<in> set (build_services baseDomain vips ds c)"
      from Cons.IH [OF this] show ?thesis by auto
    qed
  qed
qed simp

lemma set_sortedDesired [simp]: "set (sortedDesired ds) = set ds"
  by (simp add: sortedDesired_def)

lemma buildRoutes_valid:
  assumes "\<forall>d\<in>set (w_Desired w). servable baseDomain vips d"
  shows "\<exists>seen. validate_routes 0 (buildRoutes baseDomain w vips) [] = Inr seen"
proof -
  have "route_valid r" if r: "r \<in> set (buildRoutes baseDomain w vips)" for r
  proof -
    obtain d x kept where d: "d \<in> set (w_Desired w)" "x \<in> set (tagged_exposes d)"
      and re: "r = route_for d (snd x) (vip_of vips d) kept" and k: "kept \<noteq> []" "vip_of vips d \<noteq> ''''"
      "set kept \<subseteq> set (EdgeDomainsFor d (fst x) (snd x) baseDomain)"
      using build_services_source r unfolding buildRoutes_def by fastforce
    have s: "servable baseDomain vips d" using assms d(1) by blast
    then have e: "expose_servable baseDomain d x" using d(2) by (simp add: servable_def)
    have "compile r = None \<longleftrightarrow> compile (route_for d (snd x) '''' []) = None"
      unfolding re by (rule compile_cong) (simp_all add: route_for_def)
    then have "compile r \<noteq> None" using e by (auto simp: expose_servable_def split: prod.splits)
    then show ?thesis
      using e s k(1,2) k(3) by (auto simp: re route_valid_def route_for_def expose_servable_def servable_def split: prod.splits)
  qed
  moreover have "distinct (concat (map rt_Domains (buildRoutes baseDomain w vips)))"
    using buildRoutes_realises by (simp add: realises_def)
  ultimately show ?thesis unfolding validate_routes_Inr by simp
qed

text \<open>The same for listeners: who has a node port, and that every one is well formed.\<close>

definition listener_valid :: "Listener \<Rightarrow> bool" where
  "listener_valid l \<longleftrightarrow>
     ln_Project l \<noteq> '''' \<and> ln_Service l \<noteq> '''' \<and> ln_Mode l \<in> {ListenerHTTP, ListenerTCP, ListenerUDP} \<and>
     (if ln_Mode l = ListenerUDP then ln_Upstream l = '''' \<and> (\<forall>b\<in>set (ln_Backends l). ParseAddr b \<noteq> None)
      else ParseAddr (ln_Upstream l) \<noteq> None \<and> ln_Backends l = []) \<and>
     port_ok (ln_Port l) \<and> port_ok (ln_UpstreamPort l) \<and> 0 \<le> ln_MaxConns l \<and>
     (ln_Mode l \<noteq> ListenerHTTP \<longrightarrow> ln_RateLimit l = None \<and> ln_Headers l = None) \<and>
     compile (listener_asRoute l) \<noteq> None"

lemma listener_modes [simp]:
  "ListenerHTTP \<noteq> ListenerTCP" "ListenerHTTP \<noteq> ListenerUDP" "ListenerTCP \<noteq> ListenerUDP"
  "ListenerTCP \<noteq> ListenerHTTP" "ListenerUDP \<noteq> ListenerHTTP" "ListenerUDP \<noteq> ListenerTCP"
  by (simp_all add: ListenerHTTP_def ListenerTCP_def ListenerUDP_def)

lemma validate_listener_valid:
  assumes "listener_valid l" and "map_of byPort (listener_key l) = None"
  shows "validate_listener i l byPort = Inr (AList.update (listener_key l) (listener_Name l) byPort)"
proof -
  have "(if ln_Mode l = ListenerUDP then find (\<lambda>b. ParseAddr b = None) (ln_Backends l) else None) = None"
    using assms(1) by (auto simp: listener_valid_def find_None_iff)
  then show ?thesis using assms by (auto simp: validate_listener_def listener_valid_def split: if_splits)
qed

lemma validateListeners_valid:
  assumes "\<forall>l\<in>set ls. listener_valid l" and "distinct (map listener_key ls)"
    and "\<forall>l\<in>set ls. map_of byPort (listener_key l) = None"
  shows "\<exists>m. validateListeners i ls byPort = Inr m"
  using assms
proof (induction ls arbitrary: i byPort)
  case (Cons l ls)
  have "\<forall>x\<in>set ls. map_of (AList.update (listener_key l) (listener_Name l) byPort) (listener_key x) = None"
    using Cons.prems by (auto simp: update_conv' image_iff)
  then show ?case using Cons validate_listener_valid [of l byPort i] by simp
qed simp

definition publish_mode :: "PublishedPort \<Rightarrow> string" where
  "publish_mode p = (if pp_Mode p = '''' then ListenerHTTP else pp_Mode p)"

definition publishes :: "World \<Rightarrow> Attachment gomap \<Rightarrow> string \<Rightarrow> Desired \<Rightarrow> PublishedPort \<Rightarrow> Listener \<Rightarrow> bool" where
  "publishes w att vip d p l \<longleftrightarrow>
     l = listener_for w att vip d p (publish_mode p) (portNumber d (pp_Port p)) \<and>
     (publish_mode p \<noteq> ListenerUDP \<longrightarrow> vip \<noteq> '''') \<and> portNumber d (pp_Port p) \<noteq> 0"

lemma keys_update: "fst ` set (AList.update k v m) = insert k (fst ` set m)"
  by (simp add: update_conv' dom_map_of_conv_image_fst [symmetric])

lemma build_published_spec:
  assumes "build_published w att vip d ps claimed = (claimed', ls)"
  shows "distinct (map listener_key ls)" and "\<forall>l\<in>set ls. listener_key l \<notin> fst ` set claimed"
    and "fst ` set claimed' = fst ` set claimed \<union> listener_key ` set ls"
    and "\<forall>l\<in>set ls. \<exists>p\<in>set ps. publishes w att vip d p l"
proof -
  have "distinct (map listener_key ls) \<and> (\<forall>l\<in>set ls. listener_key l \<notin> fst ` set claimed) \<and>
    fst ` set claimed' = fst ` set claimed \<union> listener_key ` set ls \<and>
    (\<forall>l\<in>set ls. \<exists>p\<in>set ps. publishes w att vip d p l)"
    using assms
  proof (induction ps arbitrary: claimed claimed' ls)
    case (Cons p ps)
    let ?up = "portNumber d (pp_Port p)" and ?key = "(publish_mode p = ListenerUDP, pp_Host p)"
    show ?case
    proof (cases "(publish_mode p \<noteq> ListenerUDP \<and> vip = '''') \<or> ?up = 0 \<or> map_of claimed ?key \<noteq> None")
      case True
      then have "build_published w att vip d ps claimed = (claimed', ls)"
        using Cons.prems by (auto simp: Let_def publish_mode_def [symmetric] split: if_splits)
      from Cons.IH [OF this] show ?thesis by auto
    next
      case False
      obtain c2 ls2 where c2: "build_published w att vip d ps (AList.update ?key (d_key d) claimed) = (c2, ls2)" by fastforce
      let ?l = "listener_for w att vip d p (publish_mode p) ?up"
      have o: "claimed' = c2" "ls = ?l # ls2"
        using Cons.prems False c2 by (auto simp: Let_def publish_mode_def [symmetric])
      have k: "listener_key ?l = ?key" by (simp add: listener_key_def listener_for_def)
      have pl: "publishes w att vip d p ?l" using False by (auto simp: publishes_def)
      have nk: "?key \<notin> fst ` set claimed" using False by (simp add: map_of_eq_None_iff)
      note IH = Cons.IH [OF c2, unfolded keys_update]
      have "?key \<notin> set (map listener_key ls2)" using IH by auto
      then show ?thesis using IH nk pl unfolding o by (simp add: k)
    qed
  qed simp
  then show "distinct (map listener_key ls)" "\<forall>l\<in>set ls. listener_key l \<notin> fst ` set claimed"
    "fst ` set claimed' = fst ` set claimed \<union> listener_key ` set ls"
    "\<forall>l\<in>set ls. \<exists>p\<in>set ps. publishes w att vip d p l" by auto
qed

lemma build_listeners_spec:
  "distinct (map listener_key (build_listeners_from w vips att ds claimed)) \<and>
   (\<forall>l\<in>set (build_listeners_from w vips att ds claimed). listener_key l \<notin> fst ` set claimed \<and>
      (\<exists>d\<in>set ds. \<exists>p\<in>set (d_Publish d). publishes w att (vip_of vips d) d p l))"
proof (induction ds arbitrary: claimed)
  case (Cons d ds)
  show ?case
  proof (cases "d_Publish d = []")
    case True
    then show ?thesis using Cons by simp
  next
    case False
    obtain c ls where c: "build_published w att (vip_of vips d) d (d_Publish d) claimed = (c, ls)" by fastforce
    have e: "build_listeners_from w vips att (d # ds) claimed = ls @ build_listeners_from w vips att ds c"
      using False c by simp
    note b = build_published_spec [OF c] and IH = Cons [of c]
    have "set (map listener_key ls) \<inter> set (map listener_key (build_listeners_from w vips att ds c)) = {}"
      using b(3) IH by auto
    then show ?thesis unfolding e using b IH by (simp add: ball_Un)
  qed
qed simp

text \<open>The addresses a udp listener carries are the addresses of ready attachments.\<close>

lemma backendAddrs_source:
  assumes "a \<in> set (backendAddrs (backendsFor w d att))"
  shows "\<exists>i x. map_of att i = Some x \<and> na_Ready x \<and> na_IPv4 x = a \<and> a \<noteq> ''''"
proof -
  obtain b where b: "b \<in> set (backendsFor w d att)" "be_IPv4 b = a" "a \<noteq> ''''"
    using assms by (auto simp: backendAddrs_def)
  then obtain i where "backend_of w att i = Some b" by (auto simp: backendsFor_def List.map_filter_def split: option.splits)
  then obtain x where "map_of att i = Some x" "na_Ready x" "na_IPv4 x \<noteq> ''''" "be_IPv4 b = na_IPv4 x"
    by (auto simp: backend_of_def split: option.splits if_splits)
  then show ?thesis using b by auto
qed

lemma publishes_valid:
  assumes "servable baseDomain vips d" and "p \<in> set (d_Publish d)"
    and "publishes w att (vip_of vips d) d p l"
    and "\<forall>(i, x)\<in>set att. na_Ready x \<and> na_IPv4 x \<noteq> '''' \<longrightarrow> ParseAddr (na_IPv4 x) \<noteq> None"
  shows "listener_valid l"
proof -
  have l: "l = listener_for w att (vip_of vips d) d p (publish_mode p) (portNumber d (pp_Port p))"
    and v: "publish_mode p \<noteq> ListenerUDP \<longrightarrow> vip_of vips d \<noteq> ''''" and u: "portNumber d (pp_Port p) \<noteq> 0"
    using assms(3) by (simp_all add: publishes_def)
  have s: "publish_servable d p" and n: "d_Project d \<noteq> ''''" "d_Service d \<noteq> ''''"
    "vip_of vips d = '''' \<or> ParseAddr (vip_of vips d) \<noteq> None"
    using assms(1,2) by (simp_all add: servable_def)
  have m: "publish_mode p \<in> {ListenerHTTP, ListenerTCP, ListenerUDP}"
    using s by (auto simp: publish_servable_def publish_mode_def)
  have bk: "ParseAddr a \<noteq> None" if "a \<in> set (backendAddrs (backendsFor w d att))" for a
    using backendAddrs_source [OF that] assms(4) by (fastforce dest: map_of_SomeD)
  have "compile (listener_asRoute l) \<noteq> None"
    using s unfolding publish_servable_def compile_None_iff l
    by (auto simp: listener_asRoute_def listener_for_def route_for_def)
  then show ?thesis
    using s u v n m bk by (auto simp: listener_valid_def l listener_for_def publish_servable_def)
qed

lemma buildListeners_valid:
  assumes "\<forall>d\<in>set (w_Desired w). servable baseDomain vips d"
    and "\<forall>(i, x)\<in>set att. na_Ready x \<and> na_IPv4 x \<noteq> '''' \<longrightarrow> ParseAddr (na_IPv4 x) \<noteq> None"
  shows "\<exists>m. validateListeners 0 (buildListeners w vips att) [] = Inr m"
proof (rule validateListeners_valid)
  note b = build_listeners_spec [of w vips att "sortedDesired (w_Desired w)" "[]"]
  show "distinct (map listener_key (buildListeners w vips att))" using b by (simp add: buildListeners_def)
  show "\<forall>l\<in>set (buildListeners w vips att). listener_valid l"
    using b publishes_valid assms unfolding buildListeners_def set_sortedDesired by blast
qed simp

lemma validateFunctions_valid:
  assumes "\<forall>f\<in>set fs. fr_Project f \<noteq> '''' \<and> fr_Function f \<noteq> '''' \<and> ParseAddr (fr_Upstream f) \<noteq> None \<and>
      port_ok (fr_UpstreamPort f) \<and> compile (function_asRoute f) \<noteq> None"
    and "distinct (map function_Prefix fs)" and "\<forall>f\<in>set fs. map_of byPrefix (function_Prefix f) = None"
  shows "\<exists>m. validateFunctions i fs byPrefix = Inr m"
  using assms
proof (induction fs arbitrary: i byPrefix)
  case (Cons f fs)
  have "\<forall>x\<in>set fs. map_of (AList.update (function_Prefix f) (function_Name f) byPrefix) (function_Prefix x) = None"
    using Cons.prems by (auto simp: update_conv' image_iff)
  moreover have "validate_function i f byPrefix = Inr (AList.update (function_Prefix f) (function_Name f) byPrefix)"
    using Cons.prems by (simp add: validate_function_def)
  ultimately show ?case using Cons by simp
qed simp

lemma buildFunctionRoutes_valid:
  assumes "\<forall>d\<in>set (w_Desired w). servable baseDomain vips d" and "distinct (map d_key (w_Desired w))"
  shows "\<exists>m. validateFunctions 0 (buildFunctionRoutes baseDomain w vips) [] = Inr m"
proof (rule validateFunctions_valid)
  let ?fs = "buildFunctionRoutes baseDomain w vips"
  have src: "\<exists>d\<in>set (w_Desired w). function_route_for baseDomain vips d = Some f" if "f \<in> set ?fs" for f
    using that by (auto simp: buildFunctionRoutes_def List.map_filter_def)
  show "\<forall>f\<in>set ?fs. fr_Project f \<noteq> '''' \<and> fr_Function f \<noteq> '''' \<and> ParseAddr (fr_Upstream f) \<noteq> None \<and>
      port_ok (fr_UpstreamPort f) \<and> compile (function_asRoute f) \<noteq> None"
  proof
    fix f assume "f \<in> set ?fs"
    then obtain d where d: "d \<in> set (w_Desired w)" and f: "function_route_for baseDomain vips d = Some f" using src by blast
    obtain e where e: "d_Expose d = Some e" using f by (auto simp: function_route_for_def split: option.splits)
    have s: "servable baseDomain vips d" using assms(1) d by blast
    have "(True, e) \<in> set (tagged_exposes d)" using e by (simp add: tagged_exposes_def AllExposes_def)
    then have x: "expose_servable baseDomain d (True, e)" using s by (simp add: servable_def)
    have fe: "fr_IPRestriction f = ex_IPRestriction e" "fr_RateLimit f = ex_RateLimit e" "fr_Headers f = ex_Headers e"
      "fr_UpstreamPort f = ex_Port e" "fr_Project f = d_Project d" "fr_Function f = d_Service d"
      "fr_Upstream f = vip_of vips d" "vip_of vips d \<noteq> ''''"
      using f e by (auto simp: function_route_for_def split: option.splits if_splits)
    have "compile (function_asRoute f) = None \<longleftrightarrow> compile (route_for d e '''' []) = None"
      by (rule compile_cong) (simp_all add: function_asRoute_def route_for_def fe)
    then show "fr_Project f \<noteq> '''' \<and> fr_Function f \<noteq> '''' \<and> ParseAddr (fr_Upstream f) \<noteq> None \<and>
      port_ok (fr_UpstreamPort f) \<and> compile (function_asRoute f) \<noteq> None"
      using x s fe by (auto simp: expose_servable_def servable_def)
  qed
  have pre: "function_Prefix f = CHR ''/'' # d_key d" if "function_route_for baseDomain vips d = Some f" for d f
    using that by (auto simp: function_route_for_def function_Prefix_def service_key_def split: option.splits if_splits)
  have "distinct (map d_key (sortedDesired (w_Desired w)))"
    using assms(2) by (metis mset_map mset_sort mset_eq_imp_distinct_iff sortedDesired_def)
  then have "distinct (map function_Prefix (List.map_filter (function_route_for baseDomain vips) ds))"
    if "ds = sortedDesired (w_Desired w)" for ds
    using that
  proof -
    have "distinct (map d_key ds) \<Longrightarrow>
        distinct (map function_Prefix (List.map_filter (function_route_for baseDomain vips) ds)) \<and>
        set (map function_Prefix (List.map_filter (function_route_for baseDomain vips) ds)) \<subseteq> (\<lambda>d. CHR ''/'' # d_key d) ` set ds" for ds
      by (induction ds) (auto simp: map_filter_simps pre split: option.splits)
    then show ?thesis using \<open>distinct (map d_key (sortedDesired (w_Desired w)))\<close> that by blast
  qed
  then show "distinct (map function_Prefix ?fs)" by (simp add: buildFunctionRoutes_def)
qed simp

section \<open>The pass that publishes\<close>

definition attachments_ok :: "Attachment gomap \<Rightarrow> bool" where
  "attachments_ok att \<longleftrightarrow> (\<forall>(i, x)\<in>set att. na_Ready x \<and> na_IPv4 x \<noteq> '''' \<longrightarrow> ParseAddr (na_IPv4 x) \<noteq> None)"

lemma projection_valid:
  assumes "\<forall>d\<in>set (w_Desired w). servable baseDomain vips d" and "distinct (map d_key (w_Desired w))"
    and "attachments_ok att"
  shows "snapshot_Validate \<lparr>sn_Index = i, sn_Routes = buildRoutes baseDomain w vips, sn_Listeners = buildListeners w vips att,
     sn_Functions = buildFunctionRoutes baseDomain w vips\<rparr> = None"
  using buildRoutes_valid [OF assms(1)] buildListeners_valid [OF assms(1) assms(3) [unfolded attachments_ok_def]]
    buildFunctionRoutes_valid [OF assms(1,2)]
  by (auto simp: snapshot_Validate_def)

lemma index_routes_total: "\<forall>r\<in>set rs. compile r \<noteq> None \<Longrightarrow> \<exists>m'. index_routes rs m = Some m'"
  by (induction rs arbitrary: m) auto

lemma NewTable_total:
  assumes "snapshot_Validate s = None"
  shows "\<exists>t. NewTable s = Some t"
proof -
  have "\<exists>seen. validate_routes 0 (sn_Routes s) [] = Inr seen"
    using assms by (auto simp: snapshot_Validate_def split: sum.splits)
  then have "\<forall>r\<in>set (sn_Routes s). compile r \<noteq> None" unfolding validate_routes_Inr by (simp add: route_valid_def)
  then show ?thesis using index_routes_total [of "sn_Routes s" "[]"] assms by (auto simp: NewTable_def)
qed

lemma headers_equal_refl [simp]: "headers_equal x x"
  by (cases x) (simp_all add: headers_equal_def)

lemma equal_refl [simp]: "routesEqual rs rs" "listenersEqual ls ls" "functionsEqual fs fs"
  by (simp_all add: routesEqual_def listenersEqual_def functionsEqual_def route_equal_def listener_equal_def
      function_equal_def list_all2_refl)

text \<open>
  C20. With servable records a pass that can write leaves a file the edge accepts, holding this
  projection, whatever was there before: nothing, something unreadable or an older projection. The
  next pass over the same world then leaves the file alone.
\<close>

theorem publication_converges:
  assumes "\<forall>d\<in>set (w_Desired w). servable baseDomain vips d" and "distinct (map d_key (w_Desired w))"
    and "attachments_ok att" and "fst (syncEdgeRoutes True baseDomain index True w vips att file) = file'"
  shows "(\<exists>s t. Load file' = Some s \<and> NewTable s = Some t \<and>
            routesEqual (buildRoutes baseDomain w vips) (sn_Routes s) \<and>
            listenersEqual (buildListeners w vips att) (sn_Listeners s) \<and>
            functionsEqual (buildFunctionRoutes baseDomain w vips) (sn_Functions s)) \<and>
         syncEdgeRoutes True baseDomain index' write_ok' w vips att file' = (file', False)"
proof -
  let ?rs = "buildRoutes baseDomain w vips" and ?ls = "buildListeners w vips att"
  let ?fs = "buildFunctionRoutes baseDomain w vips"
  have "snapshotIsPublished file' ?rs ?ls ?fs"
  proof (cases "snapshotIsPublished file ?rs ?ls ?fs")
    case True
    then show ?thesis using assms(4) by (simp add: syncEdgeRoutes_def Let_def)
  next
    case False
    then show ?thesis
      using assms(4) projection_valid [OF assms(1-3)]
      by (auto simp: syncEdgeRoutes_def Let_def Publish_def snapshotIsPublished_def Load_def)
  qed
  moreover from this have "\<exists>s. Load file' = Some s \<and> routesEqual ?rs (sn_Routes s) \<and>
      listenersEqual ?ls (sn_Listeners s) \<and> functionsEqual ?fs (sn_Functions s)"
    by (auto simp: snapshotIsPublished_def split: option.splits)
  moreover have "\<exists>t. NewTable s = Some t" if "Load file' = Some s" for s
    using NewTable_total that by (auto simp: Load_def split: option.splits if_splits)
  ultimately show ?thesis by (auto simp: syncEdgeRoutes_def Let_def)
qed

text \<open>
  Every field of a route, a listener and a function route takes part in the comparison, so no edit of
  them is lost; header rules are compared as maps.
\<close>

lemma routesEqual_complete:
  assumes "routesEqual rs rs'" and "\<forall>r\<in>set rs. rt_Headers r = None"
  shows "rs = rs'"
proof -
  have "r = r'" if "route_equal r r'" "rt_Headers r = None" for r r' :: Route
    using that by (cases r; cases r') (auto simp: route_equal_def headers_equal_def split: option.splits)
  with assms show ?thesis unfolding routesEqual_def by (auto simp: list_all2_conv_all_nth list_eq_iff_nth_eq)
qed

end
