(* ===== verification/Edge_Auth.thy ===== *)
theory Edge_Auth
  imports Edge_Middleware
begin

text \<open>
  \<open>internal/edge/authz.go\<close>: the verifier table the restricted bundle compiles to and what it accepts.
  The primitives (bcrypt, SHA-256, HMAC, signature checks), base64, PEM and JSON are an argument of the
  definitions that use them. A success cache goes with each compiled entry; the state of one entry is
  returned with the answer.
\<close>

section \<open>Primitives\<close>

datatype pubkey = RSAKey string | ECDSAKey string | OtherKey

record Claims =
  cl_Exp :: "rat option"
  cl_Nbf :: "rat option"
  cl_Iss :: string
  cl_Aud :: "string list"

text \<open>
  \<open>cl_Aud\<close> is the claim's two legal shapes, one name or a list of them, as a list. The decoders answer
  \<open>None\<close> for what they cannot read.
\<close>

record Crypto =
  bcrypt_cost :: "string \<Rightarrow> int option"
  bcrypt_ok :: "string \<Rightarrow> string \<Rightarrow> bool"
  sha256 :: "string \<Rightarrow> string"
  hmac_sha256 :: "string \<Rightarrow> string \<Rightarrow> string"
  rsa_ok :: "string \<Rightarrow> string \<Rightarrow> string \<Rightarrow> bool"
  ecdsa_ok :: "string \<Rightarrow> string \<Rightarrow> string \<Rightarrow> string \<Rightarrow> bool"
  b64_std :: "string \<Rightarrow> string option"
  b64_rawurl :: "string \<Rightarrow> string option"
  parse_pubkey :: "string \<Rightarrow> pubkey option"
  json_alg :: "string \<Rightarrow> string option"
  json_claims :: "string \<Rightarrow> Claims option"

section \<open>Compiling the bundle's entries\<close>

definition AuthBasic :: string where "AuthBasic = ''basic''"
definition AuthBearer :: string where "AuthBearer = ''bearer''"
definition AuthJWT :: string where "AuthJWT = ''jwt''"
definition AlgHS256 :: string where "AlgHS256 = ''HS256''"
definition AlgRS256 :: string where "AlgRS256 = ''RS256''"
definition AlgES256 :: string where "AlgES256 = ''ES256''"
definition MaxBcryptCost :: int where "MaxBcryptCost = 14"
definition okCacheCap :: nat where "okCacheCap = 256"
definition jwtLeeway :: duration where "jwtLeeway = 30 * second"

record JWTConfig =
  jc_Algorithm :: string
  jc_SecretB64 :: string
  jc_PublicKeyPEM :: string
  jc_Issuer :: string
  jc_Audience :: string

record AuthEntry =
  ae_Project :: string
  ae_Service :: string
  ae_Mode :: string
  ae_Users :: "string list"
  ae_TokenHashes :: "string list"
  ae_JWT :: "JWTConfig option"

definition entry_Name :: "AuthEntry \<Rightarrow> string" where
  "entry_Name e = ae_Project e @ ''/'' @ ae_Service e"

record compiledAuth =
  ca_mode :: string
  ca_invalid :: bool
  ca_users :: "string gomap"
  ca_tokens :: "string set"
  ca_alg :: string
  ca_hmacKey :: string
  ca_key :: pubkey
  ca_issuer :: string
  ca_audience :: string
  ca_okCache :: "string set"

text \<open>\<open>hex.DecodeString\<close>.\<close>

fun hex_decode :: "string \<Rightarrow> string option" where
  "hex_decode [] = Some []"
| "hex_decode [c] = None"
| "hex_decode (c # d # s) =
     (if is_hex c \<and> is_hex d
      then map_option (\<lambda>r. char_of (hex_nibble c * 16 + hex_nibble d) # r) (hex_decode s)
      else None)"

fun compile_users :: "Crypto \<Rightarrow> string list \<Rightarrow> string gomap \<Rightarrow> string gomap option" where
  "compile_users C [] m = Some m"
| "compile_users C (line # ls) m =
     (case cut_byte (CHR '':'') line of
        None \<Rightarrow> None
      | Some (user, hash) \<Rightarrow>
          if user = '''' \<or> \<not> has_prefix hash ''$2'' then None
          else case bcrypt_cost C hash of
            None \<Rightarrow> None
          | Some cost \<Rightarrow> if cost > MaxBcryptCost then None else compile_users C ls (AList.update user hash m))"

fun compile_tokens :: "string list \<Rightarrow> string set \<Rightarrow> string set option" where
  "compile_tokens [] m = Some m"
| "compile_tokens (h # hs) m =
     (case hex_decode h of
        None \<Rightarrow> None
      | Some raw \<Rightarrow> if length raw \<noteq> 32 then None else compile_tokens hs (insert raw m))"

definition blank_auth :: "string \<Rightarrow> compiledAuth" where
  "blank_auth m =
     \<lparr>ca_mode = m, ca_invalid = False, ca_users = [], ca_tokens = {}, ca_alg = '''', ca_hmacKey = '''',
      ca_key = OtherKey, ca_issuer = '''', ca_audience = '''', ca_okCache = {}\<rparr>"

definition compile_jwt :: "Crypto \<Rightarrow> JWTConfig \<Rightarrow> compiledAuth \<Rightarrow> compiledAuth" where
  "compile_jwt C j c =
     (let c = c\<lparr>ca_alg := jc_Algorithm j, ca_issuer := jc_Issuer j, ca_audience := jc_Audience j\<rparr>;
          bad = c\<lparr>ca_invalid := True\<rparr> in
      if jc_Algorithm j = AlgHS256 then
        (case b64_std C (jc_SecretB64 j) of
           None \<Rightarrow> bad
         | Some key \<Rightarrow> if key = '''' then bad else c\<lparr>ca_hmacKey := key\<rparr>)
      else if jc_Algorithm j = AlgRS256 \<or> jc_Algorithm j = AlgES256 then
        (case parse_pubkey C (jc_PublicKeyPEM j) of
           Some (RSAKey k) \<Rightarrow> if jc_Algorithm j = AlgRS256 then c\<lparr>ca_key := RSAKey k\<rparr> else bad
         | Some (ECDSAKey k) \<Rightarrow> if jc_Algorithm j = AlgES256 then c\<lparr>ca_key := ECDSAKey k\<rparr> else bad
         | _ \<Rightarrow> bad)
      else bad)"

text \<open>
  An entry that does not compile is kept, marked invalid. The maps filled so far by such an entry are
  never read, so they are left empty here.
\<close>

definition compileAuth :: "Crypto \<Rightarrow> AuthEntry \<Rightarrow> compiledAuth" where
  "compileAuth C e =
     (let c = blank_auth (ae_Mode e); bad = c\<lparr>ca_invalid := True\<rparr> in
      if ae_Mode e = AuthBasic then
        (case compile_users C (ae_Users e) [] of
           None \<Rightarrow> bad
         | Some users \<Rightarrow> c\<lparr>ca_users := users, ca_invalid := (users = [])\<rparr>)
      else if ae_Mode e = AuthBearer then
        (case compile_tokens (ae_TokenHashes e) {} of
           None \<Rightarrow> bad
         | Some tokens \<Rightarrow> c\<lparr>ca_tokens := tokens, ca_invalid := (tokens = {})\<rparr>)
      else if ae_Mode e = AuthJWT then
        (case ae_JWT e of None \<Rightarrow> bad | Some j \<Rightarrow> compile_jwt C j c)
      else bad)"

definition newAuthTable :: "Crypto \<Rightarrow> AuthEntry list \<Rightarrow> compiledAuth gomap" where
  "newAuthTable C es = fold (\<lambda>e. AList.update (entry_Name e) (compileAuth C e)) es []"

section \<open>Verifying a request\<close>

text \<open>\<open>Request.BasicAuth\<close>.\<close>

definition BasicAuth :: "Crypto \<Rightarrow> Request \<Rightarrow> (string \<times> string) option" where
  "BasicAuth C r =
     (let auth = Header_Get (rq_Header r) ''Authorization'' in
      if length auth < 6 \<or> \<not> EqualFold (take 6 auth) ''Basic '' then None
      else case b64_std C (drop 6 auth) of
        None \<Rightarrow> None
      | Some c \<Rightarrow> cut_byte (CHR '':'') c)"

definition bearerToken :: "Request \<Rightarrow> string option" where
  "bearerToken r =
     (let auth = Header_Get (rq_Header r) ''Authorization'' in
      if length auth \<le> 7 \<or> \<not> EqualFold (take 7 auth) ''Bearer '' then None else Some (drop 7 auth))"

text \<open>\<open>time.Unix\<close> counts from 1970, an instant here from the zero time.\<close>

definition unix_time :: "rat \<Rightarrow> time" where
  "unix_time x = (62135596800 + (if x < 0 then \<lceil>x\<rceil> else \<lfloor>x\<rfloor>)) * second"

definition signature_ok :: "Crypto \<Rightarrow> compiledAuth \<Rightarrow> string \<Rightarrow> string \<Rightarrow> bool" where
  "signature_ok C c input sig =
     (if ca_alg c = AlgHS256 then hmac_sha256 C (ca_hmacKey c) input = sig
      else if ca_alg c = AlgRS256 then (case ca_key c of RSAKey k \<Rightarrow> rsa_ok C k (sha256 C input) sig | _ \<Rightarrow> False)
      else if ca_alg c = AlgES256 then
        length sig = 64 \<and>
        (case ca_key c of ECDSAKey k \<Rightarrow> ecdsa_ok C k (sha256 C input) (take 32 sig) (drop 32 sig) | _ \<Rightarrow> False)
      else False)"

definition claims_ok :: "compiledAuth \<Rightarrow> Claims \<Rightarrow> time \<Rightarrow> bool" where
  "claims_ok c cl now =
     (case cl_Exp cl of
        None \<Rightarrow> False
      | Some e \<Rightarrow>
          if now > unix_time e + jwtLeeway then False
          else if (case cl_Nbf cl of None \<Rightarrow> False | Some n \<Rightarrow> now + jwtLeeway < unix_time n) then False
          else if ca_issuer c \<noteq> '''' \<and> cl_Iss cl \<noteq> ca_issuer c then False
          else if ca_audience c \<noteq> '''' \<and> ca_audience c \<notin> set (cl_Aud cl) then False
          else True)"

definition verifyJWT :: "Crypto \<Rightarrow> compiledAuth \<Rightarrow> string \<Rightarrow> time \<Rightarrow> bool" where
  "verifyJWT C c token now =
     (case split_byte (CHR ''.'') token of
        [h, p, s] \<Rightarrow>
          (case (b64_rawurl C h, b64_rawurl C p, b64_rawurl C s) of
             (Some header, Some payload, Some sig) \<Rightarrow>
               if json_alg C header \<noteq> Some (ca_alg c) then False
               else if \<not> signature_ok C c (h @ ''.'' @ p) sig then False
               else (case json_claims C payload of None \<Rightarrow> False | Some cl \<Rightarrow> claims_ok c cl now)
           | _ \<Rightarrow> False)
      | _ \<Rightarrow> False)"

definition basic_cache_key :: "Crypto \<Rightarrow> string \<Rightarrow> string \<Rightarrow> string" where
  "basic_cache_key C user pass = sha256 C (user @ CHR 0x00 # pass)"

definition verify_basic :: "Crypto \<Rightarrow> compiledAuth \<Rightarrow> Request \<Rightarrow> compiledAuth \<times> bool" where
  "verify_basic C c r =
     (case BasicAuth C r of
        None \<Rightarrow> (c, False)
      | Some (user, pass) \<Rightarrow>
          (case map_of (ca_users c) user of
             None \<Rightarrow> (c, False)
           | Some hash \<Rightarrow>
               let key = basic_cache_key C user pass in
               if key \<in> ca_okCache c then (c, True)
               else if \<not> bcrypt_ok C hash pass then (c, False)
               else
                 (c\<lparr>ca_okCache :=
                     insert key (if card (ca_okCache c) \<ge> okCacheCap then {} else ca_okCache c)\<rparr>, True)))"

definition verify :: "Crypto \<Rightarrow> compiledAuth \<Rightarrow> Request \<Rightarrow> time \<Rightarrow> compiledAuth \<times> bool" where
  "verify C c r now =
     (if ca_mode c = AuthBasic then verify_basic C c r
      else if ca_mode c = AuthBearer then
        (c, case bearerToken r of None \<Rightarrow> False | Some token \<Rightarrow> sha256 C token \<in> ca_tokens c)
      else if ca_mode c = AuthJWT then
        (c, case bearerToken r of None \<Rightarrow> False | Some token \<Rightarrow> verifyJWT C c token now)
      else (c, False))"

section \<open>The cache never accepts what bcrypt would not\<close>

text \<open>The same verification without a cache.\<close>

definition verify_uncached :: "Crypto \<Rightarrow> compiledAuth \<Rightarrow> Request \<Rightarrow> time \<Rightarrow> bool" where
  "verify_uncached C c r now =
     (if ca_mode c = AuthBasic then
        (case BasicAuth C r of
           None \<Rightarrow> False
         | Some (user, pass) \<Rightarrow>
             (case map_of (ca_users c) user of None \<Rightarrow> False | Some hash \<Rightarrow> bcrypt_ok C hash pass))
      else if ca_mode c = AuthBearer then
        (case bearerToken r of None \<Rightarrow> False | Some token \<Rightarrow> sha256 C token \<in> ca_tokens c)
      else if ca_mode c = AuthJWT then
        (case bearerToken r of None \<Rightarrow> False | Some token \<Rightarrow> verifyJWT C c token now)
      else False)"

definition accepted :: "Crypto \<Rightarrow> compiledAuth \<Rightarrow> string \<Rightarrow> bool" where
  "accepted C c key \<longleftrightarrow> (\<exists>user pass hash.
     key = basic_cache_key C user pass \<and> map_of (ca_users c) user = Some hash \<and> bcrypt_ok C hash pass)"

definition cache_sound :: "Crypto \<Rightarrow> compiledAuth \<Rightarrow> bool" where
  "cache_sound C c \<longleftrightarrow>
     finite (ca_okCache c) \<and> card (ca_okCache c) \<le> okCacheCap \<and>
     (\<forall>key\<in>ca_okCache c. accepted C c key)"

definition names_plain :: "compiledAuth \<Rightarrow> bool" where
  "names_plain c \<longleftrightarrow> (\<forall>user\<in>gm_keys (ca_users c). CHR 0x00 \<notin> set user)"

lemma verify_fields:
  "ca_mode (fst (verify C c r now)) = ca_mode c" "ca_users (fst (verify C c r now)) = ca_users c"
  "ca_tokens (fst (verify C c r now)) = ca_tokens c" "ca_invalid (fst (verify C c r now)) = ca_invalid c"
  by (simp_all add: verify_def verify_basic_def Let_def split: option.splits prod.splits)

lemma verify_basic_spec:
  assumes inj: "inj (sha256 C)" and cs: "cache_sound C c" and np: "names_plain c"
  shows "cache_sound C (fst (verify_basic C c r))"
    and "snd (verify_basic C c r) \<longleftrightarrow>
      (case BasicAuth C r of
         None \<Rightarrow> False
       | Some (user, pass) \<Rightarrow> (case map_of (ca_users c) user of None \<Rightarrow> False | Some hash \<Rightarrow> bcrypt_ok C hash pass))"
proof -
  have "cache_sound C (fst (verify_basic C c r)) \<and> (snd (verify_basic C c r) \<longleftrightarrow>
      (case BasicAuth C r of
         None \<Rightarrow> False
       | Some (user, pass) \<Rightarrow> (case map_of (ca_users c) user of None \<Rightarrow> False | Some hash \<Rightarrow> bcrypt_ok C hash pass)))"
  proof (cases "BasicAuth C r")
    case (Some up)
    obtain user pass where up: "up = (user, pass)" by (cases up)
    show ?thesis
    proof (cases "map_of (ca_users c) user")
      case None
      then show ?thesis using Some up cs by (simp add: verify_basic_def)
    next
      case (Some hash)
      let ?k = "basic_cache_key C user pass"
      have hit: "bcrypt_ok C hash pass" if k: "?k \<in> ca_okCache c"
      proof -
        obtain u p h where u: "?k = basic_cache_key C u p" "map_of (ca_users c) u = Some h" "bcrypt_ok C h p"
          using cs k by (auto simp: cache_sound_def accepted_def)
        have "user @ CHR 0x00 # pass = u @ CHR 0x00 # p"
          using u(1) inj by (simp add: basic_cache_key_def inj_eq)
        moreover have "CHR 0x00 \<notin> set user" "CHR 0x00 \<notin> set u"
          using np Some u(2) by (auto simp: names_plain_def gm_keys_map_of)
        ultimately have "user = u \<and> pass = p" by (rule first_sep_unique)
        then show ?thesis using u Some by simp
      qed
      have v: "verify_basic C c r =
          (if ?k \<in> ca_okCache c then (c, True) else if \<not> bcrypt_ok C hash pass then (c, False)
           else (c\<lparr>ca_okCache := insert ?k (if card (ca_okCache c) \<ge> okCacheCap then {} else ca_okCache c)\<rparr>, True))"
        using \<open>BasicAuth C r = Some up\<close> up Some by (simp add: verify_basic_def Let_def)
      have "cache_sound C (c\<lparr>ca_okCache := insert ?k (if card (ca_okCache c) \<ge> okCacheCap then {} else ca_okCache c)\<rparr>)"
        if "bcrypt_ok C hash pass"
      proof -
        have "accepted C (c\<lparr>ca_okCache := x\<rparr>) ?k" for x using that Some by (auto simp: accepted_def)
        moreover have "accepted C (c\<lparr>ca_okCache := x\<rparr>) y \<longleftrightarrow> accepted C c y" for x y by (simp add: accepted_def)
        ultimately show ?thesis using cs by (auto simp: cache_sound_def okCacheCap_def card_insert_if)
      qed
      then show ?thesis using v hit cs \<open>BasicAuth C r = Some up\<close> up Some by auto
    qed
  qed (simp add: verify_basic_def cs)
  then show "cache_sound C (fst (verify_basic C c r))"
    "snd (verify_basic C c r) \<longleftrightarrow>
      (case BasicAuth C r of
         None \<Rightarrow> False
       | Some (user, pass) \<Rightarrow> (case map_of (ca_users c) user of None \<Rightarrow> False | Some hash \<Rightarrow> bcrypt_ok C hash pass))"
    by auto
qed

lemma verify_spec:
  assumes "inj (sha256 C)" and "cache_sound C c" and "names_plain c"
  shows "cache_sound C (fst (verify C c r now))" and "snd (verify C c r now) = verify_uncached C c r now"
  using verify_basic_spec [OF assms, of r] assms(2) by (auto simp: verify_def verify_uncached_def)

lemma compileAuth_cache [simp]: "ca_okCache (compileAuth C e) = {}"
  by (auto simp: compileAuth_def compile_jwt_def blank_auth_def Let_def split: option.splits pubkey.splits)

text \<open>One entry answering a sequence of requests.\<close>

fun verify_all :: "Crypto \<Rightarrow> compiledAuth \<Rightarrow> (Request \<times> time) list \<Rightarrow> compiledAuth \<times> bool list" where
  "verify_all C c [] = (c, [])"
| "verify_all C c ((r, now) # rs) =
     (let (c, ok) = verify C c r now; (c, oks) = verify_all C c rs in (c, ok # oks))"

lemma verify_only_caches:
  "fst (verify C c r now) = c\<lparr>ca_okCache := ca_okCache (fst (verify C c r now))\<rparr>"
  by (simp add: verify_def verify_basic_def Let_def split: option.splits prod.splits)

lemma verify_uncached_cache [simp]: "verify_uncached C (c\<lparr>ca_okCache := x\<rparr>) r now = verify_uncached C c r now"
proof -
  have "claims_ok (c\<lparr>ca_okCache := x\<rparr>) cl now = claims_ok c cl now" for cl by (simp add: claims_ok_def)
  moreover have "signature_ok C (c\<lparr>ca_okCache := x\<rparr>) i s = signature_ok C c i s" for i s by (simp add: signature_ok_def)
  moreover have "ca_alg (c\<lparr>ca_okCache := x\<rparr>) = ca_alg c" by simp
  ultimately have "verifyJWT C (c\<lparr>ca_okCache := x\<rparr>) t now = verifyJWT C c t now" for t
    unfolding verifyJWT_def by (simp only:)
  then show ?thesis by (simp add: verify_uncached_def cong: option.case_cong)
qed


end
