(* ===== verification/Rate_Limiter_Facts.thy ===== *)
theory Rate_Limiter_Facts
  imports Rate_Limiter
begin

text \<open>
  What the limiter promises: it never holds more buckets than its capacity, a bucket never holds more
  tokens than its spec, and however requests of different clients interleave, one client gets its
  burst plus the sustained rate and no more, up to the rounding of \<open>float64\<close>.
\<close>

section \<open>Preservation\<close>

lemma moved_front_set [simp]: "set (moved_front key bs) = set bs"
  by (auto simp: moved_front_def)

lemma moved_front_keys: "distinct (map bk_key bs) \<Longrightarrow> distinct (map bk_key (moved_front key bs))"
  by (auto simp: moved_front_def distinct_map_filter)

lemma moved_front_length [simp]: "length (moved_front key bs) = length bs"
  by (simp add: moved_front_def sum_length_filter_compl)

lemma moved_front_hit:
  assumes "key \<in> bk_key ` set bs"
  obtains b cs where "moved_front key bs = b # cs" and "bk_key b = key" and "b \<in> set bs"
proof -
  have "filter (\<lambda>b. bk_key b = key) bs \<noteq> []" using assms by (auto simp: filter_empty_conv)
  then obtain b cs where "filter (\<lambda>b. bk_key b = key) bs = b # cs" by (cases "filter (\<lambda>b. bk_key b = key) bs") auto
  then have "moved_front key bs = b # cs @ filter (\<lambda>b. bk_key b \<noteq> key) bs" and "b \<in> set (filter (\<lambda>b. bk_key b = key) bs)"
    by (auto simp: moved_front_def)
  then show thesis using that by auto
qed

text \<open>
  After \<open>bucketFor\<close> the front bucket belongs to the key and holds tokens measured against the spec;
  the other buckets are the ones of before, in their order, less what was evicted.
\<close>

lemma bucketFor_spec:
  assumes ok: "limiter_ok l" and v: "spec_Valid s"
  obtains b cs where "lm_order (bucketFor l key s now) = b # cs" and "bk_key b = key"
    and "spec_Equal (bk_spec b) s" and "limiter_ok (bucketFor l key s now)"
    and "lm_capacity (bucketFor l key s now) = lm_capacity l"
    and "set cs \<subseteq> {c \<in> set (lm_order l). bk_key c \<noteq> key}"
    and "b \<in> set (lm_order l) \<or> b = \<lparr>bk_key = key, bk_spec = s, bk_tokens = spec_Capacity s, bk_last = now\<rparr>"
proof (cases "key \<in> lm_buckets l")
  case True
  then have "key \<in> bk_key ` set (lm_order l)" using ok by (simp add: limiter_ok_def)
  then obtain b cs where m: "moved_front key (lm_order l) = b # cs" and k: "bk_key b = key" and bl: "b \<in> set (lm_order l)"
    by (rule moved_front_hit)
  define b' where "b' = (if spec_Equal (bk_spec b) s then b
                         else b\<lparr>bk_spec := s, bk_tokens := spec_Capacity s, bk_last := now\<rparr>)"
  have r: "bucketFor l key s now = l\<lparr>lm_order := b' # cs\<rparr>"
    by (simp add: bucketFor_def True m b'_def)
  have d: "distinct (map bk_key (b # cs))" using moved_front_keys [of "lm_order l" key] m ok by (simp add: limiter_ok_def)
  have sb: "insert b (set cs) = set (lm_order l)" using moved_front_set [of key "lm_order l"] m by simp
  have kb': "bk_key b' = key" by (simp add: b'_def k)
  have okb: "bucket_ok b'"
    using ok bl spec_Capacity_nonneg [OF v] by (auto simp: b'_def limiter_ok_def bucket_ok_def)
  have keys: "bk_key ` set (b' # cs) = bk_key ` set (lm_order l)" using sb kb' k by (metis image_insert list.simps(15))
  have "limiter_ok (bucketFor l key s now)"
    using ok d kb' k okb keys sb unfolding r limiter_ok_def Len_def by auto
  moreover have "set cs \<subseteq> {c \<in> set (lm_order l). bk_key c \<noteq> key}" using d k sb by (auto simp: image_iff)
  moreover have "spec_Equal (bk_spec b') s" by (simp add: b'_def spec_Equal_def)
  moreover have "b' \<in> set (lm_order l) \<or>
      b' = \<lparr>bk_key = key, bk_spec = s, bk_tokens = spec_Capacity s, bk_last = now\<rparr>"
    using bl k by (simp add: b'_def)
  ultimately show thesis using that [of b' cs] r kb' by simp
next
  case False
  let ?e = "evictIfFull l"
  let ?b = "\<lparr>bk_key = key, bk_spec = s, bk_tokens = spec_Capacity s, bk_last = now\<rparr>"
  have e: "limiter_ok ?e" "int (Len ?e) < lm_capacity ?e" "lm_capacity ?e = lm_capacity l"
    "prefix (lm_order ?e) (lm_order l)"
    using evictIfFull_spec [OF ok] by auto
  have sub: "set (lm_order ?e) \<subseteq> set (lm_order l)" using e(4) by (auto simp: prefix_def)
  have nk: "key \<notin> lm_buckets ?e" using False sub ok e(1) by (auto simp: limiter_ok_def)
  have r: "bucketFor l key s now = ?e\<lparr>lm_order := ?b # lm_order ?e, lm_buckets := insert key (lm_buckets ?e)\<rparr>"
    by (simp add: bucketFor_def False Let_def)
  have fin: "finite (lm_buckets ?e)" using e(1) by (simp add: limiter_ok_def)
  have "limiter_ok (bucketFor l key s now)"
    using e(1,2) nk fin spec_Capacity_nonneg [OF v]
    unfolding r limiter_ok_def Len_def by (auto simp: bucket_ok_def)
  moreover have "set (lm_order ?e) \<subseteq> {c \<in> set (lm_order l). bk_key c \<noteq> key}"
    using sub False ok by (auto simp: limiter_ok_def)
  ultimately show thesis using that [of ?b "lm_order ?e"] r e(3) by (simp add: spec_Equal_def)
qed

lemma spec_Equal_eq: "spec_Equal s t \<longleftrightarrow> s = t" for s t :: limit_spec
  by (auto simp: spec_Equal_def)

lemma Seconds_nonneg: "0 < d \<Longrightarrow> 0 \<le> Seconds d"
  unfolding Seconds_def by (intro f64_nonneg add_nonneg_nonneg divide_nonneg_nonneg) (simp_all add: go_div_nonneg go_mod_nonneg pos_imp_zdiv_nonneg_iff)

lemma spec_Rate_nonneg: "spec_Valid s \<Longrightarrow> 0 \<le> spec_Rate s"
  unfolding spec_Rate_def by (intro f64_nonneg divide_nonneg_nonneg Seconds_nonneg) (simp_all add: spec_Valid_def)

lemma refilled_ok:
  assumes "bucket_ok b" and "bk_spec b = s" and "0 \<le> spec_Rate s"
  shows "bucket_ok (refilled b s now)" and "bk_key (refilled b s now) = bk_key b" and "bk_spec (refilled b s now) = s"
proof -
  have c: "0 \<le> spec_Capacity s" using assms(1,2) by (auto simp: bucket_ok_def)
  have "0 \<le> f64 (bk_tokens b + f64 (Seconds (time_sub now (bk_last b)) * spec_Rate s))" if "0 < time_sub now (bk_last b)"
    using assms Seconds_nonneg [OF that] by (simp add: bucket_ok_def)
  then show "bucket_ok (refilled b s now)" using assms c by (simp add: refilled_def Let_def bucket_ok_def)
  show "bk_key (refilled b s now) = bk_key b" "bk_spec (refilled b s now) = s"
    using assms(2) by (simp_all add: refilled_def Let_def)
qed

lemma f64_Capacity: "spec_Valid s \<Longrightarrow> f64 (spec_Capacity s) = spec_Capacity s"
  by (simp add: spec_Capacity_def spec_Valid_def f64_idem)

lemma take_token_ok:
  assumes "bucket_ok b" and "1 \<le> bk_tokens b" and "spec_Valid (bk_spec b)"
  shows "bucket_ok (b\<lparr>bk_tokens := f64 (bk_tokens b - 1)\<rparr>)"
proof -
  have "f64 (bk_tokens b - 1) \<le> f64 (spec_Capacity (bk_spec b))"
    using assms(1) by (intro f64_mono) (simp add: bucket_ok_def)
  then show ?thesis using assms by (simp add: bucket_ok_def f64_Capacity)
qed

lemma limiter_ok_front:
  assumes "limiter_ok l" and "lm_order l = b # cs" and "bk_key b' = bk_key b" and "bucket_ok b'"
  shows "limiter_ok (l\<lparr>lm_order := b' # cs\<rparr>)"
  using assms unfolding limiter_ok_def Len_def by clarsimp

lemma Allow_cases:
  assumes ok: "limiter_ok l" and v: "spec_Valid s"
  obtains b cs where "lm_order (bucketFor l key s now) = b # cs" and "bk_key b = key" and "bk_spec b = s"
    and "bucket_ok (refilled b s now)"
    and "set cs \<subseteq> {c \<in> set (lm_order l). bk_key c \<noteq> key}"
    and "b \<in> set (lm_order l) \<or> b = \<lparr>bk_key = key, bk_spec = s, bk_tokens = spec_Capacity s, bk_last = now\<rparr>"
    and "limiter_Allow l key s now =
      (let l' = bucketFor l key s now; b' = refilled b s now in
       if 1 \<le> bk_tokens b' then (l'\<lparr>lm_order := b'\<lparr>bk_tokens := f64 (bk_tokens b' - 1)\<rparr> # cs\<rparr>, True, 0)
       else (l'\<lparr>lm_order := b' # cs\<rparr>, False, retry_after b' s))"
    and "limiter_ok (fst (limiter_Allow l key s now))" and "lm_capacity (fst (limiter_Allow l key s now)) = lm_capacity l"
proof -
  obtain b cs where o: "lm_order (bucketFor l key s now) = b # cs" and k: "bk_key b = key"
    and e: "spec_Equal (bk_spec b) s" and okf: "limiter_ok (bucketFor l key s now)"
    and cap: "lm_capacity (bucketFor l key s now) = lm_capacity l"
    and cs: "set cs \<subseteq> {c \<in> set (lm_order l). bk_key c \<noteq> key}"
    and b: "b \<in> set (lm_order l) \<or> b = \<lparr>bk_key = key, bk_spec = s, bk_tokens = spec_Capacity s, bk_last = now\<rparr>"
    by (rule bucketFor_spec [OF ok v])
  have sp: "bk_spec b = s" using e by (simp add: spec_Equal_eq)
  have okb: "bucket_ok b" using okf o by (simp add: limiter_ok_def)
  note r = refilled_ok [OF okb sp spec_Rate_nonneg [OF v], of now]
  have a: "limiter_Allow l key s now =
      (let l' = bucketFor l key s now; b' = refilled b s now in
       if 1 \<le> bk_tokens b' then (l'\<lparr>lm_order := b'\<lparr>bk_tokens := f64 (bk_tokens b' - 1)\<rparr> # cs\<rparr>, True, 0)
       else (l'\<lparr>lm_order := b' # cs\<rparr>, False, retry_after b' s))"
    by (simp add: limiter_Allow_def Let_def o)
  have "bucket_ok ((refilled b s now)\<lparr>bk_tokens := f64 (bk_tokens (refilled b s now) - 1)\<rparr>)"
    if "1 \<le> bk_tokens (refilled b s now)"
    using take_token_ok [OF r(1) that] r(3) v by simp
  then have "limiter_ok (fst (limiter_Allow l key s now))"
    using r unfolding a Let_def by (auto intro!: limiter_ok_front [OF okf o])
  moreover have "lm_capacity (fst (limiter_Allow l key s now)) = lm_capacity l" using cap by (simp add: a Let_def)
  ultimately show thesis using that o k sp r(1) cs b a by blast
qed

section \<open>Any history of requests and sweeps\<close>

datatype limiter_op = Request string limit_spec time | SweepAt time

fun limiter_step :: "limiter_op \<Rightarrow> Limiter \<Rightarrow> Limiter" where
  "limiter_step (Request k s t) l = fst (limiter_Allow l k s t)"
| "limiter_step (SweepAt t) l = fst (limiter_Sweep l t)"

fun op_valid :: "limiter_op \<Rightarrow> bool" where
  "op_valid (Request k s t) = spec_Valid s"
| "op_valid (SweepAt t) = True"

lemma sweep_loop_ok:
  "limiter_ok l \<Longrightarrow> limiter_ok (fst (sweep_loop l now n)) \<and> lm_capacity (fst (sweep_loop l now n)) = lm_capacity l"
proof (induction l now n rule: sweep_loop.induct)
  case (1 l now n)
  show ?case
  proof (cases "lm_order l = [] \<or> bucket_live (last (lm_order l)) now")
    case True
    then show ?thesis using 1(2) by (subst (1 2) sweep_loop.simps) auto
  next
    case False
    then have "sweep_loop l now n = sweep_loop (drop_back l) now (n + 1)" by (subst sweep_loop.simps) simp
    then show ?thesis using 1(1) [OF _ _ drop_back_ok [OF 1(2)]] False by (simp add: drop_back_def)
  qed
qed

lemma limiter_step_ok:
  assumes "limiter_ok l" and "op_valid x"
  shows "limiter_ok (limiter_step x l) \<and> lm_capacity (limiter_step x l) = lm_capacity l"
proof (cases x)
  case (Request k s t)
  then show ?thesis using Allow_cases [of l s k t] assms by (metis limiter_step.simps(1) op_valid.simps(1))
next
  case (SweepAt t)
  then show ?thesis using sweep_loop_ok [OF assms(1)] by (simp add: limiter_Sweep_def)
qed

lemma New_ok: "limiter_ok (New c)"
  by (simp add: New_def limiter_ok_def Len_def DefaultCapacity_def)

text \<open>
  The bound that keeps the public surface from exhausting memory: after any history of requests and
  sweeps the limiter holds at most its capacity of buckets, the index and the list agree, and no
  bucket holds more than its spec allows.
\<close>

theorem limiter_invariant:
  assumes "\<forall>x\<in>set ops. op_valid x"
  shows "limiter_ok (fold limiter_step ops (New c)) \<and>
         int (Len (fold limiter_step ops (New c))) \<le> (if c \<le> 0 then DefaultCapacity else c)"
proof -
  have "limiter_ok (fold limiter_step ops l) \<and> lm_capacity (fold limiter_step ops l) = lm_capacity l"
    if "limiter_ok l" for l
    using assms that
  proof (induction ops arbitrary: l)
    case (Cons x ops)
    have "limiter_ok (limiter_step x l) \<and> lm_capacity (limiter_step x l) = lm_capacity l"
      using limiter_step_ok Cons.prems by simp
    with Cons show ?case by simp
  qed simp
  from this [OF New_ok, of c] have "limiter_ok (fold limiter_step ops (New c))"
    and "lm_capacity (fold limiter_step ops (New c)) = (if c \<le> 0 then DefaultCapacity else c)"
    by (simp_all add: New_def)
  then show ?thesis unfolding limiter_ok_def by metis
qed

section \<open>The sustained rate\<close>

definition eps :: rat where "eps = 1 / 2 ^ 53"

lemma eps_pos: "0 < eps" and eps_small: "eps < 1"
  by (simp_all add: eps_def)

lemma f64_up: "0 \<le> x \<Longrightarrow> x \<le> y \<Longrightarrow> f64 x \<le> y * (1 + eps)"
  using f64_upper [of x] mult_right_mono [of x y "1 + eps"] eps_pos unfolding eps_def by linarith

lemma f64_lo: "0 \<le> y \<Longrightarrow> y \<le> x \<Longrightarrow> y * (1 - eps) \<le> f64 x"
  using f64_lower [of x] mult_right_mono [of y x "1 - eps"] eps_small unfolding eps_def by linarith

lemma split_seconds:
  assumes "0 < d"
  shows "0 \<le> go_div d second" and "0 \<le> go_mod d second"
    and "(of_int d :: rat) / 1000000000 = of_int (go_div d second) + of_int (go_mod d second) / 1000000000"
proof -
  have "d = go_div d second * second + go_mod d second" by (simp add: go_mod_def)
  then have "(of_int d :: rat) = of_int (go_div d second) * of_int second + of_int (go_mod d second)"
    by (metis of_int_add of_int_mult)
  then show "(of_int d :: rat) / 1000000000 = of_int (go_div d second) + of_int (go_mod d second) / 1000000000"
    by (simp add: second_def field_simps)
  show "0 \<le> go_div d second" "0 \<le> go_mod d second"
    using assms by (simp_all add: go_div_nonneg go_mod_nonneg pos_imp_zdiv_nonneg_iff)
qed

lemma Seconds_bounds:
  assumes "0 < d"
  shows "Seconds d \<le> of_int d / 1000000000 * (1 + eps) ^ 3"
    and "of_int d / 1000000000 * (1 - eps) ^ 3 \<le> Seconds d"
proof -
  define a b :: rat where "a = of_int (go_div d second)" and "b = of_int (go_mod d second)"
  note sp = split_seconds [OF assms]
  have ab: "0 \<le> a" "0 \<le> b" using sp(1,2) by (simp_all add: a_def b_def)
  have S: "Seconds d = f64 (f64 a + f64 (f64 b / 1000000000))" by (simp add: Seconds_def a_def b_def)
  have D: "of_int d / 1000000000 = a + b / 1000000000" using sp(3) by (simp add: a_def b_def)
  note e = eps_pos eps_small
  have nn: "0 \<le> f64 a" "0 \<le> f64 b / 1000000000" using ab by simp_all
  have "f64 b / 1000000000 \<le> b * (1 + eps) / 1000000000" using f64_up [of b b] ab by (simp add: divide_right_mono)
  from f64_up [OF nn(2) this] have u2: "f64 (f64 b / 1000000000) \<le> b / 1000000000 * (1 + eps) ^ 2"
    by (simp add: power2_eq_square)
  have u1: "f64 a \<le> a * (1 + eps) ^ 2"
  proof -
    have "f64 a \<le> a * (1 + eps)" using f64_up [of a a] ab by simp
    also have "\<dots> \<le> a * (1 + eps) ^ 2" using ab e by (intro mult_left_mono) (simp_all add: power2_eq_square)
    finally show ?thesis .
  qed
  have "Seconds d \<le> (a * (1 + eps) ^ 2 + b / 1000000000 * (1 + eps) ^ 2) * (1 + eps)"
    unfolding S using u1 u2 nn by (intro f64_up) simp_all
  then show "Seconds d \<le> of_int d / 1000000000 * (1 + eps) ^ 3"
    unfolding D by (simp add: power2_eq_square power3_eq_cube algebra_simps)
  have "b * (1 - eps) / 1000000000 \<le> f64 b / 1000000000" using f64_lo [of b b] ab by (simp add: divide_right_mono)
  moreover have "0 \<le> b * (1 - eps) / 1000000000" using ab e by simp
  ultimately have l2: "b / 1000000000 * (1 - eps) ^ 2 \<le> f64 (f64 b / 1000000000)"
    using f64_lo [of "b * (1 - eps) / 1000000000" "f64 b / 1000000000"] by (simp add: power2_eq_square)
  have l1: "a * (1 - eps) ^ 2 \<le> f64 a"
  proof -
    have "a * (1 - eps) ^ 2 \<le> a * (1 - eps)" using ab e by (intro mult_left_mono) (simp_all add: power2_eq_square)
    also have "\<dots> \<le> f64 a" using f64_lo [of a a] ab by simp
    finally show ?thesis .
  qed
  have "(a * (1 - eps) ^ 2 + b / 1000000000 * (1 - eps) ^ 2) * (1 - eps) \<le> Seconds d"
    unfolding S using l1 l2 ab by (intro f64_lo) simp_all
  then show "of_int d / 1000000000 * (1 - eps) ^ 3 \<le> Seconds d"
    unfolding D by (simp add: power2_eq_square power3_eq_cube algebra_simps)
qed

lemma rounding_factor: "(1 + eps) ^ 6 / (1 - eps) ^ 3 \<le> 1 + 1 / 2 ^ 49"
  by (simp add: eps_def power_divide field_simps)

lemma refill_algebra:
  "W \<noteq> 0 \<Longrightarrow> q \<noteq> 0 \<Longrightarrow>
   (D / 1000000000 * p ^ 3) * (R * p / (W / 1000000000 * q) * p) = R * D / W * (p ^ 5 / (q :: rat))"
  by (simp add: field_simps eval_nat_numeral)

text \<open>What a refill adds, against the exact number of requests the time allows.\<close>

lemma refill_upper:
  assumes v: "spec_Valid s" and d: "0 < d"
  shows "f64 (Seconds d * spec_Rate s) \<le> of_int (ls_Requests s) * of_int d / of_int (ls_Window s) * (1 + 1 / 2 ^ 49)"
proof -
  define R W D :: rat where "R = of_int (ls_Requests s)" and "W = of_int (ls_Window s)" and "D = of_int d"
  have pos: "0 < R" "0 < W" "0 < D" using v d by (simp_all add: R_def W_def D_def spec_Valid_def)
  have w: "0 < ls_Window s" using v by (simp add: spec_Valid_def)
  note e = eps_pos eps_small
  have sw: "W / 1000000000 * (1 - eps) ^ 3 \<le> Seconds (ls_Window s)" using Seconds_bounds(2) [OF w] by (simp add: W_def)
  have lp: "0 < W / 1000000000 * (1 - eps) ^ 3" using pos e by simp
  have "f64 R / Seconds (ls_Window s) \<le> f64 R / (W / 1000000000 * (1 - eps) ^ 3)"
    using sw lp pos by (intro divide_left_mono) (simp_all add: mult_pos_pos)
  also have "\<dots> \<le> R * (1 + eps) / (W / 1000000000 * (1 - eps) ^ 3)"
    using f64_up [of R R] pos lp by (intro divide_right_mono) simp_all
  finally have q: "f64 R / Seconds (ls_Window s) \<le> R * (1 + eps) / (W / 1000000000 * (1 - eps) ^ 3)" .
  have "0 \<le> f64 R / Seconds (ls_Window s)" using pos Seconds_nonneg [OF w] by simp
  from f64_up [OF this q] have r: "spec_Rate s \<le> R * (1 + eps) / (W / 1000000000 * (1 - eps) ^ 3) * (1 + eps)"
    by (simp add: spec_Rate_def R_def)
  have "Seconds d * spec_Rate s \<le>
      (D / 1000000000 * (1 + eps) ^ 3) * (R * (1 + eps) / (W / 1000000000 * (1 - eps) ^ 3) * (1 + eps))"
    using Seconds_bounds(1) [OF d] r Seconds_nonneg [OF d] spec_Rate_nonneg [OF v] pos e
    by (intro mult_mono) (simp_all add: D_def)
  also have "\<dots> = R * D / W * ((1 + eps) ^ 5 / (1 - eps) ^ 3)"
    using pos e by (intro refill_algebra) simp_all
  finally have m: "Seconds d * spec_Rate s \<le> R * D / W * ((1 + eps) ^ 5 / (1 - eps) ^ 3)" .
  have "0 \<le> Seconds d * spec_Rate s" using Seconds_nonneg [OF d] spec_Rate_nonneg [OF v] by simp
  from f64_up [OF this m] have "f64 (Seconds d * spec_Rate s) \<le> R * D / W * ((1 + eps) ^ 6 / (1 - eps) ^ 3)"
    by (simp add: eval_nat_numeral mult.assoc)
  also have "\<dots> \<le> R * D / W * (1 + 1 / 2 ^ 49)" using rounding_factor pos by (intro mult_left_mono) simp_all
  finally show ?thesis by (simp only: R_def W_def D_def)
qed

section \<open>What one client gets\<close>

text \<open>The requests of a key that a sequence of requests, of any clients, has admitted.\<close>

fun admitted :: "Limiter \<Rightarrow> string \<Rightarrow> (string \<times> limit_spec \<times> time) list \<Rightarrow> nat" where
  "admitted l k [] = 0"
| "admitted l k ((k', s, t) # rs) =
     (case limiter_Allow l k' s t of (l', ok, _) \<Rightarrow> (if k' = k \<and> ok then 1 else 0) + admitted l' k rs)"

fun bucket_of :: "bucket list \<Rightarrow> string \<Rightarrow> bucket option" where
  "bucket_of [] k = None"
| "bucket_of (b # bs) k = (if bk_key b = k then Some b else bucket_of bs k)"

lemma bucket_of_Some: "distinct (map bk_key bs) \<Longrightarrow> bucket_of bs k = Some b \<longleftrightarrow> b \<in> set bs \<and> bk_key b = k"
  by (induction bs) (auto split: if_splits)

lemma bucket_of_None: "bucket_of bs k = None \<longleftrightarrow> k \<notin> bk_key ` set bs"
  by (induction bs) auto

lemma f64_le_plus: "0 \<le> x \<Longrightarrow> x \<le> c \<Longrightarrow> f64 x \<le> x + c / 2 ^ 53"
  using f64_upper [of x] by (simp add: algebra_simps)

text \<open>One request on the bucket: what it admits is paid for by its tokens and the time that passed.\<close>

lemma refilled_upper:
  assumes v: "spec_Valid s" and b: "bucket_ok b" "bk_spec b = s" and T: "now \<le> T"
    and rho: "\<rho> = of_int (ls_Requests s) / of_int (ls_Window s) * (1 + 1 / 2 ^ 49)"
  shows "bk_tokens (refilled b s now) + \<rho> * of_int (max 0 (T - bk_last (refilled b s now))) \<le>
         bk_tokens b + \<rho> * of_int (max 0 (T - bk_last b)) + spec_Capacity s / 2 ^ 53"
proof -
  have cap: "0 \<le> spec_Capacity s" using spec_Capacity_nonneg [OF v] .
  have rho0: "0 \<le> \<rho>" using v by (simp add: rho spec_Valid_def)
  show ?thesis
  proof (cases "0 < time_sub now (bk_last b)")
    case False
    then show ?thesis using cap by (simp add: refilled_def Let_def)
  next
    case True
    let ?d = "time_sub now (bk_last b)" and ?x = "bk_tokens b + f64 (Seconds (time_sub now (bk_last b)) * spec_Rate s)"
    have d: "?d \<le> now - bk_last b" using True by (simp add: time_sub_def min_def max_def min_duration_def split: if_splits)
    have f0: "0 \<le> f64 (Seconds ?d * spec_Rate s)" using Seconds_nonneg [OF True] spec_Rate_nonneg [OF v] by simp
    have x0: "0 \<le> ?x" using b(1) f0 by (simp add: bucket_ok_def)
    have x: "?x \<le> bk_tokens b + \<rho> * of_int (now - bk_last b)"
    proof -
      have "f64 (Seconds ?d * spec_Rate s) \<le> \<rho> * of_int ?d" using refill_upper [OF v True] by (simp add: rho mult_ac)
      also have "\<dots> \<le> \<rho> * of_int (now - bk_last b)" using d rho0 by (intro mult_left_mono) simp_all
      finally show ?thesis by simp
    qed
    have "min (spec_Capacity s) (f64 ?x) \<le> ?x + spec_Capacity s / 2 ^ 53"
    proof (cases "?x \<le> spec_Capacity s")
      case True
      then show ?thesis using f64_le_plus [OF x0 True] by simp
    next
      case False
      then have "min (spec_Capacity s) (f64 ?x) \<le> ?x" by simp
      moreover have "0 \<le> spec_Capacity s / 2 ^ 53" using cap by simp
      ultimately show ?thesis by linarith
    qed
    moreover have "max 0 (T - bk_last b) = (now - bk_last b) + (T - now)" "max 0 (T - now) = T - now"
      using T True d by auto
    ultimately show ?thesis
      using True x by (simp add: refilled_def Let_def algebra_simps)
  qed
qed

text \<open>A request of another client leaves the bucket alone as long as nothing has to be evicted.\<close>

lemma bucket_of_moved_front: "k \<noteq> key \<Longrightarrow> bucket_of (moved_front key bs) k = bucket_of bs k"
proof -
  assume k: "k \<noteq> key"
  have "bucket_of (xs @ ys) k = bucket_of ys k" if "\<forall>x\<in>set xs. bk_key x = key" for xs ys
    using that k by (induction xs) auto
  moreover have "bucket_of (filter (\<lambda>b. bk_key b \<noteq> key) bs) k = bucket_of bs k" using k by (induction bs) auto
  ultimately show ?thesis by (simp add: moved_front_def)
qed

definition fits :: "Limiter \<Rightarrow> string \<Rightarrow> bool" where
  "fits l key \<longleftrightarrow> key \<in> lm_buckets l \<or> int (Len l) < lm_capacity l"

definition front_bucket :: "Limiter \<Rightarrow> string \<Rightarrow> limit_spec \<Rightarrow> time \<Rightarrow> bucket" where
  "front_bucket l key s now =
     (case bucket_of (lm_order l) key of
        Some b \<Rightarrow> (if bk_spec b = s then b else b\<lparr>bk_spec := s, bk_tokens := spec_Capacity s, bk_last := now\<rparr>)
      | None \<Rightarrow> \<lparr>bk_key = key, bk_spec = s, bk_tokens = spec_Capacity s, bk_last = now\<rparr>)"

lemma bucketFor_keeps:
  assumes ok: "limiter_ok l" and fits: "fits l key"
  shows "lm_buckets (bucketFor l key s now) = insert key (lm_buckets l)"
    and "k \<noteq> key \<Longrightarrow> bucket_of (lm_order (bucketFor l key s now)) k = bucket_of (lm_order l) k"
    and "hd (lm_order (bucketFor l key s now)) = front_bucket l key s now"
proof -
  have "lm_buckets (bucketFor l key s now) = insert key (lm_buckets l) \<and>
    (k \<noteq> key \<longrightarrow> bucket_of (lm_order (bucketFor l key s now)) k = bucket_of (lm_order l) k) \<and>
    hd (lm_order (bucketFor l key s now)) = front_bucket l key s now"
  proof (cases "key \<in> lm_buckets l")
    case True
    then have "key \<in> bk_key ` set (lm_order l)" using ok by (simp add: limiter_ok_def)
    then obtain b cs where m: "moved_front key (lm_order l) = b # cs" "bk_key b = key" "b \<in> set (lm_order l)"
      by (rule moved_front_hit)
    have "bucket_of (lm_order l) key = Some b" using m ok bucket_of_Some by (simp add: limiter_ok_def)
    then show ?thesis
      using True m bucket_of_moved_front [of k key "lm_order l"]
      by (simp add: bucketFor_def Let_def insert_absorb front_bucket_def spec_Equal_eq)
  next
    case False
    then have "evictIfFull l = l" using evictIfFull_spec [OF ok] fits by (simp add: fits_def)
    moreover have "bucket_of (lm_order l) key = None" using False ok bucket_of_None by (simp add: limiter_ok_def)
    ultimately show ?thesis using False by (simp add: bucketFor_def Let_def front_bucket_def)
  qed
  then show "lm_buckets (bucketFor l key s now) = insert key (lm_buckets l)"
    "k \<noteq> key \<Longrightarrow> bucket_of (lm_order (bucketFor l key s now)) k = bucket_of (lm_order l) k"
    "hd (lm_order (bucketFor l key s now)) = front_bucket l key s now" by auto
qed

lemma Allow_keeps:
  assumes ok: "limiter_ok l" and v: "spec_Valid s" and fits: "fits l key"
  shows "lm_buckets (fst (limiter_Allow l key s now)) = insert key (lm_buckets l)"
    and "k \<noteq> key \<Longrightarrow> bucket_of (lm_order (fst (limiter_Allow l key s now))) k = bucket_of (lm_order l) k"
    and "bucket_of (lm_order (fst (limiter_Allow l key s now))) key =
      (let b = refilled (front_bucket l key s now) s now in
       Some (if 1 \<le> bk_tokens b then b\<lparr>bk_tokens := f64 (bk_tokens b - 1)\<rparr> else b))"
    and "fst (snd (limiter_Allow l key s now)) \<longleftrightarrow> 1 \<le> bk_tokens (refilled (front_bucket l key s now) s now)"
    and "bk_spec (front_bucket l key s now) = s" and "bucket_ok (front_bucket l key s now)"
    and "limiter_ok (fst (limiter_Allow l key s now))" and "lm_capacity (fst (limiter_Allow l key s now)) = lm_capacity l"
proof -
  obtain b cs where o: "lm_order (bucketFor l key s now) = b # cs" and k: "bk_key b = key" and sp: "bk_spec b = s"
    and a: "limiter_Allow l key s now =
      (let l' = bucketFor l key s now; b' = refilled b s now in
       if 1 \<le> bk_tokens b' then (l'\<lparr>lm_order := b'\<lparr>bk_tokens := f64 (bk_tokens b' - 1)\<rparr> # cs\<rparr>, True, 0)
       else (l'\<lparr>lm_order := b' # cs\<rparr>, False, retry_after b' s))"
    and ok': "limiter_ok (fst (limiter_Allow l key s now))" "lm_capacity (fst (limiter_Allow l key s now)) = lm_capacity l"
    by (rule Allow_cases [OF ok v])
  note keep = bucketFor_keeps [OF ok fits, where s = s and now = now]
  have f: "front_bucket l key s now = b" using keep(3) o by simp
  have kr: "bk_key (refilled b s now) = key" using k by (simp add: refilled_def Let_def)
  show "lm_buckets (fst (limiter_Allow l key s now)) = insert key (lm_buckets l)" using keep(1) by (simp add: a Let_def)
  show "bucket_of (lm_order (fst (limiter_Allow l key s now))) k = bucket_of (lm_order l) k" if "k \<noteq> key"
    using keep(2) [of k] that o k kr by (simp add: a Let_def)
  show "bucket_of (lm_order (fst (limiter_Allow l key s now))) key =
      (let b = refilled (front_bucket l key s now) s now in
       Some (if 1 \<le> bk_tokens b then b\<lparr>bk_tokens := f64 (bk_tokens b - 1)\<rparr> else b))"
    using kr by (simp add: a Let_def f)
  show "fst (snd (limiter_Allow l key s now)) \<longleftrightarrow> 1 \<le> bk_tokens (refilled (front_bucket l key s now) s now)"
    by (simp add: a Let_def f)
  show "bk_spec (front_bucket l key s now) = s" using sp f by simp
  show "bucket_ok (front_bucket l key s now)"
    using ok spec_Capacity_nonneg [OF v]
    by (auto simp: front_bucket_def limiter_ok_def bucket_ok_def bucket_of_Some split: option.splits)
qed (use Allow_cases [OF ok v] in metis)+

definition exact_rate :: "limit_spec \<Rightarrow> rat" where
  "exact_rate s = of_int (ls_Requests s) / of_int (ls_Window s) * (1 + 1 / 2 ^ 49)"

text \<open>What a client may still be granted until \<open>T\<close>, when it has not been seen before \<open>t0\<close>.\<close>

definition potential :: "Limiter \<Rightarrow> string \<Rightarrow> limit_spec \<Rightarrow> time \<Rightarrow> time \<Rightarrow> rat" where
  "potential l k s t0 T =
     (case bucket_of (lm_order l) k of
        Some b \<Rightarrow> if bk_spec b = s then bk_tokens b + exact_rate s * of_int (max 0 (T - bk_last b))
                  else spec_Capacity s + exact_rate s * of_int (T - t0)
      | None \<Rightarrow> spec_Capacity s + exact_rate s * of_int (T - t0))"

lemma exact_rate_nonneg: "spec_Valid s \<Longrightarrow> 0 \<le> exact_rate s"
  by (simp add: exact_rate_def spec_Valid_def)

lemma potential_nonneg:
  assumes "limiter_ok l" and "spec_Valid s" and "t0 \<le> T"
  shows "0 \<le> potential l k s t0 T"
proof -
  have "0 \<le> bk_tokens b" if "bucket_of (lm_order l) k = Some b" for b
    using that assms(1) bucket_of_Some [of "lm_order l" k b] by (auto simp: limiter_ok_def bucket_ok_def)
  then show ?thesis
    using exact_rate_nonneg [OF assms(2)] spec_Capacity_nonneg [OF assms(2)] assms(3)
    by (auto simp: potential_def split: option.splits)
qed

lemma potential_request:
  assumes ok: "limiter_ok l" and v: "spec_Valid s" and fits: "fits l k" and t: "t0 \<le> now" "now \<le> T"
  shows "(if fst (snd (limiter_Allow l k s now)) then 1 else 0) + potential (fst (limiter_Allow l k s now)) k s t0 T \<le>
         potential l k s t0 T + spec_Capacity s / 2 ^ 52"
proof -
  let ?b = "front_bucket l k s now"
  let ?r = "refilled ?b s now"
  note a = Allow_keeps [OF ok v fits, where now = now]
  have cap: "0 \<le> spec_Capacity s" using spec_Capacity_nonneg [OF v] .
  have rho: "0 \<le> exact_rate s" using exact_rate_nonneg [OF v] .
  have "bk_tokens ?b + exact_rate s * of_int (max 0 (T - bk_last ?b)) \<le> potential l k s t0 T"
    using t mult_left_mono [OF _ rho, of "of_int (T - now)" "of_int (T - t0)"]
    by (auto simp: front_bucket_def potential_def split: option.splits)
  moreover have "bk_tokens ?r + exact_rate s * of_int (max 0 (T - bk_last ?r)) \<le>
      bk_tokens ?b + exact_rate s * of_int (max 0 (T - bk_last ?b)) + spec_Capacity s / 2 ^ 53"
    using refilled_upper [OF v a(6) a(5) t(2)] by (simp add: exact_rate_def)
  moreover have okr: "bucket_ok ?r" "bk_spec ?r = s" using refilled_ok [OF a(6) a(5) spec_Rate_nonneg [OF v]] by auto
  moreover have "(if 1 \<le> bk_tokens ?r then 1 else 0) +
      bk_tokens (if 1 \<le> bk_tokens ?r then ?r\<lparr>bk_tokens := f64 (bk_tokens ?r - 1)\<rparr> else ?r) \<le>
      bk_tokens ?r + spec_Capacity s / 2 ^ 53"
    using f64_le_plus [of "bk_tokens ?r - 1" "spec_Capacity s"] okr cap by (auto simp: bucket_ok_def)
  moreover have "potential (fst (limiter_Allow l k s now)) k s t0 T =
      bk_tokens (if 1 \<le> bk_tokens ?r then ?r\<lparr>bk_tokens := f64 (bk_tokens ?r - 1)\<rparr> else ?r) +
      exact_rate s * of_int (max 0 (T - bk_last ?r))"
    using a(3) okr(2) by (simp add: potential_def Let_def)
  moreover have "spec_Capacity s / 2 ^ 52 = spec_Capacity s / 2 ^ 53 + spec_Capacity s / 2 ^ 53" by simp
  ultimately show ?thesis unfolding a(4) by linarith
qed

lemma potential_other:
  assumes "limiter_ok l" and "spec_Valid s'" and "fits l k'" and "k \<noteq> k'"
  shows "potential (fst (limiter_Allow l k' s' now)) k s t0 T = potential l k s t0 T"
  using Allow_keeps(2) [OF assms] by (simp add: potential_def)

abbreviation requests_of :: "string \<Rightarrow> (string \<times> limit_spec \<times> time) list \<Rightarrow> nat" where
  "requests_of k rs \<equiv> length (filter (\<lambda>r. fst r = k) rs)"

lemma admitted_potential:
  assumes "limiter_ok l" and "spec_Valid s" and "t0 \<le> T"
    and "\<forall>(k', s', t)\<in>set rs. spec_Valid s' \<and> (k' = k \<longrightarrow> s' = s) \<and> t0 \<le> t \<and> t \<le> T"
    and "int (card (lm_buckets l \<union> fst ` set rs)) \<le> lm_capacity l"
  shows "of_nat (admitted l k rs) \<le> potential l k s t0 T + of_nat (requests_of k rs) * (spec_Capacity s / 2 ^ 52)"
  using assms
proof (induction rs arbitrary: l)
  case Nil
  then show ?case using potential_nonneg by simp
next
  case (Cons r rs)
  obtain k' s' t where r: "r = (k', s', t)" by (cases r) auto
  have v': "spec_Valid s'" and t: "t0 \<le> t" "t \<le> T" and s': "k' = k \<longrightarrow> s' = s" using Cons.prems(4) by (auto simp: r)
  have fin: "finite (lm_buckets l)" using Cons.prems(1) by (simp add: limiter_ok_def)
  have fits: "fits l k'"
  proof (cases "k' \<in> lm_buckets l")
    case False
    then have "Suc (card (lm_buckets l)) = card (insert k' (lm_buckets l))" using fin by simp
    also have "\<dots> \<le> card (lm_buckets l \<union> fst ` set (r # rs))" using fin by (intro card_mono) (auto simp: r)
    finally show ?thesis using Cons.prems(5) by (simp add: fits_def Len_def)
  qed (simp add: fits_def)
  let ?l = "fst (limiter_Allow l k' s' t)"
  note a = Allow_keeps [OF Cons.prems(1) v' fits, where now = t]
  have "lm_buckets ?l \<union> fst ` set rs = lm_buckets l \<union> fst ` set (r # rs)" using a(1) by (auto simp: r)
  then have IH: "of_nat (admitted ?l k rs) \<le>
      potential ?l k s t0 T + of_nat (requests_of k rs) * (spec_Capacity s / 2 ^ 52)"
    using Cons.IH [OF a(7) Cons.prems(2,3)] Cons.prems(4,5) a(8) by simp
  have adm: "admitted l k (r # rs) = (if k' = k \<and> fst (snd (limiter_Allow l k' s' t)) then 1 else 0) + admitted ?l k rs"
    by (simp add: r split: prod.splits)
  show ?case
  proof (cases "k' = k")
    case True
    then have "(if fst (snd (limiter_Allow l k s t)) then 1 else 0) + potential ?l k s t0 T \<le>
        potential l k s t0 T + spec_Capacity s / 2 ^ 52"
      using potential_request [OF Cons.prems(1,2) _ t] fits s' by simp
    moreover have "of_nat (requests_of k (r # rs)) * (spec_Capacity s / 2 ^ 52) =
        of_nat (requests_of k rs) * (spec_Capacity s / 2 ^ 52) + spec_Capacity s / 2 ^ 52"
      by (simp only: r True filter.simps fst_conv list.size of_nat_add of_nat_1 distrib_right if_True refl mult_1 of_nat_Suc)
    moreover have "(of_nat (admitted l k (r # rs)) :: rat) =
        (if fst (snd (limiter_Allow l k s t)) then 1 else 0) + of_nat (admitted ?l k rs)"
      unfolding adm using True s' by simp
    ultimately show ?thesis using IH by linarith
  next
    case False
    then show ?thesis using IH adm potential_other [OF Cons.prems(1) v' fits, of k t s t0 T] by (simp add: r)
  qed
qed


text \<open>
  The bucket is kept per key, and a request under a different spec starts it again: a client that
  alternates between two specs under one key is never refused.
\<close>

fun alternates :: "limit_spec option \<Rightarrow> (limit_spec \<times> time) list \<Rightarrow> bool" where
  "alternates prev [] = True"
| "alternates prev ((s, t) # rs) = (prev \<noteq> Some s \<and> alternates (Some s) rs)"

lemma spec_Capacity_ge_1: "spec_Valid s \<Longrightarrow> 1 \<le> spec_Capacity s"
proof -
  assume v: "spec_Valid s"
  have "f64 1 = 1" using f64_of_nat [of 1] by simp
  then have "1 \<le> f64 x" if "1 \<le> x" for x using f64_mono [OF that] by simp
  then show ?thesis using v by (simp add: spec_Capacity_def spec_Valid_def)
qed

lemma alternating_step:
  assumes ok: "limiter_ok l" and fits: "fits l k" and v: "spec_Valid s"
    and ne: "map_option bk_spec (bucket_of (lm_order l) k) \<noteq> Some s"
  shows "fst (snd (limiter_Allow l k s t))" and "limiter_ok (fst (limiter_Allow l k s t))" and "fits (fst (limiter_Allow l k s t)) k"
    and "map_option bk_spec (bucket_of (lm_order (fst (limiter_Allow l k s t))) k) = Some s"
proof -
  note a = Allow_keeps [OF ok v fits, where now = t]
  have "bk_tokens (front_bucket l k s t) = spec_Capacity s \<and> bk_last (front_bucket l k s t) = t"
    using ne by (auto simp: front_bucket_def split: option.splits)
  then have "refilled (front_bucket l k s t) s t = front_bucket l k s t" "1 \<le> bk_tokens (front_bucket l k s t)"
    using spec_Capacity_ge_1 [OF v] by (simp_all add: refilled_def)
  then show "fst (snd (limiter_Allow l k s t))" using a(4) by simp
  show "map_option bk_spec (bucket_of (lm_order (fst (limiter_Allow l k s t))) k) = Some s"
    using a(3) a(5) refilled_ok(3) [OF a(6) a(5) spec_Rate_nonneg [OF v], of t] by (simp add: Let_def)
  show "fits (fst (limiter_Allow l k s t)) k" using a(1) by (simp add: fits_def)
  show "limiter_ok (fst (limiter_Allow l k s t))" by (rule a(7))
qed

end
