(* ===== verification/Edge_Proxy.thy ===== *)
theory Edge_Proxy
  imports Edge_Snapshot Edge_Auth Rate_Limiter_Facts
begin

text \<open>
  The request path of \<open>internal/edge/proxy.go\<close> and the functions port of \<open>functions.go\<close>: host match,
  address rules, rate limit, authentication, and the headers the upstream is sent. The upstream call
  itself, body deadlines, metrics and response bodies are not modelled; a request ends as the status
  the edge answers itself or as forwarded on a compiled route.
\<close>

section \<open>The chain\<close>

datatype outcome = Answered nat | Forwarded compiled Request

record Proxy =
  px_table :: Table
  px_auth :: "compiledAuth gomap"
  px_limits :: Limiter

text \<open>\<open>peerAddr\<close>: the connection's source, never a header.\<close>

definition peerAddr :: "Request \<Rightarrow> Addr option" where
  "peerAddr r =
     map_option Unmap
       (ParseAddr (case SplitHostPort (rq_RemoteAddr r) of Some (h, _) \<Rightarrow> h | None \<Rightarrow> rq_RemoteAddr r))"

definition rate_bucket :: "string \<Rightarrow> string \<Rightarrow> string \<Rightarrow> string" where
  "rate_bucket name scope key =
     (if scope = '''' then name @ CHR 0x00 # key else name @ CHR 0x00 # scope @ CHR 0x00 # key)"

definition withinRateLimit ::
  "Limiter \<Rightarrow> Request \<Rightarrow> compiled \<Rightarrow> Addr option \<Rightarrow> string \<Rightarrow> time \<Rightarrow> Limiter \<times> bool" where
  "withinRateLimit l r route addr scope now =
     (case c_limit route of
        None \<Rightarrow> (l, True)
      | Some spec \<Rightarrow>
          let key = rateKey route r addr in
          if key = '''' then (l, True)
          else case limiter_Allow l (rate_bucket (route_Name (c_Route route)) scope key) spec now of (l, ok, _) \<Rightarrow> (l, ok))"

text \<open>\<open>authorize\<close>: \<open>None\<close> when the request may pass, or the status of the refusal.\<close>

definition authorize ::
  "Crypto \<Rightarrow> compiledAuth gomap \<Rightarrow> Request \<Rightarrow> compiled \<Rightarrow> time \<Rightarrow> compiledAuth gomap \<times> nat option" where
  "authorize C tbl r route now =
     (case map_of tbl (route_Name (c_Route route)) of
        None \<Rightarrow> (tbl, Some 503)
      | Some entry \<Rightarrow>
          if ca_invalid entry then (tbl, Some 503)
          else case verify C entry r now of
            (entry, ok) \<Rightarrow>
              (AList.update (route_Name (c_Route route)) entry tbl, if ok then None else Some 401))"

definition serveRoute ::
  "Crypto \<Rightarrow> Proxy \<Rightarrow> Request \<Rightarrow> compiled \<Rightarrow> string \<Rightarrow> time \<Rightarrow> Proxy \<times> outcome" where
  "serveRoute C p r route scope now =
     (let addr = peerAddr r in
      if \<not> allowsAddress route addr then (p, Answered 403)
      else case withinRateLimit (px_limits p) r route addr scope now of
        (limits, ok) \<Rightarrow>
          let p = p\<lparr>px_limits := limits\<rparr> in
          if \<not> ok then (p, Answered 429)
          else if rt_AuthRequired (c_Route route) then
            (case authorize C (px_auth p) r route now of
               (tbl, refusal) \<Rightarrow>
                 let p = p\<lparr>px_auth := tbl\<rparr> in
                 case refusal of Some status \<Rightarrow> (p, Answered status) | None \<Rightarrow> (p, Forwarded route r))
          else (p, Forwarded route r))"

definition ServeHTTP :: "Crypto \<Rightarrow> Proxy \<Rightarrow> Request \<Rightarrow> time \<Rightarrow> Proxy \<times> outcome" where
  "ServeHTTP C p r now =
     (if rq_Method r = ''CONNECT'' then (p, Answered 405)
      else if NormalizeHost (rq_Host r) = '''' then (p, Answered 400)
      else case lookup (px_table p) (NormalizeHost (rq_Host r)) of
        None \<Rightarrow> (p, Answered 404)
      | Some route \<Rightarrow> serveRoute C p r route '''' now)"

text \<open>\<open>SetTable\<close> keeps the limiter, \<open>SetAuth\<close> replaces the verifier table.\<close>

definition SetTable :: "Table \<Rightarrow> Proxy \<Rightarrow> Proxy" where
  "SetTable t p = p\<lparr>px_table := t\<rparr>"

definition SetAuth :: "Crypto \<Rightarrow> AuthEntry list \<Rightarrow> Proxy \<Rightarrow> Proxy" where
  "SetAuth C es p = p\<lparr>px_auth := newAuthTable C es\<rparr>"

section \<open>The functions port\<close>

definition splitFunctionPath :: "string \<Rightarrow> (string \<times> string \<times> string) option" where
  "splitFunctionPath path =
     (case cut_byte (CHR ''/'') (TrimPrefix path ''/'') of
        None \<Rightarrow> None
      | Some (project, tail) \<Rightarrow>
          (let (function, rest) =
             (case cut_byte (CHR ''/'') tail of None \<Rightarrow> (tail, ''/'') | Some (f, r) \<Rightarrow> (f, CHR ''/'' # r)) in
           if project = '''' \<or> function = '''' then None else Some (project, function, rest)))"

fun function_table :: "FunctionRoute list \<Rightarrow> compiled gomap \<Rightarrow> compiled gomap" where
  "function_table [] m = m"
| "function_table (f # fs) m =
     (case compile (function_asRoute f) of
        None \<Rightarrow> function_table fs m
      | Some c \<Rightarrow> function_table fs (AList.update (function_Prefix f) c m))"

definition serveFunctions :: "Crypto \<Rightarrow> compiled gomap \<Rightarrow> Proxy \<Rightarrow> Request \<Rightarrow> time \<Rightarrow> Proxy \<times> outcome" where
  "serveFunctions C tbl p r now =
     (if rq_Method r = ''CONNECT'' then (p, Answered 405)
      else case splitFunctionPath (rq_Path r) of
        None \<Rightarrow> (p, Answered 404)
      | Some (project, function, rest) \<Rightarrow>
          let prefix' = CHR ''/'' # project @ CHR ''/'' # function in
          (case map_of tbl prefix' of
             None \<Rightarrow> (p, Answered 404)
           | Some route \<Rightarrow> serveRoute C p (r\<lparr>rq_Path := rest\<rparr>) route (''fn:'' @ prefix') now))"

section \<open>What the upstream is sent\<close>

text \<open>\<open>ProxyRequest.SetXForwarded\<close> of the standard library.\<close>

definition SetXForwarded :: "Request \<Rightarrow> (string \<Rightarrow> string list) \<Rightarrow> string \<Rightarrow> string list" where
  "SetXForwarded r h =
     (let h = (case SplitHostPort (rq_RemoteAddr r) of
                 Some (ip, _) \<Rightarrow>
                   (let prior = h ''X-Forwarded-For'' in
                    Header_Set h ''X-Forwarded-For''
                      (if prior \<noteq> [] then str_join '', '' prior @ '', '' @ ip else ip))
               | None \<Rightarrow> Header_Del h ''X-Forwarded-For'');
          h = Header_Set h ''X-Forwarded-Host'' (rq_Host r)
      in Header_Set h ''X-Forwarded-Proto'' (if rq_TLS r then ''https'' else ''http''))"

definition schemePort :: "Request \<Rightarrow> string" where
  "schemePort r = (if rq_TLS r then ''443'' else ''80'')"

text \<open>
  The headers of the outbound request \<open>rewrite\<close> builds: the client's claims dropped, the edge's own
  statement, then the route's transforms.
\<close>

definition rewrite_headers :: "compiled \<Rightarrow> Request \<Rightarrow> string \<Rightarrow> string list" where
  "rewrite_headers route r =
     (let h = fold (\<lambda>name h. Header_Del h name) forwardedHeaders (rq_Header r);
          h = SetXForwarded r h;
          h = Header_Set h ''X-Forwarded-Port''
                (case SplitHostPort (rq_Host r) of
                   Some (_, port) \<Rightarrow> if port \<noteq> '''' then port else schemePort r
                 | None \<Rightarrow> schemePort r)
      in applyRequestHeaders route h)"

section \<open>Nothing passes unchecked\<close>

lemma serveRoute_forwards:
  assumes "serveRoute C p r route scope now = (p', Forwarded c r')"
  shows "c = route \<and> r' = r \<and> allowsAddress route (peerAddr r) \<and>
    snd (withinRateLimit (px_limits p) r route (peerAddr r) scope now) \<and>
    (rt_AuthRequired (c_Route route) \<longrightarrow>
       (\<exists>entry. map_of (px_auth p) (route_Name (c_Route route)) = Some entry \<and> \<not> ca_invalid entry \<and>
          snd (verify C entry r now)))"
  using assms
  by (auto simp: serveRoute_def authorize_def Let_def split: if_splits option.splits prod.splits)

lemma serveRoute_refuses_early:
  assumes "\<not> allowsAddress route (peerAddr r)"
  shows "serveRoute C p r route scope now = (p, Answered 403)"
  using assms by (simp add: serveRoute_def Let_def)

lemma serveRoute_answers:
  "snd (serveRoute C p r route scope now) \<in> {Answered 403, Answered 429, Answered 503, Answered 401, Forwarded route r}"
  by (auto simp: serveRoute_def authorize_def Let_def split: option.splits prod.splits)

end
