(* ===== verification/Edge_Enforcement.thy ===== *)
theory Edge_Enforcement
  imports Edge_Routes_Facts Edge_Proxy
begin

text \<open>
  The components of the edge put together: what desired state asks for is what a request meets, the
  identity headers the upstream reads are the edge's own, and one limit of the rate limiter.
\<close>

section \<open>From desired state to a forwarded request\<close>

text \<open>What an address restriction says about a peer.\<close>

definition address_permitted :: "IPRestriction \<Rightarrow> Addr option \<Rightarrow> bool" where
  "address_permitted ip addr \<longleftrightarrow>
     (case (parsePrefixes (ipr_Allow ip), parsePrefixes (ipr_Deny ip)) of
        (Some allow, Some deny) \<Rightarrow>
          (case addr of
             None \<Rightarrow> allow = [] \<and> deny = []
           | Some a \<Rightarrow>
               (\<forall>p\<in>set deny. \<not> prefix_contains p a) \<and> (allow = [] \<or> (\<exists>p\<in>set allow. prefix_contains p a)))
      | _ \<Rightarrow> False)"

lemma allowsAddress_permitted:
  assumes "compile rt = Some c" and "rt_IPRestriction rt = Some ip" and "allowsAddress c addr"
  shows "address_permitted ip addr"
  using compile_fields(2) [OF assms(1)] assms(2,3)
  by (auto simp: address_permitted_def allowsAddress_def split: option.splits if_splits)

text \<open>
  C18. A request that reaches an upstream through the table built from kanead's projection reaches the
  service whose expose block was the first to claim its host; its peer satisfies that block's address
  restriction; and when the block asks for authentication, the service's compiled verifier accepted
  the request. A block marked for authentication without valid material forwards nothing.
\<close>

theorem forwarded_as_desired:
  assumes "sn_Routes snap = buildRoutes baseDomain w vips" and "NewTable snap = Some t"
    and "px_table p = t" and "ServeHTTP C p r now = (p', Forwarded c r')"
  shows "\<exists>d e kept.
    map_of (claims baseDomain vips (sortedDesired (w_Desired w))) (NormalizeHost (NormalizeHost (rq_Host r))) = Some (d, e) \<and>
    c_Route c = route_for d e (vip_of vips d) kept \<and> r' = r \<and> rq_Method r \<noteq> ''CONNECT'' \<and>
    (\<forall>ip. ex_IPRestriction e = Some ip \<longrightarrow> address_permitted ip (peerAddr r)) \<and>
    (ex_Auth e \<noteq> None \<longrightarrow>
       (\<exists>entry. map_of (px_auth p) (d_key d) = Some entry \<and> \<not> ca_invalid entry \<and> snd (verify C entry r now)))"
proof -
  obtain route where m: "rq_Method r \<noteq> ''CONNECT''" and l: "lookup t (NormalizeHost (rq_Host r)) = Some route"
    and s: "serveRoute C p r route '''' now = (p', Forwarded c r')"
    using assms(3,4) by (auto simp: ServeHTTP_def split: if_splits option.splits)
  note f = serveRoute_forwards [OF s]
  obtain d e kept where cl: "map_of (claims baseDomain vips (sortedDesired (w_Desired w)))
        (NormalizeHost (NormalizeHost (rq_Host r))) = Some (d, e)"
    and co: "compile (route_for d e (vip_of vips d) kept) = Some route"
    using lookup_claim [OF assms(1,2), of "NormalizeHost (rq_Host r)"] l by (auto split: option.splits)
  have rt: "c_Route route = route_for d e (vip_of vips d) kept" by (rule compile_fields(1) [OF co])
  have "route_Name (c_Route route) = d_key d" by (simp add: rt route_Name_def route_for_def service_key_def)
  moreover have "rt_AuthRequired (c_Route route) = (ex_Auth e \<noteq> None)" by (simp add: rt route_for_def)
  moreover have "address_permitted ip (peerAddr r)" if "ex_IPRestriction e = Some ip" for ip
    using allowsAddress_permitted [OF co _ conjunct1 [OF conjunct2 [OF conjunct2 [OF f]]]] that by (simp add: route_for_def)
  ultimately show ?thesis using cl rt f m by auto
qed

text \<open>
  An address with a zone is in no prefix, so a route without an allow list admits every zoned peer,
  whatever it denies: a link-local IPv6 client is not stopped by a rule for its network.
\<close>

lemma zoned_peers_escape_deny:
  assumes "zone \<noteq> []" and "c_allow c = []"
  shows "allowsAddress c (Some (Addr6 a zone))"
  using assms by (simp add: allowsAddress_def)

section \<open>Identity headers\<close>

lemma lower_upper [simp]: "lower_char (upper_char c) = lower_char c"
proof -
  have "of_char (char_of (n - 32) :: char) = n - 32" if "97 \<le> n" "n \<le> 122" for n :: nat using that by simp
  moreover have "char_of (of_char c :: nat) = c" by simp
  ultimately show ?thesis
    by (auto simp: lower_char_def upper_char_def Let_def)
qed

lemma lower_lower [simp]: "lower_char (lower_char c) = lower_char c"
  by (auto simp: lower_char_def Let_def)

lemma ToLower_mime: "ToLower (mime_case up s) = ToLower s"
  by (induction up s rule: mime_case.induct) (auto simp: ToLower_def)

lemma ToLower_Canonical: "ToLower (CanonicalMIMEHeaderKey s) = ToLower s"
  by (simp add: CanonicalMIMEHeaderKey_def ToLower_mime)

lemma canonicalHeaderName_not_owned:
  assumes "canonicalHeaderName name = Some key" and "owned \<in> set forwardedHeaders"
  shows "ToLower key \<noteq> ToLower owned"
  using assms by (auto simp: canonicalHeaderName_def Let_def EqualFold_def split: if_splits)

lemma all_some_Some: "all_some xs = Some ys \<Longrightarrow> y \<in> set ys \<Longrightarrow> Some y \<in> set xs"
  by (induction xs arbitrary: ys rule: all_some.induct) auto

lemma canonicalNames_not_owned:
  assumes "canonicalNames names = Some ks" and "k \<in> set ks" and "owned \<in> set forwardedHeaders"
  shows "ToLower k \<noteq> ToLower owned"
  using all_some_Some [of "map canonicalHeaderName names" ks k] assms canonicalHeaderName_not_owned
  by (auto simp: canonicalNames_def)

lemma set_alist_update: "set (AList.update k v m) \<subseteq> insert (k, v) (set m)"
  by (induction m) auto

lemma canonicalHeaders_not_owned:
  assumes "canonicalHeaders out m = Some ks" and "owned \<in> set forwardedHeaders"
    and "\<forall>(k, v)\<in>set out. ToLower k \<noteq> ToLower owned"
  shows "\<forall>(k, v)\<in>set ks. ToLower k \<noteq> ToLower owned"
  using assms
proof (induction out m rule: canonicalHeaders.induct)
  case (2 out name v m)
  then obtain c where c: "canonicalHeaderName name = Some c" "canonicalHeaders (AList.update c v out) m = Some ks"
    by (auto split: option.splits)
  have "\<forall>(k, v)\<in>set (AList.update c v out). ToLower k \<noteq> ToLower owned"
    using 2 canonicalHeaderName_not_owned [OF c(1)] set_alist_update [of c v out] by (fastforce dest: subsetD)
  with 2 c show ?case by auto
qed simp

lemma compile_not_owned:
  assumes "compile rt = Some c" and "owned \<in> set forwardedHeaders"
  shows "\<forall>k\<in>set (c_requestRemove c). ToLower k \<noteq> ToLower owned"
    and "\<forall>(k, v)\<in>set (c_requestSet c). ToLower k \<noteq> ToLower owned"
proof -
  have "(rt_Headers rt = None \<and> c_requestRemove c = [] \<and> c_requestSet c = []) \<or>
    (\<exists>h. rt_Headers rt = Some h \<and> canonicalHeaders [] (hdr_RequestSet h) = Some (c_requestSet c) \<and>
         canonicalNames (hdr_RequestRemove h) = Some (c_requestRemove c))"
    using assms(1)
    by (auto simp: compile_def compile_ip_def compile_limit_def compile_headers_def Let_def
        split: option.splits prod.splits)
  then show "\<forall>k\<in>set (c_requestRemove c). ToLower k \<noteq> ToLower owned"
    "\<forall>(k, v)\<in>set (c_requestSet c). ToLower k \<noteq> ToLower owned"
    using canonicalNames_not_owned canonicalHeaders_not_owned [OF _ assms(2)] assms(2) by fastforce+
qed

text \<open>A route's transforms do not touch a header whose name they may not use.\<close>

lemma apply_headers_other:
  assumes "\<forall>k\<in>set remove. ToLower k \<noteq> ToLower h" and "\<forall>(k, v)\<in>set sets. ToLower k \<noteq> ToLower h"
  shows "apply_headers remove sets f h = f h"
proof -
  have ne: "CanonicalMIMEHeaderKey k \<noteq> h" if "ToLower k \<noteq> ToLower h" for k
    using that ToLower_Canonical [of k] by auto
  have "fold (\<lambda>name h. Header_Del h name) remove f h = f h"
    using assms(1) by (induction remove arbitrary: f) (auto simp: Header_Del_def dest!: ne)
  moreover have "fold (\<lambda>(name, value) h. Header_Set h name value) sets g h = g h" for g
    using assms(2) by (induction sets arbitrary: g) (auto simp: Header_Set_def dest!: ne)
  ultimately show ?thesis by (simp add: apply_headers_def)
qed


definition identity_headers :: "string list" where
  "identity_headers = [''Forwarded'', ''X-Forwarded-For'', ''X-Forwarded-Host'', ''X-Forwarded-Port'',
     ''X-Forwarded-Proto'', ''X-Forwarded-Server'', ''X-Forwarded-Ssl'', ''X-Original-Forwarded-For'', ''X-Real-Ip'']"

lemma canonical_owned: "map CanonicalMIMEHeaderKey forwardedHeaders = identity_headers"
  by (simp add: forwardedHeaders_def identity_headers_def CanonicalMIMEHeaderKey_def validHeaderFieldByte_def
      is_digit_def is_lower_def is_upper_def upper_char_def lower_char_def Let_def char_of_def bit_0)

lemma canonical_identity: "h \<in> set identity_headers \<Longrightarrow> CanonicalMIMEHeaderKey h = h"
  by (auto simp: identity_headers_def CanonicalMIMEHeaderKey_def validHeaderFieldByte_def
      is_digit_def is_lower_def is_upper_def upper_char_def lower_char_def Let_def char_of_def bit_0)

lemma identity_owned: "h \<in> set identity_headers \<Longrightarrow> \<exists>owned\<in>set forwardedHeaders. ToLower owned = ToLower h"
  by (metis (no_types, lifting) ToLower_Canonical canonical_owned imageE list.set_map)

lemma fold_Header_Del:
  "fold (\<lambda>name h. Header_Del h name) names f h =
   (if h \<in> set (map CanonicalMIMEHeaderKey names) then [] else f h)"
  by (induction names arbitrary: f) (auto simp: Header_Del_def)

text \<open>
  C21. The headers a service reads the client's identity from are the edge's own statement about the
  connection: nothing the client sends under those names survives, and no header rule of the route can
  put something else there.
\<close>

theorem client_identity_is_not_forged:
  assumes "compile rt = Some c" and "out = rewrite_headers c r"
  shows "out ''X-Forwarded-For'' = (case SplitHostPort (rq_RemoteAddr r) of Some (ip, _) \<Rightarrow> [ip] | None \<Rightarrow> []) \<and>
    out ''X-Forwarded-Host'' = [rq_Host r] \<and>
    out ''X-Forwarded-Proto'' = [if rq_TLS r then ''https'' else ''http''] \<and>
    out ''X-Forwarded-Port'' = [case SplitHostPort (rq_Host r) of
       Some (_, port) \<Rightarrow> if port \<noteq> '''' then port else schemePort r | None \<Rightarrow> schemePort r] \<and>
    (\<forall>h\<in>{''Forwarded'', ''X-Forwarded-Server'', ''X-Forwarded-Ssl'', ''X-Original-Forwarded-For'', ''X-Real-Ip''}.
       out h = [])"
proof -
  define g where "g = fold (\<lambda>name h. Header_Del h name) forwardedHeaders (rq_Header r)"
  define base where "base = Header_Set (SetXForwarded r g)
     ''X-Forwarded-Port''
     (case SplitHostPort (rq_Host r) of Some (_, port) \<Rightarrow> if port \<noteq> '''' then port else schemePort r | None \<Rightarrow> schemePort r)"
  have keep: "out h = base h" if h: "h \<in> set identity_headers" for h
  proof -
    obtain owned where o: "owned \<in> set forwardedHeaders" "ToLower owned = ToLower h" using identity_owned [OF h] by blast
    show ?thesis
      unfolding assms(2) rewrite_headers_def Let_def base_def g_def applyRequestHeaders_def
      by (rule apply_headers_other) (use compile_not_owned [OF assms(1) o(1)] o(2) in simp_all)
  qed
  have can: "CanonicalMIMEHeaderKey ''X-Forwarded-For'' = ''X-Forwarded-For''"
    "CanonicalMIMEHeaderKey ''X-Forwarded-Host'' = ''X-Forwarded-Host''"
    "CanonicalMIMEHeaderKey ''X-Forwarded-Proto'' = ''X-Forwarded-Proto''"
    "CanonicalMIMEHeaderKey ''X-Forwarded-Port'' = ''X-Forwarded-Port''"
    by (rule canonical_identity, simp add: identity_headers_def)+
  have del: "g h = (if h \<in> set identity_headers then [] else rq_Header r h)" for h
    unfolding g_def fold_Header_Del canonical_owned ..
  have base: "base ''X-Forwarded-For'' = (case SplitHostPort (rq_RemoteAddr r) of Some (ip, _) \<Rightarrow> [ip] | None \<Rightarrow> [])"
    "base ''X-Forwarded-Host'' = [rq_Host r]"
    "base ''X-Forwarded-Proto'' = [if rq_TLS r then ''https'' else ''http'']"
    "base ''X-Forwarded-Port'' = [case SplitHostPort (rq_Host r) of
       Some (_, port) \<Rightarrow> if port \<noteq> '''' then port else schemePort r | None \<Rightarrow> schemePort r]"
    "\<forall>h\<in>{''Forwarded'', ''X-Forwarded-Server'', ''X-Forwarded-Ssl'', ''X-Original-Forwarded-For'', ''X-Real-Ip''}. base h = []"
    by (simp_all add: base_def SetXForwarded_def Header_Set_def Header_Del_def can del Let_def identity_headers_def
        split: option.splits)
  have "\<forall>h\<in>set identity_headers. out h = base h" using keep by blast
  then show ?thesis unfolding identity_headers_def using base by simp
qed

section \<open>Two limits on one service\<close>

text \<open>A sequence of requests, and requests that are limited under one key.\<close>

fun serve_all :: "Crypto \<Rightarrow> Proxy \<Rightarrow> (Request \<times> time) list \<Rightarrow> outcome list" where
  "serve_all C p [] = []"
| "serve_all C p ((r, now) # rs) = (case ServeHTTP C p r now of (p', x) \<Rightarrow> x # serve_all C p' rs)"

definition limited_as :: "Table \<Rightarrow> string \<Rightarrow> Request \<Rightarrow> limit_spec \<Rightarrow> compiled \<Rightarrow> bool" where
  "limited_as t key r s c \<longleftrightarrow>
     rq_Method r \<noteq> ''CONNECT'' \<and> NormalizeHost (rq_Host r) \<noteq> '''' \<and>
     lookup t (NormalizeHost (rq_Host r)) = Some c \<and> c_limit c = Some s \<and> spec_Valid s \<and>
     rateKey c r (peerAddr r) \<noteq> '''' \<and> rate_bucket (route_Name (c_Route c)) '''' (rateKey c r (peerAddr r)) = key \<and>
     allowsAddress c (peerAddr r) \<and> \<not> rt_AuthRequired (c_Route c)"

text \<open>
  C26. The buckets are named by service and client, not by route. A service whose expose blocks carry
  different limits shares one bucket between them, and each request under the other limit starts the
  bucket again: a client that alternates between the two hosts is never refused.
\<close>

theorem alternating_hosts_evade_the_limit:
  assumes "limiter_ok (px_limits p)" and "fits (px_limits p) key"
    and "list_all2 (\<lambda>(r, now) (s, c). limited_as (px_table p) key r s c) rs scs"
    and "alternates (map_option bk_spec (bucket_of (lm_order (px_limits p)) key)) (zip (map fst scs) (map snd rs))"
  shows "serve_all C p rs = map (\<lambda>((r, now), (s, c)). Forwarded c r) (zip rs scs)"
  using assms
proof (induction rs arbitrary: p scs)
  case (Cons x rs)
  obtain r now where x: "x = (r, now)" by (cases x)
  obtain s c scs' where scs: "scs = (s, c) # scs'" using Cons.prems(3) by (auto simp: list_all2_Cons1)
  have lim: "limited_as (px_table p) key r s c"
    and rest: "list_all2 (\<lambda>(r, now) (s, c). limited_as (px_table p) key r s c) rs scs'"
    using Cons.prems(3) by (simp_all add: x scs)
  then have v: "spec_Valid s" by (simp add: limited_as_def)
  let ?l = "fst (limiter_Allow (px_limits p) key s now)"
  have alt: "map_option bk_spec (bucket_of (lm_order (px_limits p)) key) \<noteq> Some s"
    "alternates (Some s) (zip (map fst scs') (map snd rs))"
    using Cons.prems(4) by (simp_all add: x scs)
  note one = alternating_step [OF Cons.prems(1,2) v alt(1), where t = now]
  have "ServeHTTP C p r now = (p\<lparr>px_limits := ?l\<rparr>, Forwarded c r)"
    using lim one(1)
    by (cases "limiter_Allow (px_limits p) key s now")
       (auto simp: limited_as_def ServeHTTP_def serveRoute_def withinRateLimit_def Let_def)
  moreover have "serve_all C (p\<lparr>px_limits := ?l\<rparr>) rs = map (\<lambda>((r, now), (s, c)). Forwarded c r) (zip rs scs')"
    using Cons.IH [of "p\<lparr>px_limits := ?l\<rparr>" scs'] one(2-4) rest alt(2) by simp
  ultimately show ?case by (simp add: x scs)
qed simp

end
