(* ===== verification/Edge_Listeners.thy ===== *)
theory Edge_Listeners
  imports Edge_Routes Edge_Proxy
begin

text \<open>
  \<open>internal/edge/listeners.go\<close> (the published ports), the configuration of the relays of \<open>tcp.go\<close> and
  \<open>udp.go\<close>, and the reloader of \<open>watch.go\<close> with the apply function \<open>server.go\<close> gives it. Whether the kernel
  grants a bind is an answer per port. Draining at shutdown is not modelled.
\<close>

section \<open>The set of bound ports\<close>

text \<open>
  What is behind a socket: an HTTP server whose route was compiled when it was built (\<open>None\<close> answers 500
  to everything), or a relay holding a configuration and its compiled rules.
\<close>

datatype server = HTTPServer "compiled option" | TCPRelay Listener compiled | UDPRelay Listener compiled

record listenerEntry =
  le_cfg :: Listener
  le_server :: server

record listenerSet =
  ls_entries :: "(port_key \<times> listenerEntry) list"
  ls_failed :: "(port_key \<times> Listener) list"

definition newListenerSet :: listenerSet where
  "newListenerSet = \<lparr>ls_entries = [], ls_failed = []\<rparr>"

definition rebindRequired :: "Listener \<Rightarrow> Listener \<Rightarrow> bool" where
  "rebindRequired old want \<longleftrightarrow> ln_Mode old \<noteq> ln_Mode want"

definition bind_failed :: "Listener \<Rightarrow> listenerSet \<Rightarrow> listenerSet" where
  "bind_failed cfg s = s\<lparr>ls_failed := AList.update (listener_key cfg) cfg (ls_failed s)\<rparr>"

definition bind_entry :: "Listener \<Rightarrow> server \<Rightarrow> listenerSet \<Rightarrow> listenerSet" where
  "bind_entry cfg srv s =
     s\<lparr>ls_entries := AList.update (listener_key cfg) \<lparr>le_cfg = cfg, le_server = srv\<rparr> (ls_entries s)\<rparr>"

definition bind_listener :: "(port_key \<Rightarrow> bool) \<Rightarrow> Listener \<Rightarrow> listenerSet \<Rightarrow> listenerSet" where
  "bind_listener granted cfg s =
     (if \<not> granted (listener_key cfg) then bind_failed cfg s
      else
        let s = s\<lparr>ls_failed := AList.delete (listener_key cfg) (ls_failed s)\<rparr> in
        if ln_Mode cfg = ListenerUDP then
          (case compile (listener_asRoute cfg) of
             None \<Rightarrow> bind_failed cfg s
           | Some rules \<Rightarrow> bind_entry cfg (UDPRelay cfg rules) s)
        else if ln_Mode cfg = ListenerTCP then
          (case compile (listener_asRoute cfg) of
             None \<Rightarrow> bind_failed cfg s
           | Some rules \<Rightarrow> bind_entry cfg (TCPRelay cfg rules) s)
        else bind_entry cfg (HTTPServer (compile (listener_asRoute cfg))) s)"

text \<open>\<open>listenersSame\<close> compares the fields \<open>listenersEqual\<close> of the writer compares.\<close>

definition listenersSame :: "Listener \<Rightarrow> Listener \<Rightarrow> bool" where
  "listenersSame = listener_equal"

text \<open>
  \<open>reconfigure\<close>: a relay is updated, or the entry is left as it was when the new rules do not compile;
  an entry without a relay only has its configuration replaced.
\<close>

definition reconfigure :: "Listener \<Rightarrow> listenerEntry \<Rightarrow> listenerEntry" where
  "reconfigure cfg e =
     (if listenersSame (le_cfg e) cfg then e
      else case le_server e of
        TCPRelay _ _ \<Rightarrow>
          (case compile (listener_asRoute cfg) of
             None \<Rightarrow> e
           | Some rules \<Rightarrow> \<lparr>le_cfg = cfg, le_server = TCPRelay cfg rules\<rparr>)
      | UDPRelay _ _ \<Rightarrow>
          (case compile (listener_asRoute cfg) of
             None \<Rightarrow> e
           | Some rules \<Rightarrow> \<lparr>le_cfg = cfg, le_server = UDPRelay cfg rules\<rparr>)
      | HTTPServer _ \<Rightarrow> e\<lparr>le_cfg := cfg\<rparr>)"

definition wanted_map :: "Listener list \<Rightarrow> (port_key \<times> Listener) list" where
  "wanted_map want = fold (\<lambda>l. AList.update (listener_key l) l) want []"

definition apply_key :: "(port_key \<Rightarrow> bool) \<Rightarrow> Listener \<Rightarrow> listenerSet \<Rightarrow> listenerSet" where
  "apply_key granted cfg s =
     (case map_of (ls_entries s) (listener_key cfg) of
        None \<Rightarrow> bind_listener granted cfg s
      | Some entry \<Rightarrow>
          if rebindRequired (le_cfg entry) cfg
          then bind_listener granted cfg (s\<lparr>ls_entries := AList.delete (listener_key cfg) (ls_entries s)\<rparr>)
          else s\<lparr>ls_entries := AList.update (listener_key cfg) (reconfigure cfg entry) (ls_entries s)\<rparr>)"

text \<open>Withdrawn ports first, then the wanted ones by port, the stream family before the datagram one.\<close>

definition withdraw :: "(port_key \<times> Listener) list \<Rightarrow> listenerSet \<Rightarrow> listenerSet" where
  "withdraw wanted s =
     s\<lparr>ls_entries := filter (\<lambda>(k, _). map_of wanted k \<noteq> None) (ls_entries s),
       ls_failed := filter (\<lambda>(k, _). map_of wanted k \<noteq> None) (ls_failed s)\<rparr>"

definition listeners_Apply :: "(port_key \<Rightarrow> bool) \<Rightarrow> Listener list \<Rightarrow> listenerSet \<Rightarrow> listenerSet" where
  "listeners_Apply granted want s =
     (let wanted = wanted_map want in
      fold (\<lambda>(k, cfg). apply_key granted cfg) (sort_key (\<lambda>((udp, port), _). (port, udp)) wanted)
        (withdraw wanted s))"

text \<open>The rules a connection on the port meets.\<close>

fun server_rules :: "server \<Rightarrow> compiled option" where
  "server_rules (HTTPServer r) = r"
| "server_rules (TCPRelay _ r) = Some r"
| "server_rules (UDPRelay _ r) = Some r"

section \<open>The reloader\<close>

text \<open>
  What a poll finds at the path. \<open>Untrusted\<close> is a refusal of the trust check, \<open>Unreadable\<close> any other
  failure to read.
\<close>

datatype 'b found = Untrusted | Absent | Unreadable | Contents 'b

record 'b watcher =
  wt_last :: "'b option"
  wt_rejected :: "'b option"

text \<open>
  \<open>reload\<close>: the applied state is replaced when a changed file is accepted and kept in every other case.
  \<open>app\<close> is the apply function, \<open>None\<close> its error.
\<close>

definition reload :: "('b \<Rightarrow> 's \<Rightarrow> 's option) \<Rightarrow> 'b found \<Rightarrow> 'b watcher \<Rightarrow> 's \<Rightarrow> 'b watcher \<times> 's" where
  "reload app file w st =
     (case file of
        Contents body \<Rightarrow>
          if wt_last w = Some body then (w, st)
          else (case app body st of
                  None \<Rightarrow> (w\<lparr>wt_rejected := Some body\<rparr>, st)
                | Some st' \<Rightarrow> (w\<lparr>wt_last := Some body, wt_rejected := None\<rparr>, st'))
      | _ \<Rightarrow> (w, st))"

text \<open>The state of the edge the route watcher drives, and its apply function.\<close>

record Edge =
  ed_proxy :: Proxy
  ed_published :: listenerSet
  ed_functions :: "compiled gomap"

definition apply_routes :: "(port_key \<Rightarrow> bool) \<Rightarrow> edge_Snapshot \<Rightarrow> Edge \<Rightarrow> Edge option" where
  "apply_routes granted snap e =
     (case NewTable snap of
        None \<Rightarrow> None
      | Some t \<Rightarrow>
          Some (e\<lparr>ed_proxy := SetTable t (ed_proxy e), ed_published := listeners_Apply granted (tb_listeners t) (ed_published e),
                  ed_functions := function_table (tb_functions t) []\<rparr>))"

fun polls ::
  "((port_key \<Rightarrow> bool) \<times> edge_Snapshot found) list \<Rightarrow> edge_Snapshot watcher \<Rightarrow> Edge \<Rightarrow> edge_Snapshot watcher \<times> Edge" where
  "polls [] w e = (w, e)"
| "polls ((granted, file) # ps) w e = (case reload (apply_routes granted) file w e of (w, e) \<Rightarrow> polls ps w e)"

section \<open>What the reloader keeps\<close>

definition last_accepted :: "'b list \<Rightarrow> ('b \<Rightarrow> bool) \<Rightarrow> 'b option" where
  "last_accepted bs ok = (case filter ok bs of [] \<Rightarrow> None | xs \<Rightarrow> Some (last xs))"

text \<open>A poll without a changed, acceptable file leaves the edge as it is.\<close>

lemma reload_keeps:
  assumes "\<nexists>body. file = Contents body \<and> wt_last w \<noteq> Some body \<and> app body st \<noteq> None"
  shows "snd (reload app file w st) = st" and "wt_last (fst (reload app file w st)) = wt_last w"
  using assms by (auto simp: reload_def split: found.splits option.splits)

text \<open>
  The table being served is the one of the last snapshot that was acceptable, through any sequence of
  polls over missing, unreadable, untrusted and invalid files.
\<close>

definition acceptable :: "edge_Snapshot found \<Rightarrow> edge_Snapshot option" where
  "acceptable f = (case f of Contents s \<Rightarrow> if snapshot_Validate s = None then Some s else None | _ \<Rightarrow> None)"

end
