(* ===== verification/Edge_Listeners_Facts.thy ===== *)
theory Edge_Listeners_Facts
  imports Edge_Listeners Edge_Routes_Facts
begin

text \<open>
  What applying a snapshot does to the published ports, what the reloader keeps, and two behaviours the
  comments of the code rule out: an HTTP listener never sees an edit of its rules, and a bind that
  failed is not retried until the snapshot changes.
\<close>

section \<open>One port\<close>

definition bound_server :: "Listener \<Rightarrow> server option" where
  "bound_server cfg =
     (if ln_Mode cfg = ListenerUDP then map_option (UDPRelay cfg) (compile (listener_asRoute cfg))
      else if ln_Mode cfg = ListenerTCP then map_option (TCPRelay cfg) (compile (listener_asRoute cfg))
      else Some (HTTPServer (compile (listener_asRoute cfg))))"

definition bound :: "(port_key \<Rightarrow> bool) \<Rightarrow> Listener \<Rightarrow> listenerEntry option" where
  "bound granted cfg =
     (if granted (listener_key cfg) then map_option (\<lambda>srv. \<lparr>le_cfg = cfg, le_server = srv\<rparr>) (bound_server cfg) else None)"

definition entry_after :: "(port_key \<Rightarrow> bool) \<Rightarrow> Listener \<Rightarrow> listenerEntry option \<Rightarrow> listenerEntry option" where
  "entry_after granted cfg old =
     (case old of
        None \<Rightarrow> bound granted cfg
      | Some e \<Rightarrow> if rebindRequired (le_cfg e) cfg then bound granted cfg else Some (reconfigure cfg e))"

lemma bind_listener_entries:
  assumes "map_of (ls_entries s) (listener_key cfg) = None"
  shows "map_of (ls_entries (bind_listener granted cfg s)) k =
    (if k = listener_key cfg then bound granted cfg else map_of (ls_entries s) k)"
  using assms
  by (auto simp: bind_listener_def bound_def bound_server_def bind_failed_def bind_entry_def Let_def update_conv'
      split: option.splits)

lemma apply_key_entries:
  "map_of (ls_entries (apply_key granted cfg s)) k =
    (if k = listener_key cfg then entry_after granted cfg (map_of (ls_entries s) k) else map_of (ls_entries s) k)"
proof (cases "map_of (ls_entries s) (listener_key cfg)")
  case None
  then show ?thesis by (auto simp: apply_key_def entry_after_def bind_listener_entries)
next
  case (Some e)
  let ?d = "s\<lparr>ls_entries := AList.delete (listener_key cfg) (ls_entries s)\<rparr>"
  have "map_of (ls_entries ?d) (listener_key cfg) = None" by (simp add: delete_conv')
  note b = bind_listener_entries [OF this, of granted k]
  show ?thesis
  proof (cases "rebindRequired (le_cfg e) cfg")
    case True
    then show ?thesis using b Some by (simp add: apply_key_def entry_after_def delete_conv')
  next
    case False
    then show ?thesis using Some by (simp add: apply_key_def entry_after_def update_conv')
  qed
qed

lemma fold_apply_key:
  assumes "distinct (map fst cs)" and "\<forall>(k, cfg)\<in>set cs. listener_key cfg = k"
  shows "map_of (ls_entries (fold (\<lambda>(k, cfg). apply_key granted cfg) cs s)) k =
    (case map_of cs k of None \<Rightarrow> map_of (ls_entries s) k
     | Some cfg \<Rightarrow> entry_after granted cfg (map_of (ls_entries s) k))"
  using assms
proof (induction cs arbitrary: s)
  case (Cons x cs)
  obtain k' cfg where x: "x = (k', cfg)" by (cases x)
  have k': "listener_key cfg = k'" using Cons.prems(2) by (simp add: x)
  have "map_of cs k' = None" using Cons.prems(1) by (simp add: x map_of_eq_None_iff)
  then show ?case using Cons by (auto simp: x k' apply_key_entries split: option.splits)
qed simp

lemma wanted_map_of: "map_of (wanted_map want) k = find (\<lambda>l. listener_key l = k) (rev want)"
proof -
  have "map_of (fold (\<lambda>l. AList.update (listener_key l) l) want m) k =
    (case find (\<lambda>l. listener_key l = k) (rev want) of Some l \<Rightarrow> Some l | None \<Rightarrow> map_of m k)" for m
  proof (induction want arbitrary: m)
    case (Cons l want)
    have "find P (xs @ ys) = (case find P xs of Some x \<Rightarrow> Some x | None \<Rightarrow> find P ys)" for P and xs ys :: "Listener list"
      by (induction xs) auto
    then show ?case using Cons by (auto simp: update_conv' split: option.splits)
  qed simp
  then show ?thesis by (auto simp: wanted_map_def split: option.splits)
qed

lemma wanted_map_wf: "distinct (map fst (wanted_map want)) \<and> (\<forall>(k, cfg)\<in>set (wanted_map want). listener_key cfg = k)"
proof -
  have "distinct (map fst m) \<Longrightarrow> \<forall>(k, cfg)\<in>set m. listener_key cfg = k \<Longrightarrow>
      distinct (map fst (fold (\<lambda>l. AList.update (listener_key l) l) want m)) \<and>
      (\<forall>(k, cfg)\<in>set (fold (\<lambda>l. AList.update (listener_key l) l) want m). listener_key cfg = k)" for m
  proof (induction want arbitrary: m)
    case (Cons l want)
    have "set (AList.update (listener_key l) l m) \<subseteq> insert (listener_key l, l) (set m)" by (induction m) auto
    then have "\<forall>(k, cfg)\<in>set (AList.update (listener_key l) l m). listener_key cfg = k" using Cons.prems(2) by auto
    from Cons.IH [OF distinct_update [OF Cons.prems(1)] this] show ?case by simp
  qed simp
  from this [of "[]"] show ?thesis by (simp add: wanted_map_def)
qed

text \<open>After a snapshot is applied, each port is what its wanted configuration makes of what it was.\<close>

lemma Apply_entries:
  "map_of (ls_entries (listeners_Apply granted want s)) k =
    (case map_of (wanted_map want) k of None \<Rightarrow> None
     | Some cfg \<Rightarrow> entry_after granted cfg (map_of (ls_entries s) k))"
proof -
  let ?w = "wanted_map want"
  let ?cs = "sort_key (\<lambda>((udp, port), _). (port, udp)) ?w"
  have d: "distinct (map fst ?cs)"
    by (metis (no_types) wanted_map_wf mset_map mset_sort mset_eq_imp_distinct_iff)
  have c: "\<forall>(k, cfg)\<in>set ?cs. listener_key cfg = k" using wanted_map_wf [of want] by simp
  have m: "map_of ?cs = map_of ?w" using d wanted_map_wf [of want] by (intro map_of_inject_set [THEN iffD2]) simp_all
  have f: "map_of (filter (\<lambda>(k, _). P k) xs) k = (if P k then map_of xs k else None)" for P and xs :: "(port_key \<times> listenerEntry) list"
    by (induction xs) auto
  show ?thesis
    unfolding listeners_Apply_def Let_def fold_apply_key [OF d c] m
    by (simp add: withdraw_def f split: option.splits)
qed

section \<open>Relays follow the snapshot\<close>

text \<open>An entry of a relay serves the rules of the configuration it reports.\<close>

definition entry_in_step :: "listenerEntry \<Rightarrow> bool" where
  "entry_in_step e \<longleftrightarrow>
     (case le_server e of
        HTTPServer _ \<Rightarrow> ln_Mode (le_cfg e) = ListenerHTTP
      | TCPRelay l r \<Rightarrow> l = le_cfg e \<and> ln_Mode l = ListenerTCP \<and> ln_Headers l = None \<and> compile (listener_asRoute l) = Some r
      | UDPRelay l r \<Rightarrow> l = le_cfg e \<and> ln_Mode l = ListenerUDP \<and> ln_Headers l = None \<and> compile (listener_asRoute l) = Some r)"

lemma listenersSame_eq:
  "listenersSame l l' \<Longrightarrow> ln_Headers l = None \<Longrightarrow> l = l'"
  by (cases l; cases l') (auto simp: listenersSame_def listener_equal_def headers_equal_def split: option.splits)

lemma bound_in_step:
  assumes "listener_valid cfg" and "bound granted cfg = Some e"
  shows "entry_in_step e \<and> le_cfg e = cfg \<and> granted (listener_key cfg)"
  using assms
  by (auto simp: bound_def bound_server_def entry_in_step_def listener_valid_def split: if_splits)

lemma bound_total: "listener_valid cfg \<Longrightarrow> granted (listener_key cfg) \<Longrightarrow> bound granted cfg \<noteq> None"
  by (auto simp: bound_def bound_server_def listener_valid_def)

lemma reconfigure_in_step:
  assumes "entry_in_step e" and "listener_valid cfg" and "\<not> rebindRequired (le_cfg e) cfg" and "ln_Mode cfg \<noteq> ListenerHTTP"
  shows "entry_in_step (reconfigure cfg e) \<and> le_cfg (reconfigure cfg e) = cfg"
proof -
  have h: "ln_Headers cfg = None" "compile (listener_asRoute cfg) \<noteq> None" using assms(2,4) by (auto simp: listener_valid_def)
  show ?thesis
  proof (cases "listenersSame (le_cfg e) cfg")
    case True
    have "ln_Headers (le_cfg e) = None" using assms(1,3,4) by (auto simp: entry_in_step_def rebindRequired_def split: server.splits)
    then have "le_cfg e = cfg" by (rule listenersSame_eq [OF True])
    then show ?thesis using True assms(1) by (simp add: reconfigure_def)
  next
    case False
    then show ?thesis
      using assms h by (auto simp: reconfigure_def entry_in_step_def rebindRequired_def split: server.splits)
  qed
qed

text \<open>
  C24. After a valid snapshot is applied a relay port is bound exactly when it is wanted and was bound in
  that mode or its bind was granted, and it then serves the rules of the configuration the snapshot
  has for it: an edit of an upstream, a backend, an address rule or a limit reaches it without a rebind.
\<close>

theorem relays_follow_the_snapshot:
  assumes "\<forall>(k, e)\<in>set (ls_entries s). entry_in_step e" and "\<forall>l\<in>set want. listener_valid l"
    and "distinct (map listener_key want)" and "cfg \<in> set want" and "ln_Mode cfg \<noteq> ListenerHTTP"
  shows "case map_of (ls_entries (listeners_Apply granted want s)) (listener_key cfg) of
     None \<Rightarrow> \<not> granted (listener_key cfg)
   | Some e \<Rightarrow> le_cfg e = cfg \<and> server_rules (le_server e) = compile (listener_asRoute cfg) \<and>
       (granted (listener_key cfg) \<or>
        (\<exists>old. map_of (ls_entries s) (listener_key cfg) = Some old \<and> ln_Mode (le_cfg old) = ln_Mode cfg))"
proof -
  let ?k = "listener_key cfg"
  have w: "map_of (wanted_map want) ?k = Some cfg"
  proof -
    have "l = cfg" if found: "find (\<lambda>l. listener_key l = ?k) (rev want) = Some l" for l
    proof -
      obtain i where i: "i < length (rev want)" "listener_key (rev want ! i) = ?k" "l = rev want ! i"
        using found unfolding find_Some_iff by blast
      then have k: "listener_key l = ?k" by simp
      have "l \<in> set (rev want)" unfolding i(3) by (rule nth_mem [OF i(1)])
      then have m: "l \<in> set want" by simp
      have "inj_on listener_key (set want)" using assms(3) by (simp add: distinct_map)
      then show ?thesis using k m assms(4) by (rule inj_onD)
    qed
    moreover have "find (\<lambda>l. listener_key l = ?k) (rev want) \<noteq> None" using assms(4) by (auto simp: find_None_iff)
    ultimately show ?thesis unfolding wanted_map_of by auto
  qed
  have v: "listener_valid cfg" using assms(2,4) by blast
  have step: "server_rules (le_server e) = compile (listener_asRoute cfg)" if "entry_in_step e" "le_cfg e = cfg" for e
    using that assms(5) by (auto simp: entry_in_step_def split: server.splits)
  have after: "map_of (ls_entries (listeners_Apply granted want s)) ?k = entry_after granted cfg (map_of (ls_entries s) ?k)"
    by (simp add: Apply_entries w)
  show ?thesis
  proof (cases "\<exists>old. map_of (ls_entries s) ?k = Some old \<and> \<not> rebindRequired (le_cfg old) cfg")
    case True
    then obtain old where o: "map_of (ls_entries s) ?k = Some old" "\<not> rebindRequired (le_cfg old) cfg" by blast
    then have "entry_in_step old" using assms(1) by (auto dest: map_of_SomeD)
    note r = reconfigure_in_step [OF this v o(2) assms(5)]
    show ?thesis
      unfolding after using o r step [of "reconfigure cfg old"] by (simp add: entry_after_def rebindRequired_def)
  next
    case False
    then have b: "entry_after granted cfg (map_of (ls_entries s) ?k) = bound granted cfg"
      by (auto simp: entry_after_def split: option.split)
    show ?thesis
    proof (cases "bound granted cfg")
      case None
      then have "\<not> granted ?k" using bound_total [OF v] by blast
      with None show ?thesis unfolding after b by simp
    next
      case (Some e)
      note r = bound_in_step [OF v Some]
      show ?thesis unfolding after b Some using r step [of e] by simp
    qed
  qed
qed

section \<open>HTTP listeners do not\<close>

text \<open>
  An HTTP listener that stays on its port keeps the server it was bound with: whatever the new
  configuration says about the upstream, the address rules, the rate limit or the headers, requests
  are still served under the old route, while the reported configuration is the new one.
\<close>

theorem http_listener_keeps_its_first_rules:
  assumes "map_of (ls_entries s) k = Some e" and "le_server e = HTTPServer r"
    and "map_of (wanted_map want) k = Some cfg" and "ln_Mode (le_cfg e) = ln_Mode cfg"
  shows "\<exists>e'. map_of (ls_entries (listeners_Apply granted want s)) k = Some e' \<and> le_server e' = HTTPServer r \<and>
      (\<not> listenersSame (le_cfg e) cfg \<longrightarrow> le_cfg e' = cfg)"
  using assms by (auto simp: Apply_entries entry_after_def rebindRequired_def reconfigure_def)

section \<open>What the reloader keeps\<close>

definition last_good :: "edge_Snapshot found list \<Rightarrow> edge_Snapshot option" where
  "last_good fs = fold (\<lambda>f g. case acceptable f of Some s \<Rightarrow> Some s | None \<Rightarrow> g) fs None"

lemma last_good_append [simp]:
  "last_good (fs @ [f]) = (case acceptable f of Some s \<Rightarrow> Some s | None \<Rightarrow> last_good fs)"
  by (simp add: last_good_def split: option.splits)

lemma polls_append:
  "polls (ps @ qs) w e = (case polls ps w e of (w, e) \<Rightarrow> polls qs w e)"
  by (induction ps w e rule: polls.induct) (auto split: prod.splits)

text \<open>
  C25. Through any sequence of polls, over missing, unreadable, untrusted and invalid files, and whichever
  binds are refused, the table that is served is the one of the last acceptable snapshot.
\<close>

theorem last_good_table_keeps_serving:
  assumes "polls ps \<lparr>wt_last = None, wt_rejected = None\<rparr> e0 = (w, e)"
  shows "px_table (ed_proxy e) =
    (case last_good (map snd ps) of None \<Rightarrow> px_table (ed_proxy e0) | Some s \<Rightarrow> the (NewTable s))"
proof -
  have "wt_last w = last_good (map snd ps) \<and> px_table (ed_proxy e) =
    (case last_good (map snd ps) of None \<Rightarrow> px_table (ed_proxy e0) | Some s \<Rightarrow> the (NewTable s))"
    using assms
  proof (induction ps arbitrary: w e rule: rev_induct)
    case Nil
    then show ?case by (auto simp: last_good_def)
  next
    case (snoc p ps)
    obtain granted fl where p: "p = (granted, fl)" by (cases p)
    obtain w1 e1 where 1: "polls ps \<lparr>wt_last = None, wt_rejected = None\<rparr> e0 = (w1, e1)" by fastforce
    have r: "reload (apply_routes granted) fl w1 e1 = (w, e)"
      using snoc.prems by (auto simp: polls_append 1 p split: prod.splits)
    note IH = snoc.IH [OF 1]
    show ?case
    proof (cases "acceptable fl")
      case None
      have "app body e1 = None" if "fl = Contents body" "app = apply_routes granted" for body app
        using None that by (auto simp: acceptable_def apply_routes_def NewTable_def split: if_splits)
      then have "w = w1 \<or> wt_last w = wt_last w1" "e = e1" using r by (auto simp: reload_def split: found.splits if_splits)
      then show ?thesis using IH None by (auto simp: p)
    next
      case (Some snap)
      then have f: "fl = Contents snap" "snapshot_Validate snap = None"
        by (auto simp: acceptable_def split: found.splits if_splits)
      obtain t where t: "NewTable snap = Some t" using NewTable_total [OF f(2)] by blast
      show ?thesis
      proof (cases "wt_last w1 = Some snap")
        case True
        then show ?thesis using r f IH Some by (auto simp: reload_def p)
      next
        case False
        then show ?thesis using r f t Some by (auto simp: reload_def apply_routes_def SetTable_def p)
      qed
    qed
  qed
  then show ?thesis by simp
qed

text \<open>
  A bind that was refused when the snapshot was loaded stays refused for as long as the file holds
  that snapshot, even if every later poll could bind the port.
\<close>

theorem failed_bind_is_not_retried:
  assumes "wt_last w = Some snap" and "\<forall>(granted, file)\<in>set ps. file = Contents snap"
  shows "polls ps w e = (w, e)"
  using assms
proof (induction ps)
  case (Cons p ps)
  then show ?case by (cases p) (simp add: reload_def)
qed simp

end
