(* ===== verification/Edge_Examples.thy ===== *)
theory Edge_Examples
  imports Edge_Enforcement Edge_Listeners_Facts Planner_Examples
begin

text \<open>
  Concrete records, snapshots and requests for the edge: a service with two expose blocks whose rate
  limits differ, a relay that is edited, a client that forges headers. Each property of the edge and
  of the rate limiter is applied to one of them.
\<close>

section \<open>Fixtures\<close>

lemmas text_eval =
  ToLower_def lower_char_def upper_char_def TrimSpace_def TrimDots_def trim_both_def is_space_def is_digit_def
  Let_def char_of_def bit_0 EqualFold_def SplitHostPort_def cut_last_def

definition ex_limit :: "int \<Rightarrow> RateLimit" where
  "ex_limit n = \<lparr>rl_Requests = n, rl_Window = ''1s'', rl_Per = '''', rl_Burst = 0\<rparr>"

definition ex_expose :: "string \<Rightarrow> int \<Rightarrow> Expose" where
  "ex_expose h n = \<lparr>ex_Domains = [h], ex_Port = 80, ex_TLSMode = '''', ex_TLSName = '''', ex_LetsEncrypt = False,
     ex_Auth = None, ex_IPRestriction = Some \<lparr>ipr_Allow = [], ipr_Deny = [''10.9.9.9'']\<rparr>,
     ex_RateLimit = Some (ex_limit n), ex_Headers = None, ex_Protocol = ''''\<rparr>"

definition ex_shop :: Desired where
  "ex_shop = ex_web\<lparr>d_Expose := Some (ex_expose ''a.b'' 1), d_ExtraExposes := [ex_expose ''c.d'' 2]\<rparr>"

definition ex_edge_world :: World where
  "ex_edge_world = \<lparr>w_Desired = [ex_shop], w_Records = [], w_Actual = [], w_InitActual = [], w_Now = 0, w_Witnessed = {}\<rparr>"

definition ex_vips :: "string gomap" where "ex_vips = [(''shop/web'', ''10.96.0.1'')]"

definition ex_compiled :: "string \<Rightarrow> int \<Rightarrow> compiled" where
  "ex_compiled h n = \<lparr>c_Route = route_for ex_shop (ex_expose h n) ''10.96.0.1'' [h], c_allow = [],
     c_deny = [\<lparr>np_width = 32, np_addr = 168364297, np_bits = 32\<rparr>],
     c_limit = Some \<lparr>ls_Requests = n, ls_Window = second, ls_Burst = 0\<rparr>, c_per = ''ip'',
     c_requestSet = [], c_requestRemove = [], c_responseSet = [], c_responseRemove = []\<rparr>"

lemma ex_parse: "ParseAddr ''10.96.0.1'' = Some (Addr4 174063617)" "ParseAddr ''10.9.9.9'' = Some (Addr4 168364297)"
  "ParseAddr ''10.1.2.3'' = Some (Addr4 167838211)"
  by (simp_all add: ParseAddr_def parseIPv4Fields_def dec_octet_def dec_value_def bytes_value_def text_eval)

lemma ex_duration: "ParseDuration ''1s'' = Some second"
  by (simp add: ParseDuration_def duration_term_def duration_unit_def duration_sum.simps second_def text_eval)

lemma ex_compile:
  assumes "0 < n"
  shows "compile (route_for ex_shop (ex_expose h n) ''10.96.0.1'' [h]) = Some (ex_compiled h n)"
  using assms
  by (simp add: compile_def compile_ip_def compile_limit_def compile_headers_def route_for_def ex_expose_def
      parsePrefixes_def parsePrefix_def ex_parse PrefixFrom_def compileRateLimit_def ex_limit_def ex_duration
      ex_compiled_def RateLimitPerIP_def second_def text_eval)

lemma ex_routes:
  "buildRoutes '''' ex_edge_world ex_vips =
     [route_for ex_shop (ex_expose ''a.b'' 1) ''10.96.0.1'' [''a.b''],
      route_for ex_shop (ex_expose ''c.d'' 2) ''10.96.0.1'' [''c.d'']]"
  by (simp add: buildRoutes_def ex_edge_world_def sortedDesired_def AllExposes_def ex_shop_def ex_web_def zero_desired_def
      vip_of_def ex_vips_def service_key_def tagged_exposes_def EdgeDomainsFor_def ex_expose_def canonicalDomain_def text_eval)

definition ex_snapshot :: edge_Snapshot where
  "ex_snapshot = \<lparr>sn_Index = 7, sn_Routes = buildRoutes '''' ex_edge_world ex_vips, sn_Listeners = [], sn_Functions = []\<rparr>"

definition ex_table :: Table where
  "ex_table = \<lparr>tb_byHost = [(''a.b'', ex_compiled ''a.b'' 1), (''c.d'', ex_compiled ''c.d'' 2)],
     tb_listeners = [], tb_functions = [], tb_index = 7\<rparr>"

lemma ex_route_fields:
  "rt_Project (route_for ex_shop e v ks) = ''shop''" "rt_Service (route_for ex_shop e v ks) = ''web''"
  "rt_Domains (route_for ex_shop e v ks) = ks" "rt_Upstream (route_for ex_shop e v ks) = v"
  "rt_Port (route_for ex_shop (ex_expose h n) v ks) = 80" "rt_Protocol (route_for ex_shop (ex_expose h n) v ks) = ''''"
  "rt_AuthRequired (route_for ex_shop (ex_expose h n) v ks) = False"
  by (simp_all add: route_for_def ex_shop_def ex_web_def zero_desired_def ex_expose_def)

lemma ex_NewTable: "NewTable ex_snapshot = Some ex_table"
proof -
  have "snapshot_Validate ex_snapshot = None"
    by (simp add: snapshot_Validate_def ex_snapshot_def ex_routes validate_route_def ex_route_fields ex_parse port_ok_def
        domain_canonical_def ex_compile text_eval)
  then show ?thesis by (simp add: NewTable_def ex_snapshot_def ex_routes ex_compile ex_route_fields ex_table_def)
qed

definition ex_request :: "string \<Rightarrow> Request" where
  "ex_request h = \<lparr>rq_Method = ''GET'', rq_Host = h, rq_Path = ''/'', rq_RemoteAddr = ''10.1.2.3:5'', rq_TLS = False,
     rq_Header = (\<lambda>_. [])(''X-Forwarded-For'' := [''1.1.1.1''])\<rparr>"

lemma ex_normalize: "NormalizeHost ''a.b'' = ''a.b''" "NormalizeHost ''c.d'' = ''c.d''" "NormalizeHost ''A.b.:80'' = ''a.b''"
  by (simp_all add: NormalizeHost_def cut_byte_def TrimSuffix_def suffix_to_prefix text_eval)

lemma ex_peer: "peerAddr (ex_request h) = Some (Addr4 167838211)"
  by (simp add: peerAddr_def ex_request_def cut_byte_def text_eval ex_parse)

lemma ex_allows: "allowsAddress (ex_compiled h n) (Some (Addr4 167838211))"
  by (simp add: allowsAddress_def ex_compiled_def)

lemma ex_rateKey: "rateKey (ex_compiled h n) (ex_request h') (Some (Addr4 167838211)) = ''a:10.1.2.3''"
  by (simp add: rateKey_def ex_compiled_def RateLimitPerService_def RateLimitPerHeaderPrefix_def string4_def
      udec.simps digit_char_def text_eval)

section \<open>The rate limiter\<close>

definition ex_spec :: "int \<Rightarrow> limit_spec" where
  "ex_spec n = \<lparr>ls_Requests = n, ls_Window = second, ls_Burst = 0\<rparr>"

lemma ex_spec_valid: "0 < n \<Longrightarrow> spec_Valid (ex_spec n)"
  by (simp add: spec_Valid_def ex_spec_def second_def)

definition ex_ops :: "limiter_op list" where
  "ex_ops = [limiter_op.Request ''a'' (ex_spec 1) 0, limiter_op.Request ''b'' (ex_spec 2) 1, SweepAt (5 * second)]"

theorem limiter_invariant_witness:
  "limiter_ok (fold limiter_step ex_ops (New 1)) \<and> int (Len (fold limiter_step ex_ops (New 1))) \<le> 1"
  using limiter_invariant [of ex_ops 1] by (simp add: ex_ops_def ex_spec_valid)


section \<open>Routing\<close>

theorem lookup_is_first_claim_witness:
  "map_option (\<lambda>r. r\<lparr>rt_Domains := []\<rparr>) (Lookup ex_table ''A.b.:80'') =
     Some (route_for ex_shop (ex_expose ''a.b'' 1) ''10.96.0.1'' [])"
proof -
  have c: "map_of (claims '''' ex_vips (sortedDesired (w_Desired ex_edge_world))) (NormalizeHost ''A.b.:80'') =
      Some (ex_shop, ex_expose ''a.b'' 1)"
    by (simp add: claims_def expose_claims_def ex_edge_world_def sortedDesired_def AllExposes_def ex_shop_def ex_web_def zero_desired_def
      vip_of_def ex_vips_def service_key_def tagged_exposes_def EdgeDomainsFor_def ex_expose_def canonicalDomain_def ex_normalize text_eval)
  have "map_option (\<lambda>r. r\<lparr>rt_Domains := []\<rparr>) (Lookup ex_table ''A.b.:80'') =
         map_option (\<lambda>(d, e). route_for d e (vip_of ex_vips d) [])
           (map_of (claims '''' ex_vips (sortedDesired (w_Desired ex_edge_world))) (NormalizeHost ''A.b.:80''))"
    by (rule lookup_is_first_claim [OF _ ex_NewTable]) (simp add: ex_snapshot_def)
  then show ?thesis unfolding c option.map prod.case
    by (simp add: vip_of_def ex_vips_def ex_shop_def ex_web_def zero_desired_def service_key_def)
qed

lemma ex_servable: "\<forall>d\<in>set (w_Desired ex_edge_world). servable '''' ex_vips d"
proof -
  have "expose_servable '''' ex_shop (b, ex_expose h n)" if "domain_canonical (canonicalDomain h)" "0 < n" for b h n
  proof -
    have "compile (route_for ex_shop (ex_expose h n) '''' []) \<noteq> None"
      by (simp add: compile_None_iff route_for_def ex_expose_def ex_limit_def parsePrefixes_def parsePrefix_def ex_parse
          compileRateLimit_def ex_duration second_def RateLimitPerIP_def not_le that(2) text_eval)
    then show ?thesis using that by (simp add: expose_servable_def EdgeDomainsFor_def ex_expose_def port_ok_def)
  qed
  moreover have "tagged_exposes ex_shop = [(True, ex_expose ''a.b'' 1), (False, ex_expose ''c.d'' 2)]"
    by (simp add: tagged_exposes_def AllExposes_def ex_shop_def)
  moreover have "d_Publish ex_shop = []" "vip_of ex_vips ex_shop = ''10.96.0.1''" "d_Project ex_shop = ''shop''" "d_Service ex_shop = ''web''"
    by (simp_all add: ex_shop_def ex_web_def zero_desired_def vip_of_def ex_vips_def service_key_def)
  ultimately show ?thesis
    by (simp add: ex_edge_world_def servable_def ex_parse domain_canonical_def canonicalDomain_def text_eval)
qed

text \<open>The first pass writes the file, the second leaves it alone.\<close>

theorem publication_converges_witness:
  "syncEdgeRoutes True '''' None False ex_edge_world ex_vips []
     (fst (syncEdgeRoutes True '''' (Some 7) True ex_edge_world ex_vips [] None)) =
   (fst (syncEdgeRoutes True '''' (Some 7) True ex_edge_world ex_vips [] None), False)"
  using publication_converges [OF ex_servable, of "[]" "Some 7" None _ None False]
  by (simp add: ex_edge_world_def attachments_ok_def)

section \<open>Requests\<close>

definition ex_crypto :: Crypto where
  "ex_crypto = \<lparr>bcrypt_cost = (\<lambda>_. Some 10), bcrypt_ok = (\<lambda>h p. h = ''$2'' @ p), sha256 = id, hmac_sha256 = (@),
     rsa_ok = (\<lambda>_ _ _. False), ecdsa_ok = (\<lambda>_ _ _ _. False), b64_std = Some, b64_rawurl = Some,
     parse_pubkey = (\<lambda>_. None), json_alg = (\<lambda>_. None), json_claims = (\<lambda>_. None)\<rparr>"

definition ex_proxy :: Proxy where
  "ex_proxy = \<lparr>px_table = ex_table, px_auth = [], px_limits = New 10\<rparr>"

lemma ex_lookup: "lookup ex_table ''a.b'' = Some (ex_compiled ''a.b'' 1)" "lookup ex_table ''c.d'' = Some (ex_compiled ''c.d'' 2)"
  by (simp_all add: lookup_def ex_table_def ex_normalize)

lemma ex_route_Name: "route_Name (c_Route (ex_compiled h n)) = ''shop/web''"
  "rt_AuthRequired (c_Route (ex_compiled h n)) = False"
  "c_limit (ex_compiled h n) = Some (ex_spec n)"
  by (simp_all add: ex_compiled_def route_Name_def ex_route_fields ex_spec_def)

lemma ex_limited: "0 < n \<Longrightarrow> (h, n) \<in> {(''a.b'', 1), (''c.d'', 2)} \<Longrightarrow>
  limited_as ex_table (rate_bucket ''shop/web'' '''' ''a:10.1.2.3'') (ex_request h) (ex_spec n) (ex_compiled h n)"
  by (auto simp: limited_as_def ex_peer ex_rateKey ex_allows ex_route_Name ex_spec_valid)
     (auto simp: ex_request_def ex_normalize ex_lookup)

theorem alternating_hosts_evade_witness:
  "serve_all ex_crypto ex_proxy
     [(ex_request ''a.b'', 0), (ex_request ''c.d'', 0), (ex_request ''a.b'', 0), (ex_request ''c.d'', 1)] =
   [Forwarded (ex_compiled ''a.b'' 1) (ex_request ''a.b''), Forwarded (ex_compiled ''c.d'' 2) (ex_request ''c.d''),
    Forwarded (ex_compiled ''a.b'' 1) (ex_request ''a.b''), Forwarded (ex_compiled ''c.d'' 2) (ex_request ''c.d'')]"
  using alternating_hosts_evade_the_limit
    [of ex_proxy "rate_bucket ''shop/web'' '''' ''a:10.1.2.3''"
        "[(ex_request ''a.b'', 0), (ex_request ''c.d'', 0), (ex_request ''a.b'', 0), (ex_request ''c.d'', 1)]"
        "[(ex_spec 1, ex_compiled ''a.b'' 1), (ex_spec 2, ex_compiled ''c.d'' 2),
          (ex_spec 1, ex_compiled ''a.b'' 1), (ex_spec 2, ex_compiled ''c.d'' 2)]" ex_crypto]
  by (simp add: ex_proxy_def New_ok ex_limited) (simp add: New_def fits_def Len_def ex_spec_def)

lemma ex_forwarded:
  "\<exists>p'. ServeHTTP ex_crypto ex_proxy (ex_request ''a.b'') 0 = (p', Forwarded (ex_compiled ''a.b'' 1) (ex_request ''a.b''))"
proof -
  have l: "limiter_ok (px_limits ex_proxy)" "fits (px_limits ex_proxy) k" "bucket_of (lm_order (px_limits ex_proxy)) k = None" for k
    by (simp_all add: ex_proxy_def New_ok) (simp_all add: New_def fits_def Len_def)
  have al: "\<exists>l' w. limiter_Allow (px_limits ex_proxy) k (ex_spec 1) 0 = (l', True, w)" for k
    using alternating_step(1) [OF l(1,2) ex_spec_valid, of 1 k 0] l(3) [of k] by (auto simp: prod_eq_iff)
  have a: "\<exists>l'. withinRateLimit (px_limits ex_proxy) (ex_request ''a.b'') (ex_compiled ''a.b'' 1) (Some (Addr4 167838211)) s 0 = (l', True)" for s
  proof -
    obtain l' w where "limiter_Allow (px_limits ex_proxy) (rate_bucket ''shop/web'' s ''a:10.1.2.3'') (ex_spec 1) 0 = (l', True, w)"
      using al by blast
    then show ?thesis by (simp add: withinRateLimit_def ex_route_Name ex_rateKey)
  qed
  have "\<exists>p'. serveRoute ex_crypto ex_proxy (ex_request ''a.b'') (ex_compiled ''a.b'' 1) '''' 0 =
      (p', Forwarded (ex_compiled ''a.b'' 1) (ex_request ''a.b''))"
    using a [of "''''"] by (auto simp: serveRoute_def Let_def ex_peer ex_allows ex_route_Name)
  then show ?thesis
    by (simp add: ServeHTTP_def ex_request_def ex_normalize ex_proxy_def ex_lookup)
qed

theorem forwarded_as_desired_witness:
  "\<exists>p' d e kept. ServeHTTP ex_crypto ex_proxy (ex_request ''a.b'') 0 = (p', Forwarded (ex_compiled ''a.b'' 1) (ex_request ''a.b'')) \<and>
     map_of (claims '''' ex_vips (sortedDesired (w_Desired ex_edge_world))) (NormalizeHost (NormalizeHost ''a.b'')) = Some (d, e) \<and>
     c_Route (ex_compiled ''a.b'' 1) = route_for d e (vip_of ex_vips d) kept"
proof -
  obtain p' where f: "ServeHTTP ex_crypto ex_proxy (ex_request ''a.b'') 0 = (p', Forwarded (ex_compiled ''a.b'' 1) (ex_request ''a.b''))"
    using ex_forwarded by blast
  have s: "sn_Routes ex_snapshot = buildRoutes '''' ex_edge_world ex_vips" by (simp add: ex_snapshot_def)
  have "px_table ex_proxy = ex_table" by (simp add: ex_proxy_def)
  note t = forwarded_as_desired [OF s ex_NewTable this f]
  have "rq_Host (ex_request ''a.b'') = ''a.b''" by (simp add: ex_request_def)
  with t f show ?thesis by auto
qed

theorem client_identity_witness:
  "rewrite_headers (ex_compiled ''a.b'' 1) (ex_request ''a.b'') ''X-Forwarded-For'' = [''10.1.2.3''] \<and>
   rq_Header (ex_request ''a.b'') ''X-Forwarded-For'' = [''1.1.1.1'']"
  using client_identity_is_not_forged [OF ex_compile refl, of 1 "''a.b''" "ex_request ''a.b''"]
  by (simp add: ex_request_def cut_byte_def text_eval)


section \<open>Published ports\<close>

definition ex_listener :: "string \<Rightarrow> int \<Rightarrow> Listener" where
  "ex_listener m p = \<lparr>ln_Project = ''shop'', ln_Service = ''web'', ln_Port = 443, ln_Mode = m, ln_Upstream = ''10.96.0.1'',
     ln_UpstreamPort = p, ln_Backends = [], ln_MaxConns = 0, ln_IPRestriction = None, ln_RateLimit = None, ln_Headers = None\<rparr>"

definition ex_rules :: "string \<Rightarrow> int \<Rightarrow> compiled" where
  "ex_rules m p = \<lparr>c_Route = listener_asRoute (ex_listener m p), c_allow = [], c_deny = [], c_limit = None, c_per = '''',
     c_requestSet = [], c_requestRemove = [], c_responseSet = [], c_responseRemove = []\<rparr>"

lemma ex_listener_compile: "compile (listener_asRoute (ex_listener m p)) = Some (ex_rules m p)"
  by (simp add: compile_def compile_ip_def compile_limit_def compile_headers_def listener_asRoute_def ex_listener_def ex_rules_def)

lemma ex_listener_valid: "m \<in> {ListenerHTTP, ListenerTCP} \<Longrightarrow> port_ok p \<Longrightarrow> listener_valid (ex_listener m p)"
  unfolding listener_valid_def ex_listener_compile by (auto simp: ex_listener_def ex_parse port_ok_def)

text \<open>The relay on port 443 is edited to another upstream port.\<close>

theorem relays_follow_the_snapshot_witness:
  "case map_of (ls_entries (listeners_Apply (\<lambda>_. False) [ex_listener ListenerTCP 81]
      \<lparr>ls_entries = [((False, 443), \<lparr>le_cfg = ex_listener ListenerTCP 80, le_server = TCPRelay (ex_listener ListenerTCP 80) (ex_rules ListenerTCP 80)\<rparr>)],
       ls_failed = []\<rparr>)) (False, 443) of
     None \<Rightarrow> True
   | Some e \<Rightarrow> le_cfg e = ex_listener ListenerTCP 81 \<and> server_rules (le_server e) = Some (ex_rules ListenerTCP 81)"
proof -
  let ?s = "\<lparr>ls_entries = [((False, 443), \<lparr>le_cfg = ex_listener ListenerTCP 80, le_server = TCPRelay (ex_listener ListenerTCP 80) (ex_rules ListenerTCP 80)\<rparr>)],
       ls_failed = []\<rparr>"
  have k: "listener_key (ex_listener ListenerTCP 81) = (False, 443)" by (simp add: listener_key_def ex_listener_def)
  have m: "ln_Mode (ex_listener x p) = x" "ln_Headers (ex_listener x p) = None" for x p by (simp_all add: ex_listener_def)
  have "\<forall>(k, e)\<in>set (ls_entries ?s). entry_in_step e" by (simp add: entry_in_step_def m ex_listener_compile)
  moreover have "\<forall>l\<in>set [ex_listener ListenerTCP 81]. listener_valid l" by (simp add: ex_listener_valid port_ok_def)
  ultimately have "case map_of (ls_entries (listeners_Apply (\<lambda>_. False) [ex_listener ListenerTCP 81] ?s)) (listener_key (ex_listener ListenerTCP 81)) of
       None \<Rightarrow> \<not> False
     | Some e \<Rightarrow> le_cfg e = ex_listener ListenerTCP 81 \<and>
         server_rules (le_server e) = compile (listener_asRoute (ex_listener ListenerTCP 81)) \<and>
         (False \<or> (\<exists>old. map_of (ls_entries ?s) (listener_key (ex_listener ListenerTCP 81)) = Some old \<and>
            ln_Mode (le_cfg old) = ln_Mode (ex_listener ListenerTCP 81)))"
    by (rule relays_follow_the_snapshot) (simp_all add: m)
  then show ?thesis unfolding k ex_listener_compile by (simp split: option.splits)
qed

theorem http_listener_keeps_witness:
  "\<exists>e'. map_of (ls_entries (listeners_Apply (\<lambda>_. True) [ex_listener ListenerHTTP 81]
      \<lparr>ls_entries = [((False, 443), \<lparr>le_cfg = ex_listener ListenerHTTP 80, le_server = HTTPServer (Some (ex_rules ListenerHTTP 80))\<rparr>)],
       ls_failed = []\<rparr>)) (False, 443) = Some e' \<and>
    le_server e' = HTTPServer (Some (ex_rules ListenerHTTP 80)) \<and> le_cfg e' = ex_listener ListenerHTTP 81"
proof -
  have "\<not> listenersSame (ex_listener ListenerHTTP 80) (ex_listener ListenerHTTP 81)"
    by (simp add: listenersSame_def listener_equal_def ex_listener_def)
  moreover have "wanted_map [ex_listener ListenerHTTP 81] = [((False, 443), ex_listener ListenerHTTP 81)]"
    by (simp add: wanted_map_def listener_key_def ex_listener_def)
  moreover have "ln_Mode (ex_listener x p) = x" for x p by (simp add: ex_listener_def)
  ultimately show ?thesis
    using http_listener_keeps_its_first_rules [where k = "(False, 443)" and want = "[ex_listener ListenerHTTP 81]" and granted = "\<lambda>_. True"
       and cfg = "ex_listener ListenerHTTP 81" and r = "Some (ex_rules ListenerHTTP 80)"
       and e = "\<lparr>le_cfg = ex_listener ListenerHTTP 80, le_server = HTTPServer (Some (ex_rules ListenerHTTP 80))\<rparr>"
       and s = "\<lparr>ls_entries = [((False, 443), \<lparr>le_cfg = ex_listener ListenerHTTP 80, le_server = HTTPServer (Some (ex_rules ListenerHTTP 80))\<rparr>)],
         ls_failed = []\<rparr>"]
    by simp
qed

text \<open>A good snapshot, then an untrusted file, an invalid snapshot and no file at all.\<close>

theorem last_good_table_witness:
  "px_table (ed_proxy (snd (polls
      [(\<lambda>_. True, Contents ex_snapshot), (\<lambda>_. True, Untrusted),
       (\<lambda>_. True, Contents (ex_snapshot\<lparr>sn_Routes := [(route_for ex_shop (ex_expose ''a.b'' 1) '''' [''a.b''])]\<rparr>)), (\<lambda>_. True, Absent)]
      \<lparr>wt_last = None, wt_rejected = None\<rparr>
      \<lparr>ed_proxy = ex_proxy\<lparr>px_table := EmptyTable\<rparr>, ed_published = newListenerSet, ed_functions = []\<rparr>))) = ex_table"
proof -
  have v: "snapshot_Validate ex_snapshot = None" using ex_NewTable by (auto simp: NewTable_def split: if_splits)
  have i: "snapshot_Validate (ex_snapshot\<lparr>sn_Routes := [(route_for ex_shop (ex_expose ''a.b'' 1) '''' [''a.b''])]\<rparr>) \<noteq> None"
    by (simp add: snapshot_Validate_def validate_route_def ex_route_fields ParseAddr_def)
  have "last_good [Contents ex_snapshot, Untrusted,
      Contents (ex_snapshot\<lparr>sn_Routes := [(route_for ex_shop (ex_expose ''a.b'' 1) '''' [''a.b''])]\<rparr>), Absent] = Some ex_snapshot"
    using i by (auto simp: last_good_def acceptable_def v)
  then show ?thesis
    by (subst last_good_table_keeps_serving [OF prod.collapse [symmetric]]) (simp add: ex_NewTable)
qed

end
