(* ===== verification/Go_Format.thy ===== *)
theory Go_Format
  imports Go_Float Go_Strings
begin

text \<open>
  The renderings of Go's \<open>fmt\<close>, \<open>strconv\<close> and \<open>time\<close> that plans and messages are made of: a number in octal, a
  column of fixed width, a duration as \<open>Duration.String\<close> prints it, and \<open>%g\<close> of a \<open>float64\<close>.
\<close>

section \<open>Octal and columns\<close>

fun uoct :: "nat \<Rightarrow> string" where
  "uoct n = (if n < 8 then [char_of (48 + n)] else uoct (n div 8) @ [char_of (48 + n mod 8)])"

declare uoct.simps [simp del]

definition zero_padded :: "nat \<Rightarrow> string \<Rightarrow> string" where
  "zero_padded w s = replicate (w - length s) (CHR ''0'') @ s"

definition left_column :: "nat \<Rightarrow> string \<Rightarrow> string" where
  "left_column w s = s @ replicate (w - length s) (CHR '' '')"

section \<open>Durations\<close>

text \<open>\<open>fmtFrac\<close>: the last \<open>prec\<close> digits as a fraction without trailing zeros.\<close>

definition fraction :: "nat \<Rightarrow> nat \<Rightarrow> string" where
  "fraction prec v =
     (let ds = zero_padded prec (udec (v mod 10 ^ prec));
          ds = rev (dropWhile (\<lambda>c. c = CHR ''0'') (rev ds))
      in if v mod 10 ^ prec = 0 then [] else CHR ''.'' # ds)"

definition duration_small :: "nat \<Rightarrow> string" where
  "duration_small u =
     (if u = 0 then ''0s''
      else if u < 1000 then udec u @ ''ns''
      else if u < 1000000 then udec (u div 1000) @ fraction 3 u @ [CHR 0xC2, CHR 0xB5, CHR ''s'']
      else udec (u div 1000000) @ fraction 6 u @ ''ms'')"

definition duration_large :: "nat \<Rightarrow> string" where
  "duration_large u =
     (let s = u div 1000000000; m = s div 60; h = m div 60 in
      (if h > 0 then udec h @ ''h'' else []) @ (if m > 0 then udec (m mod 60) @ ''m'' else []) @
      udec (s mod 60) @ fraction 9 u @ ''s'')"

definition duration_String :: "duration \<Rightarrow> string" where
  "duration_String d =
     (let u = nat \<bar>d\<bar> in
      (if d < 0 then ''-'' else []) @ (if u < 1000000000 then duration_small u else duration_large u))"

section \<open>Floats\<close>

text \<open>The decimal exponent of a positive rational in the range of a \<open>float64\<close>.\<close>

definition decimal_exponent :: "rat \<Rightarrow> int" where
  "decimal_exponent x =
     (if x \<ge> 1 then int (length (udec (nat \<lfloor>x\<rfloor>))) - 1
      else case find (\<lambda>k. x * 10 ^ k \<ge> 1) [0..<330] of Some k \<Rightarrow> - int k | None \<Rightarrow> 0)"

definition pow10 :: "int \<Rightarrow> rat" where
  "pow10 e = (if 0 \<le> e then 10 ^ nat e else 1 / 10 ^ nat (- e))"

text \<open>The one of the two neighbours with \<open>n\<close> digits that reads back as \<open>x\<close>, the closer first.\<close>

definition digits_at :: "rat \<Rightarrow> nat \<Rightarrow> nat option" where
  "digits_at x n =
     (let u = pow10 (decimal_exponent x - int n + 1); lo = nat \<lfloor>x / u\<rfloor>; hi = lo + 1;
          both = (if x - of_nat lo * u \<le> of_nat hi * u - x then [lo, hi] else [hi, lo])
      in find (\<lambda>m. f64 (of_nat m * u) = x) both)"

text \<open>The shortest decimal that reads back: its digits and the position of the point.\<close>

definition shortest :: "rat \<Rightarrow> string \<times> int" where
  "shortest x =
     (case find (\<lambda>n. digits_at x n \<noteq> None) [1..<18] of
        None \<Rightarrow> ([], 0)
      | Some n \<Rightarrow>
          (let ds = udec (the (digits_at x n));
               dp = decimal_exponent x - int n + 1 + int (length ds)
           in (rev (dropWhile (\<lambda>c. c = CHR ''0'') (rev ds)), dp)))"

definition exp_form :: "string \<Rightarrow> int \<Rightarrow> string" where
  "exp_form ds e =
     take 1 ds @ (if length ds > 1 then CHR ''.'' # drop 1 ds else []) @
     (if e < 0 then ''e-'' else ''e+'') @ zero_padded 2 (udec (nat \<bar>e\<bar>))"

definition point_form :: "string \<Rightarrow> int \<Rightarrow> string" where
  "point_form ds dp =
     (if dp \<le> 0 then ''0.'' @ replicate (nat (- dp)) (CHR ''0'') @ ds
      else if int (length ds) \<le> dp then ds @ replicate (nat dp - length ds) (CHR ''0'')
      else take (nat dp) ds @ CHR ''.'' # drop (nat dp) ds)"

definition fmt_g :: "rat \<Rightarrow> string" where
  "fmt_g x =
     (if x = 0 then ''0''
      else case shortest \<bar>x\<bar> of
        (ds, dp) \<Rightarrow>
          (let e = dp - 1 in
           (if x < 0 then ''-'' else []) @
           (if e < - 4 \<or> e \<ge> 6 then exp_form ds e else point_form ds dp)))"

end
