(* ===== verification/Spec_Changes.thy ===== *)
theory Spec_Changes
  imports Spec_Hash Observer Go_Format "HOL-Library.Product_Lexorder"
begin

text \<open>
  \<open>internal/reconciler/changes.go\<close>: what an apply would do, as \<open>kanea plan\<close>, the preview of \<open>kanea run\<close> and the
  MCP tool report it. A map the code builds in a loop is an association list filled in the same order.
  The digest shown for a file's content (\<open>sha256.Sum256\<close>) is a parameter \<open>sha\<close>.
\<close>

section \<open>Changes\<close>

datatype ChangeKind = ChangeCreate | ChangeUpdate | ChangeDestroy

record FieldChange =
  fc_Field :: string
  fc_Lines :: "string list"
  fc_Rolls :: bool

record ServiceChange =
  sc_Project :: string
  sc_Service :: string
  sc_Kind :: ChangeKind
  sc_Count :: int
  sc_Image :: string
  sc_Fields :: "FieldChange list"
  sc_Rolls :: bool

definition change_Key :: "ServiceChange \<Rightarrow> string" where
  "change_Key c = sc_Project c @ ''/'' @ sc_Service c"

definition rollsAny :: "FieldChange list \<Rightarrow> bool" where
  "rollsAny fs \<longleftrightarrow> (\<exists>f\<in>set fs. fc_Rolls f)"

section \<open>Small renderings\<close>

definition rwRO :: "bool \<Rightarrow> string" where
  "rwRO readOnly = (if readOnly then ''ro'' else ''rw'')"

definition onOff :: "bool \<Rightarrow> string" where
  "onOff b = (if b then ''on'' else ''off'')"

definition orDefault :: "string \<Rightarrow> string \<Rightarrow> string" where
  "orDefault s fallback = (if s = '''' then fallback else s)"

definition orPrefixed :: "string \<Rightarrow> string \<Rightarrow> string" where
  "orPrefixed p s = (if s = '''' then '''' else p @ s)"

definition join :: "string \<Rightarrow> string \<Rightarrow> string" where
  "join key detail = (if detail = '''' then key else key @ ''  '' @ detail)"

definition prefixed :: "string \<Rightarrow> string list \<Rightarrow> string list" where
  "prefixed sign lines = map (\<lambda>l. sign @ '' '' @ l) lines"

definition oneLine :: "string \<Rightarrow> bool \<Rightarrow> string list" where
  "oneLine s present = (if present then [s] else [])"

function wrap :: "'a list \<Rightarrow> nat \<Rightarrow> 'a list list" where
  "wrap items n = (if items = [] \<or> n = 0 then [] else take n items # wrap (drop n items) n)"
  by pat_completeness auto
termination by (relation "measure (\<lambda>(items, n). length items)") auto

declare wrap.simps [simp del]

definition wrap_lines :: "string list \<Rightarrow> nat \<Rightarrow> string list" where
  "wrap_lines items n = map (str_join '', '') (wrap items n)"

definition describeRuntime :: "string \<Rightarrow> string" where
  "describeRuntime r = orDefault r ''default''"

definition describeHardening :: "string \<Rightarrow> string" where
  "describeHardening h = orDefault h ''compatible (default)''"

definition describeCapabilities :: "string list \<Rightarrow> string" where
  "describeCapabilities caps = (if caps = [] then ''baseline (default)'' else ''['' @ str_join '', '' caps @ '']'')"

definition describeCommand :: "string list \<Rightarrow> string" where
  "describeCommand cmd = (if cmd = [] then ''the image's own entrypoint'' else str_join '' '' cmd)"

definition describeArgs :: "string list \<Rightarrow> string" where
  "describeArgs as = (if as = [] then ''the image's own arguments'' else str_join '' '' (map go_quote as))"

definition describeUser :: "User option \<Rightarrow> string" where
  "describeUser u =
     (case u of
        None \<Rightarrow> ''the image's own USER''
      | Some u \<Rightarrow>
          udec (u_UID u) @ '':'' @ udec (u_GID u) @
          (if u_AdditionalGIDs u = [] then ''''
           else '' +groups '' @ str_join '','' (map udec (u_AdditionalGIDs u))))"

definition describeResources :: "Resources \<Rightarrow> string" where
  "describeResources r =
     ''cpu '' @ (if res_CPUMillis r > 0 then itoa (res_CPUMillis r) @ ''m'' else ''unbounded'') @
     '', memory '' @ (if res_MemoryBytes r > 0 then mebibytes (nat (res_MemoryBytes r)) else ''unbounded'') @
     '', pids '' @ (if res_PidsLimit r > 0 then itoa (res_PidsLimit r) else ''unbounded'')"

definition describeCheck :: "HealthCheck option \<Rightarrow> string" where
  "describeCheck c =
     (case c of
        None \<Rightarrow> ''none''
      | Some h \<Rightarrow>
          if hc_Type h = '''' then ''none''
          else
            (if hc_Type h = ''http'' then ''http '' @ orDefault (hc_Path h) ''/'' @ '' on port '' @ itoa (hc_Port h)
             else if hc_Type h = ''tcp'' then ''tcp on port '' @ itoa (hc_Port h)
             else hc_Type h @ '' '' @ str_join '' '' (hc_Command h)) @
            '' every '' @ duration_String (check_interval c) @ '', timeout '' @ duration_String (check_timeout c) @
            '', '' @ itoa (failureThreshold c) @ '' failure(s)'')"

definition describeScaling :: "ScalingPolicy option \<Rightarrow> string" where
  "describeScaling s =
     (case s of
        None \<Rightarrow> ''none''
      | Some s \<Rightarrow>
          (let metrics = map (\<lambda>m. sm_Name m @ '' '' @ fmt_g (sm_Target m)) (sp_Metrics s);
               bounds = ''min '' @ itoa (sp_Min s) @ '', max '' @ itoa (sp_Max s) in
           if metrics = [] then bounds @ '', no metrics (never fires)''
           else bounds @ '', '' @ str_join '', '' metrics @
             (if sp_Cooldown s \<noteq> '''' then '', cooldown '' @ sp_Cooldown s else '''')))"

definition describeRestart :: "RestartPolicy \<Rightarrow> string" where
  "describeRestart p =
     (let schedule = (if rp_Backoff p = [] then DefaultRestartBackoff else rp_Backoff p) in
      itoa (attempts p) @ '' attempt(s), backoff '' @ str_join '','' (map duration_String schedule))"

definition describeUpdate :: "UpdatePolicy \<Rightarrow> string" where
  "describeUpdate p =
     str_join '', ''
       ([orDefault (up_Strategy p) StrategyRolling] @
        (if up_MaxParallel p > 0 then [''max_parallel '' @ itoa (up_MaxParallel p)] else []) @
        (if up_MinHealthy p > 0 then [''min_healthy '' @ duration_String (up_MinHealthy p)] else []) @
        (if up_Auto p
         then [''auto on'' @ (if up_Interval p > 0 then '' every '' @ duration_String (up_Interval p) else '''') @
               (if up_Deadline p > 0 then '', deadline '' @ duration_String (up_Deadline p) else '''')]
         else []))"

definition describeFunction :: "FunctionMeta option \<Rightarrow> string" where
  "describeFunction f =
     (case f of
        None \<Rightarrow> ''none''
      | Some f \<Rightarrow>
          (let parts =
             (if fn_HTTP f then [''http''] else []) @
             map (\<lambda>e. ''on '' @ str_join ''|'' (et_On e) @ orPrefixed '' -> '' (et_Path e)) (fn_Events f) @
             map (\<lambda>c. ''cron '' @ ct_Schedule c @ orPrefixed '' -> '' (ct_Path c)) (fn_Crons f) @
             (if fn_SigningRef f \<noteq> '''' then [''signed by '' @ fn_SigningRef f] else [])
           in if parts = [] then ''no triggers'' else str_join '', '' parts))"

definition init_setting :: "InitContainer \<Rightarrow> string list" where
  "init_setting i =
     (let detail =
        (if ic_Timeout i > 0 then [''timeout '' @ duration_String (ic_Timeout i)] else []) @
        (if ic_PullPolicy i \<noteq> '''' then [''pull '' @ ic_PullPolicy i] else [])
      in if detail = [] then [] else [ic_Name i @ '' ('' @ str_join '', '' detail @ '')''])"

definition describeInitSettings :: "InitContainer list \<Rightarrow> string" where
  "describeInitSettings inits =
     (let parts = concat (map init_setting inits) in if parts = [] then ''defaults'' else str_join '', '' parts)"

definition describeTLSMode :: "Expose \<Rightarrow> string" where
  "describeTLSMode e =
     (if ex_TLSMode e \<noteq> '''' then (if ex_TLSName e \<noteq> '''' then ex_TLSMode e @ '':'' @ ex_TLSName e else ex_TLSMode e)
      else if ex_LetsEncrypt e then ''acme'' else ''node default'')"

definition describeAuth :: "AuthPolicy \<Rightarrow> string" where
  "describeAuth a =
     (let kinds =
        (if auth_BasicRef a \<noteq> '''' then [''basic''] else []) @
        (if auth_BearerRef a \<noteq> '''' then [''bearer''] else []) @
        (case auth_JWT a of Some j \<Rightarrow> [''jwt '' @ jwt_Algorithm j] | None \<Rightarrow> [])
      in if kinds = [] then ''none'' else str_join ''+'' kinds)"

definition middleware :: "bool \<Rightarrow> bool \<Rightarrow> bool \<Rightarrow> bool \<Rightarrow> string" where
  "middleware ip rate headers conns =
     str_join '', ''
       ((if ip then [''ip_restriction''] else []) @ (if rate then [''rate_limit''] else []) @
        (if headers then [''headers''] else []) @ (if conns then [''max_conns''] else []))"

definition describeOwner :: "Volume \<Rightarrow> string" where
  "describeOwner v =
     (case v_UID v of None \<Rightarrow> ''-'' | Some u \<Rightarrow> udec u) @ '':'' @ (case v_GID v of None \<Rightarrow> ''-'' | Some g \<Rightarrow> udec g) @
     (case v_Mode v of None \<Rightarrow> '''' | Some m \<Rightarrow> '' mode '' @ zero_padded 4 (uoct m))"

definition describePeers :: "PeerRef list \<Rightarrow> string list" where
  "describePeers peers = sort (map (\<lambda>p. pr_Project p @ ''/'' @ pr_Service p) peers)"

section \<open>Families of resources\<close>

text \<open>A map filled in a loop: a later entry under a key replaces the earlier one.\<close>

definition map_by :: "('a \<Rightarrow> string) \<Rightarrow> ('a \<Rightarrow> 'v) \<Rightarrow> 'a list \<Rightarrow> 'v gomap" where
  "map_by key detail xs = fold (\<lambda>x. AList.update (key x) (detail x)) xs []"

definition volume_detail :: "Volume \<Rightarrow> string" where
  "volume_detail v =
     (let kind = orDefault (sr_Type (v_Resource v)) ''local'' @ (if v_Storage v \<noteq> '''' then '':'' @ v_Storage v else '''') in
      str_join '' ''
        ([kind, v_MountPath v, rwRO (v_ReadOnly v)] @
         (if Owned v then [''owner '' @ describeOwner v] else []) @
         (if v_SizeBytes v > 0 then [mebibytes (nat (v_SizeBytes v)) @ '' budget''] else []) @
         (if sr_Create (v_Resource v) then [''create''] else [])))"

definition volumeMap :: "Volume list \<Rightarrow> string gomap" where
  "volumeMap = map_by v_Name volume_detail"

definition hex_bytes :: "string \<Rightarrow> string" where
  "hex_bytes s = concat (map (\<lambda>c. let n = (of_char c :: nat) in [hex_digit (n div 16), hex_digit (n mod 16)]) s)"

definition file_detail :: "(string \<Rightarrow> string) \<Rightarrow> FileMount \<Rightarrow> string" where
  "file_detail sha f =
     ''('' @ str_join '', ''
       ([udec (length (fm_Content f)) @ '' B'', ''content '' @ hex_bytes (take 4 (sha (fm_Content f)))] @
        (if fm_Mode f \<noteq> '''' then [''mode '' @ fm_Mode f] else []) @
        (if fm_SecretRefs f \<noteq> [] then [udec (length (fm_SecretRefs f)) @ '' secret ref(s)''] else [])) @ '')''"

definition fileMap :: "(string \<Rightarrow> string) \<Rightarrow> FileMount list \<Rightarrow> string gomap" where
  "fileMap sha files = map_by fm_Path (file_detail sha) (hashableFiles files)"

definition init_detail :: "InitContainer \<Rightarrow> string" where
  "init_detail s =
     str_join '' ''
       ([ic_Image s] @
        (if ic_Command s \<noteq> [] then [describeCommand (ic_Command s)] else []) @
        (if ic_Args s \<noteq> [] then [''args '' @ describeArgs (ic_Args s)] else []) @
        (if ic_User s \<noteq> None then [''as '' @ describeUser (ic_User s)] else []) @
        (if ic_Capabilities s \<noteq> [] then [describeCapabilities (ic_Capabilities s)] else []) @
        (if ic_Env s \<noteq> [] then [udec (length (ic_Env s)) @ '' env var(s)''] else []) @
        (if ic_RegistryAuthRef s \<noteq> '''' then [''auth '' @ ic_RegistryAuthRef s] else []))"

definition initMap :: "InitContainer list \<Rightarrow> string gomap" where
  "initMap inits =
     map_by (\<lambda>(i, s). udec (i + 1) @ ''. '' @ ic_Name s) (\<lambda>(i, s). init_detail s) (enumerate 0 (hashableInit inits))"

definition portMap :: "Port list \<Rightarrow> string gomap" where
  "portMap = map_by p_Name (\<lambda>p. itoa (p_Container p) @ (if IsUDP p then ''/udp'' else ''''))"

definition publish_detail :: "PublishedPort \<Rightarrow> string" where
  "publish_detail p =
     (let extra = middleware (pp_IPRestriction p \<noteq> None) (pp_RateLimit p \<noteq> None) (pp_Headers p \<noteq> None) (pp_MaxConns p > 0) in
      ''port '' @ pp_Port p @ (if extra \<noteq> '''' then '' ('' @ extra @ '')'' else ''''))"

definition publishMap :: "PublishedPort list \<Rightarrow> string gomap" where
  "publishMap = map_by (\<lambda>p. itoa (pp_Host p) @ ''/'' @ orDefault (pp_Mode p) ''http'') publish_detail"

definition route_detail :: "Expose \<Rightarrow> string" where
  "route_detail e =
     (let extra = middleware (ex_IPRestriction e \<noteq> None) (ex_RateLimit e \<noteq> None) (ex_Headers e \<noteq> None) False in
      ''('' @ str_join '', ''
        ([''tls '' @ describeTLSMode e] @ (if ex_Port e > 0 then [''port '' @ itoa (ex_Port e)] else []) @
         (if ex_Protocol e \<noteq> '''' then [ex_Protocol e] else []) @
         (case ex_Auth e of Some a \<Rightarrow> [''auth '' @ describeAuth a] | None \<Rightarrow> []) @
         (if extra \<noteq> '''' then [extra] else [])) @ '')'')"

definition route_name :: "Expose \<Rightarrow> string" where
  "route_name e = orDefault (str_join '', '' (ex_Domains e)) ''(auto FQDN under the node's base domain)''"

definition routeMap :: "Expose list \<Rightarrow> string gomap" where
  "routeMap = map_by route_name route_detail"

definition deviceMap :: "DeviceRequest list \<Rightarrow> string gomap" where
  "deviceMap = map_by dr_Name (\<lambda>d. ''(grant '' @ dr_Grant d @ '')'')"

definition socketMap :: "SocketRequest list \<Rightarrow> string gomap" where
  "socketMap = map_by sk_Name (\<lambda>s. ''(grant '' @ sk_Grant s @ '' at '' @ sk_MountPath s @ '', '' @ rwRO (sk_ReadOnly s) @ '')'')"

section \<open>Comparing\<close>

definition names :: "string list \<Rightarrow> string gomap" where
  "names xs = fold (\<lambda>s. AList.update s '''') xs []"

definition keyed_line :: "string gomap \<Rightarrow> string gomap \<Rightarrow> string \<Rightarrow> string list" where
  "keyed_line old new k =
     (case (map_of old k, map_of new k) of
        (None, Some a) \<Rightarrow> [''+ '' @ join k a]
      | (Some b, None) \<Rightarrow> [''- '' @ join k b]
      | (Some b, Some a) \<Rightarrow> if b \<noteq> a then [''~ '' @ k @ ''  '' @ b @ '' -> '' @ a] else []
      | (None, None) \<Rightarrow> [])"

definition keyedDiff :: "string gomap \<Rightarrow> string gomap \<Rightarrow> string list" where
  "keyedDiff old new =
     concat (map (keyed_line old new)
       (sort (map fst old @ filter (\<lambda>k. map_of old k = None) (map fst new))))"

definition flatten :: "string gomap \<Rightarrow> string list" where
  "flatten m = sort (map (\<lambda>(k, v). join k v) m)"

text \<open>Keys only, never values.\<close>

definition env_changes :: "string gomap \<Rightarrow> string gomap \<Rightarrow> string list" where
  "env_changes have want =
     sort (map (\<lambda>(k, _). ''+ '' @ k) (filter (\<lambda>(k, _). map_of have k = None) want)) @
     sort (map (\<lambda>(k, _). ''~ '' @ k) (filter (\<lambda>(k, v). map_of have k \<noteq> None \<and> map_of have k \<noteq> Some v) want)) @
     sort (map (\<lambda>(k, _). ''- '' @ k) (filter (\<lambda>(k, _). map_of want k = None) have))"

definition envDiff :: "string gomap \<Rightarrow> string gomap \<Rightarrow> string list" where
  "envDiff have want = wrap_lines (env_changes have want) 6"

section \<open>One service\<close>

text \<open>The three closures of \<open>update\<close> and the one of \<open>creation\<close>: a row, or none.\<close>

definition row :: "string \<Rightarrow> bool \<Rightarrow> string list \<Rightarrow> FieldChange list" where
  "row field rolls lines = (if lines = [] then [] else [\<lparr>fc_Field = field, fc_Lines = lines, fc_Rolls = rolls\<rparr>])"

definition scalar :: "string \<Rightarrow> bool \<Rightarrow> string \<Rightarrow> string \<Rightarrow> FieldChange list" where
  "scalar field rolls old new = row field rolls (if old \<noteq> new then [old @ '' -> '' @ new] else [])"

definition keyed :: "string \<Rightarrow> bool \<Rightarrow> string gomap \<Rightarrow> string gomap \<Rightarrow> FieldChange list" where
  "keyed field rolls old new = row field rolls (keyedDiff old new)"

definition creation :: "(string \<Rightarrow> string) \<Rightarrow> Desired \<Rightarrow> ServiceChange" where
  "creation sha d =
     \<lparr>sc_Project = d_Project d, sc_Service = d_Service d, sc_Kind = ChangeCreate, sc_Count = d_Count d,
      sc_Image = RunImage d,
      sc_Fields =
        row ''volumes'' False (prefixed ''+'' (flatten (volumeMap (d_Volumes d)))) @
        row ''files'' False (prefixed ''+'' (flatten (fileMap sha (d_Files d)))) @
        row ''ports'' False (prefixed ''+'' (flatten (portMap (d_Ports d)))) @
        row ''devices'' False (prefixed ''+'' (flatten (deviceMap (d_Devices d)))) @
        row ''sockets'' False (prefixed ''+'' (flatten (socketMap (d_Sockets d)))) @
        row ''init'' False (prefixed ''+'' (flatten (initMap (d_Init d)))) @
        row ''env'' False (oneLine (udec (length (d_Env d)) @ '' variable(s)'') (d_Env d \<noteq> [])) @
        row ''expose'' False (prefixed ''+'' (flatten (routeMap (AllExposes d)))) @
        row ''publish'' False (prefixed ''+'' (flatten (publishMap (d_Publish d)))) @
        row ''depends_on'' False (prefixed ''+'' (d_DependsOn d)) @
        row ''hardening'' False (oneLine (d_Hardening d) (d_Hardening d \<noteq> '''')) @
        row ''check'' False (oneLine (describeCheck (d_Check d)) (d_Check d \<noteq> None)) @
        row ''scaling'' False (oneLine (describeScaling (d_Scaling d)) (d_Scaling d \<noteq> None)) @
        row ''function'' False (oneLine (describeFunction (d_Function d)) (d_Function d \<noteq> None)),
      sc_Rolls = False\<rparr>"

text \<open>The fields of the hash material, then those applied to the running service.\<close>

definition rolling_fields :: "(string \<Rightarrow> string) \<Rightarrow> Desired \<Rightarrow> Desired \<Rightarrow> FieldChange list" where
  "rolling_fields sha have want =
     scalar ''image'' True (d_Image have) (d_Image want) @
     scalar ''runtime'' True (describeRuntime (d_Runtime have)) (describeRuntime (d_Runtime want)) @
     scalar ''command'' True (describeCommand (d_Command have)) (describeCommand (d_Command want)) @
     scalar ''args'' True (describeArgs (d_Args have)) (describeArgs (d_Args want)) @
     scalar ''capabilities'' True
       (describeCapabilities (d_Capabilities have)) (describeCapabilities (d_Capabilities want)) @
     scalar ''hardening'' True (describeHardening (d_Hardening have)) (describeHardening (d_Hardening want)) @
     scalar ''user'' True (describeUser (d_User have)) (describeUser (d_User want)) @
     scalar ''resources'' True (describeResources (d_Resources have)) (describeResources (d_Resources want)) @
     scalar ''read_only_rootfs'' True (onOff (d_ReadOnlyRootfs have)) (onOff (d_ReadOnlyRootfs want)) @
     row ''env'' True (envDiff (d_Env have) (d_Env want)) @
     keyed ''files'' True (fileMap sha (d_Files have)) (fileMap sha (d_Files want)) @
     keyed ''volumes'' (hashableVolumes (d_Volumes have) \<noteq> hashableVolumes (d_Volumes want))
       (volumeMap (d_Volumes have)) (volumeMap (d_Volumes want)) @
     keyed ''ports'' True (portMap (d_Ports have)) (portMap (d_Ports want)) @
     keyed ''devices'' True (deviceMap (d_Devices have)) (deviceMap (d_Devices want)) @
     keyed ''sockets'' True (socketMap (d_Sockets have)) (socketMap (d_Sockets want)) @
     keyed ''init'' True (initMap (d_Init have)) (initMap (d_Init want))"

definition live_fields :: "Desired \<Rightarrow> Desired \<Rightarrow> FieldChange list" where
  "live_fields have want =
     scalar ''count'' False (itoa (d_Count have)) (itoa (d_Count want)) @
     scalar ''registry_auth'' False (orDefault (d_RegistryAuthRef have) ''none'') (orDefault (d_RegistryAuthRef want) ''none'') @
     scalar ''pull_policy'' False (orDefault (d_PullPolicy have) ''node default'') (orDefault (d_PullPolicy want) ''node default'') @
     keyed ''expose'' False (routeMap (AllExposes have)) (routeMap (AllExposes want)) @
     keyed ''publish'' False (publishMap (d_Publish have)) (publishMap (d_Publish want)) @
     keyed ''allow_from'' False (names (describePeers (d_AllowFrom have))) (names (describePeers (d_AllowFrom want))) @
     keyed ''depends_on'' False (names (d_DependsOn have)) (names (d_DependsOn want)) @
     scalar ''check'' False (describeCheck (d_Check have)) (describeCheck (d_Check want)) @
     scalar ''scaling'' False (describeScaling (d_Scaling have)) (describeScaling (d_Scaling want)) @
     scalar ''restart'' False (describeRestart (d_Restart have)) (describeRestart (d_Restart want)) @
     scalar ''update'' False (describeUpdate (d_Update have)) (describeUpdate (d_Update want)) @
     scalar ''function'' False (describeFunction (d_Function have)) (describeFunction (d_Function want)) @
     scalar ''init settings'' False (describeInitSettings (d_Init have)) (describeInitSettings (d_Init want))"

definition update_change :: "(string \<Rightarrow> string) \<Rightarrow> Desired \<Rightarrow> Desired \<Rightarrow> ServiceChange option" where
  "update_change sha have want =
     (let fs = rolling_fields sha have want @ live_fields have want in
      if fs = [] then None
      else Some \<lparr>sc_Project = d_Project want, sc_Service = d_Service want, sc_Kind = ChangeUpdate,
             sc_Count = d_Count want, sc_Image = RunImage want, sc_Fields = fs, sc_Rolls = rollsAny fs\<rparr>)"

section \<open>All services\<close>

definition destroyed :: "Desired \<Rightarrow> ServiceChange" where
  "destroyed d =
     \<lparr>sc_Project = d_Project d, sc_Service = d_Service d, sc_Kind = ChangeDestroy, sc_Count = d_Count d,
      sc_Image = RunImage d,
      sc_Fields =
        row ''expose'' False (prefixed ''-'' (flatten (routeMap (AllExposes d)))) @
        row ''publish'' False (prefixed ''-'' (flatten (publishMap (d_Publish d)))) @
        (let lines = flatten (volumeMap (d_Volumes d)) in
         if lines = [] then []
         else row ''volumes'' False (prefixed ''-'' lines @ [''  (the mount goes; the volume's data is NOT deleted)''])),
      sc_Rolls = False\<rparr>"

definition destructions :: "Desired list \<Rightarrow> Desired list \<Rightarrow> string list \<Rightarrow> ServiceChange list" where
  "destructions current desired pruneProjects =
     map destroyed
       (filter (\<lambda>have. d_Project have \<in> set pruneProjects \<and> d_key have \<notin> d_key ` set desired) current)"

definition desired_change :: "(string \<Rightarrow> string) \<Rightarrow> Desired list \<Rightarrow> Desired \<Rightarrow> ServiceChange list" where
  "desired_change sha current want =
     (case map_of (map_by d_key (\<lambda>svc. svc) current) (d_key want) of
        None \<Rightarrow> [creation sha want]
      | Some have \<Rightarrow> (case update_change sha have want of None \<Rightarrow> [] | Some c \<Rightarrow> [c]))"

text \<open>Sorted by project and service, which name a change when the services of each side are distinct.\<close>

definition service_Changes :: "(string \<Rightarrow> string) \<Rightarrow> Desired list \<Rightarrow> Desired list \<Rightarrow> string list \<Rightarrow> ServiceChange list" where
  "service_Changes sha current desired pruneProjects =
     sort_key (\<lambda>c. (sc_Project c, sc_Service c))
       (concat (map (desired_change sha current) desired) @ destructions current desired pruneProjects)"

section \<open>Rendering and counting\<close>

definition change_header :: "ServiceChange \<Rightarrow> string" where
  "change_header c =
     (let tail = change_Key c @ '' (count '' @ itoa (sc_Count c) @ '', image '' @ sc_Image c @ '')'' in
      case sc_Kind c of
        ChangeCreate \<Rightarrow> ''+ create '' @ tail
      | ChangeDestroy \<Rightarrow> ''- destroy '' @ tail
      | ChangeUpdate \<Rightarrow> ''~ update '' @ change_Key c)"

definition field_rows :: "FieldChange \<Rightarrow> string list" where
  "field_rows f =
     map (\<lambda>(j, line).
         ''    '' @ left_column 18 (if j = 0 then fc_Field f else '''') @ line @
         (if j = 0 \<and> fc_Rolls f then ''  (rolls allocs)'' else ''''))
       (enumerate 0 (fc_Lines f))"

fun RenderChanges_from :: "nat \<Rightarrow> ServiceChange list \<Rightarrow> string list" where
  "RenderChanges_from i [] = []"
| "RenderChanges_from i (c # cs) =
     (if i > 0 then [''''] else []) @ [change_header c] @ concat (map field_rows (sc_Fields c)) @
     RenderChanges_from (i + 1) cs"

definition RenderChanges :: "ServiceChange list \<Rightarrow> string list" where
  "RenderChanges cs = RenderChanges_from 0 cs"

definition DiffScoped :: "(string \<Rightarrow> string) \<Rightarrow> Desired list \<Rightarrow> Desired list \<Rightarrow> string list \<Rightarrow> string list" where
  "DiffScoped sha current desired pruneProjects = RenderChanges (service_Changes sha current desired pruneProjects)"

definition Diff :: "(string \<Rightarrow> string) \<Rightarrow> Desired list \<Rightarrow> Desired list \<Rightarrow> string list" where
  "Diff sha current desired = DiffScoped sha current desired []"

record ChangeCounts =
  cc_Create :: nat
  cc_Update :: nat
  cc_Destroy :: nat
  cc_Rolling :: nat

definition count_change :: "ServiceChange \<Rightarrow> ChangeCounts \<Rightarrow> ChangeCounts" where
  "count_change c n =
     (let n = (case sc_Kind c of
                 ChangeCreate \<Rightarrow> n\<lparr>cc_Create := cc_Create n + 1\<rparr>
               | ChangeUpdate \<Rightarrow> n\<lparr>cc_Update := cc_Update n + 1\<rparr>
               | ChangeDestroy \<Rightarrow> n\<lparr>cc_Destroy := cc_Destroy n + 1\<rparr>)
      in if sc_Rolls c then n\<lparr>cc_Rolling := cc_Rolling n + 1\<rparr> else n)"

definition CountChanges :: "ServiceChange list \<Rightarrow> ChangeCounts" where
  "CountChanges cs = fold count_change cs \<lparr>cc_Create = 0, cc_Update = 0, cc_Destroy = 0, cc_Rolling = 0\<rparr>"

end
