(* ===== verification/Spec_Changes_Facts.thy ===== *)
theory Spec_Changes_Facts
  imports Spec_Changes
begin

text \<open>
  What a plan says and what it leaves out: every affected service has one entry, a spec stored as
  declared has none, a roll is announced only where the spec hash moves, and no value of an environment
  is ever printed. Two edits roll a service without being announced.
\<close>

section \<open>Rows and families\<close>

lemma row_Nil [simp]: "row field rolls lines = [] \<longleftrightarrow> lines = []"
  by (simp add: row_def)

lemma row_rolls [simp]: "rollsAny (row field rolls lines) \<longleftrightarrow> rolls \<and> lines \<noteq> []"
  by (simp add: row_def rollsAny_def)

lemma rollsAny_append [simp]: "rollsAny (xs @ ys) \<longleftrightarrow> rollsAny xs \<or> rollsAny ys"
  by (auto simp: rollsAny_def)

lemma scalar_Nil [simp]: "scalar field rolls x y = [] \<longleftrightarrow> x = y"
  by (simp add: scalar_def)

lemma scalar_rolls [simp]: "rollsAny (scalar field rolls x y) \<longleftrightarrow> rolls \<and> x \<noteq> y"
  by (simp add: scalar_def)

lemma keyed_line_Nil: "keyed_line old new k = [] \<longleftrightarrow> map_of old k = map_of new k"
  by (auto simp: keyed_line_def split: option.splits)

lemma keyedDiff_Nil [simp]: "keyedDiff old new = [] \<longleftrightarrow> map_of old = map_of new"
proof
  assume e: "keyedDiff old new = []"
  show "map_of old = map_of new"
  proof
    fix k
    have "k \<in> fst ` set old \<or> map_of old k = None \<and> k \<in> fst ` set new \<Longrightarrow> keyed_line old new k = []"
      using e by (auto simp: keyedDiff_def)
    moreover have "map_of old k = map_of new k" if "\<not> (k \<in> fst ` set old \<or> map_of old k = None \<and> k \<in> fst ` set new)"
      using that by (metis map_of_eq_None_iff)
    ultimately show "map_of old k = map_of new k" unfolding keyed_line_Nil by blast
  qed
next
  assume "map_of old = map_of new"
  then show "keyedDiff old new = []" by (simp add: keyedDiff_def keyed_line_Nil)
qed

lemma keyed_Nil [simp]: "keyed field rolls old new = [] \<longleftrightarrow> map_of old = map_of new"
  by (simp add: keyed_def)

lemma keyed_rolls [simp]: "rollsAny (keyed field rolls old new) \<longleftrightarrow> rolls \<and> map_of old \<noteq> map_of new"
  by (simp add: keyed_def)

text \<open>A family depends on the keys and details of its members alone, in their order, and not on the order
  when the keys are distinct.\<close>

lemma map_by_pairs:
  "map_by key detail xs = fold (\<lambda>(k, v). AList.update k v) (map (\<lambda>x. (key x, detail x)) xs) []"
  by (simp add: map_by_def fold_map comp_def)

lemma map_by_cong:
  "map (\<lambda>x. (key x, detail x)) xs = map (\<lambda>x. (key' x, detail' x)) ys \<Longrightarrow> map_by key detail xs = map_by key' detail' ys"
  by (simp add: map_by_pairs)

lemma map_of_fold_update: "map_of (fold (\<lambda>(k, v). AList.update k v) ps m) = map_of m ++ map_of (rev ps)"
  by (induction ps arbitrary: m) (auto simp: update_conv')

lemma map_of_map_by: "map_of (map_by key detail xs) = map_of (rev (map (\<lambda>x. (key x, detail x)) xs))"
  unfolding map_by_pairs map_of_fold_update by simp

lemma map_by_perm:
  assumes "mset xs = mset ys" and "distinct (map key xs)"
  shows "map_of (map_by key detail xs) = map_of (map_by key detail ys)"
proof -
  have "distinct (map key ys)" using assms by (metis mset_eq_imp_distinct_iff mset_map)
  moreover have "set xs = set ys" using assms(1) by (rule mset_eq_setD)
  ultimately show ?thesis
    using assms(2) unfolding map_of_map_by
    by (intro map_of_inject_set [THEN iffD2]) (simp_all add: rev_map [symmetric] comp_def)
qed

section \<open>Environments\<close>

lemma wrap_Nil [simp]: "0 < n \<Longrightarrow> wrap items n = [] \<longleftrightarrow> items = []"
  by (subst wrap.simps) simp

lemma envDiff_Nil [simp]: "envDiff have want = [] \<longleftrightarrow> env_changes have want = []"
  by (simp add: envDiff_def wrap_lines_def)

lemma env_changes_Nil:
  assumes "gm_wf have" and "gm_wf want"
  shows "env_changes have want = [] \<longleftrightarrow> map_of have = map_of want"
proof
  assume e: "env_changes have want = []"
  have n: "sort xs = [] \<longleftrightarrow> xs = []" for xs :: "string list" by (metis length_0_conv length_sort)
  have a: "\<forall>(k, v)\<in>set want. map_of have k = Some v"
    and b: "\<forall>(k, v)\<in>set have. map_of want k \<noteq> None"
    using e by (auto simp: env_changes_def n filter_empty_conv)
  show "map_of have = map_of want"
  proof
    fix k
    show "map_of have k = map_of want k"
    proof (cases "map_of want k")
      case None
      have "map_of have k = None"
      proof (cases "map_of have k")
        case (Some v)
        then have "(k, v) \<in> set have" by (rule map_of_SomeD)
        with b None show ?thesis by fastforce
      qed
      with None show ?thesis by simp
    next
      case (Some v)
      then show ?thesis using a by (auto dest!: map_of_SomeD)
    qed
  qed
next
  assume m: "map_of have = map_of want"
  have "map_of want k = Some v" if "(k, v) \<in> set want" for k v using assms(2) that by (auto simp: gm_wf_def)
  moreover have "map_of have k \<noteq> None" if "(k, v) \<in> set have" for k v using that by (metis map_of_eq_None_iff fst_conv image_eqI)
  ultimately show "env_changes have want = []"
    using m by (auto simp: env_changes_def filter_empty_conv)
qed

lemma json_env_same: "json_env m = json_env m' \<Longrightarrow> mset m = mset m'"
  by (metis json_env_def mset_sort)

lemma env_changes_json:
  assumes "gm_wf have" and "gm_wf want" and "json_env have = json_env want"
  shows "env_changes have want = []"
proof -
  have "mset have = mset want" by (rule json_env_same [OF assms(3)])
  then have "map_of have = map_of want"
    using assms(1,2) by (intro map_of_inject_set [THEN iffD2]) (auto simp: gm_wf_def dest: mset_eq_setD)
  then show ?thesis by (simp add: env_changes_Nil [OF assms(1,2)])
qed

section \<open>A spec stored as declared changes nothing\<close>

lemma update_change_None:
  "update_change sha have want = None \<longleftrightarrow> rolling_fields sha have want = [] \<and> live_fields have want = []"
  by (simp add: update_change_def Let_def)

text \<open>What the server owns of a stored record, over what a spec declares.\<close>

definition stored_as :: "Desired \<Rightarrow> Desired \<Rightarrow> bool" where
  "stored_as want have \<longleftrightarrow>
     (\<exists>gen pin rollback checked updated resolv.
        have = want\<lparr>d_Generation := gen, d_PinnedImage := pin, d_RollbackImage := rollback,
          d_ImageCheckedAt := checked, d_ImageUpdatedAt := updated, d_ResolvConfPath := resolv\<rparr>)"

lemma update_change_stored:
  assumes "stored_as want have" and "gm_wf (d_Env want)"
  shows "update_change sha have want = None"
  using assms
  by (auto simp: stored_as_def update_change_None rolling_fields_def live_fields_def AllExposes_def
      env_changes_Nil split: option.split)

lemma lookup_current:
  assumes "distinct (map d_key current)"
  shows "map_of (map_by d_key (\<lambda>svc. svc) current) k = Some have \<longleftrightarrow> have \<in> set current \<and> d_key have = k"
proof -
  have "distinct (map fst (rev (map (\<lambda>x. (d_key x, x)) current)))" using assms by (simp add: rev_map [symmetric] comp_def)
  then show ?thesis unfolding map_of_map_by by (auto simp: map_of_eq_Some_iff)
qed

lemma lookup_current_None:
  "map_of (map_by d_key (\<lambda>svc. svc) current) k = None \<longleftrightarrow> k \<notin> d_key ` set current"
  unfolding map_of_map_by map_of_eq_None_iff by (auto simp: image_image)

text \<open>
  A plan is silent about a node that already holds what the spec declares: whatever generation, pinned
  image or bookkeeping the server keeps beside it, and whatever other services the node runs outside
  the pruned projects.
\<close>

theorem plan_is_silent_when_stored:
  assumes "distinct (map d_key current)" and "\<forall>want\<in>set desired. gm_wf (d_Env want)"
    and "\<forall>want\<in>set desired. \<exists>have\<in>set current. stored_as want have"
    and "\<forall>have\<in>set current. d_Project have \<in> set pruneProjects \<longrightarrow> d_key have \<in> d_key ` set desired"
  shows "service_Changes sha current desired pruneProjects = []"
proof -
  have "desired_change sha current want = []" if w: "want \<in> set desired" for want
  proof -
    obtain h where h: "h \<in> set current" "stored_as want h" using assms(3) w by blast
    then have "d_key h = d_key want" by (auto simp: stored_as_def)
    then have "map_of (map_by d_key (\<lambda>svc. svc) current) (d_key want) = Some h"
      using lookup_current [OF assms(1)] h(1) by simp
    then show ?thesis using update_change_stored [OF h(2)] assms(2) w by (simp add: desired_change_def)
  qed
  moreover have "destructions current desired pruneProjects = []"
    using assms(4) by (auto simp: destructions_def filter_empty_conv)
  moreover have "concat (map (desired_change sha current) desired) = []" using calculation(1) by simp
  ultimately show ?thesis by (simp add: service_Changes_def)
qed

section \<open>A roll is announced only where the hash moves\<close>

text \<open>
  Paths a node resolved for a grant or a volume are not stored; a record read back has none.
\<close>

definition unresolved :: "Desired \<Rightarrow> bool" where
  "unresolved d \<longleftrightarrow> (\<forall>v\<in>set (d_Volumes d). v_resolvedHostPath v = '''')"

lemma hashableVolumes_json:
  assumes "\<forall>v\<in>set vs. v_resolvedHostPath v = ''''"
  shows "map (\<lambda>v. v\<lparr>v_resolvedHostPath := ''''\<rparr>) (hashableVolumes vs) = hashableVolumes vs"
  using assms by (auto simp: hashableVolumes_def)

lemma deviceMap_json:
  assumes "map (\<lambda>r. r\<lparr>dr_resolved := []\<rparr>) ds = map (\<lambda>r. r\<lparr>dr_resolved := []\<rparr>) es"
  shows "deviceMap ds = deviceMap es"
proof -
  let ?f = "\<lambda>d. (dr_Name d, ''(grant '' @ dr_Grant d @ '')'')"
  have "map ?f ds = map ?f (map (\<lambda>r. r\<lparr>dr_resolved := []\<rparr>) ds)" by simp
  also have "\<dots> = map ?f (map (\<lambda>r. r\<lparr>dr_resolved := []\<rparr>) es)" unfolding assms ..
  also have "\<dots> = map ?f es" by simp
  finally show ?thesis unfolding deviceMap_def by (rule map_by_cong)
qed

lemma socketMap_json:
  assumes "map (\<lambda>s. s\<lparr>sk_resolvedHostPath := ''''\<rparr>) ds = map (\<lambda>s. s\<lparr>sk_resolvedHostPath := ''''\<rparr>) es"
  shows "socketMap ds = socketMap es"
proof -
  let ?f = "\<lambda>s. (sk_Name s, ''(grant '' @ sk_Grant s @ '' at '' @ sk_MountPath s @ '', '' @ rwRO (sk_ReadOnly s) @ '')'')"
  have "map ?f ds = map ?f (map (\<lambda>s. s\<lparr>sk_resolvedHostPath := ''''\<rparr>) ds)" by simp
  also have "\<dots> = map ?f (map (\<lambda>s. s\<lparr>sk_resolvedHostPath := ''''\<rparr>) es)" unfolding assms ..
  also have "\<dots> = map ?f es" by simp
  finally show ?thesis unfolding socketMap_def by (rule map_by_cong)
qed

text \<open>Two lists of steps that are described alike, step by step, make the same family.\<close>

lemma initMap_cong:
  assumes "map (\<lambda>s. (ic_Name s, init_detail s)) (hashableInit ss) = map (\<lambda>s. (ic_Name s, init_detail s)) (hashableInit ts)"
  shows "initMap ss = initMap ts"
proof -
  let ?g = "\<lambda>(i, x). (udec (i + 1) @ ''. '' @ fst x, snd x)"
  have e: "map (\<lambda>p. ((case p of (i, s) \<Rightarrow> udec (i + 1) @ ''. '' @ ic_Name s), (case p of (i, s) \<Rightarrow> init_detail s))) (enumerate n us) =
    map ?g (enumerate n (map (\<lambda>s. (ic_Name s, init_detail s)) us))" for n us
    by (induction us arbitrary: n) simp_all
  show ?thesis unfolding initMap_def by (rule map_by_cong) (simp only: e assms)
qed

lemma init_detail_env: "length (ic_Env s) = length m \<Longrightarrow> init_detail (s\<lparr>ic_Env := m\<rparr>) = init_detail s"
  by (cases "ic_Env s"; cases m) (simp_all add: init_detail_def)

lemma json_env_length [simp]: "length (json_env m) = length m"
  by (simp add: json_env_def)

lemma initMap_json:
  assumes "map (\<lambda>s. s\<lparr>ic_Env := json_env (ic_Env s)\<rparr>) (hashableInit ss) = map (\<lambda>s. s\<lparr>ic_Env := json_env (ic_Env s)\<rparr>) (hashableInit ts)"
  shows "initMap ss = initMap ts"
proof -
  let ?f = "\<lambda>s. (ic_Name s, init_detail s)"
  have e: "map ?f us = map ?f (map (\<lambda>s. s\<lparr>ic_Env := json_env (ic_Env s)\<rparr>) us)" for us
    by (simp add: init_detail_env)
  have "map ?f (hashableInit ss) = map ?f (map (\<lambda>s. s\<lparr>ic_Env := json_env (ic_Env s)\<rparr>) (hashableInit ss))" by (rule e)
  also have "\<dots> = map ?f (map (\<lambda>s. s\<lparr>ic_Env := json_env (ic_Env s)\<rparr>) (hashableInit ts))" unfolding assms ..
  also have "\<dots> = map ?f (hashableInit ts)" by (rule e [symmetric])
  finally show ?thesis by (rule initMap_cong)
qed

lemma live_fields_roll: "\<not> rollsAny (live_fields have want)"
  by (simp add: live_fields_def)

lemma same_material_rolls_nothing:
  assumes "json_material (material have) = json_material (material want)"
    and "gm_wf (d_Env have)" and "gm_wf (d_Env want)" and "unresolved have" and "unresolved want"
  shows "\<not> rollsAny (rolling_fields sha have want)"
proof -
  note m = assms(1) [unfolded json_material_def material_def, simplified]
  have v: "hashableVolumes (d_Volumes have) = hashableVolumes (d_Volumes want)"
    using m hashableVolumes_json [of "d_Volumes have"] hashableVolumes_json [of "d_Volumes want"] assms(4,5)
    by (simp add: unresolved_def)
  have e: "env_changes (d_Env have) (d_Env want) = []" using env_changes_json [OF assms(2,3)] m by blast
  have d: "deviceMap (d_Devices have) = deviceMap (d_Devices want)" using m by (intro deviceMap_json) blast
  have s: "socketMap (d_Sockets have) = socketMap (d_Sockets want)" using m by (intro socketMap_json) blast
  have i: "initMap (d_Init have) = initMap (d_Init want)" using m by (intro initMap_json) blast
  have f: "fileMap sha (d_Files have) = fileMap sha (d_Files want)" using m by (simp add: fileMap_def)
  show ?thesis
    using m by (simp add: rolling_fields_def v e d s i f)
qed

text \<open>The digest has no collision between the two materials in question.\<close>

definition tells_apart :: "digest \<Rightarrow> Desired \<Rightarrow> Desired \<Rightarrow> bool" where
  "tells_apart H d e \<longleftrightarrow>
     (H (json_material (material d)) = H (json_material (material e)) \<longrightarrow> json_material (material d) = json_material (material e))"

text \<open>
  C16. When a plan says that a service rolls, its spec hash moves with nothing but the declared fields
  changed: the stored generation and pinned image, which the apply carries over, are taken from the
  stored record.
\<close>

theorem announced_roll_moves_the_hash:
  assumes "update_change sha have want = Some c" and "sc_Rolls c"
    and "want' = want\<lparr>d_Generation := d_Generation have, d_PinnedImage := d_PinnedImage have\<rparr>"
    and "tells_apart H have want'"
    and "gm_wf (d_Env have)" and "gm_wf (d_Env want)" and "unresolved have" and "unresolved want"
  shows "SpecHash H have \<noteq> SpecHash H want'"
proof
  let ?w = "want\<lparr>d_Generation := d_Generation have, d_PinnedImage := d_PinnedImage have\<rparr>"
  assume "SpecHash H have = SpecHash H want'"
  then have m: "json_material (material have) = json_material (material ?w)"
    using assms(3,4) by (simp add: SpecHash_def tells_apart_def)
  have "\<not> rollsAny (rolling_fields sha have ?w)"
    using assms(6,8) by (intro same_material_rolls_nothing [OF m assms(5) _ assms(7)]) (simp_all add: unresolved_def)
  moreover have "rolling_fields sha have ?w = rolling_fields sha have want" by (simp add: rolling_fields_def)
  moreover have "rollsAny (rolling_fields sha have want @ live_fields have want)"
    using assms(1,2) by (auto simp: update_change_def Let_def split: if_splits)
  ultimately show False using live_fields_roll by simp
qed

section \<open>Rolls that are not announced\<close>

lemma update_change_refl: "gm_wf (d_Env d) \<Longrightarrow> update_change sha d d = None"
proof (rule update_change_stored)
  show "stored_as d d"
    unfolding stored_as_def
    by (rule exI [of _ "d_Generation d"], rule exI [of _ "d_PinnedImage d"], rule exI [of _ "d_RollbackImage d"],
        rule exI [of _ "d_ImageCheckedAt d"], rule exI [of _ "d_ImageUpdatedAt d"], rule exI [of _ "d_ResolvConfPath d"]) simp
qed

text \<open>
  An init step is described by the number of its variables, but its whole environment is hash material:
  an edit of a value rolls the service, and the plan for it is empty.
\<close>

theorem init_env_edit_rolls_unannounced:
  assumes "i < length (d_Init d)" and "length env = length (ic_Env (d_Init d ! i))"
    and "gm_wf env" and "gm_wf (ic_Env (d_Init d ! i))" and "map_of env \<noteq> map_of (ic_Env (d_Init d ! i))"
    and "gm_wf (d_Env d)" and "tells_apart H d d'"
    and "d' = d\<lparr>d_Init := (d_Init d)[i := (d_Init d ! i)\<lparr>ic_Env := env\<rparr>]\<rparr>"
  shows "update_change sha d d' = None \<and> SpecHash H d \<noteq> SpecHash H d'"
proof
  let ?s = "d_Init d ! i" and ?ss = "d_Init d"
  let ?ts = "?ss[i := ?s\<lparr>ic_Env := env\<rparr>]"
  have "map (\<lambda>s. (ic_Name s, init_detail s)) (hashableInit ?ts) = map (\<lambda>s. (ic_Name s, init_detail s)) (hashableInit ?ss)"
    unfolding hashableInit_def map_update map_map comp_def using assms(1,2)
    by (intro nth_equalityI) (auto simp: nth_list_update init_detail_def)
  then have m: "initMap ?ts = initMap ?ss" by (rule initMap_cong)
  have "map init_setting ?ts = map init_setting ?ss"
    using assms(1) by (intro nth_equalityI) (auto simp: nth_list_update init_setting_def)
  then have "describeInitSettings ?ts = describeInitSettings ?ss" by (simp only: describeInitSettings_def)
  with m update_change_refl [OF assms(6), of sha] show "update_change sha d d' = None"
    unfolding assms(8) update_change_None rolling_fields_def live_fields_def
    by (simp add: AllExposes_def cong: option.case_cong)
  show "SpecHash H d \<noteq> SpecHash H d'"
  proof
    let ?j = "\<lambda>ss. map (\<lambda>s. s\<lparr>ic_Env := json_env (ic_Env s)\<rparr>) (hashableInit ss)"
    assume "SpecHash H d = SpecHash H d'"
    then have "json_material (material d) = json_material (material d')"
      using assms(7) by (simp add: SpecHash_def tells_apart_def)
    then have "?j ?ss = ?j ?ts" by (simp add: json_material_def material_def assms(8))
    then have "ic_Env (?j ?ss ! i) = ic_Env (?j ?ts ! i)" by (rule arg_cong)
    then have "json_env (ic_Env ?s) = json_env env" using assms(1) by (simp add: hashableInit_def)
    then have "mset (ic_Env ?s) = mset env" by (rule json_env_same)
    then have "map_of (ic_Env ?s) = map_of env"
      using assms(3,4) by (intro map_of_inject_set [THEN iffD2]) (auto simp: gm_wf_def dest: mset_eq_setD)
    with assms(5) show False by simp
  qed
qed

text \<open>
  Ports are hashed as the list the spec writes them in and compared by name: writing the blocks in
  another order rolls the service, and the plan for it is empty.
\<close>

theorem port_reorder_rolls_unannounced:
  assumes "mset ps = mset (d_Ports d)" and "distinct (map p_Name ps)" and "ps \<noteq> d_Ports d"
    and "gm_wf (d_Env d)" and "tells_apart H d (d\<lparr>d_Ports := ps\<rparr>)"
  shows "update_change sha d (d\<lparr>d_Ports := ps\<rparr>) = None \<and> SpecHash H d \<noteq> SpecHash H (d\<lparr>d_Ports := ps\<rparr>)"
proof
  have "map_of (portMap ps) = map_of (portMap (d_Ports d))"
    unfolding portMap_def by (rule map_by_perm [OF assms(1,2)])
  with update_change_refl [OF assms(4), of sha] show "update_change sha d (d\<lparr>d_Ports := ps\<rparr>) = None"
    unfolding update_change_None rolling_fields_def live_fields_def
    by (simp add: AllExposes_def cong: option.case_cong)
  show "SpecHash H d \<noteq> SpecHash H (d\<lparr>d_Ports := ps\<rparr>)"
    using assms(3,5) by (auto simp: SpecHash_def tells_apart_def json_material_def material_def)
qed

section \<open>No value of an environment is printed\<close>

definition rename_env :: "(string \<Rightarrow> string) \<Rightarrow> string gomap \<Rightarrow> string gomap" where
  "rename_env f = map (\<lambda>(k, v). (k, f v))"

definition rename_values :: "(string \<Rightarrow> string) \<Rightarrow> Desired \<Rightarrow> Desired" where
  "rename_values f d =
     d\<lparr>d_Env := rename_env f (d_Env d), d_Init := map (\<lambda>s. s\<lparr>ic_Env := rename_env f (ic_Env s)\<rparr>) (d_Init d)\<rparr>"

lemma rename_env_length [simp]: "length (rename_env f m) = length m" "rename_env f m = [] \<longleftrightarrow> m = []"
  by (simp_all add: rename_env_def)

lemma map_of_rename_env: "map_of (rename_env f m) k = map_option f (map_of m k)"
  by (induction m) (auto simp: rename_env_def)

lemma filter_rename_env:
  "(\<And>k v. P k (f v) \<longleftrightarrow> Q k v) \<Longrightarrow>
   map (\<lambda>(k, _). g k) (filter (\<lambda>(k, v). P k v) (rename_env f m)) = map (\<lambda>(k, _). g k) (filter (\<lambda>(k, v). Q k v) m)"
  by (induction m) (auto simp: rename_env_def)

lemma env_changes_rename:
  assumes "inj f"
  shows "env_changes (rename_env f have) (rename_env f want) = env_changes have want"
proof -
  have "map_option f x = Some (f v) \<longleftrightarrow> x = Some v" for x v using injD [OF assms] by (cases x) auto
  then show ?thesis
    unfolding env_changes_def by (simp add: map_of_rename_env filter_rename_env del: map_option_eq_Some)
qed

lemma initMap_rename: "initMap (map (\<lambda>s. s\<lparr>ic_Env := rename_env f (ic_Env s)\<rparr>) ss) = initMap ss"
  by (rule initMap_cong) (simp add: hashableInit_def init_detail_def)

lemma settings_rename: "describeInitSettings (map (\<lambda>s. s\<lparr>ic_Env := rename_env f (ic_Env s)\<rparr>) ss) = describeInitSettings ss"
proof -
  have "map init_setting (map (\<lambda>s. s\<lparr>ic_Env := rename_env f (ic_Env s)\<rparr>) ss) = map init_setting ss"
    by (simp add: init_setting_def)
  then show ?thesis by (simp only: describeInitSettings_def)
qed

lemma AllExposes_rename [simp]: "AllExposes (rename_values f d) = AllExposes d"
  by (simp add: AllExposes_def rename_values_def split: option.split)

lemma creation_rename: "creation sha (rename_values f d) = creation sha d"
  unfolding creation_def AllExposes_rename by (simp add: rename_values_def RunImage_def initMap_rename)

lemma destroyed_rename: "destroyed (rename_values f d) = destroyed d"
  unfolding destroyed_def AllExposes_rename by (simp add: rename_values_def RunImage_def)

lemma update_rename:
  assumes "inj f"
  shows "update_change sha (rename_values f have) (rename_values f want) = update_change sha have want"
proof -
  have "rolling_fields sha (rename_values f have) (rename_values f want) = rolling_fields sha have want"
    unfolding rolling_fields_def envDiff_def
    by (simp add: rename_values_def initMap_rename env_changes_rename [OF assms])
  moreover have "live_fields (rename_values f have) (rename_values f want) = live_fields have want"
    unfolding live_fields_def AllExposes_rename by (simp add: rename_values_def settings_rename)
  moreover have "RunImage (rename_values f want) = RunImage want" "d_Project (rename_values f want) = d_Project want"
    "d_Service (rename_values f want) = d_Service want" "d_Count (rename_values f want) = d_Count want"
    by (simp_all add: rename_values_def RunImage_def)
  ultimately show ?thesis unfolding update_change_def by (simp only:)
qed

lemma d_key_rename [simp]: "d_Service (rename_values f d) = d_Service d" "d_Project (rename_values f d) = d_Project d"
  by (simp_all add: rename_values_def)

text \<open>
  C17. The text of a plan does not depend on the values of any environment, beyond which of them are equal:
  whatever injective renaming is applied to every value on both sides, the same lines are printed.
\<close>

theorem env_values_are_not_printed:
  assumes "inj f"
  shows "DiffScoped sha (map (rename_values f) current) (map (rename_values f) desired) pruneProjects =
    DiffScoped sha current desired pruneProjects"
proof -
  have look: "map_of (map_by d_key (\<lambda>svc. svc) (map (rename_values f) current)) k =
      map_option (rename_values f) (map_of (map_by d_key (\<lambda>svc. svc) current) k)" for k
  proof -
    have "map_of (map (\<lambda>x. (d_key x, x)) (map (rename_values f) xs)) k =
        map_option (rename_values f) (map_of (map (\<lambda>x. (d_key x, x)) xs) k)" for xs
      by (induction xs) auto
    from this [of "rev current"] show ?thesis unfolding map_of_map_by by (simp add: rev_map)
  qed
  have one: "desired_change sha (map (rename_values f) current) (rename_values f want) = desired_change sha current want" for want
    by (simp add: desired_change_def look creation_rename update_rename [OF assms] split: option.split)
  have keys: "d_key ` set (map (rename_values f) desired) = d_key ` set desired" by (force simp: image_iff)
  have "destructions (map (rename_values f) current) (map (rename_values f) desired) pruneProjects =
      destructions current desired pruneProjects"
    unfolding destructions_def keys by (simp add: filter_map comp_def destroyed_rename)
  moreover have "map (desired_change sha (map (rename_values f) current)) (map (rename_values f) desired) =
      map (desired_change sha current) desired"
    by (simp add: one)
  ultimately show ?thesis unfolding DiffScoped_def service_Changes_def by (simp only:)
qed

section \<open>One entry for every affected service\<close>

lemma change_Key_simps [simp]:
  "change_Key (creation sha d) = d_key d" "change_Key (destroyed d) = d_key d"
  "sc_Kind (creation sha d) = ChangeCreate" "sc_Kind (destroyed d) = ChangeDestroy"
  by (simp_all add: change_Key_def creation_def destroyed_def service_key_def)

lemma update_change_fields:
  "update_change sha have want = Some c \<Longrightarrow> change_Key c = d_key want \<and> sc_Kind c = ChangeUpdate"
  by (auto simp: update_change_def Let_def change_Key_def service_key_def split: if_splits)

lemma desired_change_cases:
  assumes "distinct (map d_key current)" and "c \<in> set (desired_change sha current want)"
  shows "change_Key c = d_key want \<and> desired_change sha current want = [c] \<and>
    (sc_Kind c = ChangeCreate \<and> d_key want \<notin> d_key ` set current \<or>
     sc_Kind c = ChangeUpdate \<and> (\<exists>have\<in>set current. d_key have = d_key want \<and> update_change sha have want = Some c))"
proof (cases "map_of (map_by d_key (\<lambda>svc. svc) current) (d_key want)")
  case None
  then show ?thesis using assms(2) lookup_current_None [of current "d_key want"] by (simp add: desired_change_def)
next
  case (Some h)
  then have "h \<in> set current" "d_key h = d_key want" using lookup_current [OF assms(1)] by blast+
  moreover obtain c' where "update_change sha h want = Some c'" "c = c'"
    using Some assms(2) by (cases "update_change sha h want") (simp_all add: desired_change_def)
  ultimately show ?thesis
    using Some update_change_fields [of sha h want c] by (auto simp: desired_change_def)
qed

lemma set_Changes:
  "set (service_Changes sha current desired pruneProjects) =
     (\<Union>want\<in>set desired. set (desired_change sha current want)) \<union> set (destructions current desired pruneProjects)"
  by (simp add: service_Changes_def)

lemma distinct_append_keys:
  assumes "distinct (map f xs)" and "f ` set xs \<subseteq> {k}" and "distinct (map f ys)" and "f ` set ys \<subseteq> K" and "k \<notin> K"
  shows "distinct (map f (xs @ ys)) \<and> f ` set (xs @ ys) \<subseteq> insert k K"
proof -
  have "f ` set xs \<inter> f ` set ys = {}" using assms(2,4,5) by blast
  then show ?thesis using assms(1-4) by auto
qed

lemma Changes_distinct:
  assumes "distinct (map d_key current)" and "distinct (map d_key desired)"
  shows "distinct (map change_Key (service_Changes sha current desired pruneProjects))"
proof -
  let ?us = "\<lambda>desired. concat (map (desired_change sha current) desired)"
  let ?ds = "destructions current desired pruneProjects"
  note cases = desired_change_cases [OF assms(1), of _ sha]
  have us: "distinct (map change_Key (?us desired)) \<and> change_Key ` set (?us desired) \<subseteq> d_key ` set desired"
    using assms(2)
  proof (induction desired)
    case (Cons want ds)
    have "distinct (map change_Key (desired_change sha current want))"
    proof (cases "desired_change sha current want")
      case (Cons a xs)
      then have "desired_change sha current want = [a]" using cases [of a want] by simp
      then show ?thesis by simp
    qed simp
    moreover have "change_Key ` set (desired_change sha current want) \<subseteq> {d_key want}" using cases by blast
    moreover have "distinct (map change_Key (?us ds))" "change_Key ` set (?us ds) \<subseteq> d_key ` set ds" "d_key want \<notin> d_key ` set ds"
      using Cons by simp_all
    ultimately have "distinct (map change_Key (desired_change sha current want @ ?us ds)) \<and>
        change_Key ` set (desired_change sha current want @ ?us ds) \<subseteq> insert (d_key want) (d_key ` set ds)"
      by (rule distinct_append_keys)
    then show ?case by simp
  qed simp
  have ds: "distinct (map change_Key ?ds)"
    unfolding destructions_def map_map comp_def change_Key_simps using assms(1) by (simp add: distinct_map_filter)
  have "change_Key ` set ?ds \<inter> d_key ` set desired = {}" by (auto simp: destructions_def)
  then have "change_Key ` set (?us desired) \<inter> change_Key ` set ?ds = {}" using conjunct2 [OF us] by blast
  with conjunct1 [OF us] ds have "distinct (map change_Key (?us desired @ ?ds))"
    by (simp only: map_append distinct_append set_map simp_thms)
  moreover have "mset (map change_Key (service_Changes sha current desired pruneProjects)) = mset (map change_Key (?us desired @ ?ds))"
    unfolding service_Changes_def mset_map mset_sort ..
  note mset_eq_imp_distinct_iff [OF this]
  ultimately show ?thesis by (rule iffD2 [rotated])
qed

text \<open>Which entries of a kind there are.\<close>

lemma Changes_kinds:
  assumes "distinct (map d_key current)" and "c \<in> set (service_Changes sha current desired pruneProjects)"
  shows "case sc_Kind c of
      ChangeCreate \<Rightarrow> change_Key c \<in> d_key ` set desired \<and> change_Key c \<notin> d_key ` set current
    | ChangeUpdate \<Rightarrow> \<exists>have\<in>set current. \<exists>want\<in>set desired. change_Key c = d_key want \<and> d_key have = d_key want \<and>
        update_change sha have want = Some c
    | ChangeDestroy \<Rightarrow> c \<in> set (destructions current desired pruneProjects)"
proof (cases "c \<in> set (destructions current desired pruneProjects)")
  case True
  then have "sc_Kind c = ChangeDestroy" by (auto simp: destructions_def)
  with True show ?thesis by simp
next
  case False
  then obtain want where w: "want \<in> set desired" "c \<in> set (desired_change sha current want)"
    using assms(2) unfolding set_Changes by blast
  note kind = desired_change_cases [OF assms(1) w(2)]
  show ?thesis
  proof (cases "sc_Kind c = ChangeCreate")
    case True
    then show ?thesis using kind w(1) by auto
  next
    case False
    then obtain h where "sc_Kind c = ChangeUpdate" "change_Key c = d_key want" "h \<in> set current" "d_key h = d_key want"
      "update_change sha h want = Some c"
      using kind by blast
    then show ?thesis using w(1) by (simp only: ChangeKind.case) blast
  qed
qed

lemma Changes_creates:
  assumes "want \<in> set desired" and "d_key want \<notin> d_key ` set current"
  shows "creation sha want \<in> set (service_Changes sha current desired pruneProjects)"
proof -
  have "desired_change sha current want = [creation sha want]"
    using lookup_current_None [of current "d_key want"] assms(2) by (simp add: desired_change_def)
  then show ?thesis unfolding set_Changes using assms(1) by force
qed

lemma Changes_updates:
  assumes "distinct (map d_key current)" and "have \<in> set current" and "want \<in> set desired" and "d_key have = d_key want"
    and "update_change sha have want = Some c"
  shows "c \<in> set (service_Changes sha current desired pruneProjects)"
proof -
  have "map_of (map_by d_key (\<lambda>svc. svc) current) (d_key want) = Some have" using lookup_current [OF assms(1)] assms(2,4) by blast
  then have "desired_change sha current want = [c]" using assms(5) by (simp add: desired_change_def)
  then show ?thesis unfolding set_Changes using assms(3) by force
qed

text \<open>
  A plan has one entry for each service it affects, in the order of projects and services: a create for
  a service the node does not have, an update for one both have when something is reported, and a
  destroy for one of a pruned project that is no longer declared. It never destroys a service that is
  declared or that lies outside the pruned projects.
\<close>

theorem plan_covers_every_service:
  assumes "distinct (map d_key current)" and "distinct (map d_key desired)"
    and "cs = service_Changes sha current desired pruneProjects"
  shows "distinct (map change_Key cs) \<and> sorted (map (\<lambda>c. (sc_Project c, sc_Service c)) cs) \<and>
    {change_Key c | c. c \<in> set cs \<and> sc_Kind c = ChangeCreate} = d_key ` set desired - d_key ` set current \<and>
    {change_Key c | c. c \<in> set cs \<and> sc_Kind c = ChangeUpdate} =
      {d_key want | have want. have \<in> set current \<and> want \<in> set desired \<and> d_key have = d_key want \<and>
         update_change sha have want \<noteq> None} \<and>
    {change_Key c | c. c \<in> set cs \<and> sc_Kind c = ChangeDestroy} =
      {d_key have | have. have \<in> set current \<and> d_Project have \<in> set pruneProjects \<and> d_key have \<notin> d_key ` set desired}"
proof -
  note kinds = Changes_kinds [OF assms(1), of _ sha desired pruneProjects, folded assms(3)]
  have "distinct (map change_Key cs)" unfolding assms(3) by (rule Changes_distinct [OF assms(1,2)])
  moreover have "sorted (map (\<lambda>c. (sc_Project c, sc_Service c)) cs)" by (simp add: assms(3) service_Changes_def)
  moreover have "{change_Key c | c. c \<in> set cs \<and> sc_Kind c = ChangeCreate} = d_key ` set desired - d_key ` set current"
  proof -
    have "\<exists>c. d_key want = change_Key c \<and> c \<in> set cs \<and> sc_Kind c = ChangeCreate"
      if "want \<in> set desired" "d_key want \<notin> d_key ` set current" for want
      using Changes_creates [OF that, of sha pruneProjects] by (intro exI [of _ "creation sha want"]) (simp add: assms(3))
    then show ?thesis using kinds by fastforce
  qed
  moreover have "{change_Key c | c. c \<in> set cs \<and> sc_Kind c = ChangeUpdate} =
      {d_key want | have want. have \<in> set current \<and> want \<in> set desired \<and> d_key have = d_key want \<and>
         update_change sha have want \<noteq> None}"
  proof -
    have "\<exists>c. d_key want = change_Key c \<and> c \<in> set cs \<and> sc_Kind c = ChangeUpdate"
      if "have \<in> set current" "want \<in> set desired" "d_key have = d_key want" "update_change sha have want = Some c" for "have" want c
      using Changes_updates [OF assms(1) that, of pruneProjects] update_change_fields [OF that(4)]
      by (intro exI [of _ c]) (simp add: assms(3))
    then show ?thesis using kinds by fastforce
  qed
  moreover have "{change_Key c | c. c \<in> set cs \<and> sc_Kind c = ChangeDestroy} =
      {d_key have | have. have \<in> set current \<and> d_Project have \<in> set pruneProjects \<and> d_key have \<notin> d_key ` set desired}"
  proof -
    have "c \<in> set (destructions current desired pruneProjects)" if "c \<in> set cs" "sc_Kind c = ChangeDestroy" for c
      using kinds [OF that(1)] that(2) by simp
    moreover have "c \<in> set cs \<and> sc_Kind c = ChangeDestroy" if "c \<in> set (destructions current desired pruneProjects)" for c
      using that unfolding assms(3) set_Changes by (auto simp: destructions_def)
    ultimately have "{change_Key c | c. c \<in> set cs \<and> sc_Kind c = ChangeDestroy} = change_Key ` set (destructions current desired pruneProjects)"
      by blast
    then show ?thesis by (auto simp: destructions_def image_iff)
  qed
  ultimately show ?thesis by blast
qed

end
