(* ===== verification/Change_Examples.thy ===== *)
theory Change_Examples
  imports Spec_Changes_Facts Planner_Examples
begin

text \<open>
  Plans for concrete specs: a new image, an edited variable of an init step, a service that is pruned.
  Each property of plans is applied to one of them.
\<close>

definition ex_shown :: "string \<Rightarrow> string" where "ex_shown s = s"

definition ex_migrated :: "string \<Rightarrow> Desired" where
  "ex_migrated v = ex_web\<lparr>d_Env := [(''MODE'', ''prod'')], d_Init := [(ex_step ''migrate'')\<lparr>ic_Env := [(''SCHEMA'', v)]\<rparr>]\<rparr>"

lemma ex_migrated_init: "d_Init (ex_migrated v) = [(ex_step ''migrate'')\<lparr>ic_Env := [(''SCHEMA'', v)]\<rparr>]"
  by (simp add: ex_migrated_def)

text \<open>A digest that shows the environment of the first init step, and one that shows the image.\<close>

definition ex_env_digest :: digest where
  "ex_env_digest m = concat (map (\<lambda>s. concat (map snd (ic_Env s))) (hm_Init m))"

theorem init_env_edit_witness:
  "update_change ex_shown (ex_migrated ''v1'') (ex_migrated ''v2'') = None \<and>
   SpecHash ex_env_digest (ex_migrated ''v1'') \<noteq> SpecHash ex_env_digest (ex_migrated ''v2'')"
proof (rule init_env_edit_rolls_unannounced [where i = 0 and env = "[(''SCHEMA'', ''v2'')]"])
  show "ex_migrated ''v2'' = ex_migrated ''v1''\<lparr>d_Init := (d_Init (ex_migrated ''v1''))[0 := (d_Init (ex_migrated ''v1'') ! 0)\<lparr>ic_Env := [(''SCHEMA'', ''v2'')]\<rparr>]\<rparr>"
    by (simp add: ex_migrated_def)
  show "tells_apart ex_env_digest (ex_migrated ''v1'') (ex_migrated ''v2'')"
    by (simp add: tells_apart_def ex_env_digest_def json_material_def material_def ex_migrated_init hashableInit_def json_env_def)
  show "map_of [(''SCHEMA'', ''v2'')] \<noteq> map_of (ic_Env (d_Init (ex_migrated ''v1'') ! 0))"
    by (simp add: ex_migrated_init fun_eq_iff)
qed (simp_all add: ex_migrated_def gm_wf_def)

text \<open>The image changes from the stored record, which the server has restarted twice.\<close>

definition ex_stored :: Desired where
  "ex_stored = (ex_migrated ''v1'')\<lparr>d_Image := ''web:1'', d_Generation := 2\<rparr>"

lemma ex_announced:
  "\<exists>c. update_change ex_shown ex_stored (ex_migrated ''v1'') = Some c \<and> sc_Rolls c"
proof -
  have r: "rollsAny (rolling_fields ex_shown ex_stored (ex_migrated ''v1''))"
    by (simp add: rolling_fields_def ex_stored_def ex_migrated_def ex_web_def)
  then have "rolling_fields ex_shown ex_stored (ex_migrated ''v1'') \<noteq> []" by (auto simp: rollsAny_def)
  with r show ?thesis by (simp add: update_change_def Let_def)
qed

theorem announced_roll_witness:
  "SpecHash hm_Image ex_stored \<noteq> SpecHash hm_Image ((ex_migrated ''v1'')\<lparr>d_Generation := 2, d_PinnedImage := ''''\<rparr>)"
proof -
  obtain c where c: "update_change ex_shown ex_stored (ex_migrated ''v1'') = Some c" "sc_Rolls c" using ex_announced by blast
  show ?thesis
    by (rule announced_roll_moves_the_hash [OF c])
       (simp_all add: tells_apart_def json_material_def material_def ex_stored_def ex_migrated_def ex_web_def zero_desired_def
          gm_wf_def unresolved_def)
qed

theorem env_values_witness:
  "DiffScoped ex_shown (map (rename_values rev) [ex_stored]) (map (rename_values rev) [ex_migrated ''v1'']) [] =
   DiffScoped ex_shown [ex_stored] [ex_migrated ''v1''] []"
  by (rule env_values_are_not_printed) (simp add: inj_on_def)

definition ex_old :: Desired where
  "ex_old = ex_web\<lparr>d_Service := ''old''\<rparr>"

theorem plan_covers_witness:
  "{change_Key c | c. c \<in> set (service_Changes ex_shown [ex_stored, ex_old] [ex_migrated ''v1''] [''shop'']) \<and> sc_Kind c = ChangeDestroy} = {''shop/old''} \<and>
   {change_Key c | c. c \<in> set (service_Changes ex_shown [ex_stored, ex_old] [ex_migrated ''v1''] [''shop'']) \<and> sc_Kind c = ChangeCreate} = {}"
proof -
  have k: "d_Service ex_stored = ''web''" "d_Service ex_old = ''old''" "d_Service (ex_migrated v) = ''web''"
    "d_Project ex_stored = ''shop''" "d_Project ex_old = ''shop''" "d_Project (ex_migrated v) = ''shop''" for v
    by (simp_all add: ex_stored_def ex_old_def ex_migrated_def ex_web_def)
  have "distinct (map d_key [ex_stored, ex_old])" "distinct (map d_key [ex_migrated ''v1''])"
    by (simp_all add: ex_stored_def ex_old_def ex_migrated_def ex_web_def service_key_def)
  note p = plan_covers_every_service [OF this refl, of ex_shown "[''shop'']"]
  have "{change_Key c | c. c \<in> set (service_Changes ex_shown [ex_stored, ex_old] [ex_migrated ''v1''] [''shop'']) \<and> sc_Kind c = ChangeCreate} =
      d_key ` set [ex_migrated ''v1''] - d_key ` set [ex_stored, ex_old]"
    and "{change_Key c | c. c \<in> set (service_Changes ex_shown [ex_stored, ex_old] [ex_migrated ''v1''] [''shop'']) \<and> sc_Kind c = ChangeDestroy} =
      {d_key have | have. have \<in> set [ex_stored, ex_old] \<and> d_Project have \<in> set [''shop''] \<and> d_key have \<notin> d_key ` set [ex_migrated ''v1'']}"
    using p [THEN conjunct2, THEN conjunct2, THEN conjunct1]
      p [THEN conjunct2, THEN conjunct2, THEN conjunct2, THEN conjunct2] by (simp_all only:)
  moreover have "d_key ` set [ex_migrated ''v1''] - d_key ` set [ex_stored, ex_old] = {}" by (simp add: k)
  moreover have "{d_key have | have. have \<in> set [ex_stored, ex_old] \<and> d_Project have \<in> set [''shop''] \<and>
      d_key have \<notin> d_key ` set [ex_migrated ''v1'']} = {''shop/old''}"
    by (auto simp: k service_key_def intro!: exI [of _ ex_old])
  ultimately show ?thesis by simp
qed

theorem plan_is_silent_witness:
  "service_Changes ex_shown [(ex_migrated ''v1'')\<lparr>d_Generation := 3, d_PinnedImage := ''sha256:1''\<rparr>] [ex_migrated ''v1''] [''shop''] = []"
proof (rule plan_is_silent_when_stored)
  show "\<forall>want\<in>set [ex_migrated ''v1'']. \<exists>have\<in>set [(ex_migrated ''v1'')\<lparr>d_Generation := 3, d_PinnedImage := ''sha256:1''\<rparr>]. stored_as want have"
    by (simp add: stored_as_def ex_migrated_def ex_web_def zero_desired_def)
qed (simp_all add: gm_wf_def ex_migrated_def ex_web_def)

end
