(* ===== verification/Api_Rules.thy ===== *)
theory Api_Rules
  imports Desired_State Secret_Placeholders Go_Net Go_Path
begin

text \<open>
  The rules a record must meet at the boundary, as the spec language and the API share them: names
  (\<open>internal/jobspec/validate.go\<close>), capabilities (\<open>capabilities.go\<close>), the hardening posture
  (\<open>hardening.go\<close>), pull policies (\<open>initcontainer.go\<close>), secret references and their scope
  (\<open>validate.go\<close>, \<open>internal/secrets/envref.go\<close>), mounted files (\<open>file.go\<close>, \<open>secretref.go\<close>), and
  the node's policy on published ports (\<open>internal/api/publish.go\<close>, \<open>internal/jobspec/publish.go\<close>).
  A message of the code is a constructor that carries the values the message prints.
\<close>

unbundle bit_operations_syntax

section \<open>Names\<close>

definition is_lower_alnum :: "char \<Rightarrow> bool" where
  "is_lower_alnum c \<longleftrightarrow> is_lower c \<or> is_digit c"

text \<open>The regular expression: one letter or digit, then either nothing or any number of letters,
  digits and dashes followed by a letter or digit.\<close>

fun dns1123Label :: "string \<Rightarrow> bool" where
  "dns1123Label [] = False"
| "dns1123Label (c # rest) \<longleftrightarrow>
     is_lower_alnum c \<and>
     (rest = [] \<or> list_all (\<lambda>x. x = CHR ''-'' \<or> is_lower_alnum x) (butlast rest) \<and> is_lower_alnum (last rest))"

definition MaxNameLength :: nat where "MaxNameLength = 63"

definition IsName :: "string \<Rightarrow> bool" where
  "IsName s \<longleftrightarrow> length s \<le> MaxNameLength \<and> dns1123Label s"

lemma dns1123Label_iff:
  "dns1123Label s \<longleftrightarrow>
     s \<noteq> [] \<and> is_lower_alnum (hd s) \<and> is_lower_alnum (last s) \<and>
     (\<forall>c\<in>set s. c = CHR ''-'' \<or> is_lower_alnum c)"
proof (cases s)
  case (Cons c rest)
  have "set rest = insert (last rest) (set (butlast rest))" if "rest \<noteq> []"
    using that append_butlast_last_id [of rest] by (metis list.simps(15) rotate1.simps(2) set_rotate1)
  then show ?thesis using Cons by (cases "rest = []") (auto simp: list_all_iff)
qed simp

section \<open>Capabilities\<close>

definition ToUpper :: "string \<Rightarrow> string" where
  "ToUpper = map upper_char"

definition PermittedCapabilities :: "string list" where
  "PermittedCapabilities =
     [''CAP_AUDIT_WRITE'', ''CAP_CHOWN'', ''CAP_DAC_OVERRIDE'', ''CAP_FOWNER'', ''CAP_FSETID'', ''CAP_KILL'',
      ''CAP_MKNOD'', ''CAP_NET_BIND_SERVICE'', ''CAP_NET_RAW'', ''CAP_SETFCAP'', ''CAP_SETGID'',
      ''CAP_SETPCAP'', ''CAP_SETUID'', ''CAP_SYS_CHROOT'']"

definition forbiddenCapabilities :: "string list" where
  "forbiddenCapabilities =
     [''CAP_SYS_ADMIN'', ''CAP_SYS_MODULE'', ''CAP_SYS_RAWIO'', ''CAP_SYS_PTRACE'', ''CAP_SYS_BOOT'',
      ''CAP_SYS_TIME'', ''CAP_DAC_READ_SEARCH'', ''CAP_BPF'', ''CAP_PERFMON'', ''CAP_MAC_ADMIN'',
      ''CAP_MAC_OVERRIDE'', ''CAP_SYS_NICE'', ''CAP_SYS_RESOURCE'', ''CAP_NET_ADMIN'']"

definition capabilityNoneUpper :: string where
  "capabilityNoneUpper = ToUpper CapabilityNone"

datatype capability_error =
    CapabilityTwice string
  | CapabilityEmpty
  | CapabilityWithoutPrefix string
  | CapabilityForbidden string
  | CapabilityUnknown string

text \<open>The set of names seen so far is extended in place by the code and handed on here.\<close>

definition checkCapability :: "string \<Rightarrow> string list \<Rightarrow> capability_error + string list" where
  "checkCapability capability seen =
     (let name = ToUpper (TrimSpace capability) in
      if name = capabilityNoneUpper then
        (if CapabilityNone \<in> set seen then Inl (CapabilityTwice CapabilityNone)
         else Inr (CapabilityNone # seen))
      else if name = '''' then Inl CapabilityEmpty
      else if \<not> has_prefix name ''CAP_'' then Inl (CapabilityWithoutPrefix capability)
      else if name \<in> set seen then Inl (CapabilityTwice name)
      else if name \<in> set forbiddenCapabilities then Inl (CapabilityForbidden name)
      else if name \<notin> set PermittedCapabilities then Inl (CapabilityUnknown name)
      else Inr (name # seen))"

fun check_capabilities :: "string list \<Rightarrow> string list \<Rightarrow> capability_error option" where
  "check_capabilities [] seen = None"
| "check_capabilities (c # cs) seen =
     (case checkCapability c seen of Inl e \<Rightarrow> Some e | Inr seen' \<Rightarrow> check_capabilities cs seen')"

definition CheckCapabilities :: "string list \<Rightarrow> capability_error option" where
  "CheckCapabilities cs = check_capabilities cs []"

text \<open>\<open>NormalizeCapabilities\<close>, which the spec language's conversion runs over a checked list.\<close>

definition canonical_capability :: "string \<Rightarrow> string" where
  "canonical_capability c =
     (let name = ToUpper (TrimSpace c) in if name = capabilityNoneUpper then CapabilityNone else name)"

fun normalize_capabilities :: "string list \<Rightarrow> string list \<Rightarrow> string list" where
  "normalize_capabilities [] out = out"
| "normalize_capabilities (c # cs) out =
     (let name = canonical_capability c in
      if name = '''' \<or> name \<in> set out then normalize_capabilities cs out
      else normalize_capabilities cs (out @ [name]))"

definition NormalizeCapabilities :: "string list \<Rightarrow> string list" where
  "NormalizeCapabilities cs = sort (normalize_capabilities cs [])"

section \<open>The hardening posture\<close>

datatype hardening_error =
    UnknownHardening string
  | HardenedFunction
  | HardenedWithoutUser
  | HardenedRoot
  | HardenedGrant string

definition CheckHardening :: "string \<Rightarrow> string list \<Rightarrow> bool \<Rightarrow> bool \<Rightarrow> bool \<Rightarrow> hardening_error option" where
  "CheckHardening hardening capabilities hasUser rootUser function =
     (if hardening = '''' then None
      else if hardening \<noteq> HardeningRestricted then Some (UnknownHardening hardening)
      else if function then Some HardenedFunction
      else if \<not> hasUser then Some HardenedWithoutUser
      else if rootUser then Some HardenedRoot
      else first_error
             (\<lambda>c. if ToUpper (TrimSpace c) = capabilityNoneUpper then None else Some (HardenedGrant c))
             capabilities)"

section \<open>Pull policies\<close>

datatype pull_policy_error = UnknownPullPolicy string | AlwaysOnInit

definition CheckPullPolicy :: "string \<Rightarrow> bool \<Rightarrow> pull_policy_error option" where
  "CheckPullPolicy policy allowAlways =
     (if policy = '''' then None
      else if policy \<notin> {PullIfNotPresent, PullNever, PullAlways} then Some (UnknownPullPolicy policy)
      else if policy = PullAlways \<and> \<not> allowAlways then Some AlwaysOnInit
      else None)"

section \<open>Secret references\<close>

definition SecretPrefix :: string where "SecretPrefix = ''secret:''"
definition SharedSecretScope :: string where "SharedSecretScope = ''shared''"

datatype ref_error = NotAReference string | MalformedReference string | CrossProject string

definition CheckSecretRefScope :: "string \<Rightarrow> string \<Rightarrow> ref_error option" where
  "CheckSecretRefScope ref project =
     (if \<not> has_prefix ref SecretPrefix then Some (NotAReference ref)
      else case cut_byte (CHR ''/'') (TrimPrefix ref SecretPrefix) of
             None \<Rightarrow> Some (MalformedReference ref)
           | Some (scope, rest) \<Rightarrow>
               if scope = '''' \<or> rest = '''' then Some (MalformedReference ref)
               else if scope \<noteq> project \<and> scope \<noteq> SharedSecretScope then Some (CrossProject ref)
               else None)"

text \<open>\<open>ParseEnvRef\<close>: the canonical reference and whether it is delivered inline.\<close>

definition ParseEnvRef :: "string \<Rightarrow> (string \<times> bool) option" where
  "ParseEnvRef s =
     (if has_prefix s ''secret-env:'' then Some (''secret:'' @ drop 11 s, True)
      else if has_prefix s ''secret:'' then Some (s, False)
      else None)"

section \<open>Mounted files\<close>

definition MaxFileBytes :: int where "MaxFileBytes = 64 * 1024"
definition MaxServiceFileBytes :: int where "MaxServiceFileBytes = 128 * 1024"

definition systemMountPaths :: "string list" where
  "systemMountPaths = [''/dev'', ''/proc'', ''/sys'']"

definition systemPathFor :: "string \<Rightarrow> string" where
  "systemPathFor p =
     (case find (\<lambda>sys. p = sys \<or> has_prefix p (sys @ ''/'')) systemMountPaths of
        None \<Rightarrow> '''' | Some sys \<Rightarrow> sys)"

datatype file_error =
    NoPath string
  | RelativePath string string
  | UncleanPath string string
  | RootPath string
  | SystemPath string string string
  | ResolvConfPath string
  | FileTooLarge string int
  | FileHasNUL string nat
  | ModeNotOctal string string
  | ModeExecutable string string
  | ModeSpecialBits string string
  | ModeOwnerOnly string string
  | ModeExposesSecret string string

definition CheckFilePath :: "string \<Rightarrow> string \<Rightarrow> file_error option" where
  "CheckFilePath name p =
     (if p = '''' then Some (NoPath name)
      else if \<not> is_abs p then Some (RelativePath name p)
      else if path_clean p \<noteq> p then Some (UncleanPath name p)
      else if p = ''/'' then Some (RootPath name)
      else if systemPathFor p \<noteq> '''' then Some (SystemPath name p (systemPathFor p))
      else if p = ''/etc/resolv.conf'' then Some (ResolvConfPath name)
      else None)"

definition CheckFileSize :: "string \<Rightarrow> int \<Rightarrow> file_error option" where
  "CheckFileSize name n = (if n > MaxFileBytes then Some (FileTooLarge name n) else None)"

definition checkNoNUL :: "string \<Rightarrow> string \<Rightarrow> file_error option" where
  "checkNoNUL content name = map_option (FileHasNUL name) (str_index content [NUL])"

definition CheckFileContent :: "string \<Rightarrow> string \<Rightarrow> string \<Rightarrow> int \<Rightarrow> file_error option" where
  "CheckFileContent name content nonce refs =
     or_else (CheckFileSize name (int (length content)))
             (checkNoNUL (StripPlaceholders content nonce refs) name)"

text \<open>\<open>strconv.ParseUint(s, 8, 32)\<close>.\<close>

definition is_octal :: "char \<Rightarrow> bool" where
  "is_octal c \<longleftrightarrow> 48 \<le> (of_char c :: nat) \<and> (of_char c :: nat) \<le> 55"

definition parse_octal32 :: "string \<Rightarrow> 32 word option" where
  "parse_octal32 s =
     (let v = foldl (\<lambda>a c. a * 8 + (of_char c - 48)) (0::nat) s in
      if s = [] \<or> (\<exists>c\<in>set s. \<not> is_octal c) \<or> 2 ^ 32 \<le> v then None else Some (of_nat v))"

text \<open>The masks \<open>0o111\<close>, \<open>0o7000\<close>, \<open>0o004\<close> and \<open>0o077\<close> are 73, 3584, 4 and 63.\<close>

definition CheckFileMode :: "string \<Rightarrow> string \<Rightarrow> bool \<Rightarrow> file_error option" where
  "CheckFileMode name spelled hasSecrets =
     (if spelled = '''' then None
      else case parse_octal32 spelled of
             None \<Rightarrow> Some (ModeNotOctal name spelled)
           | Some mode \<Rightarrow>
               if length spelled > 4 then Some (ModeNotOctal name spelled)
               else if mode AND 73 \<noteq> 0 then Some (ModeExecutable name spelled)
               else if mode AND 3584 \<noteq> 0 then Some (ModeSpecialBits name spelled)
               else if \<not> hasSecrets \<and> mode AND 4 = 0 then Some (ModeOwnerOnly name spelled)
               else if hasSecrets \<and> mode AND 63 \<noteq> 0 then Some (ModeExposesSecret name spelled)
               else None)"

section \<open>Published ports\<close>

definition ReservedPorts :: "int list" where
  "ReservedPorts = [80, 443, 8600, 8601]"

definition MaxPort :: int where "MaxPort = 65535"

definition DefaultPublishRange :: string where "DefaultPublishRange = ''1024-65535''"
definition PublishOff :: string where "PublishOff = ''off''"

record PortPolicy =
  po_ranges :: "(int \<times> int) list"
  po_raw :: string

datatype policy_error = NotAPort string | OutsidePorts string | NamesNoPort string

definition policy_range :: "string \<Rightarrow> policy_error + int \<times> int" where
  "policy_range part =
     (let (lo, hi) = (case cut_byte (CHR ''-'') part of
                        None \<Rightarrow> (part, part) | Some (from_, to_) \<Rightarrow> (TrimSpace from_, TrimSpace to_)) in
      case Atoi lo of None \<Rightarrow> Inl (NotAPort part) | Some low \<Rightarrow>
      case Atoi hi of None \<Rightarrow> Inl (NotAPort part) | Some high \<Rightarrow>
        if low < 1 \<or> high > MaxPort \<or> low > high then Inl (OutsidePorts part) else Inr (low, high))"

fun policy_parts :: "string list \<Rightarrow> policy_error + (int \<times> int) list" where
  "policy_parts [] = Inr []"
| "policy_parts (p # ps) =
     (let part = TrimSpace p in
      if part = '''' then policy_parts ps
      else case policy_range part of Inl e \<Rightarrow> Inl e
           | Inr r \<Rightarrow> (case policy_parts ps of Inl e \<Rightarrow> Inl e | Inr rs \<Rightarrow> Inr (r # rs)))"

text \<open>The order \<open>sort.Slice\<close> leaves between ranges with one lower end is not specified; \<open>Allows\<close> does
  not depend on it.\<close>

definition ParsePortPolicy :: "string \<Rightarrow> policy_error + PortPolicy" where
  "ParsePortPolicy spec =
     (let trimmed = TrimSpace spec; spec = (if trimmed = '''' then DefaultPublishRange else trimmed) in
      if EqualFold spec PublishOff then Inr \<lparr>po_ranges = [], po_raw = PublishOff\<rparr>
      else case policy_parts (split_byte (CHR '','') spec) of
             Inl e \<Rightarrow> Inl e
           | Inr rs \<Rightarrow> if rs = [] then Inl (NamesNoPort spec)
                      else Inr \<lparr>po_ranges = sort_key fst rs, po_raw = spec\<rparr>)"

definition policy_String :: "PortPolicy \<Rightarrow> string" where
  "policy_String p = (if po_raw p = '''' then DefaultPublishRange else po_raw p)"

definition policy_Enabled :: "PortPolicy \<Rightarrow> bool" where
  "policy_Enabled p \<longleftrightarrow> po_ranges p \<noteq> []"

definition policy_Allows :: "PortPolicy \<Rightarrow> int \<Rightarrow> bool" where
  "policy_Allows p port \<longleftrightarrow>
     port \<notin> set ReservedPorts \<and> (\<exists>r\<in>set (po_ranges p). fst r \<le> port \<and> port \<le> snd r)"

datatype port_error = PublishingOff nat | PortReserved int | PortNotAllowed int string

definition policy_Check :: "PortPolicy \<Rightarrow> Desired \<Rightarrow> port_error option" where
  "policy_Check p d =
     (if d_Publish d = [] then None
      else if \<not> policy_Enabled p then Some (PublishingOff (length (d_Publish d)))
      else first_error
             (\<lambda>published.
                if pp_Host published \<in> set ReservedPorts then Some (PortReserved (pp_Host published))
                else if \<not> policy_Allows p (pp_Host published) then Some (PortNotAllowed (pp_Host published) (policy_String p))
                else None)
             (d_Publish d))"

end
