(* ===== verification/Api_Validate.thy ===== *)
theory Api_Validate
  imports Api_Rules
begin

text \<open>
  \<open>internal/api/validate.go\<close>: \<open>validateDesired\<close>, the check of a record that reaches the API without
  the spec language, in the order the code asks its questions, and the log paths built from stored
  names. An environment is a Go map, whose iteration order is not fixed: the order of the list
  decides which of two bad entries is reported, never whether one is.
\<close>

section \<open>What the validation refuses\<close>

datatype ref_place =
    VolumeAuthRef string
  | EnvRef string
  | InitRegistryRef string
  | InitEnvRef string string
  | FileRef string

datatype refusal =
    NamesNotLabels
  | BadCapability capability_error
  | BadHardening hardening_error
  | VolumeNotALabel string
  | BadReference ref_place ref_error
  | EndpointNotHTTPS string string
  | BadPullPolicy pull_policy_error
  | InitNotALabel string
  | InitTwice string
  | InitWithoutImage string
  | InitCapability string capability_error
  | InitPullPolicy string pull_policy_error
  | InitNegativeTimeout string
  | FileNotALabel string
  | FileTwice string
  | BadFile file_error
  | FileAlreadyMounted string string
  | FileWithoutNonce string
  | FilesTooLarge int
  | NegativePids
  | InitPids string
  | RuntimeWithVolumes
  | RuntimeWithDevices
  | RuntimeWithSockets
  | RuntimeWithCapabilities
  | RuntimeWithUser
  | RuntimeWithScaling
  | RuntimeWithInit
  | RuntimeWithFiles
  | RuntimeWithPids
  | AuthDiffers

section \<open>The parts\<close>

text \<open>A reference that is set must be in scope.\<close>

definition scoped_ref :: "string \<Rightarrow> ref_place \<Rightarrow> string \<Rightarrow> refusal option" where
  "scoped_ref project place ref = map_option (BadReference place) (CheckSecretRefScope ref project)"

definition optional_ref :: "string \<Rightarrow> ref_place \<Rightarrow> string \<Rightarrow> refusal option" where
  "optional_ref project place ref = (if ref = '''' then None else scoped_ref project place ref)"

definition check_env :: "string \<Rightarrow> (string \<Rightarrow> ref_place) \<Rightarrow> string gomap \<Rightarrow> refusal option" where
  "check_env project place env =
     first_error (\<lambda>(name, v). case ParseEnvRef v of
                    None \<Rightarrow> None | Some (ref, _) \<Rightarrow> scoped_ref project (place name) ref) env"

definition check_volume :: "string \<Rightarrow> Volume \<Rightarrow> refusal option" where
  "check_volume project v =
     (if \<not> IsName (v_Name v) then Some (VolumeNotALabel (v_Name v))
      else or_else
        (optional_ref project (VolumeAuthRef (v_Name v)) (sr_AuthRef (v_Resource v)))
        (if sr_Endpoint (v_Resource v) \<noteq> '''' \<and> \<not> has_prefix (sr_Endpoint (v_Resource v)) ''https://''
         then Some (EndpointNotHTTPS (sr_Name (v_Resource v)) (sr_Endpoint (v_Resource v))) else None))"

definition check_init :: "string \<Rightarrow> string list \<Rightarrow> InitContainer \<Rightarrow> refusal option" where
  "check_init project names step =
     (if \<not> IsName (ic_Name step) then Some (InitNotALabel (ic_Name step))
      else if ic_Name step \<in> set names then Some (InitTwice (ic_Name step))
      else if ic_Image step = '''' then Some (InitWithoutImage (ic_Name step))
      else or_else (map_option (InitCapability (ic_Name step)) (CheckCapabilities (ic_Capabilities step)))
          (or_else (map_option (InitPullPolicy (ic_Name step)) (CheckPullPolicy (ic_PullPolicy step) False))
          (if ic_Timeout step < 0 then Some (InitNegativeTimeout (ic_Name step))
           else or_else (optional_ref project (InitRegistryRef (ic_Name step)) (ic_RegistryAuthRef step))
                        (check_env project (\<lambda>name. InitEnvRef name (ic_Name step)) (ic_Env step)))))"

fun check_inits :: "string \<Rightarrow> string list \<Rightarrow> InitContainer list \<Rightarrow> refusal option" where
  "check_inits project names [] = None"
| "check_inits project names (step # steps) =
     or_else (check_init project names step) (check_inits project (ic_Name step # names) steps)"

definition check_file :: "string \<Rightarrow> string list \<Rightarrow> string list \<Rightarrow> FileMount \<Rightarrow> refusal option" where
  "check_file project seenFile seenPath f =
     (if \<not> IsName (fm_Name f) then Some (FileNotALabel (fm_Name f))
      else if fm_Name f \<in> set seenFile then Some (FileTwice (fm_Name f))
      else or_else (map_option BadFile (CheckFilePath (fm_Name f) (fm_Path f)))
          (if fm_Path f \<in> set seenPath then Some (FileAlreadyMounted (fm_Name f) (fm_Path f))
           else or_else (map_option BadFile (CheckFileContent (fm_Name f) (fm_Content f) (fm_Nonce f)
                           (int (length (fm_SecretRefs f)))))
               (or_else (map_option BadFile (CheckFileMode (fm_Name f) (fm_Mode f) (fm_SecretRefs f \<noteq> [])))
               (or_else (first_error (scoped_ref project (FileRef (fm_Name f))) (fm_SecretRefs f))
                 (if fm_Nonce f = '''' \<and> fm_SecretRefs f \<noteq> [] then Some (FileWithoutNonce (fm_Name f))
                  else None)))))"

text \<open>The loop over the files, with the running total of their sizes; the limit is asked after it.\<close>

fun check_files :: "string \<Rightarrow> string list \<Rightarrow> string list \<Rightarrow> int \<Rightarrow> FileMount list \<Rightarrow> refusal option" where
  "check_files project seenFile seenPath bytes [] =
     (if bytes > MaxServiceFileBytes then Some (FilesTooLarge bytes) else None)"
| "check_files project seenFile seenPath bytes (f # fs) =
     or_else (check_file project seenFile seenPath f)
             (check_files project (fm_Name f # seenFile) (fm_Path f # seenPath)
                          (bytes + int (length (fm_Content f))) fs)"

definition mounted_paths :: "Desired \<Rightarrow> string list" where
  "mounted_paths svc = map v_MountPath (d_Volumes svc) @ map sk_MountPath (d_Sockets svc)"

text \<open>\<open>runtime.DefaultPidsLimit\<close>.\<close>

definition DefaultPidsLimit :: int where "DefaultPidsLimit = 256"

definition check_init_pids :: "InitContainer \<Rightarrow> refusal option" where
  "check_init_pids step =
     (if res_PidsLimit (ic_Resources step) \<noteq> 0 \<and> res_PidsLimit (ic_Resources step) \<noteq> DefaultPidsLimit
      then Some (InitPids (ic_Name step)) else None)"

definition check_runtime :: "Desired \<Rightarrow> refusal option" where
  "check_runtime svc =
     (if d_Runtime svc = '''' then None
      else if d_Volumes svc \<noteq> [] then Some RuntimeWithVolumes
      else if d_Devices svc \<noteq> [] then Some RuntimeWithDevices
      else if d_Sockets svc \<noteq> [] then Some RuntimeWithSockets
      else if d_Capabilities svc \<noteq> [] then Some RuntimeWithCapabilities
      else if d_User svc \<noteq> None then Some RuntimeWithUser
      else if d_Scaling svc \<noteq> None then Some RuntimeWithScaling
      else if d_Init svc \<noteq> [] then Some RuntimeWithInit
      else if d_Files svc \<noteq> [] then Some RuntimeWithFiles
      else if res_PidsLimit (d_Resources svc) \<noteq> 0 \<and> res_PidsLimit (d_Resources svc) \<noteq> DefaultPidsLimit
      then Some RuntimeWithPids else None)"

fun check_auths :: "AuthPolicy option \<Rightarrow> Expose list \<Rightarrow> refusal option" where
  "check_auths first [] = None"
| "check_auths first (e # es) =
     (case ex_Auth e of
        None \<Rightarrow> check_auths first es
      | Some a \<Rightarrow> (case first of
                    None \<Rightarrow> check_auths (Some a) es
                  | Some b \<Rightarrow> if b \<noteq> a then Some AuthDiffers else check_auths first es))"

section \<open>The whole\<close>

definition has_root_user :: "Desired \<Rightarrow> bool" where
  "has_root_user svc \<longleftrightarrow> (case d_User svc of None \<Rightarrow> False | Some u \<Rightarrow> u_UID u = 0)"

definition validateDesired :: "Desired \<Rightarrow> refusal option" where
  "validateDesired svc =
     (if \<not> IsName (d_Project svc) \<or> \<not> IsName (d_Service svc) then Some NamesNotLabels
      else or_else (map_option BadCapability (CheckCapabilities (d_Capabilities svc)))
          (or_else (map_option BadHardening
                     (CheckHardening (d_Hardening svc) (d_Capabilities svc) (d_User svc \<noteq> None)
                        (has_root_user svc) (d_Runtime svc \<noteq> '''')))
          (or_else (first_error (check_volume (d_Project svc)) (d_Volumes svc))
          (or_else (check_env (d_Project svc) EnvRef (d_Env svc))
          (or_else (map_option BadPullPolicy (CheckPullPolicy (d_PullPolicy svc) True))
          (or_else (check_inits (d_Project svc) [] (d_Init svc))
          (or_else (check_files (d_Project svc) [] (mounted_paths svc) 0 (d_Files svc))
          (or_else (if res_PidsLimit (d_Resources svc) < 0 then Some NegativePids else None)
          (or_else (first_error check_init_pids (d_Init svc))
          (or_else (check_runtime svc) (check_auths None (AllExposes svc))))))))))))"

section \<open>Log paths\<close>

text \<open>\<open>filepath.Rel\<close> of a path below a directory never starts with a dot-dot component.\<close>

definition escapes :: "string option \<Rightarrow> bool" where
  "escapes rel \<longleftrightarrow> (case rel of None \<Rightarrow> True | Some r \<Rightarrow> r = ''..'' \<or> has_prefix r ''../'')"

definition logPathFor :: "string \<Rightarrow> string \<Rightarrow> string option" where
  "logPathFor logDir allocID =
     (let path = path_join [logDir, allocID @ ''.log''] in
      if escapes (path_rel logDir path) then None else Some path)"

definition initLogPathFor :: "string \<Rightarrow> string \<Rightarrow> int \<Rightarrow> string \<Rightarrow> string option" where
  "initLogPathFor logDir allocID ordinal name =
     (let path = path_join [logDir, InitID allocID ordinal name @ ''.log''] in
      if escapes (path_rel logDir path) then None else Some path)"

fun resolve_init :: "int \<Rightarrow> InitContainer list \<Rightarrow> string \<Rightarrow> int option" where
  "resolve_init i [] name = None"
| "resolve_init i (step # steps) name = (if ic_Name step = name then Some i else resolve_init (i + 1) steps name)"

definition resolveInitStep :: "Desired \<Rightarrow> string \<Rightarrow> int option" where
  "resolveInitStep svc name = resolve_init 0 (d_Init svc) name"

end
