(* ===== verification/Api_Apply.thy ===== *)
theory Api_Apply
  imports Api_Validate State_Store
begin

text \<open>
  The writing half of \<open>internal/api\<close>: \<open>applyServices\<close>, \<open>pin\<close>, \<open>pruneOrphans\<close>,
  \<open>handleDeleteService\<close> and \<open>handleScale\<close> of \<open>server.go\<close>, \<open>handleRestart\<close> and \<open>handleDeleteProject\<close>
  of \<open>projects.go\<close>.

  \<^item> JSON is a parameter: an encoder and a decoder for services and for pipeline configurations. Of a
    configuration only the fields the API touches are named; the rest is its type parameter.
  \<^item> The registry lookup of \<open>ImagePinner\<close> is a parameter, \<open>None\<close> on a daemon without one.
  \<^item> A handler answers an HTTP status with an error or the response, and says what else it did: whether
    it woke the reconciler, the events it published, the line it left for the audit log.
  \<^item> A handler that changes a record reads it in one store transaction and writes it in another. The
    definitions give the writing half as a function of the store at that moment, so that other
    writers can come in between; \<open>at_once\<close> runs both halves on one store.
\<close>

section \<open>Data\<close>

definition KindService :: Kind where "KindService = ''services''"
definition KindProject :: Kind where "KindProject = ''projects''"

record 'r Config =
  cf_Project :: string
  cf_Settings :: 'r
  cf_LastCommit :: string
  cf_LastSyncAt :: time

record 'r ApplyRequest =
  rq_Services :: "Desired list"
  rq_Pipelines :: "'r Config list"
  rq_PruneProjects :: "string list"

record ApplyResponse =
  rs_Applied :: "string list"
  rs_Removed :: "string list"
  rs_Index :: "64 word"

record DeleteProjectResponse =
  dp_Project :: string
  dp_Removed :: "string list"
  dp_ConfigRemoved :: bool
  dp_Index :: "64 word"

text \<open>An event of the API: what it fills in beside the severity its name implies and the time.\<close>

record Event =
  ev_Name :: string
  ev_Project :: string
  ev_Service :: string
  ev_Message :: string

definition EventDeploySucceeded :: string where "EventDeploySucceeded = ''deploy.succeeded''"
definition EventDeployStarted :: string where "EventDeployStarted = ''deploy.started''"
definition EventServiceRemoved :: string where "EventServiceRemoved = ''service.removed''"

datatype api_error =
    NoServices
  | Unnamed
  | Refused refusal
  | PublishRefused port_error
  | UnknownRuntime string string
  | ExecOnWasm string
  | EncodeFailed string
  | UnnamedPipeline
  | PipelineNotALabel string
  | ReadFault read_error
  | WriteFault store_error
  | NoSuchService string
  | NoSuchProject string
  | NegativeCount
  | Autoscaled string int int int
  | ChangedMeanwhile string

text \<open>The parts of the server a request uses. \<open>sv_Ctx\<close> and \<open>sv_WriteCtx\<close> are the answers of the
  request's context at its reads and at its write, \<open>sv_Commit\<close> that of the database commit, and the
  two clocks are the server's and the store's.\<close>

record 'r Server =
  sv_Policy :: PortPolicy
  sv_Pinner :: "(Desired \<Rightarrow> string + string) option"
  sv_Encode :: "Desired \<Rightarrow> string + string"
  sv_Decode :: "string \<Rightarrow> string + Desired"
  sv_EncodeConfig :: "'r Config \<Rightarrow> string + string"
  sv_DecodeConfig :: "string \<Rightarrow> string + 'r Config"
  sv_Ctx :: "string option"
  sv_WriteCtx :: "string option"
  sv_Commit :: "string option"
  sv_Now :: time
  sv_Stamp :: time

record effects =
  ef_Woke :: bool
  ef_Events :: "Event list"
  ef_Audit :: string

definition nothing :: "string \<Rightarrow> effects" where
  "nothing audit = \<lparr>ef_Woke = False, ef_Events = [], ef_Audit = audit\<rparr>"

type_synonym 'a answer = "(nat \<times> api_error) + 'a"

definition dec_service :: "'r Server \<Rightarrow> Record \<Rightarrow> string + Desired" where
  "dec_service sv r = sv_Decode sv (rc_Value r)"

definition dec_config :: "'r Server \<Rightarrow> Record \<Rightarrow> string + 'r Config" where
  "dec_config sv r = sv_DecodeConfig sv (rc_Value r)"

definition read_service :: "'r Server \<Rightarrow> string \<Rightarrow> Store \<Rightarrow> read_error + Desired \<times> 64 word" where
  "read_service sv key s = GetValue (dec_service sv) (sv_Ctx sv) KindService key s"

definition store_write :: "'r Server \<Rightarrow> Mutation list \<Rightarrow> Store \<Rightarrow> (store_error + 64 word) \<times> Store" where
  "store_write sv muts s = Apply (sv_WriteCtx sv) (sv_Commit sv) (sv_Stamp sv) muts s"

definition listOptions :: ListOptions where
  "listOptions = \<lparr>lo_Prefix = '''', lo_After = '''', lo_Limit = 0, lo_KeysOnly = False, lo_Reverse = False\<rparr>"

definition listAll :: "(Record \<Rightarrow> string + 'a) \<Rightarrow> string option \<Rightarrow> Kind \<Rightarrow> Store \<Rightarrow> (read_error + 'a list) option" where
  "listAll dec ctx kind s = load_all dec ctx kind listOptions s []"

text \<open>\<open>strings.Cut(key, "/")\<close>, whose parts are the whole and nothing when there is no separator.\<close>

definition cut_key :: "string \<Rightarrow> string \<times> string" where
  "cut_key key = (case cut_byte (CHR ''/'') key of None \<Rightarrow> (key, '''') | Some p \<Rightarrow> p)"

definition event_for :: "string \<Rightarrow> string \<Rightarrow> string \<Rightarrow> Event" where
  "event_for name message key =
     \<lparr>ev_Name = name, ev_Project = fst (cut_key key), ev_Service = snd (cut_key key), ev_Message = message\<rparr>"

section \<open>Applying\<close>

definition carry_over :: "Desired \<Rightarrow> Desired \<Rightarrow> Desired" where
  "carry_over current svc =
     (let svc = svc\<lparr>d_Generation := d_Generation current\<rparr> in
      if up_Auto (d_Update svc) \<and> d_Image svc = d_Image current then
        svc\<lparr>d_PinnedImage := d_PinnedImage current, d_RollbackImage := d_RollbackImage current,
            d_ImageUpdatedAt := d_ImageUpdatedAt current\<rparr>
      else svc)"

definition pin :: "'r Server \<Rightarrow> Desired \<Rightarrow> Desired" where
  "pin sv svc =
     (case sv_Pinner sv of
        None \<Rightarrow> svc
      | Some resolve \<Rightarrow>
          if \<not> up_Auto (d_Update svc) \<or> d_PinnedImage svc \<noteq> '''' \<or> d_Image svc = '''' then svc
          else case resolve svc of
                 Inl _ \<Rightarrow> svc
               | Inr pinned \<Rightarrow> svc\<lparr>d_PinnedImage := pinned, d_ImageCheckedAt := sv_Now sv\<rparr>)"

text \<open>The record the apply of a service stores: any failure to read the current one counts as none.\<close>

definition merged_service :: "'r Server \<Rightarrow> Store \<Rightarrow> Desired \<Rightarrow> Desired" where
  "merged_service sv s svc =
     pin sv (case read_service sv (d_key svc) s of
               Inl _ \<Rightarrow> svc
             | Inr (current, _) \<Rightarrow> carry_over current svc)"

definition runtime_refusal :: "Desired \<Rightarrow> api_error option" where
  "runtime_refusal svc =
     (if d_Runtime svc \<noteq> '''' \<and> d_Runtime svc \<noteq> RuntimeWasmtime then
        Some (UnknownRuntime (d_key svc) (d_Runtime svc))
      else case d_Check svc of
             None \<Rightarrow> None
           | Some c \<Rightarrow> if d_Runtime svc = RuntimeWasmtime \<and> hc_Type c = ''exec'' then Some (ExecOnWasm (d_key svc))
                     else None)"

definition put_service :: "'r Server \<Rightarrow> Store \<Rightarrow> Desired \<Rightarrow> Mutation answer" where
  "put_service sv s svc =
     (if d_Project svc = '''' \<or> d_Service svc = '''' then Inl (400, Unnamed)
      else case validateDesired svc of Some e \<Rightarrow> Inl (400, Refused e) | None \<Rightarrow>
        let svc' = merged_service sv s svc in
        case policy_Check (sv_Policy sv) svc' of Some e \<Rightarrow> Inl (403, PublishRefused e) | None \<Rightarrow>
        case runtime_refusal svc' of Some e \<Rightarrow> Inl (400, e) | None \<Rightarrow>
        case sv_Encode sv svc' of Inl m \<Rightarrow> Inl (500, EncodeFailed m)
        | Inr raw \<Rightarrow> Inr (PutMutation KindService (d_key svc) raw))"

definition merged_config :: "'r Server \<Rightarrow> Store \<Rightarrow> 'r Config \<Rightarrow> 'r Config" where
  "merged_config sv s pipeline =
     (case GetValue (dec_config sv) (sv_Ctx sv) KindProject (cf_Project pipeline) s of
        Inl _ \<Rightarrow> pipeline
      | Inr (current, _) \<Rightarrow>
          pipeline\<lparr>cf_LastCommit := cf_LastCommit current, cf_LastSyncAt := cf_LastSyncAt current\<rparr>)"

definition put_config :: "'r Server \<Rightarrow> Store \<Rightarrow> 'r Config \<Rightarrow> Mutation answer" where
  "put_config sv s pipeline =
     (if cf_Project pipeline = '''' then Inl (400, UnnamedPipeline)
      else if \<not> IsName (cf_Project pipeline) then Inl (400, PipelineNotALabel (cf_Project pipeline))
      else case sv_EncodeConfig sv (merged_config sv s pipeline) of
             Inl m \<Rightarrow> Inl (500, EncodeFailed m)
           | Inr raw \<Rightarrow> Inr (PutMutation KindProject (cf_Project pipeline) raw))"

text \<open>A loop that stops at the first error.\<close>

fun collect_answers :: "('a \<Rightarrow> 'b answer) \<Rightarrow> 'a list \<Rightarrow> 'b list answer" where
  "collect_answers f [] = Inr []"
| "collect_answers f (x # xs) =
     (case f x of Inl e \<Rightarrow> Inl e
      | Inr y \<Rightarrow> (case collect_answers f xs of Inl e \<Rightarrow> Inl e | Inr ys \<Rightarrow> Inr (y # ys)))"

definition orphaned :: "string list \<Rightarrow> string list \<Rightarrow> Desired list \<Rightarrow> string list" where
  "orphaned scope declared stored =
     sort (map d_key
            (filter (\<lambda>svc. d_Project svc \<in> set scope \<and> d_key svc \<notin> set declared) stored))"

definition pruneOrphans ::
  "'r Server \<Rightarrow> 'r ApplyRequest \<Rightarrow> string list \<Rightarrow> Store \<Rightarrow> (read_error + string list) option" where
  "pruneOrphans sv req applied s =
     (if rq_PruneProjects req = [] then Some (Inr [])
      else case listAll (dec_service sv) (sv_Ctx sv) KindService s of
             None \<Rightarrow> None
           | Some (Inl e) \<Rightarrow> Some (Inl e)
           | Some (Inr stored) \<Rightarrow> Some (Inr (orphaned (rq_PruneProjects req) applied stored)))"

definition audit_line :: "string list \<Rightarrow> string list \<Rightarrow> string" where
  "audit_line applied removed =
     str_join '','' applied @ (if removed = [] then '''' else '' -'' @ str_join '',-'' removed)"

text \<open>The reading half: what the request will write, or its refusal.\<close>

definition plan_apply ::
  "'r Server \<Rightarrow> 'r ApplyRequest \<Rightarrow> Store \<Rightarrow> (Mutation list \<times> string list \<times> string list) answer option" where
  "plan_apply sv req s =
     (if rq_Services req = [] \<and> rq_PruneProjects req = [] then Some (Inl (400, NoServices))
      else case collect_answers (put_service sv s) (rq_Services req) of Inl e \<Rightarrow> Some (Inl e) | Inr puts \<Rightarrow>
           case collect_answers (put_config sv s) (rq_Pipelines req) of Inl e \<Rightarrow> Some (Inl e) | Inr configs \<Rightarrow>
           let applied = map d_key (rq_Services req) in
           case pruneOrphans sv req applied s of
             None \<Rightarrow> None
           | Some (Inl e) \<Rightarrow> Some (Inl (500, ReadFault e))
           | Some (Inr removed) \<Rightarrow>
               Some (Inr (puts @ configs @ map (DeleteMutation KindService) removed, applied, removed)))"

definition commit_apply ::
  "'r Server \<Rightarrow> Mutation list \<times> string list \<times> string list \<Rightarrow> Store \<Rightarrow> ApplyResponse answer \<times> effects \<times> Store" where
  "commit_apply sv p s =
     (let (muts, applied, removed) = p in
      case store_write sv muts s of
        (Inl e, s') \<Rightarrow> (Inl (500, WriteFault e), nothing '''', s')
      | (Inr index, s') \<Rightarrow>
          (Inr \<lparr>rs_Applied = applied, rs_Removed = removed, rs_Index = index\<rparr>,
           \<lparr>ef_Woke = True,
            ef_Events = map (event_for EventDeploySucceeded ''applied desired state'') applied @
              map (event_for EventServiceRemoved ''no longer declared by the spec that owns this project'') removed,
            ef_Audit = audit_line applied removed\<rparr>, s'))"

definition applyServices ::
  "'r Server \<Rightarrow> 'r ApplyRequest \<Rightarrow> Store \<Rightarrow> (ApplyResponse answer \<times> effects \<times> Store) option" where
  "applyServices sv req s =
     (case plan_apply sv req s of
        None \<Rightarrow> None
      | Some (Inl e) \<Rightarrow> Some (Inl e, nothing '''', s)
      | Some (Inr p) \<Rightarrow> Some (commit_apply sv p s))"

section \<open>Deleting a service\<close>

definition handleDeleteService ::
  "'r Server \<Rightarrow> string \<Rightarrow> string \<Rightarrow> Store \<Rightarrow> ApplyResponse answer \<times> effects \<times> Store" where
  "handleDeleteService sv project service s =
     (let key = service_key project service in
      case Get (sv_Ctx sv) KindService key s of
        Inl (ErrNotFound k n) \<Rightarrow> (Inl (404, NoSuchService key), nothing key, s)
      | Inl e \<Rightarrow> (Inl (500, ReadFault (ReadFailed e)), nothing key, s)
      | Inr _ \<Rightarrow>
          (case store_write sv [DeleteMutation KindService key] s of
             (Inl e, s') \<Rightarrow> (Inl (500, WriteFault e), nothing key, s')
           | (Inr index, s') \<Rightarrow>
               (Inr \<lparr>rs_Applied = [key], rs_Removed = [], rs_Index = index\<rparr>,
                \<lparr>ef_Woke = True,
                 ef_Events = [\<lparr>ev_Name = EventServiceRemoved, ev_Project = project, ev_Service = service,
                               ev_Message = ''declaration deleted by request''\<rparr>],
                 ef_Audit = key\<rparr>, s')))"

section \<open>Scaling\<close>

definition missing_or :: "string \<Rightarrow> read_error \<Rightarrow> nat \<times> api_error" where
  "missing_or key e = (case e of ReadFailed (ErrNotFound k n) \<Rightarrow> (404, NoSuchService key) | _ \<Rightarrow> (500, ReadFault e))"

text \<open>The bounds a replica count breaks: those of a service the autoscaler governs.\<close>

definition outside_bounds :: "Desired \<Rightarrow> int \<Rightarrow> (int \<times> int) option" where
  "outside_bounds desired n =
     (case d_Scaling desired of
        None \<Rightarrow> None
      | Some p \<Rightarrow>
          if sp_Max p > 0 \<and> sp_Metrics p \<noteq> [] \<and> (n < sp_Min p \<or> n > sp_Max p)
          then Some (sp_Min p, sp_Max p) else None)"

definition plan_scale :: "'r Server \<Rightarrow> string \<Rightarrow> int \<Rightarrow> Store \<Rightarrow> Mutation answer" where
  "plan_scale sv key n s =
     (if n < 0 then Inl (400, NegativeCount)
      else case read_service sv key s of Inl e \<Rightarrow> Inl (missing_or key e)
           | Inr (desired, index) \<Rightarrow>
               case outside_bounds desired n of Some (lo, hi) \<Rightarrow> Inl (409, Autoscaled key lo hi n) | None \<Rightarrow>
               case sv_Encode sv (desired\<lparr>d_Count := n\<rparr>) of Inl m \<Rightarrow> Inl (500, EncodeFailed m)
               | Inr raw \<Rightarrow> Inr (UpdateMutation KindService key raw index))"

definition commit_scale ::
  "'r Server \<Rightarrow> string \<Rightarrow> Mutation \<Rightarrow> Store \<Rightarrow> ApplyResponse answer \<times> effects \<times> Store" where
  "commit_scale sv key m s =
     (case store_write sv [m] s of
        (Inl (ErrConflict i), s') \<Rightarrow> (Inl (409, ChangedMeanwhile key), nothing key, s')
      | (Inl e, s') \<Rightarrow> (Inl (500, WriteFault e), nothing key, s')
      | (Inr index, s') \<Rightarrow>
          (Inr \<lparr>rs_Applied = [key], rs_Removed = [], rs_Index = index\<rparr>,
           \<lparr>ef_Woke = True, ef_Events = [], ef_Audit = key\<rparr>, s'))"

definition at_once ::
  "string \<Rightarrow> (Store \<Rightarrow> 'a answer) \<Rightarrow> ('a \<Rightarrow> Store \<Rightarrow> 'b answer \<times> effects \<times> Store) \<Rightarrow> Store \<Rightarrow> 'b answer \<times> effects \<times> Store" where
  "at_once audit plan commit s =
     (case plan s of Inl e \<Rightarrow> (Inl e, nothing audit, s) | Inr p \<Rightarrow> commit p s)"

definition handleScale ::
  "'r Server \<Rightarrow> string \<Rightarrow> string \<Rightarrow> int \<Rightarrow> Store \<Rightarrow> ApplyResponse answer \<times> effects \<times> Store" where
  "handleScale sv project service n s =
     (let key = service_key project service in at_once key (plan_scale sv key n) (commit_scale sv key) s)"

section \<open>Restarting\<close>

text \<open>The generation is a 64-bit \<open>int\<close> of the code and grows by one per restart; it is kept unbounded here.\<close>

definition plan_restart :: "'r Server \<Rightarrow> string \<Rightarrow> Store \<Rightarrow> (int \<times> Mutation) answer" where
  "plan_restart sv key s =
     (case read_service sv key s of
        Inl e \<Rightarrow> Inl (missing_or key e)
      | Inr (current, _) \<Rightarrow>
          (case sv_Encode sv (current\<lparr>d_Generation := d_Generation current + 1\<rparr>) of
             Inl m \<Rightarrow> Inl (500, EncodeFailed m)
           | Inr raw \<Rightarrow> Inr (d_Generation current + 1, PutMutation KindService key raw)))"

definition commit_restart ::
  "'r Server \<Rightarrow> string \<Rightarrow> string \<Rightarrow> int \<times> Mutation \<Rightarrow> Store \<Rightarrow> ApplyResponse answer \<times> effects \<times> Store" where
  "commit_restart sv project service p s =
     (let key = service_key project service; (generation, m) = p in
      case store_write sv [m] s of
        (Inl e, s') \<Rightarrow> (Inl (500, WriteFault e), nothing key, s')
      | (Inr index, s') \<Rightarrow>
          (Inr \<lparr>rs_Applied = [key], rs_Removed = [], rs_Index = index\<rparr>,
           \<lparr>ef_Woke = True,
            ef_Events = [\<lparr>ev_Name = EventDeployStarted, ev_Project = project, ev_Service = service,
                          ev_Message = ''restart requested (generation '' @ itoa generation @ '')''\<rparr>],
            ef_Audit = key\<rparr>, s'))"

definition handleRestart ::
  "'r Server \<Rightarrow> string \<Rightarrow> string \<Rightarrow> Store \<Rightarrow> ApplyResponse answer \<times> effects \<times> Store" where
  "handleRestart sv project service s =
     (let key = service_key project service in
      at_once key (plan_restart sv key) (commit_restart sv project service) s)"

section \<open>Deleting a project\<close>

definition plan_delete_project ::
  "'r Server \<Rightarrow> string \<Rightarrow> Store \<Rightarrow> (string list \<times> bool) answer option" where
  "plan_delete_project sv name s =
     (case listAll (dec_service sv) (sv_Ctx sv) KindService s of
        None \<Rightarrow> None
      | Some (Inl e) \<Rightarrow> Some (Inl (500, ReadFault e))
      | Some (Inr services) \<Rightarrow>
          let keys = sort (map d_key (filter (\<lambda>svc. d_Project svc = name) services)) in
          Some (case GetValue (dec_config sv) (sv_Ctx sv) KindProject name s of
                  Inl (ReadFailed (ErrNotFound k n)) \<Rightarrow>
                    if keys = [] then Inl (404, NoSuchProject name) else Inr (keys, False)
                | Inl e \<Rightarrow> Inl (500, ReadFault e)
                | Inr _ \<Rightarrow> Inr (keys, True)))"

definition handleDeleteProject ::
  "'r Server \<Rightarrow> string \<Rightarrow> Store \<Rightarrow> (DeleteProjectResponse answer \<times> effects \<times> Store) option" where
  "handleDeleteProject sv name s =
     (case plan_delete_project sv name s of
        None \<Rightarrow> None
      | Some (Inl e) \<Rightarrow> Some (Inl e, nothing name, s)
      | Some (Inr (keys, hasConfig)) \<Rightarrow>
          Some (case store_write sv (map (DeleteMutation KindService) keys @
                         (if hasConfig then [DeleteMutation KindProject name] else [])) s of
                  (Inl e, s') \<Rightarrow> (Inl (500, WriteFault e), nothing name, s')
                | (Inr index, s') \<Rightarrow>
                    (Inr \<lparr>dp_Project = name, dp_Removed = keys, dp_ConfigRemoved = hasConfig, dp_Index = index\<rparr>,
                     \<lparr>ef_Woke = True,
                      ef_Events = map (\<lambda>key. \<lparr>ev_Name = EventServiceRemoved, ev_Project = name,
                                         ev_Service = TrimPrefix key (name @ ''/''),
                                         ev_Message = ''project deleted by request''\<rparr>) keys,
                      ef_Audit = name @ (if keys = [] then '''' else '' -'' @ str_join '',-'' keys)\<rparr>, s')))"

end
