(* ===== verification/Api_Rules_Facts.thy ===== *)
theory Api_Rules_Facts
  imports Api_Validate Alloc_Spec
begin

text \<open>
  What an accepted record guarantees: names that are single path components, references inside the
  project's scope, files that cannot carry a forged placeholder; and what the validation does not
  look at.
\<close>

section \<open>Names\<close>

lemma IsName_plain: "IsName s \<Longrightarrow> plain_component s"
proof -
  assume "IsName s"
  then have d: "dns1123Label s" by (simp add: IsName_def)
  have alnum: "\<not> is_lower_alnum (CHR ''.'')" "\<not> is_lower_alnum (CHR ''/'')"
    by (simp_all add: is_lower_alnum_def is_lower_def is_digit_def)
  show ?thesis
    unfolding plain_component_def
  proof (intro conjI notI)
    assume "CHR ''/'' \<in> set s"
    then show False using d alnum(2) by (auto simp: dns1123Label_iff)
  qed (use d alnum(1) in \<open>auto simp: dns1123Label_iff\<close>)
qed

lemma IsName_no_slash: "IsName s \<Longrightarrow> CHR ''/'' \<notin> set s"
  using IsName_plain by (auto simp: plain_component_def)

lemma IsName_nonempty: "IsName s \<Longrightarrow> s \<noteq> []"
  using IsName_plain by (auto simp: plain_component_def)

lemma validateDesired_None:
  "validateDesired svc = None \<longleftrightarrow>
     IsName (d_Project svc) \<and> IsName (d_Service svc) \<and> CheckCapabilities (d_Capabilities svc) = None \<and>
     CheckHardening (d_Hardening svc) (d_Capabilities svc) (d_User svc \<noteq> None) (has_root_user svc)
       (d_Runtime svc \<noteq> '''') = None \<and>
     (\<forall>v\<in>set (d_Volumes svc). check_volume (d_Project svc) v = None) \<and>
     check_env (d_Project svc) EnvRef (d_Env svc) = None \<and>
     CheckPullPolicy (d_PullPolicy svc) True = None \<and>
     check_inits (d_Project svc) [] (d_Init svc) = None \<and>
     check_files (d_Project svc) [] (mounted_paths svc) 0 (d_Files svc) = None \<and>
     0 \<le> res_PidsLimit (d_Resources svc) \<and> (\<forall>step\<in>set (d_Init svc). check_init_pids step = None) \<and>
     check_runtime svc = None \<and> check_auths None (AllExposes svc) = None"
  by (auto simp: validateDesired_def first_error_None_iff)

lemma check_runtime_None:
  "check_runtime d = None \<longleftrightarrow>
     d_Runtime d = '''' \<or>
     d_Volumes d = [] \<and> d_Devices d = [] \<and> d_Sockets d = [] \<and> d_Capabilities d = [] \<and> d_User d = None \<and>
     d_Scaling d = None \<and> d_Init d = [] \<and> d_Files d = [] \<and>
     (res_PidsLimit (d_Resources d) = 0 \<or> res_PidsLimit (d_Resources d) = DefaultPidsLimit)"
  unfolding check_runtime_def by (cases "d_Runtime d = ''''") (simp_all split: if_splits)

lemma accepted_names:
  assumes "validateDesired d = None"
  shows "plain_component (d_Project d)" and "plain_component (d_Service d)"
    and "v \<in> set (d_Volumes d) \<Longrightarrow> plain_names d v"
  using assms IsName_plain
  by (auto simp: validateDesired_None plain_names_def check_volume_def split: if_splits)

text \<open>
  Two accepted records never share a managed volume's directory unless they name the same volume of one
  service, and every such directory lies under the volume directory: the names the API accepts are
  single path components.
\<close>

theorem accepted_volumes_are_isolated:
  assumes "plain_base b" and "validateDesired d = None" and "validateDesired e = None"
    and "v \<in> set (d_Volumes d)" and "u \<in> set (d_Volumes e)" and "0 \<le> i" and "0 \<le> j"
    and "\<not> IsHost (v_Resource v)" and "\<not> IsHost (v_Resource u)"
  shows "withinBase b (VolumePath b d i v) \<and>
    (VolumePath b d i v = VolumePath b e j u \<longrightarrow>
       d_Project d = d_Project e \<and> d_Service d = d_Service e \<and> v_Name v = v_Name u)"
proof -
  have n: "plain_names d v" "plain_names e u" using accepted_names(3) assms(2-5) by blast+
  note cs = volume_components_plain [OF n(1) assms(6)] volume_components_plain [OF n(2) assms(7)]
  have ne: "volume_components d i v \<noteq> []" "volume_components e j u \<noteq> []" by (simp_all add: volume_components_def)
  have "withinBase b (VolumePath b d i v)"
    using path_rel_join [OF assms(1) ne(1) cs(1)] plain_join_not_up [OF ne(1) cs(1)] assms(8)
    by (simp add: withinBase_def VolumePath_join)
  moreover have "d_Project d = d_Project e \<and> d_Service d = d_Service e \<and> v_Name v = v_Name u"
    if "VolumePath b d i v = VolumePath b e j u"
    using that path_join_inject [OF assms(1) ne cs] assms(8,9)
    by (auto simp: VolumePath_join volume_components_def split: if_splits)
  ultimately show ?thesis by blast
qed

section \<open>References\<close>

definition in_scope :: "string \<Rightarrow> string \<Rightarrow> bool" where
  "in_scope project ref \<longleftrightarrow>
     (\<exists>scope name. ref = ''secret:'' @ scope @ ''/'' @ name \<and> CHR ''/'' \<notin> set scope \<and> name \<noteq> '''' \<and>
        (scope = project \<or> scope = ''shared''))"

lemma CheckSecretRefScope_None:
  "'''' \<noteq> project \<Longrightarrow> CheckSecretRefScope ref project = None \<longleftrightarrow> in_scope project ref"
proof -
  assume p: "'''' \<noteq> project"
  have join: "''secret:'' @ t = ''secret:'' @ scope @ ''/'' @ name \<longleftrightarrow> t = scope @ CHR ''/'' # name" for t scope name
    by simp
  have scoped: "in_scope project (''secret:'' @ t) \<longleftrightarrow>
      (\<exists>scope name. cut_byte (CHR ''/'') t = Some (scope, name) \<and> name \<noteq> '''' \<and>
         (scope = project \<or> scope = ''shared''))" for t
    by (simp only: in_scope_def cut_byte_Some join conj_assoc)
  show ?thesis
  proof (cases "has_prefix ref ''secret:''")
    case True
    then obtain t where t: "ref = ''secret:'' @ t" by (elim prefixE)
    have "TrimPrefix ref SecretPrefix = t" "has_prefix ref SecretPrefix"
      unfolding t SecretPrefix_def by (simp_all add: TrimPrefix_def)
    then have "CheckSecretRefScope ref project = None \<longleftrightarrow>
        (\<exists>scope name. cut_byte (CHR ''/'') t = Some (scope, name) \<and> name \<noteq> '''' \<and>
           (scope = project \<or> scope = ''shared''))"
      using p by (auto simp: CheckSecretRefScope_def SharedSecretScope_def split: option.splits)
    then show ?thesis using scoped [of t] t by simp
  next
    case False
    then have "\<not> in_scope project ref" unfolding in_scope_def by (auto simp del: append_Cons)
    with False show ?thesis by (simp add: CheckSecretRefScope_def SecretPrefix_def)
  qed
qed

text \<open>The references a record makes, as far as the validation follows them.\<close>

definition env_refs :: "string gomap \<Rightarrow> string set" where
  "env_refs env = {ref. \<exists>name v inline. (name, v) \<in> set env \<and> ParseEnvRef v = Some (ref, inline)}"

definition followed_refs :: "Desired \<Rightarrow> string set" where
  "followed_refs d =
     env_refs (d_Env d) \<union> (\<Union>f\<in>set (d_Files d). set (fm_SecretRefs f)) \<union>
     (\<Union>step\<in>set (d_Init d). env_refs (ic_Env step)) \<union>
     {ic_RegistryAuthRef step |step. step \<in> set (d_Init d) \<and> ic_RegistryAuthRef step \<noteq> ''''} \<union>
     {sr_AuthRef (v_Resource v) |v. v \<in> set (d_Volumes d) \<and> sr_AuthRef (v_Resource v) \<noteq> ''''}"

lemma check_env_None:
  "check_env project place env = None \<longleftrightarrow> (\<forall>ref\<in>env_refs env. CheckSecretRefScope ref project = None)"
  by (fastforce simp: check_env_def first_error_None_iff env_refs_def scoped_ref_def split: option.splits)

lemma optional_ref_None:
  "optional_ref project place ref = None \<longleftrightarrow> (ref \<noteq> '''' \<longrightarrow> CheckSecretRefScope ref project = None)"
  by (auto simp: optional_ref_def scoped_ref_def)

lemma check_init_refs:
  "check_inits project names steps = None \<Longrightarrow> step \<in> set steps \<Longrightarrow>
     check_env project (\<lambda>name. InitEnvRef name (ic_Name step)) (ic_Env step) = None \<and>
     optional_ref project (InitRegistryRef (ic_Name step)) (ic_RegistryAuthRef step) = None"
  by (induction steps arbitrary: names) (auto simp: check_init_def split: if_splits)

lemma check_file_of:
  "check_files project seenFile seenPath bytes fs = None \<Longrightarrow> f \<in> set fs \<Longrightarrow>
     \<exists>seenFile seenPath. check_file project seenFile seenPath f = None"
  by (induction fs arbitrary: seenFile seenPath bytes) auto

lemma check_file_None:
  "check_file project seenFile seenPath f = None \<longleftrightarrow>
     IsName (fm_Name f) \<and> fm_Name f \<notin> set seenFile \<and> CheckFilePath (fm_Name f) (fm_Path f) = None \<and>
     fm_Path f \<notin> set seenPath \<and>
     CheckFileContent (fm_Name f) (fm_Content f) (fm_Nonce f) (int (length (fm_SecretRefs f))) = None \<and>
     CheckFileMode (fm_Name f) (fm_Mode f) (fm_SecretRefs f \<noteq> []) = None \<and>
     (\<forall>ref\<in>set (fm_SecretRefs f). CheckSecretRefScope ref project = None) \<and>
     (fm_Nonce f = '''' \<longrightarrow> fm_SecretRefs f = [])"
  by (auto simp: check_file_def first_error_None_iff scoped_ref_def)

text \<open>
  C35. An accepted record reads only its own project's secrets or shared ones: every reference in the
  environment, in the files, in the init steps and their registry credentials, and in the storage
  credentials of the volumes names the record's project or the shared scope, with a name behind it.
\<close>

theorem accepted_references_are_in_scope:
  assumes "validateDesired d = None" and "ref \<in> followed_refs d"
  shows "in_scope (d_Project d) ref"
proof -
  have "IsName (d_Project d)" and env: "check_env (d_Project d) EnvRef (d_Env d) = None"
    and files: "check_files (d_Project d) [] (mounted_paths d) 0 (d_Files d) = None"
    and inits: "check_inits (d_Project d) [] (d_Init d) = None"
    and vols: "\<forall>v\<in>set (d_Volumes d). check_volume (d_Project d) v = None"
    using assms(1) [unfolded validateDesired_None] by blast+
  then have "d_Project d \<noteq> ''''" using IsName_nonempty by blast
  note scope = CheckSecretRefScope_None [OF this [symmetric]]
  have "CheckSecretRefScope ref (d_Project d) = None"
    using assms(2) unfolding followed_refs_def
  proof (elim UnE)
    assume "ref \<in> env_refs (d_Env d)"
    then show ?thesis using env [unfolded check_env_None] by blast
  next
    assume "ref \<in> (\<Union>f\<in>set (d_Files d). set (fm_SecretRefs f))"
    then obtain f where f: "f \<in> set (d_Files d)" "ref \<in> set (fm_SecretRefs f)" by blast
    with check_file_of [OF files f(1)] show ?thesis by (auto simp: check_file_None)
  next
    assume "ref \<in> (\<Union>step\<in>set (d_Init d). env_refs (ic_Env step))"
    then obtain step where st: "step \<in> set (d_Init d)" "ref \<in> env_refs (ic_Env step)" by blast
    from check_init_refs [OF inits st(1), THEN conjunct1, unfolded check_env_None] st(2) show ?thesis by blast
  next
    assume "ref \<in> {ic_RegistryAuthRef step |step. step \<in> set (d_Init d) \<and> ic_RegistryAuthRef step \<noteq> ''''}"
    then obtain step where st: "step \<in> set (d_Init d)" "ref = ic_RegistryAuthRef step" "ref \<noteq> ''''" by blast
    from check_init_refs [OF inits st(1), THEN conjunct2, unfolded optional_ref_None] st(2,3) show ?thesis by simp
  next
    assume "ref \<in> {sr_AuthRef (v_Resource v) |v. v \<in> set (d_Volumes d) \<and> sr_AuthRef (v_Resource v) \<noteq> ''''}"
    then obtain v where v: "v \<in> set (d_Volumes d)" "ref = sr_AuthRef (v_Resource v)" "ref \<noteq> ''''" by blast
    then have "check_volume (d_Project d) v = None" using vols by blast
    then have "optional_ref (d_Project d) (VolumeAuthRef (v_Name v)) ref = None"
      using v(2) by (simp add: check_volume_def split: if_splits)
    then show ?thesis using v(3) optional_ref_None by blast
  qed
  then show ?thesis using scope by blast
qed

section \<open>Capabilities\<close>

lemma upper_lower [simp]: "upper_char (lower_char c) = upper_char c"
proof -
  have "of_char (char_of (n + 32) :: char) = n + 32" if "n \<le> 90" for n :: nat using that by simp
  moreover have "char_of (of_char c :: nat) = c" by simp
  ultimately show ?thesis by (auto simp: lower_char_def upper_char_def Let_def)
qed

lemma lower_not_upper: "\<not> (65 \<le> (of_char (lower_char c) :: nat) \<and> (of_char (lower_char c) :: nat) \<le> 90)"
proof -
  have "of_char (char_of (n + 32) :: char) = n + 32" if "n \<le> 90" for n :: nat using that by simp
  then show ?thesis by (auto simp: lower_char_def Let_def)
qed

lemma lower_not_C [simp]: "CHR ''C'' \<noteq> lower_char c"
proof
  assume "CHR ''C'' = lower_char c"
  then have "(of_char (lower_char c) :: nat) = of_char (CHR ''C'')" by (rule arg_cong [OF sym])
  then have "(of_char (lower_char c) :: nat) = 67" by simp
  then show False using lower_not_upper [of c] by simp
qed

lemma is_space_lower [simp]: "is_space (lower_char c) = is_space c"
  by (auto simp: is_space_def lower_char_def Let_def)

lemma TrimSpace_ToLower: "TrimSpace (ToLower s) = ToLower (TrimSpace s)"
  by (simp add: TrimSpace_def trim_both_def ToLower_def dropWhile_map rev_map comp_def)

lemma upper_trim_lower [simp]: "ToUpper (TrimSpace (ToLower s)) = ToUpper (TrimSpace s)"
  by (simp add: TrimSpace_ToLower) (simp add: ToLower_def ToUpper_def)

lemma checkCapability_Inr:
  "checkCapability c seen = Inr seen' \<Longrightarrow>
     ToUpper (TrimSpace c) = capabilityNoneUpper \<or> ToUpper (TrimSpace c) \<in> set PermittedCapabilities"
  by (auto simp: checkCapability_def Let_def split: if_splits)

lemma check_capabilities_permitted:
  "check_capabilities cs seen = None \<Longrightarrow> c \<in> set cs \<Longrightarrow>
     ToUpper (TrimSpace c) = capabilityNoneUpper \<or> ToUpper (TrimSpace c) \<in> set PermittedCapabilities"
  by (induction cs arbitrary: seen) (auto split: sum.splits dest: checkCapability_Inr)

lemma check_capabilities_None_cong:
  "map (\<lambda>c. ToUpper (TrimSpace c)) cs = map (\<lambda>c. ToUpper (TrimSpace c)) ds \<Longrightarrow>
     check_capabilities cs seen = None \<longleftrightarrow> check_capabilities ds seen = None"
proof (induction cs arbitrary: ds seen)
  case (Cons c cs)
  then obtain d ds' where d: "ds = d # ds'" "ToUpper (TrimSpace d) = ToUpper (TrimSpace c)"
    "map (\<lambda>c. ToUpper (TrimSpace c)) cs = map (\<lambda>c. ToUpper (TrimSpace c)) ds'"
    by (cases ds) auto
  have eq: "checkCapability c seen = Inr x \<longleftrightarrow> checkCapability d seen = Inr x" for x
    using d(2) by (simp add: checkCapability_def Let_def)
  show ?case
  proof (cases "checkCapability c seen")
    case (Inl e)
    then have "\<nexists>x. checkCapability d seen = Inr x" using eq by auto
    then obtain e' where "checkCapability d seen = Inl e'" by (cases "checkCapability d seen") auto
    with Inl show ?thesis by (simp add: d(1))
  next
    case (Inr x)
    with eq [of x] Cons.IH [OF d(3), of x] show ?thesis by (simp add: d(1))
  qed
qed simp

text \<open>A list as the spec language leaves it: every name canonical.\<close>

definition canonical_capabilities :: "Desired \<Rightarrow> bool" where
  "canonical_capabilities d \<longleftrightarrow> (\<forall>c\<in>set (d_Capabilities d). canonical_capability c = c)"

lemma permitted_prefix: "c \<in> set PermittedCapabilities \<Longrightarrow> has_prefix c ''CAP_''"
  by (auto simp: PermittedCapabilities_def)

lemma baseline_permitted: "set BaselineCapabilities \<subseteq> set PermittedCapabilities"
  by (simp add: BaselineCapabilities_def PermittedCapabilities_def)

lemma accepted_capability:
  assumes "validateDesired d = None" and "canonical_capabilities d" and "c \<in> set (d_Capabilities d)"
  shows "c = CapabilityNone \<or> c \<in> set PermittedCapabilities" and "d_Runtime d = ''''"
proof -
  have "check_capabilities (d_Capabilities d) [] = None" and r: "check_runtime d = None"
    using assms(1) by (simp_all add: validateDesired_None CheckCapabilities_def)
  then have "ToUpper (TrimSpace c) = capabilityNoneUpper \<or> ToUpper (TrimSpace c) \<in> set PermittedCapabilities"
    using check_capabilities_permitted assms(3) by blast
  moreover have "canonical_capability c = c" using assms(2,3) by (simp add: canonical_capabilities_def)
  ultimately show "c = CapabilityNone \<or> c \<in> set PermittedCapabilities"
    by (auto simp: canonical_capability_def Let_def split: if_splits)
  show "d_Runtime d = ''''" using r assms(3) by (auto simp: check_runtime_None)
qed

text \<open>
  No accepted record, its capabilities spelled canonically, runs with a capability outside the permitted
  list, and a restricted one runs with none.
\<close>

theorem accepted_grants_are_permitted:
  assumes "validateDesired d = None" and "canonical_capabilities d"
  shows "set (effectiveCapabilities d) \<subseteq> set PermittedCapabilities \<and>
    (d_Hardening d = ''restricted'' \<longrightarrow> effectiveCapabilities d = [])"
proof -
  note c = accepted_capability [OF assms]
  have "x \<in> set PermittedCapabilities" if "x \<in> set (effectiveCapabilities d)" for x
    using that c baseline_permitted
    by (auto simp: effectiveCapabilities_def Let_def split: if_splits)
  moreover have "effectiveCapabilities d = []" if h: "d_Hardening d = ''restricted''"
  proof -
    have "CheckHardening (d_Hardening d) (d_Capabilities d) (d_User d \<noteq> None) (has_root_user d)
        (d_Runtime d \<noteq> '''') = None"
      using assms(1) by (simp add: validateDesired_None)
    then have none: "\<forall>x\<in>set (d_Capabilities d). ToUpper (TrimSpace x) = capabilityNoneUpper"
      and "d_Runtime d = ''''"
      using h by (auto simp: CheckHardening_def HardeningRestricted_def first_error_None_iff split: if_splits)
    from none have "\<forall>x\<in>set (d_Capabilities d). x = CapabilityNone"
      using assms(2) by (auto simp: canonical_capabilities_def canonical_capability_def)
    with \<open>d_Runtime d = ''''\<close> h show ?thesis
      by (simp add: effectiveCapabilities_def HardeningRestricted_def filter_empty_conv)
  qed
  ultimately show ?thesis by blast
qed

text \<open>What the validation leaves to the spec language: an image, sensible resources and user, absolute
  paths, and capabilities in their canonical spelling.\<close>

definition unvalidated_rest :: "Desired \<Rightarrow> bool" where
  "unvalidated_rest d \<longleftrightarrow>
     RunImage d \<noteq> [] \<and> canonical_capabilities d \<and>
     0 \<le> res_CPUMillis (d_Resources d) \<and> 0 \<le> res_MemoryBytes (d_Resources d) \<and>
     validate_user (d_User d) = None \<and> (d_ResolvConfPath d = '''' \<or> is_abs (d_ResolvConfPath d)) \<and>
     list_all (\<lambda>v. is_abs (v_MountPath v) \<and> (IsHost (v_Resource v) \<longrightarrow> is_abs (v_resolvedHostPath v))) (d_Volumes d) \<and>
     list_all (\<lambda>s. is_abs (sk_resolvedHostPath s) \<and> is_abs (sk_MountPath s)) (resolved_sockets d) \<and>
     list_all (\<lambda>r. list_all (\<lambda>dv. validate_device dv = None) (dr_resolved r)) (d_Devices d)"

text \<open>
  C36. From the API to the runtime: an accepted record whose runtime is known passes the driver's validation in
  every alloc, given what the API leaves to the spec language (an image, sensible resources and user,
  absolute mount paths, canonical capabilities).
\<close>

theorem accepted_records_run:
  assumes "validateDesired d = None" and "d_Runtime d = '''' \<or> d_Runtime d = RuntimeWasmtime"
    and "unvalidated_rest d" and "plain_base b" and "0 \<le> i"
  shows "Validate (AllocSpecFor d i logDir b) = None"
proof -
  have canonical: "canonical_capabilities d" using assms(3) by (simp add: unvalidated_rest_def)
  have "has_prefix c ''CAP_'' \<or> c = CapabilityNone \<and> d_Runtime d = ''''" if "c \<in> set (d_Capabilities d)" for c
    using accepted_capability [OF assms(1) canonical that] permitted_prefix by blast
  then have "well_declared d"
    using assms(2,3) accepted_names [OF assms(1)]
    by (simp add: well_declared_def unvalidated_rest_def list_all_iff plain_names_def)
  then show ?thesis
    using AllocSpecFor_validates assms(4,5) by blast
qed

text \<open>
  C38. Capabilities are checked after trimming and upper-casing but stored as written. Writing an accepted
  record's capabilities in lower case leaves it accepted, and the driver then refuses every alloc of it.
\<close>

theorem recased_capabilities_strand_a_service:
  assumes "validateDesired d = None" and "c \<in> set (d_Capabilities d)"
    and "ToUpper (TrimSpace c) \<noteq> capabilityNoneUpper"
  shows "validateDesired (d\<lparr>d_Capabilities := map ToLower (d_Capabilities d)\<rparr>) = None \<and>
    Validate (AllocSpecFor (d\<lparr>d_Capabilities := map ToLower (d_Capabilities d)\<rparr>) i logDir b) \<noteq> None"
proof
  let ?d = "d\<lparr>d_Capabilities := map ToLower (d_Capabilities d)\<rparr>"
  have "CheckCapabilities (map ToLower (d_Capabilities d)) = None"
    using assms(1) check_capabilities_None_cong [of "d_Capabilities d" "map ToLower (d_Capabilities d)" "[]"]
    by (simp add: validateDesired_None CheckCapabilities_def comp_def)
  moreover have "CheckHardening h (map ToLower cs) u r f = CheckHardening h cs u r f"
    if "CheckHardening h cs u r f = None" for h cs u r f
    using that by (auto simp: CheckHardening_def first_error_None_iff split: if_splits)
  ultimately show "validateDesired ?d = None"
    using assms(1)
    by (simp add: validateDesired_None has_root_user_def mounted_paths_def check_runtime_None AllExposes_def cong: option.case_cong)
  have rt: "d_Runtime d = ''''" using assms(1,2) by (auto simp: validateDesired_None check_runtime_None)
  have "TrimSpace ''none'' = ''none''"
    by (simp add: TrimSpace_def trim_both_def is_space_def)
  then have none: "ToUpper (TrimSpace CapabilityNone) = capabilityNoneUpper"
    by (simp only: CapabilityNone_def capabilityNoneUpper_def)
  have "ToLower c \<noteq> CapabilityNone"
  proof
    assume "ToLower c = CapabilityNone"
    with none have "ToUpper (TrimSpace (ToLower c)) = capabilityNoneUpper" by simp
    then show False using assms(3) by simp
  qed
  then have "ToLower c \<in> set (effectiveCapabilities ?d)"
    using assms(2) rt by (auto simp: effectiveCapabilities_def Let_def)
  moreover have "\<not> has_prefix (ToLower c) ''CAP_''"
    by (cases c) (simp_all add: ToLower_def)
  ultimately show "Validate (AllocSpecFor ?d i logDir b) \<noteq> None"
    by (auto simp: Validate_None_iff AllocSpecFor_def Let_def)
qed

section \<open>References the validation does not follow\<close>

definition with_auth :: "AuthPolicy \<Rightarrow> Desired \<Rightarrow> Desired" where
  "with_auth a d =
     d\<lparr>d_Expose := map_option (\<lambda>e. e\<lparr>ex_Auth := Some a\<rparr>) (d_Expose d),
       d_ExtraExposes := map (\<lambda>e. e\<lparr>ex_Auth := Some a\<rparr>) (d_ExtraExposes d)\<rparr>"

lemma check_auths_same:
  "\<forall>e\<in>set es. ex_Auth e = Some a \<Longrightarrow> first = None \<or> first = Some a \<Longrightarrow> check_auths first es = None"
  by (induction es arbitrary: first) auto

text \<open>
  C37. The validation does not look at every reference: the registry credential of the task, the credentials of
  the exposed routes and the function's signing secret may name any project. Whatever they are set
  to, an accepted record stays accepted.
\<close>

theorem some_credentials_are_not_scoped:
  assumes "validateDesired d = None"
  shows "validateDesired ((with_auth a d)\<lparr>d_RegistryAuthRef := ref, d_Function := f\<rparr>) = None"
proof -
  let ?d = "(with_auth a d)\<lparr>d_RegistryAuthRef := ref, d_Function := f\<rparr>"
  have "\<forall>e\<in>set (AllExposes ?d). ex_Auth e = Some a"
    by (auto simp: AllExposes_def with_auth_def split: option.splits)
  then have "check_auths None (AllExposes ?d) = None" by (rule check_auths_same) simp
  then show ?thesis
    using assms
    by (simp add: validateDesired_None with_auth_def has_root_user_def mounted_paths_def check_runtime_None)
qed

end
