(* ===== verification/Api_Facts.thy ===== *)
theory Api_Facts
  imports Api_Apply Api_Rules_Facts State_Store_Pages
begin

text \<open>
  What the writing handlers of the API do to the services the store holds: an apply is atomic and has
  exactly its declared effect, every stored service stays one the validation accepts however requests
  interleave, a scale never overwrites a concurrent change, and a restart may.
\<close>

section \<open>The services a store holds\<close>

definition service_at :: "'r Server \<Rightarrow> Store \<Rightarrow> string \<Rightarrow> Desired option" where
  "service_at sv s key =
     (case abs_store s (KindService, key) of
        None \<Rightarrow> None
      | Some (_, raw) \<Rightarrow> (case sv_Decode sv raw of Inl _ \<Rightarrow> None | Inr d \<Rightarrow> Some d))"

text \<open>What is relied on of JSON: \<open>W\<close> are the records as they travel, without the fields JSON leaves out
  and with one representation per map. Decoding gives such a record, encoding one and decoding it
  gives it back, and the fields the server writes are not among the special ones.\<close>

definition stripped :: "Desired \<Rightarrow> Desired" where
  "stripped d =
     d\<lparr>d_Count := 0, d_PinnedImage := '''', d_RollbackImage := '''', d_ImageCheckedAt := d_ImageCheckedAt zero_desired,
       d_ImageUpdatedAt := d_ImageUpdatedAt zero_desired, d_Generation := 0\<rparr>"

definition codec :: "'r Server \<Rightarrow> Desired set \<Rightarrow> bool" where
  "codec sv W \<longleftrightarrow>
     (\<forall>raw d. sv_Decode sv raw = Inr d \<longrightarrow> d \<in> W) \<and>
     (\<forall>d\<in>W. \<forall>raw. sv_Encode sv d = Inr raw \<longrightarrow> sv_Decode sv raw = Inr d) \<and>
     (\<forall>d\<in>W. \<forall>e. stripped e = stripped d \<longrightarrow> e \<in> W)"

lemma codecD:
  assumes "codec sv W"
  shows "sv_Decode sv raw = Inr d \<Longrightarrow> d \<in> W"
    and "d \<in> W \<Longrightarrow> sv_Encode sv d = Inr raw \<Longrightarrow> sv_Decode sv raw = Inr d"
    and "d \<in> W \<Longrightarrow> stripped e = stripped d \<Longrightarrow> e \<in> W"
  using assms unfolding codec_def by blast+

lemma KindService_valid [simp]: "kind_valid KindService" "kind_valid KindProject"
  by (simp_all add: kind_valid_def Kinds_def KindService_def KindProject_def)

lemma kinds_differ [simp]: "KindService \<noteq> KindProject" "KindProject \<noteq> KindService"
  by (simp_all add: KindService_def KindProject_def)

lemma read_service_Inr:
  assumes "store_ok s" and "read_service sv key s = Inr (d, i)"
  shows "\<exists>raw. abs_store s (KindService, key) = Some (i, raw) \<and> sv_Decode sv raw = Inr d"
    and "service_at sv s key = Some d" and "0 < i" and "i \<le> store_index s" and "sv_Ctx sv = None" and "key \<noteq> ''''"
proof -
  from assms(2) obtain r where r: "Get (sv_Ctx sv) KindService key s = Inr r" "dec_service sv r = Inr d" "rc_Index r = i"
    by (auto simp: read_service_def GetValue_def split: sum.splits)
  note g = Get_Inr [OF assms(1) r(1)]
  show "\<exists>raw. abs_store s (KindService, key) = Some (i, raw) \<and> sv_Decode sv raw = Inr d"
    using g(3) r by (auto simp: dec_service_def)
  with g(3) r show "service_at sv s key = Some d" by (auto simp: service_at_def)
  show "0 < i" "i \<le> store_index s" using g r by simp_all
  show "sv_Ctx sv = None" using r(1) by (auto simp: Get_def check_def split: option.splits if_splits)
  show "key \<noteq> ''''" by (rule g(2))
qed

section \<open>A batch, key by key\<close>

definition touches :: "Kind \<times> string \<Rightarrow> Mutation \<Rightarrow> bool" where
  "touches k m \<longleftrightarrow> (mu_Kind m, mu_Key m) = k"

lemma spec_write_lookup:
  "fold (spec_write i) ms A k =
     (case find (touches k) (rev ms) of
        None \<Rightarrow> A k | Some m \<Rightarrow> if mu_Op m = OpPut then Some (i, mu_Value m) else None)"
proof (induction ms arbitrary: A)
  case (Cons m ms)
  have app: "find P (xs @ ys) = (case find P xs of None \<Rightarrow> find P ys | Some x \<Rightarrow> Some x)"
    for P and xs ys :: "Mutation list"
    by (induction xs) auto
  show ?case
    using Cons [of "spec_write i m A"]
    by (auto simp: app spec_write_def touches_def split: option.splits)
qed simp

lemma find_append: "find P (xs @ ys) = (case find P xs of None \<Rightarrow> find P ys | Some x \<Rightarrow> Some x)"
  by (induction xs) auto

lemma find_deletes:
  "find (touches (KindService, key)) (map (DeleteMutation KindService) ks) =
     (if key \<in> set ks then Some (DeleteMutation KindService key) else None)"
  by (induction ks) (auto simp: touches_def DeleteMutation_def)

lemma find_other_kind:
  "\<forall>m\<in>set ms. mu_Kind m \<noteq> fst k \<Longrightarrow> find (touches k) ms = None"
  by (auto simp: find_None_iff touches_def)

section \<open>What one service of an apply writes\<close>

lemma stripped_update [simp]:
  "stripped (d\<lparr>d_Generation := g\<rparr>) = stripped d" "stripped (d\<lparr>d_Count := n\<rparr>) = stripped d"
  "stripped (d\<lparr>d_PinnedImage := p, d_ImageCheckedAt := c\<rparr>) = stripped d"
  "stripped (d\<lparr>d_Generation := g, d_PinnedImage := p, d_RollbackImage := r, d_ImageUpdatedAt := u\<rparr>) = stripped d"
  by (simp_all add: stripped_def)

lemma stripped_merged [simp]: "stripped (merged_service sv s d) = stripped d"
proof -
  have pin: "stripped (pin sv e) = stripped e" for e
    by (simp add: pin_def split: option.split sum.split)
  have "stripped (carry_over current d) = stripped d" for current
    by (simp add: carry_over_def Let_def)
  then show ?thesis by (simp add: merged_service_def pin split: sum.split prod.split)
qed

definition acceptable :: "PortPolicy \<Rightarrow> Desired \<Rightarrow> bool" where
  "acceptable po d \<longleftrightarrow> validateDesired d = None \<and> runtime_refusal d = None \<and> policy_Check po d = None"

lemma stripped_key [simp]: "d_Project (stripped d) = d_Project d" "d_Service (stripped d) = d_Service d"
  by (simp_all add: stripped_def)

lemma validateDesired_stripped: "validateDesired (stripped d) = validateDesired d"
  by (simp add: stripped_def validateDesired_def has_root_user_def mounted_paths_def check_runtime_def
      AllExposes_def cong: option.case_cong)

lemma checks_stripped:
  "runtime_refusal (stripped d) = runtime_refusal d" "policy_Check po (stripped d) = policy_Check po d"
proof -
  show "runtime_refusal (stripped d) = runtime_refusal d"
    by (cases "d_Check d") (simp_all add: stripped_def runtime_refusal_def)
  show "policy_Check po (stripped d) = policy_Check po d"
    by (simp add: stripped_def policy_Check_def)
qed

lemma acceptable_stripped: "acceptable po (stripped d) = acceptable po d"
  by (simp add: acceptable_def validateDesired_stripped checks_stripped)

lemma same_stripped:
  assumes "stripped e = stripped d"
  shows "acceptable po e = acceptable po d" and "d_Project e = d_Project d" and "d_Service e = d_Service d"
  using acceptable_stripped [of po e] acceptable_stripped [of po d] stripped_key [of e] stripped_key [of d]
  by (simp_all add: assms)

lemmas merged_service_same [simp] = same_stripped [OF stripped_merged]

lemma validateDesired_merged: "validateDesired (merged_service sv s d) = validateDesired d"
  using validateDesired_stripped [of d] validateDesired_stripped [of "merged_service sv s d"] by simp

lemma checks_merged:
  "runtime_refusal (merged_service sv s d) = runtime_refusal d"
  "policy_Check po (merged_service sv s d) = policy_Check po d"
proof -
  show "runtime_refusal (merged_service sv s d) = runtime_refusal d"
    "policy_Check po (merged_service sv s d) = policy_Check po d"
    using checks_stripped [where d = d] checks_stripped [where d = "merged_service sv s d"] by simp_all
qed

lemma put_service_Inr:
  "put_service sv s d = Inr m \<longleftrightarrow>
     d_Project d \<noteq> '''' \<and> d_Service d \<noteq> '''' \<and> acceptable (sv_Policy sv) d \<and>
     (\<exists>raw. sv_Encode sv (merged_service sv s d) = Inr raw \<and> m = PutMutation KindService (d_key d) raw)"
  by (auto simp: put_service_def acceptable_def Let_def checks_merged split: option.splits sum.splits)

section \<open>An apply\<close>

definition put_of :: "Desired \<times> string \<Rightarrow> Mutation" where
  "put_of x = PutMutation KindService (d_key (fst x)) (snd x)"

lemma put_services_Inr:
  "collect_answers (put_service sv s) ds = Inr puts \<Longrightarrow>
     (\<forall>d\<in>set ds. acceptable (sv_Policy sv) d) \<and>
     (\<exists>xs. ds = map fst xs \<and> (\<forall>x\<in>set xs. sv_Encode sv (merged_service sv s (fst x)) = Inr (snd x)) \<and>
        puts = map put_of xs)"
proof (induction ds arbitrary: puts)
  case (Cons d ds)
  then obtain m puts' where m: "put_service sv s d = Inr m" "puts = m # puts'"
    and rest: "collect_answers (put_service sv s) ds = Inr puts'"
    by (auto split: sum.splits)
  from m obtain raw where raw: "acceptable (sv_Policy sv) d" "sv_Encode sv (merged_service sv s d) = Inr raw"
    "m = put_of (d, raw)"
    by (auto simp: put_service_Inr put_of_def)
  from Cons.IH [OF rest] obtain xs where xs: "\<forall>d\<in>set ds. acceptable (sv_Policy sv) d" "ds = map fst xs"
    "\<forall>x\<in>set xs. sv_Encode sv (merged_service sv s (fst x)) = Inr (snd x)" "puts' = map put_of xs"
    by blast
  have "d # ds = map fst ((d, raw) # xs)" "puts = map put_of ((d, raw) # xs)" using xs m raw by simp_all
  moreover have "\<forall>x\<in>set ((d, raw) # xs). sv_Encode sv (merged_service sv s (fst x)) = Inr (snd x)"
    using xs raw by simp
  ultimately show ?case using raw(1) xs(1) by (metis list.set_intros set_ConsD)
qed simp

text \<open>The last put of a key, read back.\<close>

lemma find_puts:
  "find (touches (KindService, key)) (map put_of xs) =
     map_option (PutMutation KindService key) (map_of (map (\<lambda>x. (d_key (fst x), snd x)) xs) key)"
  by (induction xs) (auto simp: touches_def put_of_def PutMutation_def)

lemma map_of_read_back:
  "(\<forall>x\<in>set xs. R (snd x) (g (fst x))) \<Longrightarrow>
     (case map_of (map (\<lambda>x. (k (fst x), snd x)) xs) key of
        None \<Rightarrow> map_of (map (\<lambda>x. (k (fst x), g (fst x))) xs) key = None
      | Some raw \<Rightarrow> \<exists>d. map_of (map (\<lambda>x. (k (fst x), g (fst x))) xs) key = Some d \<and> R raw d)"
  by (induction xs) (auto split: option.splits)

lemma configs_kind:
  "collect_answers (put_config sv s) cs = Inr configs \<Longrightarrow> \<forall>m\<in>set configs. mu_Kind m = KindProject"
proof (induction cs arbitrary: configs)
  case (Cons c cs)
  then obtain m configs' where m: "put_config sv s c = Inr m" "configs = m # configs'"
    and rest: "collect_answers (put_config sv s) cs = Inr configs'"
    by (auto split: sum.splits)
  from m have "mu_Kind m = KindProject"
    by (auto simp: put_config_def PutMutation_def split: if_splits sum.splits)
  with Cons.IH [OF rest] m show ?case by simp
qed simp

lemma service_at_abs:
  "abs_store s' (KindService, key) = Some (i, raw) \<Longrightarrow> sv_Decode sv raw = Inr d \<Longrightarrow> service_at sv s' key = Some d"
  by (simp add: service_at_def)

text \<open>The services after the batch of an apply.\<close>

lemma apply_batch_services:
  assumes "codec sv W" and "set ds \<subseteq> W"
    and "collect_answers (put_service sv s) ds = Inr puts" and "collect_answers (put_config sv s) cs = Inr configs"
    and "abs_store s' = fold (spec_write i) (puts @ configs @ map (DeleteMutation KindService) removed) (abs_store t)"
  shows "service_at sv s' key =
    (if key \<in> set removed then None
     else case map_of (rev (map (\<lambda>d. (d_key d, merged_service sv s d)) ds)) key of
            Some d \<Rightarrow> Some d | None \<Rightarrow> service_at sv t key)"
proof -
  obtain xs where xs: "ds = map fst xs" "\<forall>x\<in>set xs. sv_Encode sv (merged_service sv s (fst x)) = Inr (snd x)"
    "puts = map put_of xs"
    using put_services_Inr [OF assms(3)] by blast
  have dec: "\<forall>x\<in>set (rev xs). sv_Decode sv (snd x) = Inr (merged_service sv s (fst x))"
  proof
    fix x assume "x \<in> set (rev xs)"
    then have x: "x \<in> set xs" by simp
    then have "fst x \<in> W" using assms(2) xs(1) by auto
    then have "merged_service sv s (fst x) \<in> W" using codecD(3) [OF assms(1)] stripped_merged by blast
    then show "sv_Decode sv (snd x) = Inr (merged_service sv s (fst x))"
      using codecD(2) [OF assms(1)] xs(2) x by blast
  qed
  have read: "case map_of (map (\<lambda>x. (d_key (fst x), snd x)) (rev xs)) key of
       None \<Rightarrow> map_of (rev (map (\<lambda>d. (d_key d, merged_service sv s d)) ds)) key = None
     | Some raw \<Rightarrow> \<exists>d. map_of (rev (map (\<lambda>d. (d_key d, merged_service sv s d)) ds)) key = Some d \<and> sv_Decode sv raw = Inr d"
  proof -
    have "rev (map (\<lambda>d. (d_key d, merged_service sv s d)) ds) =
        map (\<lambda>x. (d_key (fst x), merged_service sv s (fst x))) (rev xs)"
      unfolding xs(1) by (simp add: rev_map)
    then show ?thesis
      using map_of_read_back [of "rev xs" "\<lambda>raw d. sv_Decode sv raw = Inr d" "merged_service sv s" d_key key, OF dec]
      by (simp only:)
  qed
  have other: "find (touches (KindService, key)) (rev configs) = None"
    using configs_kind [OF assms(4)] by (intro find_other_kind) simp
  have look: "abs_store s' (KindService, key) =
      (if key \<in> set removed then None
       else case map_of (map (\<lambda>x. (d_key (fst x), snd x)) (rev xs)) key of
              None \<Rightarrow> abs_store t (KindService, key) | Some raw \<Rightarrow> Some (i, raw))"
    unfolding assms(5) spec_write_lookup rev_append rev_map find_append xs(3) find_puts find_deletes other
    by (simp add: DeleteMutation_def PutMutation_def split: option.split)
  show ?thesis
    using read by (auto simp: service_at_def look split: option.splits)
qed

text \<open>The list of stored services, when every one of them decodes.\<close>

lemma decode_all_list2: "decode_all dec rs = Inr vs \<longleftrightarrow> list_all2 (\<lambda>r v. dec r = Inr v) rs vs"
proof (induction rs arbitrary: vs)
  case (Cons r rs)
  show ?case
  proof (cases vs)
    case Nil
    then show ?thesis by (auto split: sum.splits)
  next
    case (Cons v vs')
    then show ?thesis using Cons.IH [of vs'] by (cases "dec r"; cases "decode_all dec rs") auto
  qed
qed auto

lemma list_all2_decoded:
  assumes "list_all2 (\<lambda>e d. f e = Inr d) b ds"
  shows "d \<in> set ds \<longleftrightarrow> (\<exists>e\<in>set b. f e = Inr d)" and "e \<in> set b \<Longrightarrow> \<exists>d. f e = Inr d"
  using assms by (induction rule: list_all2_induct) auto

lemma bk_in_set: "bk_wf b \<Longrightarrow> (k, v) \<in> set b \<longleftrightarrow> bk_get b k = Some v"
  by (simp add: bk_wf_def strict_sorted_iff map_of_eq_Some_iff)

lemma listAll_live:
  assumes "listAll (dec_service sv) ctx KindService s = Some (Inr ds)"
  shows "ctx = None" and "\<not> db_closed s"
proof -
  have "check ctx s = None"
  proof (cases "check ctx s")
    case (Some e)
    then have "load_all (dec_service sv) ctx KindService listOptions s [] = Some (Inl (ReadFailed e))"
      by (subst load_all.simps) (simp add: ListValues_def ListPage_def)
    with assms show ?thesis by (simp add: listAll_def)
  qed simp
  then show "ctx = None" and "\<not> db_closed s" by (auto simp: check_def split: option.splits if_splits)
qed

lemma listAll_decoded:
  assumes "store_ok s" and "listAll (dec_service sv) ctx KindService s = Some (Inr ds)"
  shows "list_all2 (\<lambda>e d. sv_Decode sv (drop 8 (snd e)) = Inr d) (db_kinds s KindService) ds"
proof -
  note live = listAll_live [OF assms(2)]
  have "decode_all (dec_service sv) (map (record_of KindService listOptions) (db_kinds s KindService)) = Inr ds"
    using assms(2) load_all_complete [OF assms(1) live(2) KindService_valid(1), of listOptions "dec_service sv"] live(1)
    by (simp add: listAll_def listOptions_def split: sum.splits)
  then show ?thesis
    by (simp add: decode_all_list2 list.rel_map dec_service_def record_of_def listOptions_def)
qed

lemma listAll_Inr:
  assumes "store_ok s" and "listAll (dec_service sv) ctx KindService s = Some (Inr ds)"
  shows "d \<in> set ds \<longleftrightarrow> (\<exists>key. service_at sv s key = Some d)"
proof -
  let ?b = "db_kinds s KindService"
  have wf: "bk_wf ?b" using assms(1) by (simp add: store_ok_def buckets_wf_def)
  have at: "service_at sv s k = Some x \<longleftrightarrow> (\<exists>raw. (k, raw) \<in> set ?b \<and> sv_Decode sv (drop 8 raw) = Inr x)" for k x
    using bk_in_set [OF wf] by (auto simp: service_at_def abs_store_def split: option.splits sum.splits)
  show ?thesis
    unfolding at list_all2_decoded(1) [OF listAll_decoded [OF assms]] by (metis prod.collapse snd_conv)
qed

definition filed :: "'r Server \<Rightarrow> Store \<Rightarrow> bool" where
  "filed sv s \<longleftrightarrow> (\<forall>key d. service_at sv s key = Some d \<longrightarrow> d_key d = key)"

lemma applyServices_Inr:
  assumes "applyServices sv req s = Some (Inr resp, ef, s')"
  obtains puts configs where "collect_answers (put_service sv s) (rq_Services req) = Inr puts"
    and "collect_answers (put_config sv s) (rq_Pipelines req) = Inr configs"
    and "pruneOrphans sv req (rs_Applied resp) s = Some (Inr (rs_Removed resp))"
    and "rs_Applied resp = map d_key (rq_Services req)"
    and "store_write sv (puts @ configs @ map (DeleteMutation KindService) (rs_Removed resp)) s = (Inr (rs_Index resp), s')"
    and "plan_apply sv req s = Some (Inr (puts @ configs @ map (DeleteMutation KindService) (rs_Removed resp),
           rs_Applied resp, rs_Removed resp))"
  using assms
  by (auto simp: applyServices_def plan_apply_def commit_apply_def Let_def
      split: option.splits sum.splits if_splits prod.splits)

lemma listAll_keys:
  assumes "store_ok s" and "listAll (dec_service sv) ctx KindService s = Some (Inr ds)"
    and "\<And>key d. service_at sv s key = Some d \<Longrightarrow> f d = key"
  shows "distinct (map f ds)"
proof -
  let ?b = "db_kinds s KindService"
  have wf: "bk_wf ?b" using assms(1) by (simp add: store_ok_def buckets_wf_def)
  have "list_all2 (\<lambda>e d. sv_Decode sv (drop 8 (snd e)) = Inr d) ?b ds"
    by (rule listAll_decoded [OF assms(1,2)])
  moreover have "f d = fst e" if "e \<in> set ?b" "sv_Decode sv (drop 8 (snd e)) = Inr d" for e d
    using assms(3) [of "fst e" d] that bk_in_set [OF wf, of "fst e" "snd e"]
    by (simp add: service_at_def abs_store_def)
  ultimately have "list_all2 (\<lambda>e d. f d = fst e) ?b ds"
    by (auto intro: list.rel_mono_strong)
  then have "map f ds = map fst ?b"
    by (simp add: list_all2_conv_all_nth list_eq_iff_nth_eq)
  then show ?thesis using wf by (simp add: bk_wf_def strict_sorted_iff)
qed

lemma listAll_total:
  assumes "store_ok s"
  shows "listAll (dec_service sv) ctx KindService s \<noteq> None"
proof (cases "check ctx s")
  case (Some e)
  then show ?thesis
    unfolding listAll_def by (subst load_all.simps) (simp add: ListValues_def ListPage_def)
next
  case None
  then have "ctx = None" "\<not> db_closed s" by (auto simp: check_def split: option.splits if_splits)
  then show ?thesis
    using load_all_complete [OF assms _ KindService_valid(1), of listOptions "dec_service sv"]
    by (simp add: listAll_def listOptions_def)
qed

text \<open>What a prune removes: the stored services of its projects that the request does not declare.\<close>

definition orphans :: "'r Server \<Rightarrow> Store \<Rightarrow> 'r ApplyRequest \<Rightarrow> string set" where
  "orphans sv s req =
     {d_key d |d key. service_at sv s key = Some d \<and> d_Project d \<in> set (rq_PruneProjects req) \<and>
        d_key d \<notin> d_key ` set (rq_Services req)}"

lemma pruneOrphans_Inr:
  assumes "store_ok s" and "pruneOrphans sv req (map d_key (rq_Services req)) s = Some (Inr removed)"
  shows "set removed = orphans sv s req"
proof (cases "rq_PruneProjects req = []")
  case True
  with assms(2) show ?thesis by (simp add: pruneOrphans_def orphans_def)
next
  case False
  then obtain ds where ds: "listAll (dec_service sv) (sv_Ctx sv) KindService s = Some (Inr ds)"
    and r: "removed = orphaned (rq_PruneProjects req) (map d_key (rq_Services req)) ds"
    using assms(2) by (auto simp: pruneOrphans_def split: option.splits sum.splits)
  show ?thesis
    unfolding r orphaned_def orphans_def using listAll_Inr [OF assms(1) ds] by auto
qed

definition exact_apply :: "'r Server \<Rightarrow> 'r ApplyRequest \<Rightarrow> Store \<Rightarrow> Store \<Rightarrow> bool" where
  "exact_apply sv req s s' \<longleftrightarrow>
     (\<forall>key. service_at sv s' key =
        (if key \<in> orphans sv s req then None
         else case map_of (rev (map (\<lambda>d. (d_key d, merged_service sv s d)) (rq_Services req))) key of
                Some d \<Rightarrow> Some d | None \<Rightarrow> service_at sv s key))"

lemma apply_effect:
  assumes "store_ok s" and "codec sv W" and "set (rq_Services req) \<subseteq> W"
    and "\<And>p. plan_apply sv req s = Some (Inr p) \<Longrightarrow> room s (fst p)"
    and "applyServices sv req s = Some (Inr resp, ef, s')"
  shows "store_ok s'" and "exact_apply sv req s s'" and "set (rs_Removed resp) = orphans sv s req"
    and "rs_Applied resp = map d_key (rq_Services req)"
proof -
  from applyServices_Inr [OF assms(5)] obtain puts configs
    where puts: "collect_answers (put_service sv s) (rq_Services req) = Inr puts"
      and configs: "collect_answers (put_config sv s) (rq_Pipelines req) = Inr configs"
      and prune: "pruneOrphans sv req (rs_Applied resp) s = Some (Inr (rs_Removed resp))"
      and applied: "rs_Applied resp = map d_key (rq_Services req)"
      and wr: "store_write sv (puts @ configs @ map (DeleteMutation KindService) (rs_Removed resp)) s = (Inr (rs_Index resp), s')"
      and plan: "plan_apply sv req s = Some (Inr (puts @ configs @ map (DeleteMutation KindService) (rs_Removed resp),
           rs_Applied resp, rs_Removed resp))"
    by blast
  let ?ms = "puts @ configs @ map (DeleteMutation KindService) (rs_Removed resp)"
  have room: "room s ?ms" using assms(4) [OF plan] by simp
  note wr = wr [unfolded store_write_def]
  show "store_ok s'" using Apply_store_ok [OF assms(1) room, of "sv_WriteCtx sv" "sv_Commit sv" "sv_Stamp sv"] wr by simp
  show removed: "set (rs_Removed resp) = orphans sv s req"
    by (rule pruneOrphans_Inr [OF assms(1) prune [unfolded applied]])
  show "rs_Applied resp = map d_key (rq_Services req)" by (rule applied)
  show "exact_apply sv req s s'"
    unfolding exact_apply_def removed [symmetric]
    using apply_batch_services [OF assms(2,3) puts configs Apply_Inr_abs(3) [OF assms(1) room wr]] by blast
qed

lemma store_write_Inl: "store_write sv ms s = (Inl e, s') \<Longrightarrow> s' = s"
  using Apply_accepted [of "sv_WriteCtx sv" "sv_Commit sv" s ms "sv_Stamp sv"]
    Apply_refused [of "sv_WriteCtx sv" "sv_Commit sv" s ms "sv_Stamp sv"]
  by (cases "accepts (sv_WriteCtx sv) (sv_Commit sv) s ms") (auto simp: store_write_def split: if_splits)

text \<open>
  C31. An apply is all or nothing, and all is exact: a refused or failed one leaves the store as it was and
  does nothing else; a successful one replaces each declared service by the declared record with the
  server's own fields carried over, deletes exactly the undeclared services of the pruned projects,
  leaves every other service alone and wakes the reconciler. It always answers.
\<close>

theorem apply_is_atomic_and_exact:
  assumes "store_ok s" and "codec sv W" and "set (rq_Services req) \<subseteq> W"
    and "\<And>p. plan_apply sv req s = Some (Inr p) \<Longrightarrow> room s (fst p)"
  shows "case applyServices sv req s of
           None \<Rightarrow> False
         | Some (Inl e, ef, s') \<Rightarrow> s' = s \<and> ef = nothing ''''
         | Some (Inr resp, ef, s') \<Rightarrow>
             store_ok s' \<and> exact_apply sv req s s' \<and> ef_Woke ef \<and>
             set (rs_Removed resp) = orphans sv s req \<and> rs_Applied resp = map d_key (rq_Services req)"
proof -
  have total: "plan_apply sv req s \<noteq> None"
    using listAll_total [OF assms(1), of sv "sv_Ctx sv"]
    by (auto simp: plan_apply_def pruneOrphans_def Let_def split: sum.splits option.splits)
  then obtain p where "plan_apply sv req s = Some p" by auto
  then have "applyServices sv req s =
      Some (case p of Inl e \<Rightarrow> (Inl e, nothing '''', s) | Inr q \<Rightarrow> commit_apply sv q s)"
    by (simp add: applyServices_def split: sum.split)
  then obtain a ef s' where run: "applyServices sv req s = Some (a, ef, s')"
    by (metis prod_cases3)
  show ?thesis
  proof (cases a)
    case (Inl e)
    have "s' = s \<and> ef = nothing ''''"
      using run unfolding Inl
      by (auto simp: applyServices_def commit_apply_def Let_def dest: store_write_Inl
          split: option.splits sum.splits prod.splits)
    then show ?thesis by (simp add: run Inl)
  next
    case (Inr resp)
    have "ef_Woke ef"
      using run unfolding Inr
      by (auto simp: applyServices_def commit_apply_def Let_def split: option.splits sum.splits prod.splits)
    then show ?thesis using apply_effect [OF assms run [unfolded Inr]] by (simp add: run Inr)
  qed
qed

end
