(* ===== verification/Api_Steps.thy ===== *)
theory Api_Steps
  imports Api_Facts
begin

text \<open>
  Requests that interleave. Every writing handler of the API reads the store, decides on a batch and
  writes it in a second transaction; a run is any sequence of such readings and writings.
\<close>

section \<open>Runs\<close>

text \<open>Two requests of one daemon: the codec and the port policy are the same, the contexts, the clocks, the
  registry's answers and the commit's fate are not.\<close>

definition one_daemon :: "'r Server \<Rightarrow> 'r Server \<Rightarrow> bool" where
  "one_daemon sv sv' \<longleftrightarrow>
     sv_Encode sv' = sv_Encode sv \<and> sv_Decode sv' = sv_Decode sv \<and> sv_Policy sv' = sv_Policy sv"

inductive api_run :: "'r Server \<Rightarrow> Desired set \<Rightarrow> Store \<Rightarrow> Store \<Rightarrow> Mutation list set \<Rightarrow> bool"
  for sv :: "'r Server" and W :: "Desired set" and s0 :: Store where
  api_start: "api_run sv W s0 s0 {}"
| api_apply: "api_run sv W s0 s P \<Longrightarrow> one_daemon sv sv' \<Longrightarrow> set (rq_Services req) \<subseteq> W \<Longrightarrow>
    plan_apply sv' req s = Some (Inr (ms, applied, removed)) \<Longrightarrow> api_run sv W s0 s (insert ms P)"
| api_scale: "api_run sv W s0 s P \<Longrightarrow> one_daemon sv sv' \<Longrightarrow> plan_scale sv' key n s = Inr m \<Longrightarrow>
    api_run sv W s0 s (insert [m] P)"
| api_restart: "api_run sv W s0 s P \<Longrightarrow> one_daemon sv sv' \<Longrightarrow> plan_restart sv' key s = Inr (g, m) \<Longrightarrow>
    api_run sv W s0 s (insert [m] P)"
| api_delete: "api_run sv W s0 s P \<Longrightarrow> api_run sv W s0 s (insert [DeleteMutation KindService key] P)"
| api_delete_project: "api_run sv W s0 s P \<Longrightarrow> one_daemon sv sv' \<Longrightarrow>
    plan_delete_project sv' name s = Some (Inr (keys, hasConfig)) \<Longrightarrow>
    api_run sv W s0 s (insert (map (DeleteMutation KindService) keys @
      (if hasConfig then [DeleteMutation KindProject name] else [])) P)"
| api_commit: "api_run sv W s0 s P \<Longrightarrow> one_daemon sv sv' \<Longrightarrow> ms \<in> P \<Longrightarrow> room s ms \<Longrightarrow> store_write sv' ms s = (r, s') \<Longrightarrow>
    api_run sv W s0 s' P"

section \<open>Every stored service stays acceptable\<close>

definition all_acceptable :: "'r Server \<Rightarrow> Store \<Rightarrow> bool" where
  "all_acceptable sv s \<longleftrightarrow>
     (\<forall>key d. service_at sv s key = Some d \<longrightarrow> d_key d = key \<and> acceptable (sv_Policy sv) d)"

definition good_put :: "'r Server \<Rightarrow> Mutation \<Rightarrow> bool" where
  "good_put sv m \<longleftrightarrow>
     (mu_Kind m = KindService \<and> mu_Op m = OpPut \<longrightarrow>
        (\<forall>d. sv_Decode sv (mu_Value m) = Inr d \<longrightarrow> d_key d = mu_Key m \<and> acceptable (sv_Policy sv) d))"

lemma good_delete [simp]: "good_put sv (DeleteMutation kind key)"
  by (simp add: good_put_def DeleteMutation_def)

lemma one_daemonD:
  assumes "one_daemon sv sv'"
  shows "codec sv' W = codec sv W" and "service_at sv' s key = service_at sv s key"
    and "good_put sv' m = good_put sv m" and "sv_Policy sv' = sv_Policy sv"
  using assms by (simp_all add: one_daemon_def codec_def service_at_def good_put_def cong: option.case_cong)

lemma good_put_merged:
  assumes "codec sv W" and "d \<in> W" and "acceptable (sv_Policy sv) d" and "sv_Encode sv e = Inr raw"
    and "stripped e = stripped d" and "mu_Value m = raw" and "mu_Key m = d_key d"
  shows "good_put sv m"
proof -
  have "e \<in> W" by (rule codecD(3) [OF assms(1,2,5)])
  then have "sv_Decode sv raw = Inr e" by (rule codecD(2) [OF assms(1) _ assms(4)])
  then show ?thesis
    using same_stripped [OF assms(5)] assms(3,6,7) by (simp add: good_put_def)
qed

lemma plan_apply_good:
  assumes "codec sv W" and "set (rq_Services req) \<subseteq> W" and "plan_apply sv req s = Some (Inr (ms, applied, removed))"
    and "m \<in> set ms"
  shows "good_put sv m"
proof -
  from assms(3) obtain puts configs where puts: "collect_answers (put_service sv s) (rq_Services req) = Inr puts"
    and configs: "collect_answers (put_config sv s) (rq_Pipelines req) = Inr configs"
    and ms: "ms = puts @ configs @ map (DeleteMutation KindService) removed"
    by (auto simp: plan_apply_def Let_def split: sum.splits option.splits if_splits)
  obtain xs where xs: "rq_Services req = map fst xs" "puts = map put_of xs"
    "\<forall>x\<in>set xs. sv_Encode sv (merged_service sv s (fst x)) = Inr (snd x)"
    "\<forall>d\<in>set (rq_Services req). acceptable (sv_Policy sv) d"
    using put_services_Inr [OF puts] by blast
  from assms(4) consider (put) x where "x \<in> set xs" "m = put_of x" | (config) "m \<in> set configs"
    | (del) key where "m = DeleteMutation KindService key"
    unfolding ms xs(2) by auto
  then show ?thesis
  proof cases
    case put
    then have x: "fst x \<in> set (rq_Services req)" unfolding xs(1) by simp
    show ?thesis
    proof (rule good_put_merged [OF assms(1) _ _ _ stripped_merged])
      show "fst x \<in> W" using x assms(2) by blast
      show "acceptable (sv_Policy sv) (fst x)" using x xs(4) by blast
      show "sv_Encode sv (merged_service sv s (fst x)) = Inr (snd x)" using xs(3) put(1) by blast
    qed (simp_all add: put(2) put_of_def PutMutation_def)
  next
    case config
    then show ?thesis using configs_kind [OF configs] by (simp add: good_put_def)
  qed simp
qed

lemma plan_scale_Inr:
  assumes "plan_scale sv key n s = Inr m"
  obtains d index raw where "read_service sv key s = Inr (d, index)" and "0 \<le> n" and "outside_bounds d n = None"
    and "sv_Encode sv (d\<lparr>d_Count := n\<rparr>) = Inr raw" and "m = UpdateMutation KindService key raw index"
  using assms by (auto simp: plan_scale_def split: if_splits sum.splits option.splits prod.splits)

lemma plan_restart_Inr:
  assumes "plan_restart sv key s = Inr (g, m)"
  obtains d index raw where "read_service sv key s = Inr (d, index)" and "g = d_Generation d + 1"
    and "sv_Encode sv (d\<lparr>d_Generation := g\<rparr>) = Inr raw" and "m = PutMutation KindService key raw"
  using assms by (auto simp: plan_restart_def split: sum.splits prod.splits)

lemma rewrite_good:
  assumes "codec sv W" and "store_ok s" and "all_acceptable sv s" and "read_service sv key s = Inr (d, index)"
    and "sv_Encode sv e = Inr raw" and "stripped e = stripped d" and "mu_Value m = raw" and "mu_Key m = key"
  shows "good_put sv m"
proof -
  note r = read_service_Inr [OF assms(2,4)]
  have "d \<in> W" using r(1) codecD(1) [OF assms(1)] by blast
  moreover have "d_key d = key" "acceptable (sv_Policy sv) d" using assms(3) r(2) by (auto simp: all_acceptable_def)
  ultimately show ?thesis using good_put_merged [OF assms(1) _ _ assms(5,6,7)] assms(8) by blast
qed

lemma plan_scale_good:
  assumes "codec sv W" and "store_ok s" and "all_acceptable sv s" and "plan_scale sv key n s = Inr m"
  shows "good_put sv m"
  using assms(4)
proof (rule plan_scale_Inr)
  fix d index raw
  assume "read_service sv key s = Inr (d, index)" "sv_Encode sv (d\<lparr>d_Count := n\<rparr>) = Inr raw"
    "m = UpdateMutation KindService key raw index"
  then show ?thesis
    using rewrite_good [OF assms(1-3)] by (simp add: UpdateMutation_def PutMutation_def)
qed

lemma plan_restart_good:
  assumes "codec sv W" and "store_ok s" and "all_acceptable sv s" and "plan_restart sv key s = Inr (g, m)"
  shows "good_put sv m"
  using assms(4)
proof (rule plan_restart_Inr)
  fix d index raw
  assume "read_service sv key s = Inr (d, index)" "sv_Encode sv (d\<lparr>d_Generation := g\<rparr>) = Inr raw"
    "m = PutMutation KindService key raw"
  then show ?thesis
    using rewrite_good [OF assms(1-3)] by (simp add: PutMutation_def)
qed

lemma commit_good:
  assumes "store_ok s" and "all_acceptable sv s" and "room s ms" and "\<forall>m\<in>set ms. good_put sv m"
    and "store_write sv' ms s = (r, s')"
  shows "store_ok s'" and "all_acceptable sv s'"
proof -
  show "store_ok s'"
    using Apply_store_ok [OF assms(1,3), of "sv_WriteCtx sv'" "sv_Commit sv'" "sv_Stamp sv'"] assms(5)
    by (simp add: store_write_def)
  show "all_acceptable sv s'"
  proof (cases r)
    case (Inl e)
    then show ?thesis using store_write_Inl assms(2,5) by blast
  next
    case (Inr i)
    have abs: "abs_store s' = fold (spec_write i) ms (abs_store s)"
      using Apply_Inr_abs(3) [OF assms(1,3)] assms(5) Inr by (simp add: store_write_def)
    have "d_key d = key \<and> acceptable (sv_Policy sv) d" if d: "service_at sv s' key = Some d" for key d
    proof (cases "find (touches (KindService, key)) (rev ms)")
      case None
      then have "service_at sv s key = Some d" using d by (simp add: service_at_def abs spec_write_lookup)
      then show ?thesis using assms(2) by (simp add: all_acceptable_def)
    next
      case (Some m)
      then have m: "m \<in> set ms" "mu_Kind m = KindService" "mu_Key m = key"
        by (auto simp: find_Some_iff touches_def in_set_conv_nth) (metis length_rev nth_mem set_rev in_set_conv_nth)
      have "mu_Op m = OpPut" "sv_Decode sv (mu_Value m) = Inr d"
        using d Some by (auto simp: service_at_def abs spec_write_lookup split: if_splits sum.splits)
      then show ?thesis using assms(4) m by (auto simp: good_put_def)
    qed
    then show ?thesis by (simp add: all_acceptable_def)
  qed
qed

lemma api_run_good:
  assumes "codec sv W" and "store_ok s0" and "all_acceptable sv s0" and "api_run sv W s0 s P"
  shows "store_ok s \<and> all_acceptable sv s \<and> (\<forall>ms\<in>P. \<forall>m\<in>set ms. good_put sv m)"
  using assms(4)
proof induction
  case api_start
  then show ?case using assms by simp
next
  case (api_apply s P sv' req ms applied removed)
  have "good_put sv m" if "m \<in> set ms" for m
    using plan_apply_good [OF _ api_apply.hyps(3,4) that] assms(1) one_daemonD [OF api_apply.hyps(2)] by metis
  with api_apply.IH show ?case by blast
next
  case (api_scale s P sv' key n m)
  note od = one_daemonD [OF api_scale.hyps(2)]
  have "all_acceptable sv' s" using api_scale.IH by (simp add: all_acceptable_def od(2,4))
  then have "good_put sv m" using plan_scale_good [OF _ _ _ api_scale.hyps(3)] api_scale.IH assms(1) od by metis
  with api_scale.IH show ?case by simp
next
  case (api_restart s P sv' key g m)
  note od = one_daemonD [OF api_restart.hyps(2)]
  have "all_acceptable sv' s" using api_restart.IH by (simp add: all_acceptable_def od(2,4))
  then have "good_put sv m" using plan_restart_good [OF _ _ _ api_restart.hyps(3)] api_restart.IH assms(1) od by metis
  with api_restart.IH show ?case by simp
next
  case (api_commit s P sv' ms r s')
  then have "\<forall>m\<in>set ms. good_put sv m" by blast
  from commit_good [OF _ _ api_commit.hyps(4) this api_commit.hyps(5)] api_commit.IH show ?case by blast
qed auto


section \<open>Two requests on one service\<close>

lemma write_one:
  assumes "store_ok t" and "unat (store_index t) + 1 < 2 ^ 64" and "store_write sv [m] t = (Inr i, u)"
    and "mu_Kind m = KindService" and "mu_Op m = OpPut" and "sv_Decode sv (mu_Value m) = Inr d"
  shows "service_at sv u key = (if key = mu_Key m then Some d else service_at sv t key)" and "store_ok u"
    and "precondition t m" and "store_index u = store_index t + 1"
proof -
  have room: "room t [m]" using assms(2) by (simp add: room_def)
  note wr = assms(3) [unfolded store_write_def]
  show "service_at sv u key = (if key = mu_Key m then Some d else service_at sv t key)"
    using Apply_Inr_abs(3) [OF assms(1) room wr] assms(4-6) by (simp add: service_at_def spec_write_def)
  show "store_ok u"
    using Apply_store_ok [OF assms(1) room, of "sv_WriteCtx sv" "sv_Commit sv" "sv_Stamp sv"] wr by simp
  show "precondition t m" using Apply_Inr(1) [OF wr] by (simp add: accepts_def)
  show "store_index u = store_index t + 1" using Apply_Inr_abs(1,2) [OF assms(1) room wr] by simp
qed

lemma commit_scale_Inr:
  "commit_scale sv key m t = (Inr resp, ef, u) \<Longrightarrow> \<exists>i. store_write sv [m] t = (Inr i, u)"
  by (auto simp: commit_scale_def split: prod.splits sum.splits store_error.splits)

lemma commit_restart_Inr:
  "commit_restart sv project service (g, m) t = (Inr resp, ef, u) \<Longrightarrow> \<exists>i. store_write sv [m] t = (Inr i, u)"
  by (auto simp: commit_restart_def Let_def split: prod.splits sum.splits)

lemma scale_effect:
  assumes "codec sv W" and "store_ok s" and "plan_scale sv key n s = Inr m" and "later s t"
    and "unat (store_index t) + 1 < 2 ^ 64" and "commit_scale sv key m t = (Inr resp, ef, u)"
  obtains d where "service_at sv s key = Some d" and "service_at sv t key = Some d" and "outside_bounds d n = None"
    and "\<And>k. service_at sv u k = (if k = key then Some (d\<lparr>d_Count := n\<rparr>) else service_at sv t k)" and "store_ok u"
proof (rule plan_scale_Inr [OF assms(3)])
  fix d index raw
  assume read: "read_service sv key s = Inr (d, index)" and bounds: "outside_bounds d n = None"
    and enc: "sv_Encode sv (d\<lparr>d_Count := n\<rparr>) = Inr raw" and m: "m = UpdateMutation KindService key raw index"
  note r = read_service_Inr [OF assms(2) read]
  obtain old where old: "abs_store s (KindService, key) = Some (index, old)" "sv_Decode sv old = Inr d" using r(1) by blast
  have "d \<in> W" using old(2) codecD(1) [OF assms(1)] by blast
  then have "d\<lparr>d_Count := n\<rparr> \<in> W" using codecD(3) [OF assms(1)] by simp
  then have dec: "sv_Decode sv (mu_Value m) = Inr (d\<lparr>d_Count := n\<rparr>)"
    using codecD(2) [OF assms(1) _ enc] by (simp add: m UpdateMutation_def PutMutation_def)
  have t: "store_ok t" "\<And>p i v. abs_store t p = Some (i, v) \<Longrightarrow> i \<le> store_index s \<Longrightarrow> abs_store s p = Some (i, v)"
    using later_ok [OF assms(4,2)] by blast+
  have kind: "mu_Kind m = KindService" "mu_Op m = OpPut" "mu_Key m = key" "mu_PrevIndex m = index"
    by (simp_all add: m UpdateMutation_def PutMutation_def)
  obtain i where "store_write sv [m] t = (Inr i, u)" using commit_scale_Inr [OF assms(6)] by blast
  note w = write_one [OF t(1) assms(5) this kind(1,2) dec]
  obtain v where v: "abs_store t (KindService, key) = Some (index, v)"
    using precondition_PrevIndex [OF t(1) w(3)] r(3) kind by auto
  then have "v = old" using t(2) r(4) old(1) by fastforce
  then have "service_at sv t key = Some d" using v old(2) by (simp add: service_at_def)
  then show thesis using that [OF r(2) _ bounds] w(1,2) kind(3) by simp
qed

text \<open>
  A scale changes nothing but the count of the record it read: if its write succeeds, the record was still
  the one it read, whatever was written in between, and every other service is untouched.
\<close>

theorem scale_is_a_compare_and_set:
  assumes "codec sv W" and "store_ok s" and "plan_scale sv key n s = Inr m" and "later s t"
    and "unat (store_index t) + 1 < 2 ^ 64" and "commit_scale sv key m t = (Inr resp, ef, u)"
  shows "\<exists>d. service_at sv s key = Some d \<and> service_at sv t key = Some d \<and> outside_bounds d n = None \<and>
    service_at sv u = (service_at sv t)(key \<mapsto> d\<lparr>d_Count := n\<rparr>)"
proof (rule scale_effect [OF assms])
  fix d
  assume "service_at sv s key = Some d" "service_at sv t key = Some d" "outside_bounds d n = None"
    "\<And>k. service_at sv u k = (if k = key then Some (d\<lparr>d_Count := n\<rparr>) else service_at sv t k)"
  then show ?thesis by (intro exI [of _ d]) auto
qed

text \<open>
  C39. A restart writes back the record it read. A scale that lands between its reading and its writing is
  acknowledged and then lost: the stored count is the old one again.
\<close>

theorem restart_may_undo_a_scale:
  assumes "codec sv W" and "store_ok s" and "unat (store_index s) + 2 < 2 ^ 64"
    and "plan_restart sv (service_key project service) s = Inr p"
    and "handleScale sv project service n s = (Inr resp, ef, t)"
    and "commit_restart sv project service p t = (Inr resp', ef', u)"
  shows "\<exists>d. service_at sv s (service_key project service) = Some d \<and>
    service_at sv t (service_key project service) = Some (d\<lparr>d_Count := n\<rparr>) \<and>
    service_at sv u (service_key project service) = Some (d\<lparr>d_Generation := d_Generation d + 1\<rparr>)"
proof -
  let ?key = "service_key project service"
  obtain g m where p: "p = (g, m)" by (cases p)
  from assms(5) obtain ms where ms: "plan_scale sv ?key n s = Inr ms" "commit_scale sv ?key ms s = (Inr resp, ef, t)"
    by (auto simp: handleScale_def at_once_def Let_def split: sum.splits)
  have i: "unat (store_index s) + 1 < 2 ^ 64" using assms(3) by simp
  show ?thesis
  proof (rule scale_effect [OF assms(1,2) ms(1) later_refl i ms(2)], rule plan_restart_Inr [OF assms(4) [unfolded p]])
    fix d d' index raw
    assume d: "service_at sv s ?key = Some d"
      and t: "\<And>k. service_at sv t k = (if k = ?key then Some (d\<lparr>d_Count := n\<rparr>) else service_at sv s k)" "store_ok t"
      and read: "read_service sv ?key s = Inr (d', index)" and g: "g = d_Generation d' + 1"
      and enc: "sv_Encode sv (d'\<lparr>d_Generation := g\<rparr>) = Inr raw" and m: "m = PutMutation KindService ?key raw"
    note r = read_service_Inr [OF assms(2) read]
    have dd: "d' = d" using r(2) d by simp
    have "d \<in> W" using r(1) codecD(1) [OF assms(1)] dd by blast
    then have "d\<lparr>d_Generation := g\<rparr> \<in> W" using codecD(3) [OF assms(1)] by simp
    then have dec: "sv_Decode sv (mu_Value m) = Inr (d\<lparr>d_Generation := g\<rparr>)"
      using codecD(2) [OF assms(1) _ enc] by (simp add: m PutMutation_def dd)
    have "store_index t = store_index s + 1"
      using commit_scale_Inr [OF ms(2)] Apply_Inr_abs(1,2) [OF assms(2), of "[ms]"] i
      by (auto simp: store_write_def room_def)
    then have ti: "unat (store_index t) + 1 < 2 ^ 64"
      using assms(3) i by (simp add: unat_word_ariths)
    obtain j where j: "store_write sv [m] t = (Inr j, u)" using commit_restart_Inr [OF assms(6) [unfolded p]] by blast
    have "mu_Kind m = KindService" "mu_Op m = OpPut" "mu_Key m = ?key" by (simp_all add: m PutMutation_def)
    with write_one(1) [OF t(2) ti j _ _ dec, of ?key] t(1) d show ?thesis by (simp add: g dd)
  qed
qed

end
