(* ===== verification/Api_Agreement.thy ===== *)
theory Api_Agreement
  imports Api_Facts Spec_Changes_Facts
begin

text \<open>
  The apply path against the rest of the program: a plan taken after an apply is silent, and applying
  again what a service already runs rolls nothing.
\<close>

section \<open>Plan and apply agree\<close>

lemma unstrip:
  "e = (stripped e)\<lparr>d_Count := d_Count e, d_PinnedImage := d_PinnedImage e, d_RollbackImage := d_RollbackImage e,
     d_ImageCheckedAt := d_ImageCheckedAt e, d_ImageUpdatedAt := d_ImageUpdatedAt e, d_Generation := d_Generation e\<rparr>"
  by (cases e) (simp add: stripped_def)

lemma stored_as_stripped:
  assumes "stripped e = stripped d" and "d_Count e = d_Count d"
  shows "stored_as d e"
proof -
  have "d\<lparr>d_Generation := g, d_PinnedImage := p, d_RollbackImage := r, d_ImageCheckedAt := c, d_ImageUpdatedAt := u,
      d_ResolvConfPath := d_ResolvConfPath d\<rparr> =
    (stripped d)\<lparr>d_Count := d_Count d, d_PinnedImage := p, d_RollbackImage := r, d_ImageCheckedAt := c,
      d_ImageUpdatedAt := u, d_Generation := g\<rparr>" for g p r c u
    by (cases d) (simp add: stripped_def)
  then show ?thesis
    unfolding stored_as_def using unstrip [of e] assms by metis
qed

lemma Count_merged [simp]: "d_Count (merged_service sv s d) = d_Count d"
  by (simp add: merged_service_def pin_def carry_over_def Let_def split: option.split sum.split prod.split)

lemma stored_as_merged: "stored_as d (merged_service sv s d)"
  by (rule stored_as_stripped) simp_all

lemma merged_Some:
  assumes "map_of (rev (map (\<lambda>d. (d_key d, merged_service sv s d)) ds)) key = Some x"
  shows "\<exists>d\<in>set ds. d_key d = key \<and> x = merged_service sv s d"
  using map_of_SomeD [OF assms] by auto

lemma merged_of:
  assumes "distinct (map d_key ds)" and "d \<in> set ds"
  shows "map_of (rev (map (\<lambda>d. (d_key d, merged_service sv s d)) ds)) (d_key d) = Some (merged_service sv s d)"
  using assms by (simp add: map_of_eq_Some_iff comp_def rev_map [symmetric])

lemma listed_keys:
  assumes "store_ok s" and "filed sv s" and "listAll (dec_service sv) ctx KindService s = Some (Inr ds)"
  shows "distinct (map d_key ds)"
  using listAll_keys [OF assms(1,3)] assms(2) by (simp add: filed_def)

lemma filed_apply:
  assumes "filed sv s" and "exact_apply sv req s s'"
  shows "filed sv s'"
  using assms merged_Some [of sv s "rq_Services req"]
  by (fastforce simp: filed_def exact_apply_def split: if_splits option.splits)

text \<open>
  C33. Plan and apply agree: after a successful apply of a spec, a plan of the same spec against the services
  the store then lists says nothing, whatever was stored before and whatever the server carried over or
  pinned.
\<close>

theorem plan_after_apply_is_silent:
  assumes "store_ok s" and "filed sv s" and "codec sv W" and "set (rq_Services req) \<subseteq> W"
    and "\<And>p. plan_apply sv req s = Some (Inr p) \<Longrightarrow> room s (fst p)"
    and "distinct (map d_key (rq_Services req))" and "\<forall>d\<in>set (rq_Services req). gm_wf (d_Env d)"
    and "applyServices sv req s = Some (Inr resp, ef, s')"
    and "listAll (dec_service sv) None KindService s' = Some (Inr current)"
  shows "service_Changes sha current (rq_Services req) (rq_PruneProjects req) = []"
proof (rule plan_is_silent_when_stored [OF _ assms(7)])
  note eff = apply_effect [OF assms(1,3,4,5,8)]
  have filed: "filed sv s'" by (rule filed_apply [OF assms(2) eff(2)])
  note listed = listAll_Inr [OF eff(1) assms(9)]
  show "distinct (map d_key current)" by (rule listed_keys [OF eff(1) filed assms(9)])
  show "\<forall>want\<in>set (rq_Services req). \<exists>have\<in>set current. stored_as want have"
  proof
    fix d assume d: "d \<in> set (rq_Services req)"
    then have "d_key d \<in> d_key ` set (rq_Services req)" by (rule imageI)
    then have "d_key d \<notin> orphans sv s req" unfolding orphans_def by force
    then have "service_at sv s' (d_key d) = Some (merged_service sv s d)"
      using eff(2) merged_of [OF assms(6) d, of sv s] by (simp add: exact_apply_def)
    then have "merged_service sv s d \<in> set current" using listed by blast
    then show "\<exists>have\<in>set current. stored_as d have" using stored_as_merged by blast
  qed
  show "\<forall>have\<in>set current. d_Project have \<in> set (rq_PruneProjects req) \<longrightarrow> d_key have \<in> d_key ` set (rq_Services req)"
  proof (intro ballI impI)
    fix h assume h: "h \<in> set current" "d_Project h \<in> set (rq_PruneProjects req)"
    then obtain key where key: "service_at sv s' key = Some h" using listed by blast
    then have k: "d_key h = key" using filed by (simp add: filed_def)
    show "d_key h \<in> d_key ` set (rq_Services req)"
    proof (rule ccontr)
      assume no: "d_key h \<notin> d_key ` set (rq_Services req)"
      then have "map_of (rev (map (\<lambda>d. (d_key d, merged_service sv s d)) (rq_Services req))) key = None"
        by (auto simp: map_of_eq_None_iff k)
      then have "service_at sv s key = Some h" "key \<notin> orphans sv s req"
        using key eff(2) by (simp_all add: exact_apply_def split: if_splits)
      then show False using h(2) no k by (auto simp: orphans_def)
    qed
  qed
qed

section \<open>Applying the same again\<close>

lemma material_stripped:
  "material d = (material (stripped d))\<lparr>hm_PinnedImage := d_PinnedImage d, hm_Generation := d_Generation d\<rparr>"
  by (simp add: material_def stripped_def)


end
