(* ===== verification/Api_Examples.thy ===== *)
theory Api_Examples
  imports Api_Steps Api_Agreement Store_Examples
begin

text \<open>
  The theorems about the API at concrete inputs: one small service, a store that holds it, and a codec
  that knows the few records the examples write.
\<close>

section \<open>A service and a server\<close>

definition ex_web :: Desired where
  "ex_web = zero_desired\<lparr>d_Project := ''shop'', d_Service := ''web'', d_Count := 2, d_Image := ''nginx'',
     d_Env := [(''DB'', ''secret:shop/db'')], d_Capabilities := [''CAP_CHOWN'']\<rparr>"

definition ex_job :: Desired where
  "ex_job = zero_desired\<lparr>d_Project := ''shop'', d_Service := ''job'', d_Count := 1, d_Image := ''job''\<rparr>"

definition ex_encode :: "Desired \<Rightarrow> string + string" where
  "ex_encode d =
     (if d = ex_web then Inr ''0''
      else if d = ex_web\<lparr>d_Generation := 1\<rparr> then Inr ''1''
      else if d = ex_web\<lparr>d_Count := 5\<rparr> then Inr ''2''
      else if d = ex_job then Inr ''3''
      else Inl ''unsupported'')"

definition ex_decode :: "string \<Rightarrow> string + Desired" where
  "ex_decode raw =
     (if raw = ''0'' then Inr ex_web
      else if raw = ''1'' then Inr (ex_web\<lparr>d_Generation := 1\<rparr>)
      else if raw = ''2'' then Inr (ex_web\<lparr>d_Count := 5\<rparr>)
      else if raw = ''3'' then Inr ex_job
      else Inl ''unsupported'')"

definition ex_server :: "unit Server" where
  "ex_server = \<lparr>sv_Policy = \<lparr>po_ranges = [(1024, 65535)], po_raw = ''''\<rparr>, sv_Pinner = None,
     sv_Encode = ex_encode, sv_Decode = ex_decode,
     sv_EncodeConfig = (\<lambda>_. Inl ''unsupported''), sv_DecodeConfig = (\<lambda>_. Inl ''unsupported''),
     sv_Ctx = None, sv_WriteCtx = None, sv_Commit = None, sv_Now = 0, sv_Stamp = 0\<rparr>"

lemma ex_codec: "codec ex_server UNIV"
  by (auto simp: codec_def ex_server_def ex_encode_def ex_decode_def split: if_splits)

lemma ex_web_valid: "validateDesired ex_web = None"
  by code_simp

lemma ex_job_valid: "validateDesired ex_job = None"
  by code_simp

definition ex_put :: "string \<Rightarrow> string \<Rightarrow> Mutation" where
  "ex_put key raw = PutMutation KindService key raw"

definition ex_store :: Store where
  "ex_store = written [ex_put ''shop/job'' ''3'', ex_put ''shop/web'' ''0''] empty_db"

lemma ex_room: "room empty_db [ex_put ''shop/job'' ''3'', ex_put ''shop/web'' ''0'']"
  unfolding room_def by code_simp

lemma ex_store_ok: "store_ok ex_store"
  unfolding ex_store_def using store_ok_empty ex_room by (rule Apply_store_ok)

theorem accepted_references_witness:
  "validateDesired ex_web = None \<and> in_scope ''shop'' ''secret:shop/db''"
proof -
  have "''secret:shop/db'' \<in> followed_refs ex_web"
    by (auto simp: followed_refs_def env_refs_def ex_web_def ParseEnvRef_def zero_desired_def)
  moreover have "d_Project ex_web = ''shop''" by (simp add: ex_web_def)
  ultimately show ?thesis
    using accepted_references_are_in_scope [OF ex_web_valid, of "''secret:shop/db''"] ex_web_valid by simp
qed

definition ex_stolen :: AuthPolicy where
  "ex_stolen = \<lparr>auth_BasicRef = ''secret:billing/htpasswd'', auth_BearerRef = '''', auth_JWT = None\<rparr>"

theorem some_credentials_witness:
  "CheckSecretRefScope ''secret:billing/registry'' ''shop'' \<noteq> None \<and>
   validateDesired ((with_auth ex_stolen ex_web)\<lparr>d_RegistryAuthRef := ''secret:billing/registry'', d_Function := None\<rparr>) = None"
proof
  show "CheckSecretRefScope ''secret:billing/registry'' ''shop'' \<noteq> None" by code_simp
qed (rule some_credentials_are_not_scoped [OF ex_web_valid])

lemma ex_data: "plain_base ''/data''"
  unfolding plain_base_def by code_simp

lemma ex_rest: "unvalidated_rest ex_web"
  by code_simp

theorem accepted_records_run_witness: "Validate (AllocSpecFor ex_web 0 ''/log'' ''/data'') = None"
  by (rule accepted_records_run [OF ex_web_valid _ ex_rest ex_data]) (simp_all add: ex_web_def zero_desired_def)

theorem recased_capabilities_witness:
  "validateDesired (ex_web\<lparr>d_Capabilities := [''cap_chown'']\<rparr>) = None \<and>
   Validate (AllocSpecFor (ex_web\<lparr>d_Capabilities := [''cap_chown'']\<rparr>) 0 ''/log'' ''/data'') \<noteq> None"
proof -
  have "''CAP_CHOWN'' \<in> set (d_Capabilities ex_web)" "ToUpper (TrimSpace ''CAP_CHOWN'') \<noteq> capabilityNoneUpper"
    "map ToLower (d_Capabilities ex_web) = [''cap_chown'']"
    by code_simp+
  with recased_capabilities_strand_a_service [OF ex_web_valid, of "''CAP_CHOWN''" 0 "''/log''" "''/data''"]
  show ?thesis by simp
qed

section \<open>Requests\<close>

definition ex_request :: "unit ApplyRequest" where
  "ex_request = \<lparr>rq_Services = [ex_web], rq_Pipelines = [], rq_PruneProjects = [''shop'']\<rparr>"

lemma ex_plan:
  "plan_apply ex_server ex_request ex_store =
     Some (Inr ([ex_put ''shop/web'' ''0'', DeleteMutation KindService ''shop/job''], [''shop/web''], [''shop/job'']))"
  by code_simp

lemma ex_plan_room: "plan_apply ex_server ex_request ex_store = Some (Inr p) \<Longrightarrow> room ex_store (fst p)"
proof -
  have "room ex_store [ex_put ''shop/web'' ''0'', DeleteMutation KindService ''shop/job'']"
    unfolding room_def by code_simp
  then show "plan_apply ex_server ex_request ex_store = Some (Inr p) \<Longrightarrow> room ex_store (fst p)"
    by (auto simp: ex_plan)
qed

definition ex_after :: Store where
  "ex_after = snd (snd (the (applyServices ex_server ex_request ex_store)))"

lemma ex_run:
  obtains resp ef where "applyServices ex_server ex_request ex_store = Some (Inr resp, ef, ex_after)"
    and "rs_Removed resp = [''shop/job'']"
proof -
  have "case applyServices ex_server ex_request ex_store of
      Some (Inr resp, _) \<Rightarrow> rs_Removed resp = [''shop/job''] | _ \<Rightarrow> False"
    by code_simp
  then show ?thesis using that by (auto simp: ex_after_def split: option.splits sum.splits prod.splits)
qed

theorem apply_is_atomic_and_exact_witness:
  "store_ok ex_after \<and> exact_apply ex_server ex_request ex_store ex_after \<and>
   orphans ex_server ex_store ex_request = {''shop/job''}"
proof (rule ex_run)
  fix resp ef
  assume "applyServices ex_server ex_request ex_store = Some (Inr resp, ef, ex_after)"
    and "rs_Removed resp = [''shop/job'']"
  with apply_is_atomic_and_exact [where req = ex_request, OF ex_store_ok ex_codec subset_UNIV ex_plan_room] show ?thesis by auto
qed

lemma ex_service_at:
  "service_at ex_server ex_store key =
     (if key = ''shop/web'' then Some ex_web else if key = ''shop/job'' then Some ex_job else None)"
proof -
  have "Apply None None 0 [ex_put ''shop/job'' ''3'', ex_put ''shop/web'' ''0''] empty_db = (Inr 1, ex_store)"
    unfolding ex_store_def by (rule prod_eqI) (simp_all, code_simp)
  from Apply_Inr_abs(3) [OF store_ok_empty ex_room this]
  show ?thesis
    by (simp add: service_at_def spec_write_def ex_put_def PutMutation_def ex_server_def ex_decode_def
        abs_store_def empty_db_def)
qed

lemma ex_filed: "filed ex_server ex_store"
  by (auto simp: filed_def ex_service_at ex_web_def ex_job_def zero_desired_def service_key_def split: if_splits)

lemma ex_acceptable: "all_acceptable ex_server ex_store"
proof -
  have "acceptable (sv_Policy ex_server) ex_web" "acceptable (sv_Policy ex_server) ex_job"
    unfolding acceptable_def by code_simp+
  then show ?thesis
    using ex_filed by (auto simp: all_acceptable_def filed_def ex_service_at split: if_splits)
qed


theorem plan_after_apply_witness: "service_Changes (\<lambda>c. c) [ex_web] [ex_web] [''shop''] = []"
proof (rule ex_run)
  fix resp ef
  assume run: "applyServices ex_server ex_request ex_store = Some (Inr resp, ef, ex_after)"
  have "listAll (dec_service ex_server) None KindService ex_after = Some (Inr [ex_web])" by code_simp
  from plan_after_apply_is_silent [OF ex_store_ok ex_filed ex_codec subset_UNIV ex_plan_room _ _ run this, of "\<lambda>c. c"]
  show ?thesis by (simp add: ex_request_def ex_web_def zero_desired_def gm_wf_def)
qed


theorem restart_may_undo_witness:
  "\<exists>t u. service_at ex_server t ''shop/web'' = Some (ex_web\<lparr>d_Count := 5\<rparr>) \<and>
     service_at ex_server u ''shop/web'' = Some (ex_web\<lparr>d_Generation := 1\<rparr>)"
proof -
  let ?p = "(1, ex_put ''shop/web'' ''1'')"
  let ?scaled = "handleScale ex_server ''shop'' ''web'' 5 ex_store"
  let ?t = "snd (snd ?scaled)"
  let ?restarted = "commit_restart ex_server ''shop'' ''web'' ?p ?t"
  have key: "service_key ''shop'' ''web'' = ''shop/web''" by (simp add: service_key_def)
  have i: "unat (store_index ex_store) + 2 < 2 ^ 64" by code_simp
  have plan: "plan_restart ex_server (service_key ''shop'' ''web'') ex_store = Inr ?p" by code_simp
  have "\<not> isl (fst ?scaled)" "\<not> isl (fst ?restarted)" by code_simp+
  then obtain resp resp' where "fst ?scaled = Inr resp" "fst ?restarted = Inr resp'"
    by (metis isl_def sum.exhaust)
  then have "?scaled = (Inr resp, fst (snd ?scaled), ?t)"
    "?restarted = (Inr resp', fst (snd ?restarted), snd (snd ?restarted))"
    by (simp_all add: prod_eq_iff)
  from restart_may_undo_a_scale [OF ex_codec ex_store_ok i plan this]
  obtain d where "service_at ex_server ex_store ''shop/web'' = Some d"
    "service_at ex_server ?t ''shop/web'' = Some (d\<lparr>d_Count := 5\<rparr>)"
    "service_at ex_server (snd (snd ?restarted)) ''shop/web'' = Some (d\<lparr>d_Generation := d_Generation d + 1\<rparr>)"
    unfolding key by blast
  moreover have "d_Generation ex_web = 0" by (simp add: ex_web_def zero_desired_def)
  ultimately have "service_at ex_server ?t ''shop/web'' = Some (ex_web\<lparr>d_Count := 5\<rparr>)"
    "service_at ex_server (snd (snd ?restarted)) ''shop/web'' = Some (ex_web\<lparr>d_Generation := 1\<rparr>)"
    by (simp_all add: ex_service_at)
  then show ?thesis by blast
qed

end
