(* ===== verification/Spec2Isabelle.thy ===== *)
theory Spec2Isabelle
  imports Loop_Examples Circuit_Breaker Store_Examples Cron_Examples Scaling_Examples Edge_Examples Change_Examples
    Api_Examples
begin

text \<open>
  A verification library for kanea, a single-node container orchestrator written in Go. The node runs
  one control loop, the reconciler (\<open>internal/reconciler\<close>): every few seconds it reads the desired state
  and the alloc records from the Store (\<open>internal/store\<close>), asks containerd what exists, records what it
  observed (\<open>Observe\<close>), computes the actions that close the gap (\<open>Plan\<close>) and executes them (\<open>apply\<close>). It
  assigns each service a frontend address and publishes a projection of the desired state as a file,
  from which a second process, the edge (\<open>internal/edge\<close>), routes, limits, authenticates and forwards
  requests. Around the loop stand a circuit breaker that counts failures across the node, an autoscaler
  that changes service counts from metrics (\<open>internal/scaling\<close>), and a replicator that ships the Store's
  change log to a bucket (\<open>internal/backup\<close>). The desired state itself arrives through an HTTP API
  (\<open>internal/api\<close>), whose handlers validate a record, merge it with the stored one and write it.

  \<^bold>\<open>Theories and the code they model.\<close>

  \<^item> The standard library: \<open>Kanea_Prelude\<close> (Go maps as association lists with unique keys, decimal
    rendering, quoting), \<open>Go_Time\<close> and \<open>Go_Calendar\<close> (times, saturating durations, civil dates), \<open>Go_Path\<close>,
    \<open>Go_Strings\<close>, \<open>Go_Net\<close> (addresses, prefixes, host and port, header names, duration texts), \<open>Go_Float\<close>
    and \<open>Go_Float_Error\<close> (\<open>float64\<close> with rounding to even, its monotonicity and error bounds), \<open>Go_Format\<close>
    (durations, floats and columns as \<open>fmt\<close> prints them).

  \<^item> \<open>Runtime_Model\<close> (\<open>internal/runtime\<close>): the spec handed to the containerd driver, its validation, the
    status it reports, the identifiers of init containers.

  \<^item> \<open>Desired_State\<close> (\<open>reconciler/types.go\<close>, \<open>health.go\<close>, \<open>retarget.go\<close>, \<open>capabilities.go\<close>): services,
    alloc records, update, restart and health policies, keys and ids.

  \<^item> \<open>Secret_Placeholders\<close> (\<open>internal/secrets/placeholder.go\<close>) and \<open>Spec_Hash\<close> (\<open>reconciler/plan.go\<close>): the
    fingerprint that decides whether a change rolls a service. The digest is a parameter \<open>H\<close>.

  \<^item> \<open>Planner\<close> (\<open>reconciler/plan.go\<close>, the pure part of \<open>init.go\<close>): the planner, function by function.
    \<open>Planner_Order\<close> shows it independent of map iteration order, \<open>Planner_Rollout\<close> that a rolling deploy
    respects and uses its budget, \<open>Planner_Lifecycle\<close> what is removed and that an alloc has one action,
    \<open>Planner_Steady\<close> when a plan is empty and what a crash costs, \<open>Planner_Init\<close> the gates of init
    sequences and dependencies.

  \<^item> \<open>Observer\<close> (\<open>exit.go\<close>, \<open>Observe\<close>, \<open>observeInit\<close>, \<open>applyProbe\<close>), \<open>Observer_Facts\<close>, \<open>Observer_Crash\<close>:
    observation is idempotent and never fails an alloc for an outage; a crash is followed by the
    backoff the policy prescribes; health follows the consecutive-failures rule; messages are bounded.

  \<^item> \<open>Alloc_Spec\<close> (\<open>AllocSpecFor\<close>, \<open>VolumePath\<close>, \<open>initSpecFor\<close>): volumes are isolated, init steps get no
    grants, the built spec passes validation.

  \<^item> \<open>Executor\<close> (\<open>apply\<close>, \<open>create\<close>, \<open>teardown\<close>, \<open>remove\<close>, init steps, the action loop),
    \<open>Executor_Facts\<close>, \<open>Restart_Budget\<close>: the order of the calls under every answer of the outside
    world, what failures leave behind, which record is written, and that restarts stay within the
    policy's attempts along every history of passes.

  \<^item> \<open>Spec_Changes\<close> (\<open>reconciler/changes.go\<close>), \<open>Spec_Changes_Facts\<close>: what a plan reports. It covers every
    affected service, announces a roll only where the spec hash moves and prints no value of an
    environment; two kinds of edits roll a service unannounced.

  \<^item> \<open>Api_Rules\<close> (the rules of \<open>internal/jobspec\<close> that the spec language and the API share: names,
    capabilities, hardening, secret scopes, files; the port policy of \<open>api/publish.go\<close>), \<open>Api_Validate\<close>
    (\<open>api/validate.go\<close>), \<open>Api_Rules_Facts\<close>: an accepted record reads only secrets in scope, gets only
    permitted capabilities and runs; which references and spellings the validation misses.

  \<^item> \<open>Api_Apply\<close> (the writing handlers of \<open>api/server.go\<close> and \<open>api/projects.go\<close>, each as the transaction
    that reads and the one that writes), \<open>Api_Facts\<close>: an apply is atomic and exact. \<open>Api_Steps\<close>:
    requests that interleave keep every stored service acceptable, a scale is a compare and set, a
    restart is not. \<open>Api_Agreement\<close>: after an apply the plan of the same spec is silent, and applying it
    again moves no hash.

  \<^item> \<open>Circuit_Breaker\<close> (\<open>breaker.go\<close>): the breaker against the specification that remembers every
    failure; the interface \<open>pausing_gate\<close>, interpreted by the breaker.

  \<^item> \<open>Bolt_Bucket\<close> (a bucket of the database library as a key-ordered list of pairs, behind the interface
    \<open>kv_bucket\<close>), \<open>State_Store\<close> (\<open>internal/store\<close>: batches, preconditions, the change log, listing,
    migration), \<open>State_Store_Facts\<close> (a batch is atomic and refines the abstract store; no update is
    lost), \<open>State_Store_Pages\<close> (the paging loop ends and is complete).

  \<^item> \<open>Replication\<close> (\<open>internal/backup\<close>: \<open>segment.go\<close>, \<open>replicate.go\<close>, \<open>restore.go\<close>, \<open>archive.go\<close>) and
    \<open>Replication_Facts\<close>: snapshot and segments rebuild the live store.

  \<^item> \<open>VIP_Allocator\<close> (\<open>reconciler/vip.go\<close>), \<open>VIP_Facts\<close>: frontend addresses are stable and unique.

  \<^item> \<open>Cron\<close> (\<open>internal/functions/cron\<close>), \<open>Cron_Examples\<close>: the jumping search for the next firing is the
    scan of every minute.

  \<^item> \<open>Metric_Ring\<close>, \<open>Metric_Store\<close> (\<open>scaling/metrics.go\<close>), \<open>Autoscaler\<close> (\<open>evaluator.go\<close>, \<open>loop.go\<close>),
    \<open>Autoscaler_Facts\<close>: rings refine a log of samples; each decision keeps its guardrails, decisions
    are spaced by the cooldown, and the breaker stops them.

  \<^item> \<open>Rate_Limiter\<close>, \<open>Rate_Limiter_Facts\<close> (\<open>internal/ratelimit\<close>): token buckets with least-recently-used
    eviction; the set stays within its capacity and what one key is admitted stays within burst and
    rate, rounding included.

  \<^item> \<open>Edge_Routes\<close> (\<open>reconciler/routes.go\<close>), \<open>Edge_Middleware\<close>, \<open>Edge_Snapshot\<close> (\<open>edge/middleware.go\<close>,
    \<open>snapshot.go\<close>, \<open>table.go\<close>), \<open>Edge_Routes_Facts\<close>: the projection, its validation and the table built
    from it; a lookup is the first claim, and publication settles after one pass.

  \<^item> \<open>Edge_Auth\<close> (\<open>edge/authz.go\<close>), \<open>Edge_Proxy\<close> (\<open>proxy.go\<close>, \<open>functions.go\<close>), \<open>Edge_Enforcement\<close>: the
    request path, and that only what the desired state permits reaches an upstream.

  \<^item> \<open>Edge_Listeners\<close> (\<open>edge/listeners.go\<close>, \<open>watch.go\<close>, the apply function of \<open>server.go\<close>),
    \<open>Edge_Listeners_Facts\<close>: published ports follow the snapshots, bad files change nothing.

  \<^item> \<open>Planner_Examples\<close>, \<open>Loop_Examples\<close>, \<open>Store_Examples\<close>, \<open>Scaling_Examples\<close>, \<open>Edge_Examples\<close>,
    \<open>Change_Examples\<close>, \<open>Api_Examples\<close>: concrete inputs on which the properties are applied, and the limits found on the way.

  \<^bold>\<open>Conventions.\<close> A Go map is an association list; results that range over one assume unique keys
  (\<open>gm_wf\<close>) and hold for every order. \<open>int\<close> fields are unbounded integers where no computation comes
  near the ends of 64 bits; elsewhere the wrap is written out (\<open>mebibytes\<close>, the Store's 64-bit index, the
  step of a cron range), and time differences saturate as Go's do. A float is the rational it denotes,
  each operation rounded; infinities and NaN do not arise for the inputs admitted. Upper and lower case
  and white space are exact on ASCII. Errors are values: \<open>None\<close> or \<open>Inl\<close>. A constant whose Go name
  another theory uses carries its receiver in front (\<open>limiter_Allow\<close>, \<open>snapshot_Validate\<close>).

  \<^bold>\<open>Parameters.\<close> Calls to containerd, the network, the mount manager and the file system are answers of a
  record \<open>Env\<close>, and an operation returns the list of calls it made. The Store's commit, the bucket's
  answers, the cipher of segments, the JSON codec, address rendering, the fleet's answers to the
  autoscaler, cryptographic primitives (\<open>Crypto\<close>), the grants of binds and what a poll of a file finds are
  arguments of the definitions that use them. What is assumed of them is a hypothesis of the theorem
  that needs it: an injective cipher and codec, an injective digest, and for the API a JSON
  codec that gives back the records it encodes (\<open>codec\<close>).

  \<^bold>\<open>Termination.\<close> Loops over finite data are structural recursions. \<open>next_from\<close>, \<open>free_from\<close>, \<open>evictIfFull\<close>,
  \<open>sweep_loop\<close>, \<open>v6_groups\<close> and \<open>duration_sum\<close> end by a measure. The loops that call the outside until it
  says stop (\<open>load_all\<close>, \<open>ShipOnce\<close>) and the one that may overflow (\<open>range_mask\<close>) are partial functions in
  the option monad, with theorems that say when they return. No fuel is used.

  \<^bold>\<open>Hypotheses that bound a result.\<close> Replication needs pages that end at a batch and no empty batch (the
  counterexamples are theorems); the Store's index must have room below 64 bits; publication needs
  services that are \<open>servable\<close>, since one record that cannot be served freezes the whole projection.

  \<^bold>\<open>Not modelled.\<close> Containerd, CNI, eBPF and kernel maps; file-system effects of secrets and files; HTTP
  and HCL parsing; the connections behind relays, TLS and streaming; external services (registries,
  ACME, git, secret stores); metrics, log lines and the command line. Still open among the parts with
  logic of their own: datagram sessions of the edge, the function invoker's queue, the audit chain,
  image collection, DNS messages, and the checks of job specs that report into HCL diagnostics.
\<close>

end
